(* ===== verification/Base.thy ===== *)
theory Base
  imports Main "HOL-Library.List_Lexorder" "HOL-Library.Product_Lexorder"
begin

text \<open>
  The prelude of the development: Python strings as lists of code points with the string
  methods the sources call, exceptions as values, actions over an explicit state with their
  weakest-precondition rules, and generic lemmas on lists.

  A Python \<open>str\<close> is a list of natural numbers, one per code point; comparison of two
  strings is the lexicographic order on these lists (\<open>List_Lexorder\<close>), which is also the
  order SQLite gives to their UTF-8 encodings. \<open>lit\<close> turns a HOL string literal into such a
  list. \<open>str.casefold\<close> needs the Unicode tables and is a parameter wherever it is used.
\<close>

named_theorems wp_rules "weakest preconditions of the primitive actions"
named_theorems keeps_rules "compositional rules for invariants of actions"

section \<open>Strings\<close>

type_synonym ustr = "nat list"

definition lit :: "string \<Rightarrow> ustr" where
  "lit s = map of_char s"

lemma lit_simps [simp]: "lit [] = []" "lit (c # s) = of_char c # lit s"
  by (simp_all add: lit_def)

abbreviation slash :: nat where "slash \<equiv> 47"
abbreviation backslash :: nat where "backslash \<equiv> 92"
abbreviation dot :: nat where "dot \<equiv> 46"

fun split_on :: "'a \<Rightarrow> 'a list \<Rightarrow> 'a list list" where
  "split_on c [] = [[]]"
| "split_on c (x # xs) =
     (if x = c then [] # split_on c xs
      else (case split_on c xs of [] \<Rightarrow> [[x]] | p # ps \<Rightarrow> (x # p) # ps))"

fun join_with :: "'a \<Rightarrow> 'a list list \<Rightarrow> 'a list" where
  "join_with c [] = []"
| "join_with c [p] = p"
| "join_with c (p # ps) = p @ c # join_with c ps"

definition replace_char :: "'a \<Rightarrow> 'a \<Rightarrow> 'a list \<Rightarrow> 'a list" where
  "replace_char a b = map (\<lambda>x. if x = a then b else x)"

definition rstrip_char :: "'a \<Rightarrow> 'a list \<Rightarrow> 'a list" where
  "rstrip_char c s = rev (dropWhile (\<lambda>x. x = c) (rev s))"

definition strip_char :: "'a \<Rightarrow> 'a list \<Rightarrow> 'a list" where
  "strip_char c s = rstrip_char c (dropWhile (\<lambda>x. x = c) s)"

text \<open>The code points for which \<open>str.isspace\<close> holds, and \<open>str.strip()\<close>.\<close>

definition is_space :: "nat \<Rightarrow> bool" where
  "is_space c \<longleftrightarrow> (9 \<le> c \<and> c \<le> 13) \<or> (28 \<le> c \<and> c \<le> 32) \<or> c = 133 \<or> c = 160 \<or> c = 5760 \<or>
     (8192 \<le> c \<and> c \<le> 8202) \<or> c = 8232 \<or> c = 8233 \<or> c = 8239 \<or> c = 8287 \<or> c = 12288"

text \<open>The same with the common cases first, which evaluates quickly.\<close>

lemma is_space_code [code]:
  "is_space c \<longleftrightarrow>
     (if c < 128 then if c < 14 then 9 \<le> c else if c < 33 then 28 \<le> c else False
      else c = 133 \<or> c = 160 \<or> c = 5760 \<or>
        (8192 \<le> c \<and> c \<le> 8202) \<or> c = 8232 \<or> c = 8233 \<or> c = 8239 \<or> c = 8287 \<or> c = 12288)"
  by (simp add: is_space_def)

definition strip :: "ustr \<Rightarrow> ustr" where
  "strip s = rev (dropWhile is_space (rev (dropWhile is_space s)))"

definition starts_with :: "'a list \<Rightarrow> 'a list \<Rightarrow> bool" where
  "starts_with s p \<longleftrightarrow> take (length p) s = p"

lemma starts_with_iff: "starts_with s p \<longleftrightarrow> (\<exists>t. s = p @ t)"
  unfolding starts_with_def by (metis append_eq_conv_conj)

lemma starts_with_append [simp]: "starts_with (p @ s) p"
  by (simp add: starts_with_def)

lemma starts_with_trans: "starts_with s (p @ q) \<Longrightarrow> starts_with s p"
  by (auto simp: starts_with_iff)

fun contains :: "'a list \<Rightarrow> 'a list \<Rightarrow> bool" where
  "contains p [] = (p = [])"
| "contains p (x # xs) = (starts_with (x # xs) p \<or> contains p xs)"

text \<open>\<open>s.rfind(c)\<close>: the greatest index of \<open>c\<close> in \<open>s\<close>, \<open>None\<close> for Python's \<open>-1\<close>.\<close>

fun rfind :: "'a \<Rightarrow> 'a list \<Rightarrow> nat option" where
  "rfind c [] = None"
| "rfind c (x # xs) =
     (case rfind c xs of Some i \<Rightarrow> Some (Suc i) | None \<Rightarrow> if x = c then Some 0 else None)"

lemma split_on_nonempty [simp]: "split_on c s \<noteq> []"
  by (induction s) (auto split: list.splits)

lemma join_split_on [simp]: "join_with c (split_on c s) = s"
proof (induction s)
  case (Cons x xs)
  show ?case
  proof (cases "split_on c xs")
    case (Cons p ps)
    then show ?thesis using Cons.IH
      by (cases ps) (auto split: list.splits)
  qed simp
qed simp

lemma split_on_parts: "p \<in> set (split_on c s) \<Longrightarrow> c \<notin> set p"
  by (induction s arbitrary: p) (auto split: list.splits if_splits)

lemma split_on_no_sep: "c \<notin> set s \<Longrightarrow> split_on c s = [s]"
  by (induction s) auto

lemma split_on_append: "c \<notin> set p \<Longrightarrow> split_on c (p @ c # s) = p # split_on c s"
  by (induction p) auto

lemma split_join:
  "ps \<noteq> [] \<Longrightarrow> \<forall>p\<in>set ps. c \<notin> set p \<Longrightarrow> split_on c (join_with c ps) = ps"
  by (induction c ps rule: join_with.induct) (auto simp: split_on_no_sep split_on_append)

lemma rfind_None: "rfind c s = None \<longleftrightarrow> c \<notin> set s"
  by (induction s) (auto split: option.splits)

lemma rfind_Some: "rfind c s = Some i \<Longrightarrow> i < length s \<and> s ! i = c \<and> c \<notin> set (drop (Suc i) s)"
  by (induction s arbitrary: i) (auto split: option.splits if_splits simp: rfind_None)

lemma rfind_unique:
  "i < length s \<Longrightarrow> s ! i = c \<Longrightarrow> c \<notin> set (drop (Suc i) s) \<Longrightarrow> rfind c s = Some i"
proof (induction s arbitrary: i)
  case (Cons x xs)
  show ?case
  proof (cases i)
    case 0
    with Cons.prems have "rfind c xs = None" by (simp add: rfind_None)
    with 0 Cons.prems show ?thesis by simp
  next
    case (Suc j)
    with Cons.IH [of j] Cons.prems show ?thesis by simp
  qed
qed simp

section \<open>Sorting\<close>

text \<open>
  Python's \<open>sorted(xs, key=f)\<close> is the stable \<open>sort_key\<close>; with \<open>reverse=True\<close> it sorts
  the reversed list and reverses the result, so equal keys keep their order.
\<close>

definition sorted_desc :: "('a \<Rightarrow> 'b::linorder) \<Rightarrow> 'a list \<Rightarrow> 'a list" where
  "sorted_desc f xs = rev (sort_key f (rev xs))"

lemma set_sorted_desc [simp]: "set (sorted_desc f xs) = set xs"
  by (simp add: sorted_desc_def)

lemma length_sorted_desc [simp]: "length (sorted_desc f xs) = length xs"
  by (simp add: sorted_desc_def)

lemma distinct_sorted_desc [simp]: "distinct (sorted_desc f xs) = distinct xs"
  by (simp add: sorted_desc_def)

lemma sorted_desc_wrt: "sorted_wrt (\<ge>) (map f (sorted_desc f xs))"
  by (simp add: sorted_desc_def rev_map [symmetric] sorted_wrt_rev)

lemma sorted_desc_strict:
  "distinct (map f xs) \<Longrightarrow> sorted_wrt (>) (map f (sorted_desc f xs))"
proof -
  assume "distinct (map f xs)"
  then have "distinct (map f (sort_key f (rev xs)))"
    by (simp add: distinct_map)
  then have "sorted_wrt (<) (map f (sort_key f (rev xs)))"
    by (simp add: strict_sorted_iff)
  then show ?thesis by (simp add: sorted_desc_def rev_map [symmetric] sorted_wrt_rev)
qed

text \<open>In a strictly descending list, the elements below the one at \<open>i\<close> are those after it.\<close>

lemma filter_below:
  "sorted_wrt (>) (map f xs) \<Longrightarrow> i < length xs \<Longrightarrow> filter (\<lambda>x. f x < (f (xs ! i) :: 'b::linorder)) xs = drop (Suc i) xs"
proof (induction xs arbitrary: i)
  case (Cons x xs)
  show ?case
  proof (cases i)
    case 0
    with Cons.prems show ?thesis by (auto simp: filter_id_conv)
  next
    case (Suc j)
    with Cons.prems have "j < length xs" and "\<forall>y\<in>set xs. f y < f x" by simp_all
    then have "\<not> f x < f (xs ! j)" by (meson nth_mem less_asym)
    with Suc Cons show ?thesis by simp
  qed
qed simp

text \<open>Two strictly descending lists with the same elements are equal.\<close>

lemma sorted_desc_unique:
  assumes "sorted_wrt (>) (map f xs)" and "sorted_wrt (>) (map (f :: 'a \<Rightarrow> 'b::linorder) ys)" and "set xs = set ys"
  shows "xs = ys"
proof -
  have s: "sorted_wrt (<) (map f (rev zs))" if "sorted_wrt (>) (map f zs)" for zs
    using that by (simp add: rev_map [symmetric] sorted_wrt_rev)
  have "rev xs = rev ys"
  proof (rule map_sorted_distinct_set_unique [where f = f])
    show "inj_on f (set (rev xs) \<union> set (rev ys))"
      using s [OF assms(1)] assms(3) by (simp add: strict_sorted_iff distinct_map)
  qed (use s [OF assms(1)] s [OF assms(2)] assms(3) in \<open>simp_all add: strict_sorted_iff\<close>)
  then show ?thesis by simp
qed

end
