(* ===== verification/Actions.thy ===== *)
theory Actions
  imports Base
begin

text \<open>
  Exceptions as values and actions over an explicit state. An action takes the state and
  returns an exception (\<open>Inl\<close>) or a value (\<open>Inr\<close>) together with the new state: a Python
  exception does not undo the state changes made before it. \<open>wp m Q E s\<close> is the weakest
  precondition of an action for a normal postcondition \<open>Q\<close> and an exceptional one \<open>E\<close>;
  \<open>keeps I m\<close> says that \<open>m\<close> preserves \<open>I\<close> on both exits.
\<close>

section \<open>Exceptions\<close>

text \<open>The codes of \<open>ApiError\<close> in the order the services introduce them.\<close>

datatype err_code =
    VALIDATION_ERROR | NOT_FOUND | FORBIDDEN | UNAUTHENTICATED | CSRF_FAILED | LOGIN_FAILED
  | RATE_LIMITED | INVALID_TARGET | PATH_OUTSIDE_ROOT | SELECTION_CHANGED | SELECTION_EXPIRED
  | EMPTY_SELECTION | BATCH_LIMIT_EXCEEDED | STALE_PREVIEW | INVALID_STATE
  | IDEMPOTENCY_KEY_REUSED | QUARANTINE_VERSION_CONFLICT | ORIGINAL_PATH_OCCUPIED
  | RECOVERY_NEEDED | STALE_SIMULATION | RULE_CONFLICT_ERROR | NO_SCENARIO_ACK_REQUIRED
  | DRAFT_VERSION_CONFLICT | DICTIONARY_NAME_CONFLICT | INVALID_QUERY
  | INVALID_MARKER_SELECTION | SCHEMA_VERSION_CHANGED | ROOT_NOT_READY | SEARCH_UNAVAILABLE

text \<open>The exceptions of \<open>filesystem.py\<close> and the operating-system errors it lets through.\<close>

datatype fs_exn =
    InvalidPath | NotRegularFile | SourceChanged | PostRenameChanged | TargetExists
  | UnsupportedFilesystem | ScanLimitExceeded | FileNotFound | NotADirectory | OsFailure

text \<open>
  \<open>Killed\<close> is the end of the process at that point (a crash or \<open>SIGKILL\<close>): no
  \<open>except Exception\<close> catches it, and the open database transaction is lost.
\<close>

datatype exn =
    ApiError (api_code: err_code) (api_status: nat) (api_operation_id: "ustr option") (api_retryable: bool)
  | IntegrityError
  | PyKeyError
  | PyIndexError
  | PyValueError
  | PyTypeError
  | PyRuntimeError
  | FsError fs_exn
  | Killed

abbreviation api :: "err_code \<Rightarrow> nat \<Rightarrow> exn" where
  "api c n \<equiv> ApiError c n None False"

section \<open>Actions\<close>

type_synonym ('s, 'a) action = "'s \<Rightarrow> (exn + 'a) \<times> 's"

definition ret :: "'a \<Rightarrow> ('s, 'a) action" where
  "ret x = (\<lambda>s. (Inr x, s))"

definition raise :: "exn \<Rightarrow> ('s, 'a) action" where
  "raise e = (\<lambda>s. (Inl e, s))"

definition bnd :: "('s, 'a) action \<Rightarrow> ('a \<Rightarrow> ('s, 'b) action) \<Rightarrow> ('s, 'b) action" where
  "bnd m f = (\<lambda>s. case m s of (Inl e, t) \<Rightarrow> (Inl e, t) | (Inr x, t) \<Rightarrow> f x t)"

text \<open>\<open>if not c: raise e\<close>\<close>

definition ensure :: "bool \<Rightarrow> exn \<Rightarrow> ('s, unit) action" where
  "ensure c e = (if c then ret () else raise e)"

definition asks :: "('s \<Rightarrow> 'a) \<Rightarrow> ('s, 'a) action" where
  "asks f = (\<lambda>s. (Inr (f s), s))"

definition modify :: "('s \<Rightarrow> 's) \<Rightarrow> ('s, unit) action" where
  "modify f = (\<lambda>s. (Inr (), f s))"

text \<open>\<open>try: m except e: h(e)\<close>; the handler decides what it catches.\<close>

definition try_catch :: "('s, 'a) action \<Rightarrow> (exn \<Rightarrow> ('s, 'a) action) \<Rightarrow> ('s, 'a) action" where
  "try_catch m h = (\<lambda>s. case m s of (Inl e, t) \<Rightarrow> h e t | (Inr x, t) \<Rightarrow> (Inr x, t))"

text \<open>\<open>try: v = m except ...: h(e) else: k(v)\<close>: exceptions of \<open>k\<close> are not handled.\<close>

definition try_else ::
  "('s, 'a) action \<Rightarrow> (exn \<Rightarrow> ('s, 'b) action) \<Rightarrow> ('a \<Rightarrow> ('s, 'b) action) \<Rightarrow> ('s, 'b) action" where
  "try_else m h k = (\<lambda>s. case m s of (Inl e, t) \<Rightarrow> h e t | (Inr x, t) \<Rightarrow> k x t)"

text \<open>\<open>for x in xs: f(x)\<close>, and the list of results of a comprehension.\<close>

fun each :: "('a \<Rightarrow> ('s, unit) action) \<Rightarrow> 'a list \<Rightarrow> ('s, unit) action" where
  "each f [] = ret ()"
| "each f (x # xs) = bnd (f x) (\<lambda>_. each f xs)"

fun collect :: "('a \<Rightarrow> ('s, 'b) action) \<Rightarrow> 'a list \<Rightarrow> ('s, 'b list) action" where
  "collect f [] = ret []"
| "collect f (x # xs) = bnd (f x) (\<lambda>y. bnd (collect f xs) (\<lambda>ys. ret (y # ys)))"

text \<open>A loop that threads an accumulator.\<close>

fun fold_act :: "('a \<Rightarrow> 'c \<Rightarrow> ('s, 'c) action) \<Rightarrow> 'a list \<Rightarrow> 'c \<Rightarrow> ('s, 'c) action" where
  "fold_act f [] c = ret c"
| "fold_act f (x # xs) c = bnd (f x c) (\<lambda>d. fold_act f xs d)"

section \<open>Weakest preconditions\<close>

definition wp :: "('s, 'a) action \<Rightarrow> ('a \<Rightarrow> 's \<Rightarrow> bool) \<Rightarrow> (exn \<Rightarrow> 's \<Rightarrow> bool) \<Rightarrow> 's \<Rightarrow> bool" where
  "wp m Q E s = (case m s of (Inl e, t) \<Rightarrow> E e t | (Inr x, t) \<Rightarrow> Q x t)"

lemma wp_ret [wp_rules]: "wp (ret x) Q E s = Q x s"
  by (simp add: wp_def ret_def)

lemma wp_raise [wp_rules]: "wp (raise e) Q E s = E e s"
  by (simp add: wp_def raise_def)

lemma wp_bnd [wp_rules]: "wp (bnd m f) Q E s = wp m (\<lambda>x. wp (f x) Q E) E s"
  by (auto simp: wp_def bnd_def split: prod.splits sum.splits)

lemma wp_ensure [wp_rules]: "wp (ensure c e) Q E s = (if c then Q () s else E e s)"
  by (simp add: ensure_def wp_rules)

lemma wp_asks [wp_rules]: "wp (asks f) Q E s = Q (f s) s"
  by (simp add: wp_def asks_def)

lemma wp_modify [wp_rules]: "wp (modify f) Q E s = Q () (f s)"
  by (simp add: wp_def modify_def)

lemma wp_try_catch [wp_rules]: "wp (try_catch m h) Q E s = wp m Q (\<lambda>e. wp (h e) Q E) s"
  by (auto simp: wp_def try_catch_def split: prod.splits sum.splits)

lemma wp_try_else [wp_rules]:
  "wp (try_else m h k) Q E s = wp m (\<lambda>x. wp (k x) Q E) (\<lambda>e. wp (h e) Q E) s"
  by (auto simp: wp_def try_else_def split: prod.splits sum.splits)

lemma wp_if [wp_rules]: "wp (if c then m else n) Q E s = (if c then wp m Q E s else wp n Q E s)"
  by simp

lemma wp_option [wp_rules]:
  "wp (case x of None \<Rightarrow> m | Some y \<Rightarrow> f y) Q E s =
   (case x of None \<Rightarrow> wp m Q E s | Some y \<Rightarrow> wp (f y) Q E s)"
  by (cases x) simp_all

lemma wp_prod [wp_rules]: "wp (case p of (a, b) \<Rightarrow> f a b) Q E s = wp (f (fst p) (snd p)) Q E s"
  by (cases p) simp

lemma wp_let [wp_rules]: "wp (let x = t in f x) Q E s = wp (f t) Q E s"
  by simp

lemma wp_mono:
  "wp m Q E s \<Longrightarrow> (\<And>x t. Q x t \<Longrightarrow> Q' x t) \<Longrightarrow> (\<And>e t. E e t \<Longrightarrow> E' e t) \<Longrightarrow> wp m Q' E' s"
  by (auto simp: wp_def split: prod.splits sum.splits)

lemma wp_run: "wp m Q E s \<Longrightarrow> m s = (r, t) \<Longrightarrow> (case r of Inl e \<Rightarrow> E e t | Inr x \<Rightarrow> Q x t)"
  by (auto simp: wp_def split: sum.splits)

lemma wp_run_Inr: "wp m Q E s \<Longrightarrow> m s = (Inr x, t) \<Longrightarrow> Q x t"
  by (simp add: wp_def)

lemma wp_run_Inl: "wp m Q E s \<Longrightarrow> m s = (Inl e, t) \<Longrightarrow> E e t"
  by (simp add: wp_def)

lemma wpI: "(\<And>x t. m s = (Inr x, t) \<Longrightarrow> Q x t) \<Longrightarrow> (\<And>e t. m s = (Inl e, t) \<Longrightarrow> E e t) \<Longrightarrow> wp m Q E s"
  by (auto simp: wp_def split: prod.splits sum.splits)

lemma wp_total: "wp m (\<lambda>r _. r = v) (\<lambda>_ _. False) s \<Longrightarrow> fst (m s) = Inr v"
  by (cases "m s") (auto simp: wp_def split: sum.splits)

text \<open>Running an action to its normal exit: the elimination rules the functional proofs use.\<close>

lemma bnd_Inr:
  "bnd m f s = (Inr y, u) \<longleftrightarrow> (\<exists>x t. m s = (Inr x, t) \<and> f x t = (Inr y, u))"
  by (auto simp: bnd_def split: prod.splits sum.splits)

lemma ret_eq: "ret x s = (r, t) \<longleftrightarrow> r = Inr x \<and> t = s"
  by (auto simp: ret_def)

lemma raise_eq: "raise e s = (r, t) \<longleftrightarrow> r = Inl e \<and> t = s"
  by (auto simp: raise_def)

lemma ensure_Inr: "ensure c e s = (Inr y, t) \<longleftrightarrow> c \<and> t = s"
  by (auto simp: ensure_def ret_def raise_def)

lemma asks_eq: "asks f s = (r, t) \<longleftrightarrow> r = Inr (f s) \<and> t = s"
  by (auto simp: asks_def)

lemma modify_eq: "modify f s = (r, t) \<longleftrightarrow> r = Inr () \<and> t = f s"
  by (auto simp: modify_def)

lemmas act_run = bnd_Inr ret_eq raise_eq ensure_Inr asks_eq modify_eq

section \<open>Preservation\<close>

definition keeps :: "('s \<Rightarrow> bool) \<Rightarrow> ('s, 'a) action \<Rightarrow> bool" where
  "keeps I m \<longleftrightarrow> (\<forall>s. I s \<longrightarrow> I (snd (m s)))"

lemma keepsD: "keeps I m \<Longrightarrow> I s \<Longrightarrow> m s = (r, t) \<Longrightarrow> I t"
  by (metis keeps_def snd_conv)

lemma wp_const: "wp m (\<lambda>_. I) (\<lambda>_. I) s = I (snd (m s))"
  by (cases "m s") (simp add: wp_def split: sum.splits)

lemma keeps_wp: "keeps I m \<longleftrightarrow> (\<forall>s. I s \<longrightarrow> wp m (\<lambda>_. I) (\<lambda>_. I) s)"
  by (simp add: keeps_def wp_const)

lemma keeps_ret [keeps_rules]: "keeps I (ret x)"
  by (simp add: keeps_def ret_def)

lemma keeps_raise [keeps_rules]: "keeps I (raise e)"
  by (simp add: keeps_def raise_def)

lemma keeps_ensure [keeps_rules]: "keeps I (ensure c e)"
  by (simp add: ensure_def keeps_rules)

lemma keeps_asks [keeps_rules]: "keeps I (asks f)"
  by (simp add: keeps_def asks_def)

lemma keeps_bnd [keeps_rules]: "keeps I m \<Longrightarrow> (\<And>x. keeps I (f x)) \<Longrightarrow> keeps I (bnd m f)"
  unfolding keeps_wp wp_rules by (blast intro: wp_mono)

lemma keeps_if [keeps_rules]: "keeps I m \<Longrightarrow> keeps I n \<Longrightarrow> keeps I (if c then m else n)"
  by simp

lemma keeps_option [keeps_rules]:
  "keeps I m \<Longrightarrow> (\<And>y. keeps I (f y)) \<Longrightarrow> keeps I (case x of None \<Rightarrow> m | Some y \<Rightarrow> f y)"
  by (cases x) simp_all

lemma keeps_prod [keeps_rules]: "(\<And>a b. keeps I (f a b)) \<Longrightarrow> keeps I (case p of (a, b) \<Rightarrow> f a b)"
  by (cases p) simp

lemma keeps_let [keeps_rules]: "(\<And>x. keeps I (f x)) \<Longrightarrow> keeps I (let x = t in f x)"
  by simp

lemma keeps_try_catch [keeps_rules]:
  "keeps I m \<Longrightarrow> (\<And>e. keeps I (h e)) \<Longrightarrow> keeps I (try_catch m h)"
  unfolding keeps_wp wp_rules by (blast intro: wp_mono)

lemma keeps_try_else [keeps_rules]:
  "keeps I m \<Longrightarrow> (\<And>e. keeps I (h e)) \<Longrightarrow> (\<And>x. keeps I (k x)) \<Longrightarrow> keeps I (try_else m h k)"
  unfolding keeps_wp wp_rules by (blast intro: wp_mono)

lemma keeps_each [keeps_rules]: "(\<And>x. x \<in> set xs \<Longrightarrow> keeps I (f x)) \<Longrightarrow> keeps I (each f xs)"
  by (induction xs) (auto intro!: keeps_rules)

lemma keeps_collect [keeps_rules]: "(\<And>x. x \<in> set xs \<Longrightarrow> keeps I (f x)) \<Longrightarrow> keeps I (collect f xs)"
  by (induction xs) (auto intro!: keeps_rules)

lemma keeps_fold_act [keeps_rules]:
  "(\<And>x c. x \<in> set xs \<Longrightarrow> keeps I (f x c)) \<Longrightarrow> keeps I (fold_act f xs c)"
  by (induction xs arbitrary: c) (auto intro!: keeps_rules)

section \<open>Loops that finish\<close>

lemma wp_fold_act:
  assumes "I [] c s"
    and "\<And>ys x zs d t. xs = ys @ x # zs \<Longrightarrow> I ys d t \<Longrightarrow> wp (f x d) (\<lambda>e u. I (ys @ [x]) e u) X t"
  shows "wp (fold_act f xs c) (\<lambda>d t. I xs d t) X s"
proof -
  have "xs = ys @ zs \<Longrightarrow> I ys d t \<Longrightarrow> wp (fold_act f zs d) (\<lambda>d t. I xs d t) X t" for ys zs d t
  proof (induction zs arbitrary: ys d t)
    case (Cons z zs)
    from assms(2) [OF Cons.prems] have "wp (f z d) (\<lambda>e u. I (ys @ [z]) e u) X t" .
    then show ?case unfolding fold_act.simps wp_bnd by (rule wp_mono) (use Cons in auto)
  qed (simp add: wp_rules)
  from this [of "[]" xs] assms(1) show ?thesis by simp
qed

lemma wp_each:
  assumes "I [] s" and "\<And>ys x zs t. xs = ys @ x # zs \<Longrightarrow> I ys t \<Longrightarrow> wp (f x) (\<lambda>_ u. I (ys @ [x]) u) X t"
  shows "wp (each f xs) (\<lambda>_ t. I xs t) X s"
proof -
  have "xs = ys @ zs \<Longrightarrow> I ys t \<Longrightarrow> wp (each f zs) (\<lambda>_ t. I xs t) X t" for ys zs t
  proof (induction zs arbitrary: ys t)
    case (Cons z zs)
    from assms(2) [OF Cons.prems] have "wp (f z) (\<lambda>_ u. I (ys @ [z]) u) X t" .
    then show ?case unfolding each.simps wp_bnd by (rule wp_mono) (use Cons in auto)
  qed (simp add: wp_rules)
  from this [of "[]" xs] assms(1) show ?thesis by simp
qed

lemma collect_run:
  "collect f xs s = (Inr ys, t) \<Longrightarrow> list_all2 (\<lambda>x y. \<exists>s' t'. f x s' = (Inr y, t')) xs ys"
  by (induction xs arbitrary: s ys) (auto simp: act_run)

lemma fold_act_inv:
  assumes "fold_act f xs c s = (Inr d, t)" and "I [] c"
    and step: "\<And>ys x zs c s d t. xs = ys @ x # zs \<Longrightarrow> I ys c \<Longrightarrow> f x c s = (Inr d, t) \<Longrightarrow> I (ys @ [x]) d"
  shows "I xs d"
proof -
  have "fold_act f zs c s = (Inr d, t) \<Longrightarrow> xs = ys @ zs \<Longrightarrow> I ys c \<Longrightarrow> I xs d" for ys zs c s
  proof (induction zs arbitrary: ys c s)
    case Nil
    then show ?case by (simp add: act_run)
  next
    case (Cons z zs)
    from Cons.prems(1) obtain c' s' where "f z c s = (Inr c', s')" and r: "fold_act f zs c' s' = (Inr d, t)"
      by (auto simp: act_run)
    from this(1) have "I (ys @ [z]) c'" using step [OF Cons.prems(2,3)] by blast
    with Cons.IH [OF r, of "ys @ [z]"] Cons.prems(2) show ?case by simp
  qed
  from this [OF assms(1), of "[]"] assms(2) show ?thesis by simp
qed

end
