(* ===== verification/Store.thy ===== *)
theory Store
  imports Actions
begin

text \<open>
  The tables of \<open>storage.py\<close>. The SQLite table \<open>objects(kind, id, body)\<close> with primary key
  \<open>(kind, id)\<close> is one table per kind; a table is the association list of its rows in key
  order, the order in which \<open>UnitOfWork.list\<close> returns them (\<open>ORDER BY id\<close>). \<open>body\<close> is
  the typed record of the kind instead of its JSON text. The contract of a key-value table
  is the locale \<open>kv_table\<close>; its ordered extension is \<open>ordered_table\<close>, and the tables of
  the model are shown to satisfy both.
\<close>

type_synonym 'v table = "(ustr \<times> 'v) list"

definition tbl_get :: "('k \<times> 'v) list \<Rightarrow> 'k \<Rightarrow> 'v option" where
  "tbl_get t k = map_of t k"

text \<open>\<open>INSERT ... ON CONFLICT(kind,id) DO UPDATE\<close> in a table kept in key order.\<close>

fun tbl_put :: "'k::linorder \<Rightarrow> 'v \<Rightarrow> ('k \<times> 'v) list \<Rightarrow> ('k \<times> 'v) list" where
  "tbl_put k v [] = [(k, v)]"
| "tbl_put k v (r # t) =
     (if fst r < k then r # tbl_put k v t else if fst r = k then (k, v) # t else (k, v) # r # t)"

definition tbl_delete :: "'k \<Rightarrow> ('k \<times> 'v) list \<Rightarrow> ('k \<times> 'v) list" where
  "tbl_delete k t = filter (\<lambda>r. fst r \<noteq> k) t"

definition tbl_rows :: "('k \<times> 'v) list \<Rightarrow> 'v list" where
  "tbl_rows t = map snd t"

definition tbl_ok :: "('k::linorder \<times> 'v) list \<Rightarrow> bool" where
  "tbl_ok t \<longleftrightarrow> sorted_wrt (<) (map fst t)"

lemma tbl_get_simps [simp]:
  "tbl_get [] k = None" "tbl_get ((a, v) # t) k = (if a = k then Some v else tbl_get t k)"
  by (auto simp: tbl_get_def)

lemma tbl_ok_Nil [simp]: "tbl_ok []"
  by (simp add: tbl_ok_def)

lemma tbl_ok_Cons: "tbl_ok (r # t) \<longleftrightarrow> (\<forall>x\<in>set t. fst r < fst x) \<and> tbl_ok t"
  by (auto simp: tbl_ok_def)

lemma tbl_ok_distinct: "tbl_ok t \<Longrightarrow> distinct (map fst t)"
  by (simp add: tbl_ok_def strict_sorted_iff)

lemma tbl_get_put [simp]: "tbl_get (tbl_put k v t) j = (if j = k then Some v else tbl_get t j)"
  by (induction t) auto

lemma set_tbl_put: "set (map fst (tbl_put k v t)) = insert k (set (map fst t))"
  by (induction t) auto

lemma tbl_ok_put: "tbl_ok t \<Longrightarrow> tbl_ok (tbl_put k v t)"
proof (induction t)
  case (Cons r t)
  have "fst ` set (tbl_put k v t) = insert k (fst ` set t)"
    using set_tbl_put [of k v t] by simp
  then have "\<forall>x\<in>set (tbl_put k v t). fst x = k \<or> fst x \<in> fst ` set t"
    by (metis image_eqI insertE)
  with Cons show ?case
    by (fastforce simp: tbl_ok_Cons intro: less_trans)
qed (simp add: tbl_ok_def)

lemma tbl_get_delete [simp]: "tbl_get (tbl_delete k t) j = (if j = k then None else tbl_get t j)"
  by (induction t) (auto simp: tbl_delete_def)

lemma tbl_get_put_fun: "tbl_get (tbl_put k v t) = (tbl_get t)(k \<mapsto> v)"
  by (rule ext) simp

lemma tbl_get_delete_fun: "tbl_get (tbl_delete k t) = (tbl_get t)(k := None)"
  by (rule ext) simp

lemma tbl_ok_delete: "tbl_ok t \<Longrightarrow> tbl_ok (tbl_delete k t)"
  by (induction t) (auto simp: tbl_ok_Cons tbl_delete_def)

lemma tbl_get_in: "tbl_ok t \<Longrightarrow> tbl_get t k = Some v \<longleftrightarrow> (k, v) \<in> set t"
  by (simp add: tbl_get_def tbl_ok_distinct)

lemma tbl_get_mem: "tbl_get t k = Some v \<Longrightarrow> (k, v) \<in> set t"
  by (simp add: tbl_get_def map_of_SomeD)

lemma tbl_rows_get: "tbl_ok t \<Longrightarrow> v \<in> set (tbl_rows t) \<longleftrightarrow> (\<exists>k. tbl_get t k = Some v)"
  by (force simp: tbl_rows_def tbl_get_in)

text \<open>Two tables in key order with the same lookups are the same table.\<close>

lemma tbl_ok_ext:
  assumes "tbl_ok s" and "tbl_ok t" and "\<And>k. tbl_get s k = tbl_get t k"
  shows "s = t"
proof -
  have "set s = set t"
  proof (rule set_eqI)
    fix r show "r \<in> set s \<longleftrightarrow> r \<in> set t"
      using assms tbl_get_in [of s "fst r" "snd r"] tbl_get_in [of t "fst r" "snd r"] by simp
  qed
  moreover have "inj_on fst (set s \<union> set t)"
    using assms(1) calculation tbl_ok_distinct [of s] by (simp add: distinct_map)
  ultimately show ?thesis
    using assms(1,2) map_sorted_distinct_set_unique [of fst s t]
    by (simp add: tbl_ok_def strict_sorted_iff)
qed

lemma length_tbl_delete_le: "length (tbl_delete k t) \<le> length t"
  by (simp add: tbl_delete_def)

section \<open>The contract of a table\<close>

locale kv_table =
  fixes lookup :: "'t \<Rightarrow> 'k \<Rightarrow> 'v option"
    and upsert :: "'k \<Rightarrow> 'v \<Rightarrow> 't \<Rightarrow> 't"
    and remove :: "'k \<Rightarrow> 't \<Rightarrow> 't"
    and valid :: "'t \<Rightarrow> bool"
  assumes lookup_upsert: "valid t \<Longrightarrow> lookup (upsert k v t) j = (if j = k then Some v else lookup t j)"
    and lookup_remove: "valid t \<Longrightarrow> lookup (remove k t) j = (if j = k then None else lookup t j)"
    and valid_upsert: "valid t \<Longrightarrow> valid (upsert k v t)"
    and valid_remove: "valid t \<Longrightarrow> valid (remove k t)"
    and lookup_ext: "valid s \<Longrightarrow> valid t \<Longrightarrow> (\<And>k. lookup s k = lookup t k) \<Longrightarrow> s = t"
begin

lemma upsert_twice: "valid t \<Longrightarrow> upsert k w (upsert k v t) = upsert k w t"
  by (rule lookup_ext) (simp_all add: valid_upsert lookup_upsert)

lemma upsert_commute: "valid t \<Longrightarrow> j \<noteq> k \<Longrightarrow> upsert j w (upsert k v t) = upsert k v (upsert j w t)"
  by (rule lookup_ext) (simp_all add: valid_upsert lookup_upsert)

lemma remove_upsert: "valid t \<Longrightarrow> lookup t k = None \<Longrightarrow> remove k (upsert k v t) = t"
  by (rule lookup_ext) (auto simp: valid_upsert valid_remove lookup_upsert lookup_remove)

lemma upsert_same: "valid t \<Longrightarrow> lookup t k = Some v \<Longrightarrow> upsert k v t = t"
  by (rule lookup_ext) (auto simp: valid_upsert lookup_upsert)

end

text \<open>
  A table that also lists its rows in key order: what \<open>UnitOfWork.list\<close> returns is a
  function of the lookups alone.
\<close>

locale ordered_table = kv_table lookup upsert remove valid
  for lookup :: "'t \<Rightarrow> 'k::linorder \<Rightarrow> 'v option" and upsert :: "'k \<Rightarrow> 'v \<Rightarrow> 't \<Rightarrow> 't"
    and remove :: "'k \<Rightarrow> 't \<Rightarrow> 't" and valid :: "'t \<Rightarrow> bool" +
  fixes entries :: "'t \<Rightarrow> ('k \<times> 'v) list"
  assumes entries_sorted: "valid t \<Longrightarrow> sorted_wrt (<) (map fst (entries t))"
    and entries_lookup: "valid t \<Longrightarrow> (k, v) \<in> set (entries t) \<longleftrightarrow> lookup t k = Some v"
begin

lemma entries_upsert_set:
  "valid t \<Longrightarrow> set (entries (upsert k v t)) = insert (k, v) {r \<in> set (entries t). fst r \<noteq> k}"
  by (auto simp: entries_lookup valid_upsert lookup_upsert split: if_splits)

lemma entries_remove_set: "valid t \<Longrightarrow> set (entries (remove k t)) = {r \<in> set (entries t). fst r \<noteq> k}"
  by (auto simp: entries_lookup valid_remove lookup_remove split: if_splits)

lemma entries_keys_distinct: "valid t \<Longrightarrow> distinct (map fst (entries t))"
  using entries_sorted strict_sorted_iff by blast

end

interpretation tbl: ordered_table tbl_get tbl_put tbl_delete tbl_ok "\<lambda>t. t"
  by unfold_locales
    (auto simp: tbl_ok_put tbl_ok_delete tbl_get_in intro: tbl_ok_ext, simp add: tbl_ok_def)

text \<open>
  The order of the listing does not depend on the order of the writes: storing two rows in
  either order gives the same table, hence the same \<open>list\<close>.
\<close>

lemma tbl_rows_order_free:
  "tbl_ok t \<Longrightarrow> j \<noteq> k \<Longrightarrow> tbl_rows (tbl_put j w (tbl_put k v t)) = tbl_rows (tbl_put k v (tbl_put j w t))"
  by (simp add: tbl.upsert_commute)

end
