(* ===== verification/Domain.thy ===== *)
theory Domain
  imports Store
begin

text \<open>
  The documents of the store as records, in the order the services create them, with the
  fields of the source (a field of a record carries a prefix for its document kind). Keys that
  the source writes with a leading underscore (\<open>_fingerprint\<close>, \<open>_items\<close>, \<open>_owner\<close>, ...)
  are ordinary fields; \<open>public\<close>, which drops them before a document leaves the service, is
  modelled by resetting them to fixed values. Enumerated strings are datatypes. Times are whole
  microseconds since the epoch, the resolution of the public timestamps.
\<close>

type_synonym time = int

definition seconds :: "int \<Rightarrow> time" where
  "seconds n = 1000000 * n"

text \<open>\<open>utc(mtime_ns / 1e9)\<close>: a nanosecond count rounded to the microsecond.\<close>

definition utc_ns :: "int \<Rightarrow> time" where
  "utc_ns ns = (ns + 500) div 1000"

section \<open>Locations, files, accounts\<close>

record location =
  loc_root_id :: ustr
  loc_relative_path :: ustr
  loc_display_path :: ustr

record fingerprint =
  fp_dev :: int
  fp_ino :: int
  fp_size :: int
  fp_mtime_ns :: int

datatype role = WORKER | ADMIN

record actor =
  act_user_id :: ustr
  act_login :: ustr
  act_display_name :: ustr
  act_role :: role

record user =
  u_actor :: actor
  u_password_hash :: ustr
  u_blocked :: bool

record session =
  s_user_id :: ustr
  s_csrf :: ustr
  s_created :: time
  s_touched :: time

text \<open>The path schema of a searchable root.\<close>

record level =
  lv_id :: ustr
  lv_name :: ustr
  lv_values :: "ustr list"
  lv_optional :: bool

record schema =
  sc_version :: ustr
  sc_root_levels :: "level list"
  sc_tail :: "(ustr \<times> level list) list"

record root =
  rt_root_id :: ustr
  rt_label :: ustr
  rt_display_prefix :: ustr
  rt_base :: ustr
  rt_searchable :: bool
  rt_incoming_company :: "ustr option"
  rt_opensearch :: bool
  rt_sqlite :: bool
  rt_schema_set_version :: ustr
  rt_schema :: schema
  rt_scan_prefixes :: "ustr list"

record target =
  tg_root_id :: ustr
  tg_relative_directory :: ustr

record target_dir = target +
  td_display_path :: ustr

record company =
  c_company_id :: ustr
  c_name :: ustr
  c_folder :: ustr
  c_targets :: "target list"

section \<open>Rules and dictionaries\<close>

datatype match_field = BASENAME | RELATIVE_PATH

record rule =
  r_rule_id :: ustr
  r_priority :: int
  r_match_field :: match_field
  r_mask :: ustr
  r_target :: target
  r_target_stem :: ustr

text \<open>A rule with the dictionary and version it comes from (\<open>flattened_rules\<close>).\<close>

record flat_rule = rule +
  fr_dictionary_id :: ustr
  fr_version_id :: "ustr option"

record rule_ref =
  rr_dictionary_id :: ustr
  rr_version_id :: "ustr option"
  rr_rule_id :: ustr

record rule_set =
  rs_rule_set_id :: ustr
  rs_company_id :: ustr
  rs_members :: "(ustr \<times> ustr) list"

record draft =
  dr_revision :: int
  dr_rules :: "rule list"
  dr_based_on_version_id :: "ustr option"

record dictionary =
  d_dictionary_id :: ustr
  d_company_id :: ustr
  d_name :: ustr
  d_description :: ustr
  d_draft :: draft
  d_active_version_id :: "ustr option"
  d_versions_count :: int
  d_updated_at :: time
  d_updated_by :: actor

record version =
  v_version_id :: ustr
  v_dictionary_id :: ustr
  v_version_number :: int
  v_name :: ustr
  v_description :: ustr
  v_rules :: "rule list"
  v_published_at :: time
  v_published_by :: actor
  v_comment :: ustr
  v_restored_from_version_id :: "ustr option"

section \<open>Queue items and plans\<close>

datatype queue_status =
    Q_DISCOVERED | Q_WAITING_READY | Q_READY | Q_PROCESSING | Q_REQUIRES_DECISION
  | Q_RECOVERY_REQUIRED | Q_MISSING

datatype reason =
    NO_SCENARIO | RULE_CONFLICT | NOT_READY | TARGET_OCCUPIED | MANUAL_REVIEW_NAME_OCCUPIED
  | ALREADY_PROCESSING | SOURCE_MISSING | SOURCE_CHANGED | TECHNICAL_ERROR | RECOVERY_REQUIRED

record queue_item =
  q_item_id :: ustr
  q_item_revision :: int
  q_company_id :: ustr
  q_incoming_source_id :: ustr
  q_source_name :: ustr
  q_source :: location
  q_filename :: ustr
  q_size_bytes :: int
  q_modified_at :: time
  q_status :: queue_status
  q_reason_code :: "reason option"
  q_selectable :: bool
  q_active_attempt_id :: "ustr option"
  q_fingerprint :: fingerprint
  q_observed_at :: time
  q_departed :: bool

definition no_fingerprint :: fingerprint where
  "no_fingerprint = \<lparr>fp_dev = 0, fp_ino = 0, fp_size = 0, fp_mtime_ns = 0\<rparr>"

text \<open>\<open>public(q)\<close> for a queue item: \<open>_fingerprint\<close>, \<open>_observed_at\<close>, \<open>_departed\<close> are dropped.\<close>

definition public_item :: "queue_item \<Rightarrow> queue_item" where
  "public_item q = q\<lparr>q_fingerprint := no_fingerprint, q_observed_at := 0, q_departed := False\<rparr>"

datatype plan_state = WILL_MOVE | WILL_MANUAL_REVIEW | REQUIRES_DECISION | P_NOT_READY

datatype collision_kind = MANUAL_REVIEW_NAME | DUPLICATE_PLAN_TARGET | EXISTING_TARGET

record metadata =
  md_filename :: ustr
  md_location :: location
  md_size_bytes :: int
  md_modified_at :: time

record collision =
  co_kind :: collision_kind
  co_source_metadata :: "metadata option"
  co_existing_target_metadata :: "metadata option"
  co_conflicting_item_ids :: "ustr list"

record plan_row =
  p_item_id :: ustr
  p_item_revision :: int
  p_source :: location
  p_filename :: ustr
  p_company_id :: ustr
  p_predicted_state :: plan_state
  p_reason_code :: "reason option"
  p_target :: "location option"
  p_matched_rules :: "rule_ref list"
  p_selected_rule :: "rule_ref option"
  p_collision :: "collision option"
  p_source_metadata :: "metadata option"

record plan_counts =
  pc_will_move :: nat
  pc_will_manual_review :: nat
  pc_requires_decision :: nat
  pc_not_ready :: nat
  pc_rule_conflicts :: nat
  pc_no_scenario :: nat

record simulation =
  si_simulation_id :: ustr
  si_dictionary_id :: ustr
  si_draft_revision :: int
  si_base_rule_set :: rule_set
  si_ready_snapshot_id :: ustr
  si_created_at :: time
  si_expires_at :: time
  si_total :: nat
  si_counts :: plan_counts
  si_empty_ready_set :: bool
  si_rows :: "plan_row list"
  si_ready_digest :: ustr
  si_rules_digest :: ustr
  si_owner :: ustr
  si_expires :: time

section \<open>Selections, previews, batches, attempts\<close>

datatype selection_mode = EXPLICIT | ALL_MATCHING

record selection =
  se_selection_id :: ustr
  se_company_id :: ustr
  se_mode :: selection_mode
  se_selected_count :: nat
  se_created_at :: time
  se_expires_at :: time
  se_queue_generation :: ustr
  se_items :: "queue_item list"
  se_owner :: ustr
  se_batch_id :: "ustr option"

record preview =
  pv_preview_id :: ustr
  pv_selection_id :: ustr
  pv_company_id :: ustr
  pv_rule_set :: rule_set
  pv_created_at :: time
  pv_expires_at :: time
  pv_total :: nat
  pv_counts :: plan_counts
  pv_rows :: "plan_row list"
  pv_owner :: ustr

datatype outcome_state =
    O_PENDING | O_PROCESSING | O_SORTED | O_MANUAL_REVIEW | O_REQUIRES_DECISION | O_QUARANTINED
  | O_SKIPPED | O_RECOVERY_REQUIRED

record outcome =
  o_attempt_id :: ustr
  o_item_id :: ustr
  o_item_revision :: int
  o_state :: outcome_state
  o_reason_code :: "reason option"
  o_source :: location
  o_planned_target :: "location option"
  o_actual_location :: "location option"
  o_matched_rule :: "rule_ref option"
  o_started_at :: "time option"
  o_finished_at :: "time option"

record outcome_counts =
  oc_sorted :: nat
  oc_manual_review :: nat
  oc_requires_decision :: nat
  oc_quarantined :: nat
  oc_skipped :: nat
  oc_recovery_required :: nat

datatype batch_status = B_ACCEPTED | B_RUNNING | B_COMPLETED | B_COMPLETED_WITH_ISSUES | B_RECOVERY_REQUIRED

record batch =
  b_batch_id :: ustr
  b_company_id :: ustr
  b_actor :: actor
  b_selection_id :: ustr
  b_preview_id :: "ustr option"
  b_rule_set :: rule_set
  b_status :: batch_status
  b_created_at :: time
  b_started_at :: "time option"
  b_finished_at :: "time option"
  b_selected_count :: nat
  b_completed_count :: nat
  b_counts :: outcome_counts
  b_outcomes :: "outcome list"

datatype phase = QUEUED | INTENT | PH_RECOVERY_REQUIRED | DONE

record attempt =
  a_attempt_id :: ustr
  a_batch_id :: ustr
  a_company_id :: ustr
  a_actor :: actor
  a_request_id :: ustr
  a_item :: queue_item
  a_plan :: plan_row
  a_outcome :: outcome
  a_phase :: phase
  a_intent_target :: "location option"
  a_intended_state :: "outcome_state option"
  a_intended_reason :: "reason option"

record claim =
  cl_attempt_id :: ustr
  cl_batch_id :: ustr

section \<open>Quarantine\<close>

record quarantine =
  qu_quarantine_id :: ustr
  qu_revision :: int
  qu_item_id :: ustr
  qu_company_id :: ustr
  qu_filename :: ustr
  qu_location :: location
  qu_original_location :: location
  qu_reason_code :: reason
  qu_quarantined_at :: time
  qu_source_attempt_id :: ustr
  qu_recovery_operation_id :: "ustr option"
  qu_can_return :: bool
  qu_fingerprint :: "fingerprint option"
  qu_returned :: bool

datatype return_phase = RET_INTENT | RET_REJECTED | RET_RECOVERY_REQUIRED | RET_DONE

record return_body =
  rb_expected_revision :: int
  rb_comment :: ustr

record return_op =
  ro_operation_id :: ustr
  ro_quarantine_id :: ustr
  ro_actor :: actor
  ro_request_id :: ustr
  ro_body :: return_body
  ro_phase :: return_phase
  ro_fingerprint :: fingerprint
  ro_source :: location
  ro_target :: location
  ro_result :: "(ustr \<times> queue_item) option"
  ro_error :: "err_code option"

record return_key =
  rk_hash :: ustr
  rk_operation_id :: ustr

section \<open>Audit events\<close>

datatype category = SYSTEM | BUSINESS

datatype audit_action =
    LOGIN_SUCCEEDED | LOGIN_FAILURE | LOGOUT | ACCOUNT_BLOCKED | ACCOUNT_CREATED
  | ACCOUNT_UNBLOCKED | PASSWORD_CHANGED
  | DICTIONARY_CREATED | DRAFT_SAVED | DICTIONARY_RESTORED | DICTIONARY_SIMULATED
  | DICTIONARY_PUBLISHED | BATCH_ACCEPTED | FILE_ATTEMPT_STARTED | FILE_ATTEMPT_FINISHED
  | RECOVERY_REQUIRED_EVENT | QUARANTINE_RETURNED

datatype event_result = SUCCESS | ISSUE | FAILED

record event =
  ev_event_id :: ustr
  ev_occurred_at :: time
  ev_actor :: "actor option"
  ev_category :: category
  ev_action :: audit_action
  ev_result :: event_result
  ev_request_id :: ustr
  ev_operation_id :: "ustr option"
  ev_source_attempt_id :: "ustr option"
  ev_company_id :: "ustr option"
  ev_dictionary_id :: "ustr option"
  ev_version_id :: "ustr option"
  ev_rule_set_id :: "ustr option"
  ev_batch_id :: "ustr option"
  ev_attempt_id :: "ustr option"
  ev_item_id :: "ustr option"
  ev_source :: "location option"
  ev_target :: "location option"
  ev_reason_code :: "reason option"
  ev_comment :: "ustr option"

end
