(* ===== verification/Rules.thy ===== *)
theory Rules
  imports Domain
begin

text \<open>
  \<open>rules.py\<close>: the last suffix of a file name, the glob matcher with its explicit backtracking,
  the plan of one item (minimal priority, unique target, attribution) and the plan of a batch
  (manual-review names, duplicate and occupied targets). The callbacks \<open>exists\<close>,
  \<open>location\<close> and \<open>source_info\<close> are actions over an arbitrary state, so they may raise, and
  their answers may change from call to call.
\<close>

section \<open>File names\<close>

text \<open>\<open>extension\<close>: the last suffix, empty for a leading or trailing dot.\<close>

definition extension :: "ustr \<Rightarrow> ustr" where
  "extension filename =
     (case rfind dot filename of
        None \<Rightarrow> []
      | Some last_dot \<Rightarrow>
          if last_dot \<le> 0 \<or> last_dot = length filename - 1 then [] else drop last_dot filename)"

definition join_path :: "ustr \<Rightarrow> ustr \<Rightarrow> ustr" where
  "join_path directory filename =
     (if directory = [] then filename else rstrip_char slash directory @ slash # filename)"

definition normalise_match_path :: "ustr \<Rightarrow> ustr" where
  "normalise_match_path = replace_char slash backslash"

definition target_tuple :: "target \<Rightarrow> ustr \<Rightarrow> ustr \<Rightarrow> ustr \<times> ustr" where
  "target_tuple t target_stem filename =
     (tg_root_id t, join_path (tg_relative_directory t) (target_stem @ extension filename))"

section \<open>The glob matcher\<close>

abbreviation star :: nat where "star \<equiv> 42"
abbreviation qmark :: nat where "qmark \<equiv> 63"

text \<open>
  The loop of \<open>_match_glob\<close>. \<open>sv\<close> is \<open>None\<close> for \<open>last_star = -1\<close>, otherwise the
  pair of \<open>last_star\<close> and \<open>retry_value\<close>, which the code only uses together.
\<close>

function glob_loop :: "ustr \<Rightarrow> ustr \<Rightarrow> nat \<Rightarrow> nat \<Rightarrow> (nat \<times> nat) option \<Rightarrow> bool" where
  "glob_loop pat val mi vi sv =
     (if vi < length val then
        if mi < length pat \<and> (pat ! mi = qmark \<or> pat ! mi = val ! vi) then
          glob_loop pat val (Suc mi) (Suc vi) sv
        else if mi < length pat \<and> pat ! mi = star then
          glob_loop pat val (Suc mi) vi (Some (mi, vi))
        else
          (case sv of
             None \<Rightarrow> False
           | Some (last_star, retry_value) \<Rightarrow>
               glob_loop pat val (Suc last_star) (Suc retry_value) (Some (last_star, Suc retry_value)))
      else list_all (\<lambda>c. c = star) (drop mi pat))"
  by pat_completeness auto
termination
proof (relation "measures
    [\<lambda>(pat, val, mi, vi, sv). (case sv of None \<Rightarrow> 0 | Some (s, r) \<Rightarrow> if mi \<le> s then 1 else 0),
     \<lambda>(pat, val, mi, vi, sv). (case sv of None \<Rightarrow> Suc (length pat) | Some (s, r) \<Rightarrow> length pat - s),
     \<lambda>(pat, val, mi, vi, sv). (if vi < length val then 1 else 0),
     \<lambda>(pat, val, mi, vi, sv). (case sv of None \<Rightarrow> 0 | Some (s, r) \<Rightarrow> length val - r),
     \<lambda>(pat, val, mi, vi, sv). length val - vi]", goal_cases)
  case 1
  show ?case by simp
qed (auto split: option.splits)

declare glob_loop.simps [simp del]

definition match_glob :: "ustr \<Rightarrow> ustr \<Rightarrow> bool" where
  "match_glob pat val = glob_loop pat val 0 0 None"

definition match_rule :: "(ustr \<Rightarrow> ustr) \<Rightarrow> ('a) rule_scheme \<Rightarrow> ustr \<Rightarrow> bool" where
  "match_rule casefold r relative_path =
     (if contains [star, star] (r_mask r) then False
      else
        (case r_match_field r of
           BASENAME \<Rightarrow>
             match_glob (casefold (r_mask r))
               (casefold (last (split_on slash (replace_char backslash slash relative_path))))
         | RELATIVE_PATH \<Rightarrow>
             match_glob (casefold (normalise_match_path (r_mask r)))
               (casefold (normalise_match_path relative_path))))"

section \<open>The plan of one item\<close>

definition reference :: "flat_rule \<Rightarrow> rule_ref" where
  "reference r = \<lparr>rr_dictionary_id = fr_dictionary_id r, rr_version_id = fr_version_id r, rr_rule_id = r_rule_id r\<rparr>"

definition base_row :: "queue_item \<Rightarrow> plan_row" where
  "base_row item =
     \<lparr>p_item_id = q_item_id item, p_item_revision = q_item_revision item, p_source = q_source item,
      p_filename = q_filename item, p_company_id = q_company_id item,
      p_predicted_state = P_NOT_READY, p_reason_code = Some NOT_READY, p_target = None,
      p_matched_rules = [], p_selected_rule = None, p_collision = None,
      p_source_metadata =
        Some \<lparr>md_filename = q_filename item, md_location = q_source item,
              md_size_bytes = q_size_bytes item, md_modified_at = q_modified_at item\<rparr>\<rparr>"

definition with_state :: "plan_row \<Rightarrow> plan_state \<Rightarrow> reason \<Rightarrow> plan_row" where
  "with_state row st rc = row\<lparr>p_predicted_state := st, p_reason_code := Some rc\<rparr>"

definition matching_rules :: "(ustr \<Rightarrow> ustr) \<Rightarrow> flat_rule list \<Rightarrow> queue_item \<Rightarrow> flat_rule list" where
  "matching_rules casefold rules item =
     filter (\<lambda>r. match_rule casefold r (loc_relative_path (q_source item))) rules"

definition winning_rules :: "flat_rule list \<Rightarrow> flat_rule list" where
  "winning_rules matching =
     filter (\<lambda>r. r_priority r = Min (set (map r_priority matching))) matching"

definition target_tuples :: "flat_rule list \<Rightarrow> ustr \<Rightarrow> (ustr \<times> ustr) list" where
  "target_tuples winners filename =
     remdups (map (\<lambda>r. target_tuple (r_target r) (r_target_stem r) filename) winners)"

definition plannable :: "queue_item \<Rightarrow> bool" where
  "plannable item \<longleftrightarrow> q_status item \<in> {Q_READY, Q_REQUIRES_DECISION} \<and> q_selectable item"

definition plan_one ::
  "(ustr \<Rightarrow> ustr) \<Rightarrow> queue_item \<Rightarrow> flat_rule list \<Rightarrow> (ustr \<Rightarrow> ustr \<Rightarrow> ('s, location) action)
     \<Rightarrow> ('s, plan_row) action" where
  "plan_one casefold item rules make_location =
     (if \<not> plannable item then ret (base_row item)
      else
        let matching = matching_rules casefold rules item in
        if matching = [] then ret (with_state (base_row item) WILL_MANUAL_REVIEW NO_SCENARIO)
        else
          let winners = winning_rules matching;
              base = (base_row item)\<lparr>p_matched_rules := map reference winners\<rparr>;
              tuples = target_tuples winners (q_filename item)
          in if length tuples \<noteq> 1 then ret (with_state base WILL_MANUAL_REVIEW RULE_CONFLICT)
             else
               let selected = arg_min_list (\<lambda>r. (fr_dictionary_id r, r_rule_id r)) winners in
               bnd (make_location (fst (hd tuples)) (snd (hd tuples))) (\<lambda>loc.
               ret (base\<lparr>p_predicted_state := WILL_MOVE, p_reason_code := None,
                         p_target := Some loc, p_selected_rule := Some (reference selected)\<rparr>)))"

section \<open>Collisions\<close>

definition blocked ::
  "plan_row \<Rightarrow> reason \<Rightarrow> collision_kind \<Rightarrow> metadata option \<Rightarrow> ustr list \<Rightarrow> plan_row" where
  "blocked row rc kind info others =
     row\<lparr>p_predicted_state := REQUIRES_DECISION, p_reason_code := Some rc,
         p_collision := Some \<lparr>co_kind = kind, co_source_metadata = p_source_metadata row,
                              co_existing_target_metadata = info,
                              co_conflicting_item_ids = others\<rparr>\<rparr>"

definition block_row ::
  "plan_row \<Rightarrow> reason \<Rightarrow> collision_kind \<Rightarrow> location \<Rightarrow> ustr list
     \<Rightarrow> (location \<Rightarrow> ('s, metadata option) action) \<Rightarrow> ('s, plan_row) action" where
  "block_row row rc kind loc others source_info =
     bnd (if kind \<noteq> DUPLICATE_PLAN_TARGET then source_info loc else ret None) (\<lambda>info.
     ret (blocked row rc kind info others))"

definition manual_collision ::
  "target \<Rightarrow> (location \<Rightarrow> ('s, bool) action) \<Rightarrow> (ustr \<Rightarrow> ustr \<Rightarrow> ('s, location) action)
     \<Rightarrow> (location \<Rightarrow> ('s, metadata option) action) \<Rightarrow> plan_row \<Rightarrow> ('s, plan_row) action" where
  "manual_collision manual_target exists make_location source_info row =
     (if p_predicted_state row \<noteq> WILL_MANUAL_REVIEW then ret row
      else
        bnd (make_location (tg_root_id manual_target)
               (join_path (tg_relative_directory manual_target) (p_filename row))) (\<lambda>loc.
        bnd (exists loc) (\<lambda>occupied.
        if occupied then block_row row MANUAL_REVIEW_NAME_OCCUPIED MANUAL_REVIEW_NAME loc [] source_info
        else ret row)))"

definition apply_manual_review_collisions ::
  "plan_row list \<Rightarrow> target \<Rightarrow> (location \<Rightarrow> ('s, bool) action)
     \<Rightarrow> (ustr \<Rightarrow> ustr \<Rightarrow> ('s, location) action) \<Rightarrow> (location \<Rightarrow> ('s, metadata option) action)
     \<Rightarrow> ('s, plan_row list) action" where
  "apply_manual_review_collisions rows manual_target exists make_location source_info =
     collect (manual_collision manual_target exists make_location source_info) rows"

text \<open>
  The \<open>planned\<close> dictionary: for every target of a \<open>WILL_MOVE\<close> row, in the order of first
  occurrence, the positions of the rows that want it.
\<close>

definition row_key :: "plan_row \<Rightarrow> (ustr \<times> ustr) option" where
  "row_key row =
     (if p_predicted_state row = WILL_MOVE
      then map_option (\<lambda>l. (loc_root_id l, loc_relative_path l)) (p_target row) else None)"

definition first_occurrences :: "'a list \<Rightarrow> 'a list" where
  "first_occurrences xs = rev (remdups (rev xs))"

definition planned :: "plan_row list \<Rightarrow> nat list list" where
  "planned rows =
     map (\<lambda>k. filter (\<lambda>i. row_key (rows ! i) = Some k) [0..<length rows])
         (first_occurrences (List.map_filter row_key rows))"

text \<open>One group of the loop: several rows for one target, or one row for an occupied target.\<close>

definition block_group ::
  "(location \<Rightarrow> ('s, bool) action) \<Rightarrow> (location \<Rightarrow> ('s, metadata option) action)
     \<Rightarrow> nat list \<Rightarrow> plan_row list \<Rightarrow> ('s, plan_row list) action" where
  "block_group exists source_info ixs rows =
     (case p_target (rows ! hd ixs) of
        None \<Rightarrow> ret rows
      | Some loc \<Rightarrow>
          if 1 < length ixs then
            fold_act (\<lambda>i rs.
                bnd (block_row (rs ! i) TARGET_OCCUPIED DUPLICATE_PLAN_TARGET loc
                       (map (\<lambda>j. p_item_id (rs ! j)) (filter (\<lambda>j. j \<noteq> i) ixs)) source_info)
                    (\<lambda>row. ret (rs[i := row]))) ixs rows
          else
            bnd (exists loc) (\<lambda>occupied.
            if occupied then
              bnd (block_row (rows ! hd ixs) TARGET_OCCUPIED EXISTING_TARGET loc [] source_info)
                  (\<lambda>row. ret (rows[hd ixs := row]))
            else ret rows))"

definition apply_target_collisions ::
  "plan_row list \<Rightarrow> (location \<Rightarrow> ('s, bool) action) \<Rightarrow> (location \<Rightarrow> ('s, metadata option) action)
     \<Rightarrow> ('s, plan_row list) action" where
  "apply_target_collisions rows exists source_info =
     fold_act (block_group exists source_info) (planned rows) rows"

definition plan_rows ::
  "(ustr \<Rightarrow> ustr) \<Rightarrow> queue_item list \<Rightarrow> flat_rule list \<Rightarrow> target \<Rightarrow> (location \<Rightarrow> ('s, bool) action)
     \<Rightarrow> (ustr \<Rightarrow> ustr \<Rightarrow> ('s, location) action) \<Rightarrow> (location \<Rightarrow> ('s, metadata option) action)
     \<Rightarrow> ('s, plan_row list) action" where
  "plan_rows casefold items rules manual_target exists make_location source_info =
     bnd (collect (\<lambda>item. plan_one casefold item rules make_location) items) (\<lambda>rows.
     bnd (apply_manual_review_collisions rows manual_target exists make_location source_info) (\<lambda>rows.
     bnd (apply_target_collisions rows exists source_info) (\<lambda>rows.
     ret (map (\<lambda>row. row\<lparr>p_source_metadata := None\<rparr>) rows))))"

section \<open>Counts\<close>

definition zero_counts :: plan_counts where
  "zero_counts = \<lparr>pc_will_move = 0, pc_will_manual_review = 0, pc_requires_decision = 0,
     pc_not_ready = 0, pc_rule_conflicts = 0, pc_no_scenario = 0\<rparr>"

definition count_state :: "plan_state \<Rightarrow> plan_counts \<Rightarrow> plan_counts" where
  "count_state st c =
     (case st of
        WILL_MOVE \<Rightarrow> c\<lparr>pc_will_move := Suc (pc_will_move c)\<rparr>
      | WILL_MANUAL_REVIEW \<Rightarrow> c\<lparr>pc_will_manual_review := Suc (pc_will_manual_review c)\<rparr>
      | REQUIRES_DECISION \<Rightarrow> c\<lparr>pc_requires_decision := Suc (pc_requires_decision c)\<rparr>
      | P_NOT_READY \<Rightarrow> c\<lparr>pc_not_ready := Suc (pc_not_ready c)\<rparr>)"

definition manual_candidate :: "plan_row \<Rightarrow> bool" where
  "manual_candidate row \<longleftrightarrow> p_selected_rule row = None \<and> p_predicted_state row \<noteq> P_NOT_READY"

definition count_row :: "plan_row \<Rightarrow> plan_counts \<Rightarrow> plan_counts" where
  "count_row row c =
     (let c = count_state (p_predicted_state row) c in
      if manual_candidate row \<and> 2 \<le> length (p_matched_rules row)
      then c\<lparr>pc_rule_conflicts := Suc (pc_rule_conflicts c)\<rparr>
      else if manual_candidate row \<and> p_matched_rules row = []
      then c\<lparr>pc_no_scenario := Suc (pc_no_scenario c)\<rparr>
      else c)"

definition plan_counts :: "plan_row list \<Rightarrow> plan_counts" where
  "plan_counts rows = fold count_row rows zero_counts"

section \<open>The default location\<close>

definition default_location :: "ustr \<Rightarrow> ustr \<Rightarrow> location" where
  "default_location root_id relative_path =
     \<lparr>loc_root_id = root_id, loc_relative_path = relative_path,
      loc_display_path = root_id @ lit '':/'' @ relative_path\<rparr>"

end
