(* ===== verification/Rules_Glob.thy ===== *)
theory Rules_Glob
  imports Rules
begin

text \<open>
  The glob matcher of \<open>rules.py\<close> against its specification. \<open>glob\<close> says what a mask means
  (a star stands for any run of characters, a question mark for one); the lemmas relate the
  index-and-backtrack loop to it through the alternatives the saved star still offers.
\<close>

section \<open>The meaning of a mask\<close>

fun glob :: "ustr \<Rightarrow> ustr \<Rightarrow> bool" where
  "glob [] v = (v = [])"
| "glob (c # m) [] = (c = star \<and> glob m [])"
| "glob (c # m) (x # v) =
     (if c = star then glob m (x # v) \<or> glob (c # m) v else (c = qmark \<or> c = x) \<and> glob m v)"

lemma glob_star: "glob (star # m) v \<longleftrightarrow> (\<exists>k\<le>length v. glob m (drop k v))"
proof (induction v)
  case (Cons x v)
  have "(\<exists>k\<le>length (x # v). glob m (drop k (x # v))) \<longleftrightarrow>
        glob m (x # v) \<or> (\<exists>k\<le>length v. glob m (drop k v))"
    by (metis Suc_le_mono drop0 drop_Suc_Cons length_Cons le0 not0_implies_Suc)
  with Cons show ?case by simp
qed simp

lemma glob_all_stars: "glob m [] \<longleftrightarrow> list_all (\<lambda>c. c = star) m"
  by (induction m) auto

lemma glob_step:
  "mi < length m \<Longrightarrow> vi < length v \<Longrightarrow> m ! mi \<noteq> star \<Longrightarrow>
   glob (drop mi m) (drop vi v) \<longleftrightarrow> (m ! mi = qmark \<or> m ! mi = v ! vi) \<and> glob (drop (Suc mi) m) (drop (Suc vi) v)"
  by (metis Cons_nth_drop_Suc glob.simps(3))

lemma glob_end: "length m \<le> mi \<Longrightarrow> glob (drop mi m) (drop vi v) \<longleftrightarrow> length v \<le> vi"
  by simp

lemma glob_at_star:
  "mi < length m \<Longrightarrow> m ! mi = star \<Longrightarrow> vi \<le> length v \<Longrightarrow>
   glob (drop mi m) (drop vi v) \<longleftrightarrow> (\<exists>k. vi \<le> k \<and> k \<le> length v \<and> glob (drop (Suc mi) m) (drop k v))"
proof -
  assume a: "mi < length m" "m ! mi = star" "vi \<le> length v"
  have "glob (drop mi m) (drop vi v) \<longleftrightarrow> (\<exists>j\<le>length v - vi. glob (drop (Suc mi) m) (drop (vi + j) v))"
    using a by (simp add: Cons_nth_drop_Suc [symmetric] glob_star add.commute)
  also have "\<dots> \<longleftrightarrow> (\<exists>k. vi \<le> k \<and> k \<le> length v \<and> glob (drop (Suc mi) m) (drop k v))"
    using a(3) by (metis add_le_cancel_left le_add1 le_add_diff_inverse)
  finally show ?thesis .
qed

section \<open>The loop and its alternatives\<close>

text \<open>A star-free stretch of the pattern consumes exactly its length.\<close>

lemma glob_segment:
  "glob (drop a m) (drop k v) \<Longrightarrow> k \<le> length v \<Longrightarrow> a + n \<le> length m \<Longrightarrow> \<forall>i<n. m ! (a + i) \<noteq> star \<Longrightarrow>
   k + n \<le> length v \<and> glob (drop (a + n) m) (drop (k + n) v)"
proof (induction n arbitrary: a k)
  case (Suc n)
  have ns: "m ! a \<noteq> star" using Suc.prems(4) by (metis Nat.add_0_right zero_less_Suc)
  have k: "k < length v"
  proof (rule ccontr)
    assume "\<not> k < length v"
    then have "glob (drop a m) []" using Suc.prems(1) by simp
    moreover have "drop a m = m ! a # drop (Suc a) m"
      using Suc.prems(3) by (simp add: Cons_nth_drop_Suc)
    ultimately show False using ns by simp
  qed
  have "glob (drop (Suc a) m) (drop (Suc k) v)"
    using Suc.prems(1,3) ns k by (simp add: glob_step)
  then have "Suc k + n \<le> length v \<and> glob (drop (Suc a + n) m) (drop (Suc k + n) v)"
    using Suc.prems(3,4) k by (intro Suc.IH) (simp, simp, simp, metis Suc_less_eq add_Suc_shift)
  then show ?case by simp
qed simp

definition alternatives :: "ustr \<Rightarrow> ustr \<Rightarrow> (nat \<times> nat) option \<Rightarrow> bool" where
  "alternatives m v sv = (case sv of None \<Rightarrow> False
     | Some (s, r) \<Rightarrow> \<exists>k. r < k \<and> k \<le> length v \<and> glob (drop (Suc s) m) (drop k v))"

definition loop_inv :: "ustr \<Rightarrow> ustr \<Rightarrow> nat \<Rightarrow> nat \<Rightarrow> (nat \<times> nat) option \<Rightarrow> bool" where
  "loop_inv m v mi vi sv \<longleftrightarrow> mi \<le> length m \<and> vi \<le> length v \<and>
     (case sv of None \<Rightarrow> True
      | Some (s, r) \<Rightarrow> s < mi \<and> r \<le> vi \<and> vi - r = mi - Suc s \<and>
          (\<forall>i. s < i \<and> i < mi \<longrightarrow> m ! i \<noteq> star))"

lemma alternatives_next:
  "Suc r \<le> length v \<Longrightarrow>
   alternatives m v (Some (s, r)) \<longleftrightarrow> glob (drop (Suc s) m) (drop (Suc r) v) \<or> alternatives m v (Some (s, Suc r))"
  unfolding alternatives_def option.case prod.case by (metis Suc_lessD Suc_lessI lessI)

lemma alternatives_segment:
  assumes "loop_inv m v mi vi sv" and "alternatives m v sv"
  obtains k where "vi < k" and "k \<le> length v" and "glob (drop mi m) (drop k v)"
proof -
  from assms(2) obtain s r k where sv: "sv = Some (s, r)" and k: "r < k" "k \<le> length v"
    and g: "glob (drop (Suc s) m) (drop k v)"
    by (auto simp: alternatives_def split: option.splits)
  have inv: "s < mi" "r \<le> vi" "vi - r = mi - Suc s" "\<forall>i. s < i \<and> i < mi \<longrightarrow> m ! i \<noteq> star" "mi \<le> length m"
    using assms(1) sv by (auto simp: loop_inv_def)
  have "k + (mi - Suc s) \<le> length v \<and> glob (drop (Suc s + (mi - Suc s)) m) (drop (k + (mi - Suc s)) v)"
    using inv(1,4,5) k(2) by (intro glob_segment [OF g]) auto
  with inv have "k + (vi - r) \<le> length v" "glob (drop mi m) (drop (k + (vi - r)) v)"
    by auto
  moreover have "vi < k + (vi - r)" using inv(2) k(1) by arith
  ultimately show thesis by (rule that [rotated])
qed

lemma alternatives_absorbed:
  assumes "loop_inv m v mi vi sv" and "mi < length m" and "m ! mi = star" and "alternatives m v sv"
  shows "glob (drop mi m) (drop vi v)"
proof -
  from alternatives_segment [OF assms(1,4)] obtain k
    where k: "vi < k" "k \<le> length v" "glob (drop mi m) (drop k v)" .
  then obtain j where "k \<le> j" "j \<le> length v" "glob (drop (Suc mi) m) (drop j v)"
    using glob_at_star [OF assms(2,3) k(2)] by blast
  moreover from this k(1) have "vi \<le> j" by simp
  moreover have "vi \<le> length v" using assms(1) by (simp add: loop_inv_def)
  ultimately show ?thesis
    using glob_at_star [OF assms(2,3)] by blast
qed

lemma glob_loop_correct:
  "loop_inv m v mi vi sv \<Longrightarrow> star \<notin> set v \<Longrightarrow>
   glob_loop m v mi vi sv \<longleftrightarrow> glob (drop mi m) (drop vi v) \<or> alternatives m v sv"
proof (induction m v mi vi sv rule: glob_loop.induct)
  case (1 m v mi vi sv)
  note inv = "1.prems"(1)
  show ?case
  proof (cases "vi < length v")
    case False
    with inv have "vi = length v" by (simp add: loop_inv_def)
    moreover have "\<not> alternatives m v sv"
      using alternatives_segment [OF inv] calculation by fastforce
    ultimately show ?thesis by (subst glob_loop.simps) (simp add: glob_all_stars)
  next
    case True
    note vi = this
    show ?thesis
    proof (cases "mi < length m \<and> (m ! mi = qmark \<or> m ! mi = v ! vi)")
      case True
      have ns: "m ! mi \<noteq> star" using True "1.prems"(2) vi by (auto dest: nth_mem)
      have "loop_inv m v (Suc mi) (Suc vi) sv"
        using inv True vi ns by (auto simp: loop_inv_def less_Suc_eq split: option.splits)
      with "1.IH"(1) [OF vi True _ "1.prems"(2)] True vi ns show ?thesis
        by (simp add: glob_loop.simps [of m v mi vi sv] glob_step)
    next
      case nomatch: False
      show ?thesis
      proof (cases "mi < length m \<and> m ! mi = star")
        case True
        have "loop_inv m v (Suc mi) vi (Some (mi, vi))"
          using inv True by (auto simp: loop_inv_def)
        with "1.IH"(2) [OF vi nomatch True _ "1.prems"(2)]
        have "glob_loop m v mi vi sv \<longleftrightarrow>
            glob (drop (Suc mi) m) (drop vi v) \<or> alternatives m v (Some (mi, vi))"
          using vi nomatch True by (simp add: glob_loop.simps [of m v mi vi sv])
        also have "\<dots> \<longleftrightarrow> glob (drop mi m) (drop vi v)"
          using True vi glob_at_star [of mi m vi v] by (auto simp: alternatives_def le_less)
        finally show ?thesis
          using alternatives_absorbed [OF inv] True by blast
      next
        case nostar: False
        have no: "\<not> glob (drop mi m) (drop vi v)"
        proof (cases "mi < length m")
          case True
          with nomatch nostar vi show ?thesis by (simp add: glob_step)
        qed (use vi in simp)
        show ?thesis
        proof (cases sv)
          case None
          with no nomatch nostar vi show ?thesis
            by (auto simp: glob_loop.simps [of m v mi vi None] alternatives_def)
        next
          case (Some p)
          obtain s r where sv: "sv = Some (s, r)" using Some by (cases p) auto
          have "loop_inv m v (Suc s) (Suc r) (Some (s, Suc r))"
            using inv vi sv by (auto simp: loop_inv_def)
          with "1.IH"(3) [OF vi nomatch nostar sv refl _ "1.prems"(2)]
          have "glob_loop m v mi vi sv \<longleftrightarrow>
              glob (drop (Suc s) m) (drop (Suc r) v) \<or> alternatives m v (Some (s, Suc r))"
            using vi nomatch nostar sv by (subst glob_loop.simps) auto
          also have "\<dots> \<longleftrightarrow> alternatives m v sv"
            using inv vi sv alternatives_next [of r v m s] by (simp add: loop_inv_def)
          finally show ?thesis using no by simp
        qed
      qed
    qed
  qed
qed

lemma glob_loop_sound:
  "glob_loop m v mi vi sv \<Longrightarrow> vi \<le> length v \<Longrightarrow> (\<And>s r. sv = Some (s, r) \<Longrightarrow> r \<le> vi) \<Longrightarrow>
   glob (drop mi m) (drop vi v) \<or> alternatives m v sv"
proof (induction m v mi vi sv rule: glob_loop.induct)
  case (1 m v mi vi sv)
  show ?case
  proof (cases "vi < length v")
    case False
    with "1.prems" have "list_all (\<lambda>c. c = star) (drop mi m)" "vi = length v"
      by (simp_all add: glob_loop.simps [of m v mi vi sv])
    then show ?thesis by (simp add: glob_all_stars)
  next
    case vi: True
    show ?thesis
    proof (cases "mi < length m \<and> (m ! mi = qmark \<or> m ! mi = v ! vi)")
      case True
      with "1.prems" vi have "glob_loop m v (Suc mi) (Suc vi) sv"
        by (simp add: glob_loop.simps [of m v mi vi sv])
      with "1.IH"(1) [OF vi True] vi "1.prems"(3) have "glob (drop (Suc mi) m) (drop (Suc vi) v) \<or> alternatives m v sv"
        by fastforce
      moreover have "glob (drop mi m) (drop vi v)" if "glob (drop (Suc mi) m) (drop (Suc vi) v)"
      proof (cases "m ! mi = star")
        case True
        with that vi \<open>mi < length m \<and> _\<close> show ?thesis
          using glob_at_star [of mi m vi v] by (metis Suc_leI le_SucI less_imp_le_nat order_refl)
      next
        case False
        with that vi True show ?thesis by (simp add: glob_step)
      qed
      ultimately show ?thesis by blast
    next
      case nomatch: False
      show ?thesis
      proof (cases "mi < length m \<and> m ! mi = star")
        case True
        with "1.prems" vi nomatch have "glob_loop m v (Suc mi) vi (Some (mi, vi))"
          by (simp add: glob_loop.simps [of m v mi vi sv])
        with "1.IH"(2) [OF vi nomatch True] "1.prems"(2)
        have "glob (drop (Suc mi) m) (drop vi v) \<or> alternatives m v (Some (mi, vi))" by simp
        then show ?thesis
          using True "1.prems"(2) glob_at_star [of mi m vi v] by (auto simp: alternatives_def le_less)
      next
        case nostar: False
        with "1.prems" vi nomatch obtain s r where sv: "sv = Some (s, r)"
          and run: "glob_loop m v (Suc s) (Suc r) (Some (s, Suc r))"
          by (auto simp: glob_loop.simps [of m v mi vi sv] split: option.splits)
        have "Suc r \<le> length v" using vi "1.prems"(3) [OF sv] by simp
        with "1.IH"(3) [OF vi nomatch nostar sv refl run]
        show ?thesis using sv \<open>Suc r \<le> length v\<close> alternatives_next by auto
      qed
    qed
  qed
qed

lemma match_glob_soundness: "match_glob m v \<Longrightarrow> glob m v"
  using glob_loop_sound [of m v 0 0 None] by (simp add: match_glob_def alternatives_def)

lemma match_glob_complete: "star \<notin> set v \<Longrightarrow> match_glob m v \<longleftrightarrow> glob m v"
  using glob_loop_correct [of m v 0 0 None] by (simp add: match_glob_def loop_inv_def alternatives_def)

section \<open>A common beginning of mask and value\<close>

definition saved_shift :: "nat \<Rightarrow> (nat \<times> nat) option \<Rightarrow> (nat \<times> nat) option" where
  "saved_shift n sv = map_option (\<lambda>(s, r). (n + s, n + r)) sv"

lemma glob_loop_shift:
  "glob_loop (u @ m) (u @ v) (length u + mi) (length u + vi) (saved_shift (length u) sv) = glob_loop m v mi vi sv"
proof (induction m v mi vi sv rule: glob_loop.induct)
  case (1 m v mi vi sv)
  consider (over) "\<not> vi < length v" | (same) "vi < length v" "mi < length m \<and> (m ! mi = qmark \<or> m ! mi = v ! vi)"
    | (star) "vi < length v" "\<not> (mi < length m \<and> (m ! mi = qmark \<or> m ! mi = v ! vi))" "mi < length m \<and> m ! mi = star"
    | (retry) "vi < length v" "\<not> (mi < length m \<and> (m ! mi = qmark \<or> m ! mi = v ! vi))" "\<not> (mi < length m \<and> m ! mi = star)"
    by blast
  then show ?case
  proof cases
    case over
    then show ?thesis by (simp add: glob_loop.simps)
  next
    case same
    with "1.IH"(1) show ?thesis
      by (subst (1 2) glob_loop.simps) (simp add: nth_append)
  next
    case star
    with "1.IH"(2) show ?thesis
      by (subst (1 2) glob_loop.simps) (simp add: nth_append saved_shift_def)
  next
    case retry
    with "1.IH"(3) show ?thesis
      by (subst (1 2) glob_loop.simps) (auto simp: nth_append saved_shift_def split: option.split)
  qed
qed

text \<open>The loop walks over it without looking for stars.\<close>

lemma match_glob_append: "match_glob (u @ m) (u @ v) = match_glob m v"
proof -
  have "glob_loop (u @ m) (u @ v) (length u - n) (length u - n) None = glob_loop (u @ m) (u @ v) (length u) (length u) None"
    if "n \<le> length u" for n using that
  proof (induction n)
    case (Suc n)
    let ?i = "length u - Suc n"
    have "?i < length u" and next_i: "Suc ?i = length u - n" using Suc.prems by simp_all
    then have "glob_loop (u @ m) (u @ v) ?i ?i None = glob_loop (u @ m) (u @ v) (Suc ?i) (Suc ?i) None"
      by (simp add: glob_loop.simps [of "u @ m" "u @ v" ?i ?i] nth_append)
    with Suc next_i show ?case by simp
  qed simp
  from this [of "length u"] show ?thesis
    using glob_loop_shift [of u m v 0 0 None] by (simp add: match_glob_def saved_shift_def)
qed

lemma glob_literal:
  "star \<notin> set u \<Longrightarrow> qmark \<notin> set u \<Longrightarrow> glob (u @ m) (u @ v) = glob m v"
  by (induction u) auto

section \<open>Properties\<close>

text \<open>
  C26: on every value without a literal star the backtracking loop decides exactly the language
  of the mask, for masks of any length and any number of stars.
\<close>

theorem match_glob_exact: "star \<notin> set v \<Longrightarrow> match_glob m v = glob m v"
  by (rule match_glob_complete)

theorem match_glob_exact_witness:
  "match_glob (lit ''*a*b'') (lit ''aabab'') = glob (lit ''*a*b'') (lit ''aabab'')"
  by (rule match_glob_exact) simp

text \<open>
  C27: the restriction to values without a star is needed. The loop compares the mask character
  with the value before it looks for a star, so a star of the mask that meets a star of the name is
  consumed as a literal and offers no alternatives: after a common beginning such a mask matches exactly
  the names whose rest its rest matches, while by the meaning of a mask the rest may match any suffix.
\<close>

theorem match_glob_literal_star:
  assumes "star \<notin> set u" and "qmark \<notin> set u" and "star \<notin> set v"
  shows "(match_glob (u @ star # m) (u @ star # v) \<longleftrightarrow> glob m v) \<and>
    (glob (u @ star # m) (u @ star # v) \<longleftrightarrow> (\<exists>k\<le>Suc (length v). glob m (drop k (star # v))))"
proof
  show "match_glob (u @ star # m) (u @ star # v) \<longleftrightarrow> glob m v"
    using match_glob_append [of "u @ [star]" m v] match_glob_complete [OF assms(3)] by simp
  show "glob (u @ star # m) (u @ star # v) \<longleftrightarrow> (\<exists>k\<le>Suc (length v). glob m (drop k (star # v)))"
    using glob_literal [OF assms(1,2), of "star # m" "star # v"] glob_star [of m "star # v"] by simp
qed

text \<open>The mask \<open>a*\<close> and the name \<open>a*b\<close>: matched by its meaning, refused by the loop.\<close>

theorem match_glob_literal_star_witness:
  "glob (lit ''a*'') (lit ''a*b'') \<and> \<not> match_glob (lit ''a*'') (lit ''a*b'')"
  using match_glob_literal_star [of "lit ''a''" "lit ''b''" "[]"] by auto

end
