(* ===== verification/Rules_Plan.thy ===== *)
theory Rules_Plan
  imports Rules
begin

text \<open>
  What a plan of \<open>rules.py\<close> guarantees: the stages of \<open>plan_rows\<close> (single plans,
  manual-review names, target groups), the rows it returns against the items it was given, the
  choice of the rule, the absence of shared and of occupied targets, and the counts. The lemmas
  hold for all callbacks, whatever they answer.
\<close>

section \<open>Blocking rows\<close>

lemma first_occurrences_props [simp]:
  "set (first_occurrences xs) = set xs" "distinct (first_occurrences xs)"
  by (simp_all add: first_occurrences_def)

definition kept_or_blocked :: "plan_row \<Rightarrow> plan_row \<Rightarrow> bool" where
  "kept_or_blocked r r' \<longleftrightarrow> r' = r \<or> (\<exists>rc kind info others. r' = blocked r rc kind info others)"

lemma kept_or_blocked_refl [simp]: "kept_or_blocked r r" "kept_or_blocked r (blocked r rc k i ids)"
  by (auto simp: kept_or_blocked_def)

lemma blocked_fields [simp]:
  "p_item_id (blocked r rc k i ids) = p_item_id r" "p_item_revision (blocked r rc k i ids) = p_item_revision r"
  "p_source (blocked r rc k i ids) = p_source r" "p_filename (blocked r rc k i ids) = p_filename r"
  "p_company_id (blocked r rc k i ids) = p_company_id r"
  "p_predicted_state (blocked r rc k i ids) = REQUIRES_DECISION"
  "p_target (blocked r rc k i ids) = p_target r" "p_matched_rules (blocked r rc k i ids) = p_matched_rules r"
  "p_selected_rule (blocked r rc k i ids) = p_selected_rule r"
  by (simp_all add: blocked_def)

lemma block_row_run:
  "block_row row rc kind loc others source_info s = (Inr row', t) \<Longrightarrow>
   \<exists>info. row' = blocked row rc kind info others"
  by (auto simp: block_row_def act_run split: if_splits)

text \<open>\<open>exists\<close> never denies a location of \<open>occ\<close>.\<close>

definition reports :: "(location \<Rightarrow> ('s, bool) action) \<Rightarrow> (location \<Rightarrow> bool) \<Rightarrow> bool" where
  "reports exists occ \<longleftrightarrow> (\<forall>l s b t. occ l \<longrightarrow> exists l s = (Inr b, t) \<longrightarrow> b)"

lemma reports_none [simp]: "reports exists (\<lambda>_. False)"
  by (simp add: reports_def)

lemma reportsD: "reports exists occ \<Longrightarrow> occ l \<Longrightarrow> exists l s = (Inr b, t) \<Longrightarrow> b"
  by (auto simp: reports_def)

text \<open>The row's target is one of the locations \<open>occ\<close> says are occupied.\<close>

definition wants :: "(location \<Rightarrow> bool) \<Rightarrow> plan_row \<Rightarrow> bool" where
  "wants occ row \<longleftrightarrow> (\<exists>l. p_target row = Some l \<and> occ l)"

lemma block_group_run:
  assumes run: "block_group exists source_info ixs rows s = (Inr rows', t)"
    and ixs: "distinct ixs" "ixs \<noteq> []" "\<forall>i\<in>set ixs. i < length rows"
    and tgt: "p_target (rows ! hd ixs) \<noteq> None"
    and occ: "reports exists occ"
  shows "length rows' = length rows" and "j \<notin> set ixs \<Longrightarrow> rows' ! j = rows ! j"
    and "j \<in> set ixs \<Longrightarrow> kept_or_blocked (rows ! j) (rows' ! j)"
    and "j \<in> set ixs \<Longrightarrow> 1 < length ixs \<or> wants occ (rows ! j) \<Longrightarrow> p_predicted_state (rows' ! j) = REQUIRES_DECISION"
proof -
  obtain loc where loc: "p_target (rows ! hd ixs) = Some loc" using tgt by blast
  have "length rows' = length rows \<and> (\<forall>j. (j \<notin> set ixs \<longrightarrow> rows' ! j = rows ! j) \<and>
     (j \<in> set ixs \<longrightarrow> kept_or_blocked (rows ! j) (rows' ! j)) \<and>
     (j \<in> set ixs \<and> (1 < length ixs \<or> wants occ (rows ! j)) \<longrightarrow> p_predicted_state (rows' ! j) = REQUIRES_DECISION))"
  proof (cases "1 < length ixs")
    case True
    let ?I = "\<lambda>ys rs. length rs = length rows \<and> (\<forall>j. (j \<notin> set ys \<longrightarrow> rs ! j = rows ! j) \<and>
       (j \<in> set ys \<longrightarrow> kept_or_blocked (rows ! j) (rs ! j) \<and> p_predicted_state (rs ! j) = REQUIRES_DECISION))"
    have "?I ixs rows'"
    proof (rule fold_act_inv [where I = ?I])
      show "fold_act (\<lambda>i rs. bnd (block_row (rs ! i) TARGET_OCCUPIED DUPLICATE_PLAN_TARGET loc
              (map (\<lambda>j. p_item_id (rs ! j)) (filter (\<lambda>j. j \<noteq> i) ixs)) source_info)
              (\<lambda>row. ret (rs[i := row]))) ixs rows s = (Inr rows', t)"
        using run True loc by (simp add: block_group_def)
    next
      fix ys x zs c s d t
      assume xs: "ixs = ys @ x # zs" and inv: "?I ys c"
        and st: "bnd (block_row (c ! x) TARGET_OCCUPIED DUPLICATE_PLAN_TARGET loc
              (map (\<lambda>j. p_item_id (c ! j)) (filter (\<lambda>j. j \<noteq> x) ixs)) source_info)
              (\<lambda>row. ret (c[x := row])) s = (Inr d, t)"
      from xs ixs have x: "x < length c" "x \<notin> set ys" using inv by auto
      from st obtain info where "d = c[x := blocked (c ! x) TARGET_OCCUPIED DUPLICATE_PLAN_TARGET info
           (map (\<lambda>j. p_item_id (c ! j)) (filter (\<lambda>j. j \<noteq> x) ixs))]"
        by (auto simp: act_run dest!: block_row_run)
      with inv x show "?I (ys @ [x]) d"
        by (auto simp: nth_list_update)
    qed simp
    then show ?thesis using True by blast
  next
    case False
    with ixs obtain x where x: "ixs = [x]" by (cases ixs) auto
    with run loc ixs have "rows' = rows \<and> \<not> occ loc \<or> (\<exists>rc k i ids. rows' = rows[x := blocked (rows ! x) rc k i ids])"
      by (auto simp: block_group_def act_run split: if_splits dest!: block_row_run dest: reportsD [OF occ])
    with x ixs loc show ?thesis by (auto simp: nth_list_update wants_def)
  qed
  then show "length rows' = length rows" and "j \<notin> set ixs \<Longrightarrow> rows' ! j = rows ! j"
    and "j \<in> set ixs \<Longrightarrow> kept_or_blocked (rows ! j) (rows' ! j)"
    and "j \<in> set ixs \<Longrightarrow> 1 < length ixs \<or> wants occ (rows ! j) \<Longrightarrow> p_predicted_state (rows' ! j) = REQUIRES_DECISION"
    by blast+
qed

lemma row_key_metadata [simp]: "row_key (r\<lparr>p_source_metadata := x\<rparr>) = row_key r"
  by (simp add: row_key_def)

lemma row_key_Some:
  "row_key r = Some k \<Longrightarrow> p_predicted_state r = WILL_MOVE \<and> (\<exists>l. p_target r = Some l)"
  by (auto simp: row_key_def split: if_splits)

lemma planned_props:
  assumes "ixs \<in> set (planned rows)"
  obtains k where "ixs = filter (\<lambda>i. row_key (rows ! i) = Some k) [0..<length rows]" "ixs \<noteq> []"
proof -
  from assms obtain k where k: "ixs = filter (\<lambda>i. row_key (rows ! i) = Some k) [0..<length rows]"
    and mem: "k \<in> set (List.map_filter row_key rows)"
    by (auto simp: planned_def)
  from mem obtain r where "r \<in> set rows" "row_key r = Some k"
    by (auto simp: List.map_filter_def)
  then obtain i where "i < length rows" "row_key (rows ! i) = Some k"
    by (auto simp: in_set_conv_nth)
  with k have "i \<in> set ixs" by simp
  then have "ixs \<noteq> []" by auto
  with k show thesis by (rule that)
qed

lemma planned_covers:
  "i < length rows \<Longrightarrow> row_key (rows ! i) = Some k \<Longrightarrow>
   filter (\<lambda>i. row_key (rows ! i) = Some k) [0..<length rows] \<in> set (planned rows)"
  by (force simp: planned_def List.map_filter_def in_set_conv_nth)

text \<open>The groups are pairwise disjoint, since each fixes one target.\<close>

lemma planned_disjoint:
  assumes "planned rows = gs @ ixs # hs" and "g \<in> set gs"
  shows "set g \<inter> set ixs = {}"
proof -
  let ?ks = "first_occurrences (List.map_filter row_key rows)"
  let ?f = "\<lambda>k. filter (\<lambda>i. row_key (rows ! i) = Some k) [0..<length rows]"
  from assms(1) obtain ks k ks' where ks: "?ks = ks @ k # ks'" "map ?f ks = gs" "?f k = ixs"
    by (auto simp: planned_def map_eq_append_conv map_eq_Cons_conv)
  have "distinct (ks @ k # ks')" using ks(1) first_occurrences_props(2) by metis
  with ks assms(2) show ?thesis by auto
qed

lemma apply_target_collisions_run:
  assumes run: "apply_target_collisions rows exists source_info s = (Inr rows', t)"
    and occ: "reports exists occ"
  shows "length rows' = length rows" and "kept_or_blocked (rows ! j) (rows' ! j)"
    and "ixs \<in> set (planned rows) \<Longrightarrow> j \<in> set ixs \<Longrightarrow> 1 < length ixs \<or> wants occ (rows ! j) \<Longrightarrow>
         p_predicted_state (rows' ! j) = REQUIRES_DECISION"
    and "rows' ! j \<noteq> rows ! j \<Longrightarrow> p_predicted_state (rows ! j) = WILL_MOVE"
proof -
  let ?I = "\<lambda>gs rs. length rs = length rows \<and> (\<forall>j. kept_or_blocked (rows ! j) (rs ! j)) \<and>
     (\<forall>j. (\<forall>g\<in>set gs. j \<notin> set g) \<longrightarrow> rs ! j = rows ! j) \<and>
     (\<forall>j. rs ! j \<noteq> rows ! j \<longrightarrow> p_predicted_state (rows ! j) = WILL_MOVE) \<and>
     (\<forall>g\<in>set gs. \<forall>j\<in>set g. 1 < length g \<or> wants occ (rows ! j) \<longrightarrow> p_predicted_state (rs ! j) = REQUIRES_DECISION)"
  have "?I (planned rows) rows'"
  proof (rule fold_act_inv [where I = ?I])
    show "fold_act (block_group exists source_info) (planned rows) rows s = (Inr rows', t)"
      using run by (simp add: apply_target_collisions_def)
  next
    fix gs g hs c s d t
    assume p: "planned rows = gs @ g # hs" and inv: "?I gs c"
      and st: "block_group exists source_info g c s = (Inr d, t)"
    from p have "g \<in> set (planned rows)" by simp
    then obtain k where k: "g = filter (\<lambda>i. row_key (rows ! i) = Some k) [0..<length rows]" "g \<noteq> []"
      by (rule planned_props)
    have disj: "\<And>j h. h \<in> set gs \<Longrightarrow> j \<in> set g \<Longrightarrow> j \<notin> set h"
      using planned_disjoint [OF p] by blast
    then have same: "\<And>j. j \<in> set g \<Longrightarrow> c ! j = rows ! j" using inv by blast
    have dg: "distinct g" "\<forall>i\<in>set g. i < length c" using k inv by auto
    have "hd g \<in> set g" using k(2) by (rule hd_in_set)
    then have tgt: "p_target (c ! hd g) \<noteq> None"
      using k(1) same row_key_Some by fastforce
    note G = block_group_run [OF st dg(1) k(2) dg(2) tgt occ]
    show "?I (gs @ [g]) d"
    proof (intro conjI allI ballI impI)
      show "length d = length rows" using G(1) inv by simp
      show "kept_or_blocked (rows ! j) (d ! j)" for j
        using G(2,3) inv same by (cases "j \<in> set g") (metis, metis)
      show "d ! j = rows ! j" if "\<forall>h\<in>set (gs @ [g]). j \<notin> set h" for j
        using that G(2) inv by simp
      show "p_predicted_state (rows ! j) = WILL_MOVE" if "d ! j \<noteq> rows ! j" for j
        using that G(2) inv k(1) row_key_Some by (cases "j \<in> set g") auto
      show "p_predicted_state (d ! j) = REQUIRES_DECISION"
        if "h \<in> set (gs @ [g])" "j \<in> set h" "1 < length h \<or> wants occ (rows ! j)" for h j
      proof (cases "h = g")
        case True
        with that same [of j] show ?thesis using G(4) [of j] by simp
      next
        case False
        with that have h: "h \<in> set gs" by simp
        with that(2) disj have "j \<notin> set g" by blast
        then have "d ! j = c ! j" by (rule G(2))
        with h that inv show ?thesis by metis
      qed
    qed
  qed simp
  then show "length rows' = length rows" and "kept_or_blocked (rows ! j) (rows' ! j)"
    and "ixs \<in> set (planned rows) \<Longrightarrow> j \<in> set ixs \<Longrightarrow> 1 < length ixs \<or> wants occ (rows ! j) \<Longrightarrow>
         p_predicted_state (rows' ! j) = REQUIRES_DECISION"
    and "rows' ! j \<noteq> rows ! j \<Longrightarrow> p_predicted_state (rows ! j) = WILL_MOVE"
    by blast+
qed

section \<open>The rows of a plan\<close>

lemma plan_one_run:
  assumes "plan_one cf item rules make_location s = (Inr row, t)"
  shows "p_item_id row = q_item_id item" "p_item_revision row = q_item_revision item"
    "p_source row = q_source item" "p_filename row = q_filename item" "p_company_id row = q_company_id item"
    "p_predicted_state row = P_NOT_READY \<longleftrightarrow> \<not> plannable item" "p_predicted_state row \<noteq> REQUIRES_DECISION"
    "p_predicted_state row = WILL_MOVE \<longleftrightarrow> p_target row \<noteq> None"
    "p_predicted_state row = WILL_MOVE \<longleftrightarrow> p_selected_rule row \<noteq> None"
  using assms
  by (auto simp: plan_one_def base_row_def with_state_def act_run Let_def split: if_splits)

lemma manual_collision_run:
  "manual_collision mt exists make_location source_info row s = (Inr row', t) \<Longrightarrow>
   row' = row \<or> p_predicted_state row = WILL_MANUAL_REVIEW \<and>
     (\<exists>rc k i ids. row' = blocked row rc k i ids)"
  by (auto simp: manual_collision_def act_run split: if_splits dest!: block_row_run)

definition row_for :: "queue_item \<Rightarrow> plan_row \<Rightarrow> bool" where
  "row_for item row \<longleftrightarrow> p_item_id row = q_item_id item \<and> p_item_revision row = q_item_revision item \<and>
     p_source row = q_source item \<and> p_filename row = q_filename item \<and> p_company_id row = q_company_id item \<and>
     (p_predicted_state row = P_NOT_READY \<longleftrightarrow> \<not> plannable item)"

lemma row_for_blocked: "row_for item row \<Longrightarrow> p_predicted_state row \<noteq> P_NOT_READY \<Longrightarrow> row_for item (blocked row rc k i ids)"
  by (simp add: row_for_def)

text \<open>
  What a successful planning run did: the rows of the single plans, then the rows after the
  manual-review check, then the rows after the target check, in one order.
\<close>

lemma plan_rows_stages:
  assumes "plan_rows cf items rules mt exists make_location source_info s = (Inr rows, t)"
  obtains rows1 rows2 rows3 u u' where
    "list_all2 (\<lambda>item row. \<exists>s' t'. plan_one cf item rules make_location s' = (Inr row, t')) items rows1"
    "list_all2 (\<lambda>row row'. \<exists>s' t'. manual_collision mt exists make_location source_info row s' = (Inr row', t')) rows1 rows2"
    "apply_target_collisions rows2 exists source_info u = (Inr rows3, u')"
    "rows = map (\<lambda>row. row\<lparr>p_source_metadata := None\<rparr>) rows3"
  using assms
  by (force simp: plan_rows_def act_run apply_manual_review_collisions_def dest!: collect_run)

text \<open>Each final row against the row of its single plan.\<close>

lemma plan_rows_nth:
  assumes run: "plan_rows cf items rules mt exists make_location source_info s = (Inr rows, t)"
    and i: "i < length items"
  obtains row1 s' t' where "plan_one cf (items ! i) rules make_location s' = (Inr row1, t')"
    "length rows = length items"
    "p_predicted_state (rows ! i) = WILL_MOVE \<Longrightarrow> rows ! i = row1\<lparr>p_source_metadata := None\<rparr>"
    "row_for (items ! i) (rows ! i)"
proof -
  from run obtain rows1 rows2 rows3 u u' where
    r1: "list_all2 (\<lambda>item row. \<exists>s' t'. plan_one cf item rules make_location s' = (Inr row, t')) items rows1"
    and r2: "list_all2 (\<lambda>row row'. \<exists>s' t'. manual_collision mt exists make_location source_info row s' = (Inr row', t')) rows1 rows2"
    and r3: "apply_target_collisions rows2 exists source_info u = (Inr rows3, u')"
    and r: "rows = map (\<lambda>row. row\<lparr>p_source_metadata := None\<rparr>) rows3"
    by (rule plan_rows_stages)
  note len = list_all2_lengthD [OF r1] list_all2_lengthD [OF r2] apply_target_collisions_run(1) [OF r3 reports_none]
  from list_all2_nthD [OF r1 i] obtain s' t' where p1: "plan_one cf (items ! i) rules make_location s' = (Inr (rows1 ! i), t')"
    by blast
  have rf1: "row_for (items ! i) (rows1 ! i)" "p_predicted_state (rows1 ! i) \<noteq> REQUIRES_DECISION"
    using plan_one_run [OF p1] by (simp_all add: row_for_def)
  from list_all2_nthD [OF r2, of i] i len have
    m: "rows2 ! i = rows1 ! i \<or> p_predicted_state (rows1 ! i) = WILL_MANUAL_REVIEW \<and>
     (\<exists>rc k j ids. rows2 ! i = blocked (rows1 ! i) rc k j ids)"
    by (auto dest: manual_collision_run)
  note k = apply_target_collisions_run(2) [OF r3 reports_none, of i]
  have "row_for (items ! i) (rows2 ! i)" using m rf1 by (auto simp: row_for_def)
  show thesis
  proof (rule that [OF p1])
    show "length rows = length items" using len r by simp
  next
    assume "p_predicted_state (rows ! i) = WILL_MOVE"
    then have w3: "p_predicted_state (rows3 ! i) = WILL_MOVE" using i len r by simp
    then have "rows3 ! i = rows2 ! i" using k by (auto simp: kept_or_blocked_def)
    moreover from this w3 have "rows2 ! i = rows1 ! i" using m by auto
    ultimately show "rows ! i = (rows1 ! i)\<lparr>p_source_metadata := None\<rparr>"
      using i len r by simp
  next
    have "row_for (items ! i) (rows3 ! i)"
    proof (cases "rows3 ! i = rows2 ! i")
      case True
      with \<open>row_for (items ! i) (rows2 ! i)\<close> show ?thesis by simp
    next
      case False
      then have "p_predicted_state (rows2 ! i) = WILL_MOVE"
        using apply_target_collisions_run(4) [OF r3 reports_none, of i] by simp
      with k False \<open>row_for (items ! i) (rows2 ! i)\<close> show ?thesis
        unfolding kept_or_blocked_def by (metis plan_state.distinct(5) row_for_blocked)
    qed
    then show "row_for (items ! i) (rows ! i)"
      using i len r by (simp add: row_for_def)
  qed
qed

lemma plan_rows_length:
  assumes "plan_rows cf items rules mt exists make_location source_info s = (Inr rows, t)"
  shows "length rows = length items"
proof -
  from assms obtain rows1 rows2 rows3 u u' where
    r1: "list_all2 (\<lambda>item row. \<exists>s' t'. plan_one cf item rules make_location s' = (Inr row, t')) items rows1"
    and r2: "list_all2 (\<lambda>row row'. \<exists>s' t'. manual_collision mt exists make_location source_info row s' = (Inr row', t')) rows1 rows2"
    and r3: "apply_target_collisions rows2 exists source_info u = (Inr rows3, u')"
    and r: "rows = map (\<lambda>row. row\<lparr>p_source_metadata := None\<rparr>) rows3"
    by (rule plan_rows_stages)
  show ?thesis
    using list_all2_lengthD [OF r1] list_all2_lengthD [OF r2] apply_target_collisions_run(1) [OF r3 reports_none] r
    by simp
qed

text \<open>Two final rows never move to one target.\<close>

lemma plan_rows_distinct_targets:
  assumes run: "plan_rows cf items rules mt exists make_location source_info s = (Inr rows, t)"
    and ij: "i < length rows" "j < length rows" "i \<noteq> j"
    and key: "row_key (rows ! i) = Some k" "row_key (rows ! j) = Some k"
  shows False
proof -
  from run obtain rows1 rows2 rows3 u u' where
    r3: "apply_target_collisions rows2 exists source_info u = (Inr rows3, u')"
    and r: "rows = map (\<lambda>row. row\<lparr>p_source_metadata := None\<rparr>) rows3"
    by (rule plan_rows_stages)
  note len = apply_target_collisions_run(1) [OF r3 reports_none]
  have "row_key (rows3 ! h) = Some k \<Longrightarrow> row_key (rows2 ! h) = Some k" for h
    using apply_target_collisions_run(2) [OF r3 reports_none, of h]
    by (auto simp: kept_or_blocked_def row_key_def split: if_splits)
  then have k2: "row_key (rows2 ! i) = Some k" "row_key (rows2 ! j) = Some k"
    using key ij r by simp_all
  let ?g = "filter (\<lambda>i. row_key (rows2 ! i) = Some k) [0..<length rows2]"
  have mem: "i \<in> set ?g" "j \<in> set ?g" using k2 ij len r by auto
  then have "1 < length ?g"
    using ij(3) by (cases ?g rule: remdups_adj.cases) auto
  moreover have "?g \<in> set (planned rows2)"
    using planned_covers [of i rows2 k] k2 ij len r by simp
  ultimately have "p_predicted_state (rows3 ! i) = REQUIRES_DECISION"
    using apply_target_collisions_run(3) [OF r3 reports_none _ mem(1)] by blast
  with key(1) ij(1) r show False by (auto dest: row_key_Some)
qed

lemma arg_min_list_least:
  "xs \<noteq> [] \<Longrightarrow> y \<in> set xs \<Longrightarrow> (f (arg_min_list f xs) :: 'b::linorder) \<le> f y"
  by (simp add: f_arg_min_list_f)

text \<open>What makes a single plan a move: the choice of the rule.\<close>

definition chosen_rule ::
  "(ustr \<Rightarrow> ustr) \<Rightarrow> flat_rule list \<Rightarrow> queue_item \<Rightarrow> flat_rule \<Rightarrow> bool" where
  "chosen_rule cf rules item r \<longleftrightarrow>
     r \<in> set rules \<and> match_rule cf r (loc_relative_path (q_source item)) \<and>
     (\<forall>r'\<in>set rules. match_rule cf r' (loc_relative_path (q_source item)) \<longrightarrow>
        r_priority r \<le> r_priority r' \<and>
        (r_priority r' = r_priority r \<longrightarrow>
           target_tuple (r_target r') (r_target_stem r') (q_filename item) =
           target_tuple (r_target r) (r_target_stem r) (q_filename item) \<and>
           (fr_dictionary_id r, r_rule_id r) \<le> (fr_dictionary_id r', r_rule_id r')))"

lemma winning_rules_mem:
  "r \<in> set (winning_rules matching) \<longleftrightarrow> r \<in> set matching \<and> (\<forall>r'\<in>set matching. r_priority r \<le> r_priority r')"
proof -
  have "r \<in> set matching \<Longrightarrow> r_priority r = Min (set (map r_priority matching)) \<longleftrightarrow>
      (\<forall>r'\<in>set matching. r_priority r \<le> r_priority r')"
    by (subst eq_Min_iff) auto
  then show ?thesis by (auto simp: winning_rules_def)
qed

lemma winning_rules_Nil: "winning_rules matching = [] \<longleftrightarrow> matching = []"
proof
  assume w: "winning_rules matching = []"
  show "matching = []"
  proof (rule ccontr)
    assume "matching \<noteq> []"
    then have "Min (set (map r_priority matching)) \<in> set (map r_priority matching)" by (intro Min_in) auto
    then obtain r where "r \<in> set matching" "r_priority r = Min (set (map r_priority matching))" by auto
    with w show False by (auto simp: winning_rules_def filter_empty_conv)
  qed
qed (simp add: winning_rules_def)

lemma plan_one_move:
  assumes run: "plan_one cf item rules make_location s = (Inr row, t)"
    and move: "p_predicted_state row = WILL_MOVE"
  shows "\<exists>r loc s' t'. chosen_rule cf rules item r \<and> p_selected_rule row = Some (reference r) \<and>
     p_target row = Some loc \<and>
     (let tup = target_tuple (r_target r) (r_target_stem r) (q_filename item)
      in make_location (fst tup) (snd tup) s' = (Inr loc, t'))"
proof -
  let ?m = "matching_rules cf rules item"
  let ?w = "winning_rules ?m"
  let ?ts = "target_tuples ?w (q_filename item)"
  let ?r = "arg_min_list (\<lambda>r. (fr_dictionary_id r, r_rule_id r)) ?w"
  from run move obtain loc where pl: "plannable item" and m: "?m \<noteq> []" and one: "length ?ts = 1"
    and mk: "make_location (fst (hd ?ts)) (snd (hd ?ts)) s = (Inr loc, t)"
    and row: "p_selected_rule row = Some (reference ?r)" "p_target row = Some loc"
    by (auto simp: plan_one_def act_run Let_def base_row_def with_state_def split: if_splits)
  have w: "?w \<noteq> []" using m by (simp add: winning_rules_Nil)
  have rw: "?r \<in> set ?w" using w by (rule arg_min_list_in)
  obtain tup where tup: "?ts = [tup]" using one by (cases ?ts) auto
  have same: "target_tuple (r_target r) (r_target_stem r) (q_filename item) = tup" if "r \<in> set ?w" for r
  proof -
    from that have "target_tuple (r_target r) (r_target_stem r) (q_filename item) \<in> set ?ts"
      by (simp add: target_tuples_def)
    with tup show ?thesis by simp
  qed
  have "chosen_rule cf rules item ?r"
    unfolding chosen_rule_def
  proof (intro conjI ballI impI)
    show "?r \<in> set rules" "match_rule cf ?r (loc_relative_path (q_source item))"
      using rw by (auto simp: winning_rules_mem matching_rules_def)
    fix r' assume r': "r' \<in> set rules" "match_rule cf r' (loc_relative_path (q_source item))"
    then have rm: "r' \<in> set ?m" by (simp add: matching_rules_def)
    then show "r_priority ?r \<le> r_priority r'" using rw by (auto simp: winning_rules_mem)
    assume "r_priority r' = r_priority ?r"
    with rm rw have r'w: "r' \<in> set ?w" by (auto simp: winning_rules_mem)
    then show "target_tuple (r_target r') (r_target_stem r') (q_filename item) =
        target_tuple (r_target ?r) (r_target_stem ?r) (q_filename item)"
      using same rw by simp
    show "(fr_dictionary_id ?r, r_rule_id ?r) \<le> (fr_dictionary_id r', r_rule_id r')"
      using arg_min_list_least [OF w r'w, of "\<lambda>r. (fr_dictionary_id r, r_rule_id r)"] by simp
  qed
  with row mk tup same [OF rw] show ?thesis by (auto simp: Let_def)
qed

text \<open>Rows that move never move to a location the existence check calls occupied.\<close>

lemma plan_rows_free_target:
  assumes run: "plan_rows cf items rules mt exists make_location source_info s = (Inr rows, t)"
    and occ: "reports exists occ"
    and i: "i < length rows" and move: "p_predicted_state (rows ! i) = WILL_MOVE"
    and tgt: "p_target (rows ! i) = Some l"
  shows "\<not> occ l"
proof
  assume l: "occ l"
  from run obtain rows1 rows2 rows3 u u' where
    r3: "apply_target_collisions rows2 exists source_info u = (Inr rows3, u')"
    and r: "rows = map (\<lambda>row. row\<lparr>p_source_metadata := None\<rparr>) rows3"
    by (rule plan_rows_stages)
  note R = apply_target_collisions_run [OF r3 occ]
  have st: "p_predicted_state (rows3 ! i) = WILL_MOVE" "p_target (rows3 ! i) = Some l"
    using i r move tgt by simp_all
  with R(2) [of i] have same: "rows3 ! i = rows2 ! i" by (auto simp: kept_or_blocked_def)
  with st obtain k where k: "row_key (rows2 ! i) = Some k" by (auto simp: row_key_def)
  let ?g = "filter (\<lambda>i. row_key (rows2 ! i) = Some k) [0..<length rows2]"
  have "i \<in> set ?g" using k i r R(1) by simp
  moreover have "?g \<in> set (planned rows2)" using planned_covers [of i rows2 k] k i r R(1) by simp
  ultimately have "p_predicted_state (rows3 ! i) = REQUIRES_DECISION"
    using R(3) [of ?g i] l st(2) same by (simp add: wants_def)
  with st show False by simp
qed

section \<open>Counts\<close>

definition counts_total :: "plan_counts \<Rightarrow> nat" where
  "counts_total c = pc_will_move c + pc_will_manual_review c + pc_requires_decision c + pc_not_ready c"

lemma count_row_fields:
  "counts_total (count_row row c) = Suc (counts_total c)"
  "pc_will_move (count_row row c) = pc_will_move c + (if p_predicted_state row = WILL_MOVE then 1 else 0)"
  "pc_will_manual_review (count_row row c) = pc_will_manual_review c + (if p_predicted_state row = WILL_MANUAL_REVIEW then 1 else 0)"
  "pc_requires_decision (count_row row c) = pc_requires_decision c + (if p_predicted_state row = REQUIRES_DECISION then 1 else 0)"
  "pc_not_ready (count_row row c) = pc_not_ready c + (if p_predicted_state row = P_NOT_READY then 1 else 0)"
  "pc_rule_conflicts (count_row row c) = pc_rule_conflicts c + (if manual_candidate row \<and> 2 \<le> length (p_matched_rules row) then 1 else 0)"
  "pc_no_scenario (count_row row c) = pc_no_scenario c + (if manual_candidate row \<and> p_matched_rules row = [] then 1 else 0)"
  by (auto simp: count_row_def count_state_def counts_total_def Let_def split: plan_state.splits)

lemma fold_count_rows:
  "counts_total (fold count_row rows c) = counts_total c + length rows"
  "pc_will_move (fold count_row rows c) = pc_will_move c + length (filter (\<lambda>r. p_predicted_state r = WILL_MOVE) rows)"
  "pc_rule_conflicts (fold count_row rows c) = pc_rule_conflicts c +
     length (filter (\<lambda>r. manual_candidate r \<and> 2 \<le> length (p_matched_rules r)) rows)"
  "pc_no_scenario (fold count_row rows c) = pc_no_scenario c +
     length (filter (\<lambda>r. manual_candidate r \<and> p_matched_rules r = []) rows)"
  by (induction rows arbitrary: c) (simp_all add: count_row_fields)

section \<open>Properties\<close>

text \<open>A small planning run, used to evaluate the properties.\<close>

definition demo_location :: "ustr \<Rightarrow> ustr \<Rightarrow> location" where
  "demo_location r p = \<lparr>loc_root_id = r, loc_relative_path = p, loc_display_path = p\<rparr>"

definition demo_item :: "string \<Rightarrow> string \<Rightarrow> queue_item" where
  "demo_item i name =
     \<lparr>q_item_id = lit i, q_item_revision = 1, q_company_id = lit ''c'', q_incoming_source_id = lit ''in'',
      q_source_name = lit ''In'', q_source = demo_location (lit ''in'') (lit name), q_filename = lit name,
      q_size_bytes = 1, q_modified_at = 0, q_status = Q_READY, q_reason_code = None, q_selectable = True,
      q_active_attempt_id = None, q_fingerprint = no_fingerprint, q_observed_at = 0, q_departed = False\<rparr>"

definition demo_rule :: "string \<Rightarrow> string \<Rightarrow> int \<Rightarrow> string \<Rightarrow> flat_rule" where
  "demo_rule i m p stem =
     \<lparr>r_rule_id = lit i, r_priority = p, r_match_field = BASENAME, r_mask = lit m,
      r_target = \<lparr>tg_root_id = lit ''ar'', tg_relative_directory = lit ''d''\<rparr>, r_target_stem = lit stem,
      fr_dictionary_id = lit ''di'', fr_version_id = None\<rparr>"

definition demo_plan :: "queue_item list \<Rightarrow> (exn + plan_row list) \<times> unit" where
  "demo_plan items =
     plan_rows (\<lambda>s. s) items [demo_rule ''r1'' ''*.pdf'' 2 ''late'', demo_rule ''r2'' ''i*'' 1 ''inv'']
       \<lparr>tg_root_id = lit ''manual-root'', tg_relative_directory = lit ''m''\<rparr>
       (\<lambda>l. ret (loc_relative_path l = lit ''d/late.pdf'')) (\<lambda>r p. ret (demo_location r p)) (\<lambda>l. ret None) ()"

definition demo_items :: "queue_item list" where
  "demo_items = [demo_item ''1'' ''i.pdf'', demo_item ''2'' ''x.pdf'', demo_item ''3'' ''q'']"

definition demo_reference :: "string \<Rightarrow> rule_ref" where
  "demo_reference r = \<lparr>rr_dictionary_id = lit ''di'', rr_version_id = None, rr_rule_id = lit r\<rparr>"

lemma demo_plan_runs:
  obtains x y z where "demo_plan demo_items = (Inr [x, y, z], ())"
    and "p_predicted_state x = WILL_MOVE" and "p_predicted_state y = REQUIRES_DECISION"
    and "p_selected_rule x = Some (demo_reference ''r2'')"
    and "p_target x = Some (demo_location (lit ''ar'') (lit ''d/inv.pdf''))"
proof -
  have "(case fst (demo_plan demo_items) of
      Inr [x, y, z] \<Rightarrow> p_predicted_state x = WILL_MOVE \<and> p_predicted_state y = REQUIRES_DECISION \<and>
        p_selected_rule x = Some (demo_reference ''r2'') \<and>
        p_target x = Some (demo_location (lit ''ar'') (lit ''d/inv.pdf''))
    | _ \<Rightarrow> False)"
    by code_simp
  then show thesis
    using that by (cases "demo_plan demo_items") (simp split: sum.splits list.splits)
qed

text \<open>
  C25: a plan has one row per item, in the order of the items, each with the identity, revision,
  source and name of its item, and a row is \<open>NOT_READY\<close> exactly when its item is not in a
  plannable state or not selectable.
\<close>

theorem plan_rows_follow_items:
  "plan_rows cf items rules mt exists make_location source_info s = (Inr rows, t) \<Longrightarrow>
   list_all2 row_for items rows"
  by (auto simp: list_all2_conv_all_nth plan_rows_length elim: plan_rows_nth)

theorem plan_rows_follow_items_witness: "\<exists>rows. list_all2 row_for demo_items rows \<and> length rows = 3"
proof -
  obtain x y z where "demo_plan demo_items = (Inr [x, y, z], ())" by (rule demo_plan_runs)
  from plan_rows_follow_items [OF this [unfolded demo_plan_def]] show ?thesis
    by (intro exI [of _ "[x, y, z]"]) simp
qed

text \<open>
  C8: no plan moves two files to one place. Two different rows that are both \<open>WILL_MOVE\<close>
  have different targets, for every rule set and whatever the existence checks answer.
\<close>

theorem plan_rows_no_shared_target:
  assumes "plan_rows cf items rules mt exists make_location source_info s = (Inr rows, t)"
    and "i < length rows" and "j < length rows" and "i \<noteq> j"
    and "p_predicted_state (rows ! i) = WILL_MOVE" and "p_predicted_state (rows ! j) = WILL_MOVE"
    and "p_target (rows ! i) = Some a" and "p_target (rows ! j) = Some b"
  shows "(loc_root_id a, loc_relative_path a) \<noteq> (loc_root_id b, loc_relative_path b)"
  using assms plan_rows_distinct_targets [OF assms(1-4)] by (auto simp: row_key_def)

definition demo_pair :: "(exn + plan_row list) \<times> unit" where
  "demo_pair =
     plan_rows (\<lambda>s. s) [demo_item ''1'' ''i.pdf'', demo_item ''2'' ''x.pdf'']
       [demo_rule ''r1'' ''x.pdf'' 2 ''late'', demo_rule ''r2'' ''i*'' 1 ''inv'']
       \<lparr>tg_root_id = lit ''manual-root'', tg_relative_directory = lit ''m''\<rparr>
       (\<lambda>l. ret False) (\<lambda>r p. ret (demo_location r p)) (\<lambda>l. ret None) ()"

theorem plan_rows_no_shared_target_witness:
  "\<exists>x y a b. demo_pair = (Inr [x, y], ()) \<and> p_target x = Some a \<and> p_target y = Some b \<and>
     (loc_root_id a, loc_relative_path a) \<noteq> (loc_root_id b, loc_relative_path b)"
proof -
  have "(case fst demo_pair of
      Inr [x, y] \<Rightarrow> p_predicted_state x = WILL_MOVE \<and> p_predicted_state y = WILL_MOVE \<and>
        p_target x = Some (demo_location (lit ''ar'') (lit ''d/inv.pdf'')) \<and>
        p_target y = Some (demo_location (lit ''ar'') (lit ''d/late.pdf''))
    | _ \<Rightarrow> False)"
    by code_simp
  then obtain x y where f: "fst demo_pair = Inr [x, y]"
    and st: "p_predicted_state x = WILL_MOVE" "p_predicted_state y = WILL_MOVE"
    and tg: "p_target x = Some (demo_location (lit ''ar'') (lit ''d/inv.pdf''))"
      "p_target y = Some (demo_location (lit ''ar'') (lit ''d/late.pdf''))"
    by (simp only: split: sum.splits list.splits)
  from f have r: "demo_pair = (Inr [x, y], ())" by (simp add: prod_eq_iff)
  have "(loc_root_id (demo_location (lit ''ar'') (lit ''d/inv.pdf'')), loc_relative_path (demo_location (lit ''ar'') (lit ''d/inv.pdf''))) \<noteq>
    (loc_root_id (demo_location (lit ''ar'') (lit ''d/late.pdf'')), loc_relative_path (demo_location (lit ''ar'') (lit ''d/late.pdf'')))"
    by (rule plan_rows_no_shared_target [OF r [unfolded demo_pair_def], of 0 1])
      (simp_all add: st tg del: lit_simps)
  with r tg show ?thesis by blast
qed

text \<open>
  A row moves only to a location the existence check did not call occupied: if
  \<open>exists\<close> never denies the locations of a set, no \<open>WILL_MOVE\<close> row targets that set.
\<close>

theorem plan_rows_never_occupied:
  assumes "plan_rows cf items rules mt exists make_location source_info s = (Inr rows, t)"
    and "reports exists occ" and "i < length rows"
    and "p_predicted_state (rows ! i) = WILL_MOVE" and "p_target (rows ! i) = Some l"
  shows "\<not> occ l"
  using assms by (rule plan_rows_free_target)

theorem plan_rows_never_occupied_witness:
  "loc_relative_path (demo_location (lit ''ar'') (lit ''d/inv.pdf'')) \<noteq> lit ''d/late.pdf''"
proof -
  obtain x y z where r: "demo_plan demo_items = (Inr [x, y, z], ())" "p_predicted_state x = WILL_MOVE"
    "p_target x = Some (demo_location (lit ''ar'') (lit ''d/inv.pdf''))"
    by (rule demo_plan_runs)
  show ?thesis
    by (rule plan_rows_never_occupied [OF r(1) [unfolded demo_plan_def],
          of "\<lambda>l. loc_relative_path l = lit ''d/late.pdf''" 0])
      (simp_all only: nth_Cons_0 r(2,3), simp_all add: reports_def ret_eq)
qed

text \<open>
  C7: the rule that moves a file matches it with minimal priority; every rule of that priority
  that matches leads to the same final target; among them it has the least dictionary and rule
  identifier; and the planned target is the location of that rule's directory and stem with the
  file's own last suffix.
\<close>

theorem plan_rows_choose_rule:
  assumes "plan_rows cf items rules mt exists make_location source_info s = (Inr rows, t)"
    and "i < length items" and "p_predicted_state (rows ! i) = WILL_MOVE"
  shows "\<exists>r loc s' t'. chosen_rule cf rules (items ! i) r \<and>
     p_selected_rule (rows ! i) = Some (reference r) \<and> p_target (rows ! i) = Some loc \<and>
     (let tup = target_tuple (r_target r) (r_target_stem r) (q_filename (items ! i))
      in make_location (fst tup) (snd tup) s' = (Inr loc, t'))"
proof -
  from assms obtain row s' t' where "plan_one cf (items ! i) rules make_location s' = (Inr row, t')"
    and "rows ! i = row\<lparr>p_source_metadata := None\<rparr>"
    by (auto elim!: plan_rows_nth)
  with assms(3) plan_one_move [of cf "items ! i" rules make_location s' row t'] show ?thesis by simp
qed

theorem plan_rows_choose_rule_witness:
  "\<exists>r. chosen_rule (\<lambda>s. s) [demo_rule ''r1'' ''*.pdf'' 2 ''late'', demo_rule ''r2'' ''i*'' 1 ''inv'']
         (demo_items ! 0) r \<and> reference r = demo_reference ''r2''"
proof -
  obtain x y z where r: "demo_plan demo_items = (Inr [x, y, z], ())" "p_predicted_state x = WILL_MOVE"
    "p_selected_rule x = Some (demo_reference ''r2'')"
    by (rule demo_plan_runs)
  have "0 < length demo_items" by (simp add: demo_items_def)
  from plan_rows_choose_rule [OF r(1) [unfolded demo_plan_def] this] r(2,3) show ?thesis by auto
qed

end
