(* ===== verification/Search.thy ===== *)
theory Search
  imports Domain
begin

text \<open>
  \<open>search.py\<close>, a pure module: tokens, the path schema and its compiled form, the items of an
  index, the query language, matching and scoring, natural sort keys, marker chains, facets and the
  sorting of rows; \<open>instant_sort_key\<close> of \<open>common.py\<close>. The Unicode tables (\<open>\w\<close>, \<open>\d\<close> with
  its values, case folding) and SHA-256 are the record \<open>chars\<close>; the texts of messages are left
  out. The two answers \<open>search\<close> and \<open>facet\<close>, which may use a prepared index, are in
  \<open>Search_Answer\<close>.
\<close>

record chars =
  ch_word :: "nat \<Rightarrow> bool"
  ch_digit :: "nat \<Rightarrow> nat option"
  ch_casefold :: "ustr \<Rightarrow> ustr"
  ch_sha256 :: "ustr \<Rightarrow> ustr"

section \<open>Failing computations\<close>

definition ebind :: "exn + 'a \<Rightarrow> ('a \<Rightarrow> exn + 'b) \<Rightarrow> exn + 'b" where
  "ebind m f = (case m of Inl e \<Rightarrow> Inl e | Inr x \<Rightarrow> f x)"

definition eguard :: "bool \<Rightarrow> exn \<Rightarrow> exn + unit" where
  "eguard c e = (if c then Inr () else Inl e)"

lemma ebind_simps [simp]: "ebind (Inl e) f = Inl e" "ebind (Inr x) f = f x"
  by (simp_all add: ebind_def)

lemma eguard_simps [simp]: "eguard True e = Inr ()" "eguard False e = Inl e"
  by (simp_all add: eguard_def)

section \<open>Tokens\<close>

definition is_digit :: "chars \<Rightarrow> nat \<Rightarrow> bool" where
  "is_digit C c \<longleftrightarrow> ch_digit C c \<noteq> None"

text \<open>\<open>[^\W\d_]\<close>\<close>

definition is_letter :: "chars \<Rightarrow> nat \<Rightarrow> bool" where
  "is_letter C c \<longleftrightarrow> ch_word C c \<and> \<not> is_digit C c \<and> c \<noteq> 95"

text \<open>\<open>_LETTER_DIGIT_BOUNDARY.sub(" ", text)\<close>\<close>

fun separate :: "chars \<Rightarrow> ustr \<Rightarrow> ustr" where
  "separate C (a # b # s) =
     (if is_letter C a \<and> is_digit C b \<or> is_digit C a \<and> is_letter C b
      then a # 32 # separate C (b # s) else a # separate C (b # s))"
| "separate C s = s"

text \<open>\<open>_TOKEN_SEPARATOR\<close>: space, hyphen, underscore, dot, backslash, slash.\<close>

definition token_separator :: "nat \<Rightarrow> bool" where
  "token_separator c \<longleftrightarrow> is_space c \<or> c \<in> {45, 95, 46, 92, 47}"

text \<open>Splitting at separators; the parts between adjacent separators are empty and dropped.\<close>

fun split_where :: "(nat \<Rightarrow> bool) \<Rightarrow> ustr \<Rightarrow> ustr list" where
  "split_where sep [] = [[]]"
| "split_where sep (c # s) =
     (if sep c then [] # split_where sep s
      else (case split_where sep s of [] \<Rightarrow> [[c]] | w # ws \<Rightarrow> (c # w) # ws))"

definition words_of :: "(nat \<Rightarrow> bool) \<Rightarrow> ustr \<Rightarrow> ustr list" where
  "words_of sep s = filter (\<lambda>w. w \<noteq> []) (split_where sep s)"

definition tokens :: "chars \<Rightarrow> ustr \<Rightarrow> ustr list" where
  "tokens C text = map (ch_casefold C) (words_of token_separator (separate C text))"

text \<open>The final suffix with its dot; none for a dotfile or a trailing dot.\<close>

definition search_extension :: "ustr \<Rightarrow> ustr" where
  "search_extension filename =
     (if starts_with filename [dot] \<and> count_list filename dot = 1 then []
      else (case rfind dot filename of
              None \<Rightarrow> []
            | Some i \<Rightarrow> if 0 < i \<and> drop (Suc i) filename \<noteq> [] then drop i filename else []))"

section \<open>Schemas\<close>

text \<open>A dictionary built from a list of pairs: a later key replaces an earlier one.\<close>

definition dict_get :: "('k \<times> 'v) list \<Rightarrow> 'k \<Rightarrow> 'v option" where
  "dict_get pairs k = map_of (rev pairs) k"

text \<open>\<open>str(company).casefold()\<close>; the text of a missing company is \<open>None\<close>.\<close>

definition company_key :: "chars \<Rightarrow> ustr list \<Rightarrow> ustr" where
  "company_key C parsed = ch_casefold C (if 1 < length parsed then parsed ! 1 else lit ''None'')"

definition levels :: "chars \<Rightarrow> schema \<Rightarrow> ustr list \<Rightarrow> level list" where
  "levels C s parsed =
     sc_root_levels s @
     (case dict_get (map (\<lambda>(k, v). (ch_casefold C k, v)) (sc_tail s)) (company_key C parsed) of
        None \<Rightarrow> [] | Some tail \<Rightarrow> tail)"

record compiled_level =
  cl_id :: ustr
  cl_name :: ustr
  cl_folded :: "ustr list"
  cl_optional :: bool

record compiled_schema =
  cs_version :: ustr
  cs_root_levels :: "compiled_level list"
  cs_tail :: "(ustr \<times> compiled_level list) list"

definition compile_level :: "chars \<Rightarrow> level \<Rightarrow> compiled_level" where
  "compile_level C l =
     \<lparr>cl_id = lv_id l, cl_name = lv_name l, cl_folded = map (ch_casefold C) (lv_values l),
      cl_optional = lv_optional l\<rparr>"

definition compile_schema :: "chars \<Rightarrow> schema \<Rightarrow> compiled_schema" where
  "compile_schema C s =
     \<lparr>cs_version = sc_version s, cs_root_levels = map (compile_level C) (sc_root_levels s),
      cs_tail = map (\<lambda>(k, v). (ch_casefold C k, map (compile_level C) v)) (sc_tail s)\<rparr>"

definition compiled_levels :: "chars \<Rightarrow> compiled_schema \<Rightarrow> ustr list \<Rightarrow> compiled_level list" where
  "compiled_levels C s parsed =
     cs_root_levels s @ (case dict_get (cs_tail s) (company_key C parsed) of None \<Rightarrow> [] | Some tail \<Rightarrow> tail)"

section \<open>Markers and items\<close>

datatype marker_kind = VALUE | UNRECOGNIZED

record marker =
  mk_marker_id :: ustr
  mk_level_id :: ustr
  mk_level_name :: ustr
  mk_raw_value :: "ustr option"
  mk_display_value :: ustr
  mk_kind :: marker_kind

datatype issue_code = UNEXPECTED_DEPTH | MISSING_REQUIRED_LEVEL | INVALID_LEVEL_VALUE

record structure_issue =
  is_level_id :: "ustr option"
  is_level_name :: ustr
  is_code :: issue_code

text \<open>The two fixed Russian labels, as code points.\<close>

definition unrecognised_label :: ustr where
  "unrecognised_label = [1053, 1077, 32, 1088, 1072, 1089, 1087, 1086, 1079, 1085, 1072, 1085, 1086]"

definition extra_level_label :: ustr where
  "extra_level_label = [1044, 1086, 1087, 1086, 1083, 1085, 1080, 1090, 1077, 1083, 1100, 1085, 1099, 1081, 32,
     1091, 1088, 1086, 1074, 1077, 1085, 1100]"

definition stable_id :: "chars \<Rightarrow> ustr list \<Rightarrow> ustr" where
  "stable_id C ps = lit ''marker-'' @ take 20 (ch_sha256 C (join_with 31 ps))"

text \<open>\<open>_marker\<close>: a missing raw value is the kind \<open>UNRECOGNIZED\<close>.\<close>

definition marker_of :: "chars \<Rightarrow> ustr \<Rightarrow> ustr \<Rightarrow> ustr \<times> ustr \<Rightarrow> ustr option \<Rightarrow> ustr list \<Rightarrow> marker" where
  "marker_of C root_id version level value parents =
     (let parent_key = join_with 30 parents in
      case value of
        None \<Rightarrow>
          \<lparr>mk_marker_id = stable_id C [root_id, version, fst level, parent_key, lit ''unrecognized''],
           mk_level_id = fst level, mk_level_name = snd level, mk_raw_value = None,
           mk_display_value = unrecognised_label, mk_kind = UNRECOGNIZED\<rparr>
      | Some v \<Rightarrow>
          \<lparr>mk_marker_id = stable_id C [root_id, version, fst level, parent_key, v, lit ''value''],
           mk_level_id = fst level, mk_level_name = snd level, mk_raw_value = Some v,
           mk_display_value = v, mk_kind = VALUE\<rparr>)"

definition issue_of :: "(ustr \<times> ustr) option \<Rightarrow> issue_code \<Rightarrow> structure_issue" where
  "issue_of level code =
     \<lparr>is_level_id = map_option fst level, is_level_name = (case level of None \<Rightarrow> extra_level_label | Some l \<Rightarrow> snd l),
      is_code = code\<rparr>"

record search_item =
  it_item_id :: ustr
  it_location :: location
  it_filename :: ustr
  it_markers :: "marker list"
  it_extension :: ustr
  it_size_bytes :: int
  it_modified_at :: ustr
  it_issue :: "structure_issue option"

text \<open>
  The loop of \<open>build_item\<close> over the directories. \<open>expected\<close> gives the levels for the values
  parsed so far, \<open>describe\<close> a level's id and name, \<open>optional\<close> its flag and \<open>allows\<close> whether it
  takes a value; \<open>expected[position]\<close> beyond the levels is an \<open>IndexError\<close>.
\<close>

fun parse_levels ::
  "chars \<Rightarrow> ustr \<Rightarrow> ustr \<Rightarrow> (ustr list \<Rightarrow> 'l list) \<Rightarrow> ('l \<Rightarrow> ustr \<times> ustr) \<Rightarrow> ('l \<Rightarrow> bool) \<Rightarrow> ('l \<Rightarrow> ustr \<Rightarrow> bool) \<Rightarrow>
   ustr list \<Rightarrow> ustr list \<Rightarrow> exn + marker list \<times> structure_issue option" where
  "parse_levels C root_id version expected describe optional allows parsed [] =
     (let ls = expected parsed in
      if length parsed = length ls then Inr ([], None)
      else if length ls < length parsed then Inl PyIndexError
      else
        let l = ls ! length parsed in
        if optional l then Inr ([], None)
        else Inr ([marker_of C root_id version (describe l) None parsed],
                  Some (issue_of (Some (describe l)) MISSING_REQUIRED_LEVEL)))"
| "parse_levels C root_id version expected describe optional allows parsed (v # rest) =
     (let ls = expected parsed in
      if length parsed = length ls then
        Inr ([marker_of C root_id version (lit ''level-extra-depth'', extra_level_label) None parsed],
             Some (issue_of None UNEXPECTED_DEPTH))
      else if length ls < length parsed then Inl PyIndexError
      else
        let l = ls ! length parsed in
        if \<not> allows l v then
          Inr ([marker_of C root_id version (describe l) None parsed],
               Some (issue_of (Some (describe l)) INVALID_LEVEL_VALUE))
        else
          ebind (parse_levels C root_id version expected describe optional allows (parsed @ [v]) rest) (\<lambda>(ms, issue).
          Inr (marker_of C root_id version (describe l) (Some v) parsed # ms, issue)))"

definition item_of ::
  "ustr \<Rightarrow> ustr \<Rightarrow> ustr \<Rightarrow> ustr \<Rightarrow> int \<Rightarrow> ustr \<Rightarrow> ustr \<Rightarrow> marker list \<times> structure_issue option \<Rightarrow> search_item" where
  "item_of root_id display_prefix clean filename size_bytes modified_at identity parsed =
     \<lparr>it_item_id = identity,
      it_location = \<lparr>loc_root_id = root_id, loc_relative_path = clean,
        loc_display_path = (if display_prefix = [] then clean else rstrip_char slash display_prefix @ slash # clean)\<rparr>,
      it_filename = filename, it_markers = fst parsed, it_extension = search_extension filename,
      it_size_bytes = size_bytes, it_modified_at = modified_at, it_issue = snd parsed\<rparr>"

text \<open>The compiled form is used when it is given.\<close>

definition build_item ::
  "chars \<Rightarrow> ustr \<Rightarrow> ustr \<Rightarrow> ustr \<Rightarrow> int \<Rightarrow> ustr \<Rightarrow> schema \<Rightarrow> ustr \<Rightarrow> compiled_schema option \<Rightarrow> exn + search_item" where
  "build_item C root_id display_prefix relative_path size_bytes modified_at s identity compiled =
     (let clean = strip_char slash (replace_char backslash slash relative_path);
          ps = filter (\<lambda>p. p \<noteq> []) (split_on slash clean) in
      if ps = [] then Inl PyValueError
      else
        ebind
          (case compiled of
             None \<Rightarrow>
               parse_levels C root_id (sc_version s) (levels C s) (\<lambda>l. (lv_id l, lv_name l)) lv_optional
                 (\<lambda>l v. ch_casefold C v \<in> set (map (ch_casefold C) (lv_values l))) [] (butlast ps)
           | Some cs \<Rightarrow>
               parse_levels C root_id (cs_version cs) (compiled_levels C cs) (\<lambda>l. (cl_id l, cl_name l)) cl_optional
                 (\<lambda>l v. ch_casefold C v \<in> set (cl_folded l)) [] (butlast ps)) (\<lambda>parsed.
        Inr (item_of root_id display_prefix clean (last ps) size_bytes modified_at identity parsed)))"

section \<open>Queries\<close>

record query =
  qy_terms :: "ustr list"
  qy_phrases :: "ustr list list"
  qy_applied :: ustr

abbreviation quote :: nat where "quote \<equiv> 34"

text \<open>The words and quoted phrases of the text, each with its tokens.\<close>

function parse_chunks :: "chars \<Rightarrow> ustr \<Rightarrow> exn + (bool \<times> ustr list) list" where
  "parse_chunks C [] = Inr []"
| "parse_chunks C (c # s) =
     (if is_space c then parse_chunks C s
      else if c = quote then
        if quote \<notin> set s then Inl (api INVALID_QUERY 400)
        else
          let content = takeWhile (\<lambda>x. x \<noteq> quote) s; rest = drop (Suc (length content)) s in
          if rest \<noteq> [] \<and> \<not> is_space (hd rest) then Inl (api INVALID_QUERY 400)
          else if tokens C content = [] then Inl (api INVALID_QUERY 400)
          else ebind (parse_chunks C rest) (\<lambda>chunks. Inr ((True, tokens C content) # chunks))
      else
        let content = c # takeWhile (\<lambda>x. \<not> is_space x) s; rest = dropWhile (\<lambda>x. \<not> is_space x) s in
        if quote \<in> set content then Inl (api INVALID_QUERY 400)
        else if tokens C content = [] then Inl (api INVALID_QUERY 400)
        else ebind (parse_chunks C rest) (\<lambda>chunks. Inr ((False, tokens C content) # chunks)))"
  by pat_completeness auto
termination
  by (relation "measure (\<lambda>(C, s). length s)") (auto simp: less_Suc_eq_le length_dropWhile_le)

text \<open>\<open>if x not in target: target.append(x)\<close> over a list.\<close>

definition keep_first :: "'a list \<Rightarrow> 'a list" where
  "keep_first xs = foldl (\<lambda>acc x. if x \<in> set acc then acc else acc @ [x]) [] xs"

definition parse_query :: "chars \<Rightarrow> ustr \<Rightarrow> exn + query" where
  "parse_query C value =
     ebind (parse_chunks C value) (\<lambda>chunks.
     Inr \<lparr>qy_terms = keep_first (concat (map snd (filter (\<lambda>c. \<not> fst c) chunks))),
          qy_phrases = keep_first (map snd (filter fst chunks)),
          qy_applied = join_with 32 (map (\<lambda>(quoted, group).
            if quoted then quote # join_with 32 group @ [quote] else join_with 32 group) chunks)\<rparr>)"

section \<open>Matching\<close>

definition path_stream :: "chars \<Rightarrow> search_item \<Rightarrow> ustr list" where
  "path_stream C item = tokens C (loc_relative_path (it_location item))"

definition marker_weight :: "ustr \<Rightarrow> nat" where
  "marker_weight level =
     (if level = lit ''level-project'' then 4 else if level = lit ''level-company'' then 3 else 1)"

definition field_streams :: "chars \<Rightarrow> search_item \<Rightarrow> (nat \<times> ustr list) list" where
  "field_streams C item =
     filter (\<lambda>s. snd s \<noteq> [])
       ((5, tokens C (it_filename item)) #
        map (\<lambda>m. (marker_weight (mk_level_id m), tokens C (the (mk_raw_value m))))
          (filter (\<lambda>m. mk_kind m = VALUE) (it_markers item)) @
        [(1, path_stream C item)])"

text \<open>Whether the phrase stands at some offset of the stream.\<close>

definition contains_phrase :: "ustr list \<Rightarrow> ustr list \<Rightarrow> bool" where
  "contains_phrase stream phrase \<longleftrightarrow>
     (\<exists>offset\<in>set [0..<Suc (length stream) - length phrase]. take (length phrase) (drop offset stream) = phrase)"

definition max_of :: "nat list \<Rightarrow> nat" where
  "max_of xs = foldr max xs 0"

definition term_weights :: "(nat \<times> ustr list) list \<Rightarrow> ustr \<Rightarrow> nat list" where
  "term_weights streams term =
     concat (map (\<lambda>(weight, ts). map (\<lambda>t. weight * (if t = term then 2 else 1))
       (filter (\<lambda>t. starts_with t term) ts)) streams)"

fun score_terms :: "(nat \<times> ustr list) list \<Rightarrow> ustr list \<Rightarrow> nat option" where
  "score_terms streams [] = Some 0"
| "score_terms streams (t # ts) =
     (if term_weights streams t = [] then None
      else map_option ((+) (max_of (term_weights streams t))) (score_terms streams ts))"

definition phrase_weights :: "(nat \<times> ustr list) list \<Rightarrow> ustr list \<Rightarrow> nat list" where
  "phrase_weights streams phrase = map fst (filter (\<lambda>(_, ts). contains_phrase ts phrase) streams)"

fun score_phrases :: "(nat \<times> ustr list) list \<Rightarrow> ustr list \<Rightarrow> ustr list list \<Rightarrow> nat option" where
  "score_phrases streams path [] = Some 0"
| "score_phrases streams path (p # ps) =
     (let same_field = phrase_weights streams p in
      if same_field = [] \<and> \<not> contains_phrase path p then None
      else map_option ((+) (2 * length p * (if same_field = [] then 1 else max_of same_field)))
             (score_phrases streams path ps))"

definition matches_and_score :: "chars \<Rightarrow> search_item \<Rightarrow> query \<Rightarrow> nat option" where
  "matches_and_score C item q =
     (let streams = field_streams C item in
      case score_terms streams (qy_terms q) of
        None \<Rightarrow> None
      | Some a \<Rightarrow> map_option ((+) a) (score_phrases streams (path_stream C item) (qy_phrases q)))"

section \<open>Natural order\<close>

datatype nat_chunk = NK_num nat | NK_text ustr

text \<open>A number comes before a text, as in the tuples \<open>(0, int)\<close> and \<open>(1, str)\<close>.\<close>

instantiation nat_chunk :: linorder
begin

definition less_eq_nat_chunk :: "nat_chunk \<Rightarrow> nat_chunk \<Rightarrow> bool" where
  "less_eq_nat_chunk a b =
     (case a of
        NK_num m \<Rightarrow> (case b of NK_num n \<Rightarrow> m \<le> n | NK_text _ \<Rightarrow> True)
      | NK_text s \<Rightarrow> (case b of NK_num _ \<Rightarrow> False | NK_text t \<Rightarrow> s \<le> t))"

definition less_nat_chunk :: "nat_chunk \<Rightarrow> nat_chunk \<Rightarrow> bool" where
  "less_nat_chunk a b = (a \<le> b \<and> \<not> b \<le> (a :: nat_chunk))"

instance
  by standard (auto simp: less_eq_nat_chunk_def less_nat_chunk_def split: nat_chunk.splits)

end

definition digits_value :: "chars \<Rightarrow> ustr \<Rightarrow> nat" where
  "digits_value C s = foldl (\<lambda>n c. 10 * n + the (ch_digit C c)) 0 s"

text \<open>The maximal runs of digits, as numbers, and of other characters, case-folded.\<close>

function natural_key :: "chars \<Rightarrow> ustr \<Rightarrow> nat_chunk list" where
  "natural_key C [] = []"
| "natural_key C (c # s) =
     (if is_digit C c
      then NK_num (digits_value C (takeWhile (is_digit C) (c # s))) # natural_key C (dropWhile (is_digit C) s)
      else NK_text (ch_casefold C (takeWhile (\<lambda>x. \<not> is_digit C x) (c # s))) #
             natural_key C (dropWhile (\<lambda>x. \<not> is_digit C x) s))"
  by pat_completeness auto
termination
  by (relation "measure (\<lambda>(C, s). length s)") (auto simp: less_Suc_eq_le length_dropWhile_le)

type_synonym tie = "nat_chunk list \<times> ustr \<times> ustr"

definition path_tie :: "chars \<Rightarrow> search_item \<Rightarrow> tie" where
  "path_tie C item =
     (let path = loc_relative_path (it_location item) in (natural_key C path, path, it_item_id item))"

section \<open>Instants\<close>

text \<open>
  \<open>_UTC_INSTANT\<close> and the check by \<open>strptime\<close>: a field of two digits has an ASCII first digit,
  and the values must be those of a calendar date and a time of day.
\<close>

definition leap_year :: "nat \<Rightarrow> bool" where
  "leap_year y \<longleftrightarrow> 4 dvd y \<and> (\<not> 100 dvd y \<or> 400 dvd y)"

definition month_days :: "nat \<Rightarrow> nat \<Rightarrow> nat" where
  "month_days y m = (if m = 2 then if leap_year y then 29 else 28 else if m \<in> {4, 6, 9, 11} then 30 else 31)"

definition ascii_digit :: "nat \<Rightarrow> bool" where
  "ascii_digit c \<longleftrightarrow> 48 \<le> c \<and> c \<le> 57"

definition calendar_ok :: "chars \<Rightarrow> ustr \<Rightarrow> bool" where
  "calendar_ok C s \<longleftrightarrow>
     (let num = (\<lambda>i n. digits_value C (take n (drop i s))) in
      1 \<le> num 0 4 \<and> list_all (\<lambda>i. ascii_digit (s ! i)) [5, 6, 8, 11, 14, 17] \<and>
      1 \<le> num 5 2 \<and> num 5 2 \<le> 12 \<and> 1 \<le> num 8 2 \<and> num 8 2 \<le> month_days (num 0 4) (num 5 2) \<and>
      (s ! 8 \<in> {48, 51} \<longrightarrow> ascii_digit (s ! 9)) \<and>
      num 11 2 \<le> 23 \<and> (s ! 11 = 50 \<longrightarrow> ascii_digit (s ! 12)) \<and> num 14 2 \<le> 59 \<and> num 17 2 \<le> 59)"

definition date_shape :: "chars \<Rightarrow> ustr \<Rightarrow> bool" where
  "date_shape C s \<longleftrightarrow> length s = 19 \<and>
     list_all (\<lambda>i. is_digit C (s ! i)) [0, 1, 2, 3, 5, 6, 8, 9, 11, 12, 14, 15, 17, 18] \<and>
     s ! 4 = 45 \<and> s ! 7 = 45 \<and> s ! 10 = 84 \<and> s ! 13 = 58 \<and> s ! 16 = 58"

definition instant_sort_key :: "chars \<Rightarrow> ustr \<Rightarrow> exn + ustr" where
  "instant_sort_key C value =
     (let whole = take 19 value; rest = drop 19 value in
      if \<not> date_shape C whole then Inl PyValueError
      else
        let fraction =
          (if rest = [90] then Some []
           else if rest \<noteq> [] \<and> hd rest = dot \<and> last rest = 90 \<and> 2 < length rest \<and>
                   (\<forall>c\<in>set (butlast (tl rest)). is_digit C c)
           then Some (butlast (tl rest)) else None) in
        case fraction of
          None \<Rightarrow> Inl PyValueError
        | Some f \<Rightarrow> if calendar_ok C whole then Inr (whole @ dot # rstrip_char 48 f) else Inl PyValueError)"

section \<open>Marker chains and facets\<close>

record published_root =
  pb_root_id :: ustr
  pb_schema_set_version :: ustr
  pb_index_generation :: ustr
  pb_indexed_at :: ustr

datatype sort_field = RELEVANCE | PATH | NAME | MODIFIED_AT | SIZE | Other_field
datatype sort_direction = ASC | DESC | Other_direction

text \<open>A sort field or direction that is missing or unknown is \<open>Other\<close>.\<close>

record search_request =
  rq_request_state_id :: ustr
  rq_root_id :: ustr
  rq_schema_set_version :: ustr
  rq_query_text :: ustr
  rq_selected_marker_ids :: "ustr list"
  rq_facet_prefix :: ustr
  rq_sort_field :: sort_field
  rq_sort_direction :: sort_direction

definition validate_context :: "published_root \<Rightarrow> search_request \<Rightarrow> exn + unit" where
  "validate_context root request =
     ebind (eguard (rq_root_id request = pb_root_id root) (api INVALID_MARKER_SELECTION 422)) (\<lambda>_.
     eguard (rq_schema_set_version request = pb_schema_set_version root) (api SCHEMA_VERSION_CHANGED 409))"

definition marker_ids :: "search_item \<Rightarrow> ustr list" where
  "marker_ids item = map mk_marker_id (it_markers item)"

definition selected_chain :: "search_item list \<Rightarrow> ustr list \<Rightarrow> exn + search_item list" where
  "selected_chain items selected =
     (if selected = [] then Inr items
      else
        ebind (eguard (distinct selected) (api INVALID_MARKER_SELECTION 422)) (\<lambda>_.
        let possible = filter (\<lambda>item. length selected \<le> length (it_markers item) \<and>
                                 take (length selected) (marker_ids item) = selected) items in
        ebind (eguard (possible \<noteq> []) (api INVALID_MARKER_SELECTION 422)) (\<lambda>_.
        ebind (eguard (\<exists>item\<in>set items. last selected \<in> set (marker_ids item)) (api INVALID_MARKER_SELECTION 422)) (\<lambda>_.
        Inr possible))))"

text \<open>A Python dictionary is the list of its items in insertion order.\<close>

fun dict_set :: "'k \<Rightarrow> 'v \<Rightarrow> ('k \<times> 'v) list \<Rightarrow> ('k \<times> 'v) list" where
  "dict_set k v [] = [(k, v)]"
| "dict_set k v (r # d) = (if fst r = k then (k, v) # d else r # dict_set k v d)"

text \<open>\<open>known, count = grouped.get(id, (marker, 0)); grouped[id] = (known, count + 1)\<close>\<close>

type_synonym groups = "(ustr \<times> marker \<times> nat) list"

definition count_marker :: "marker \<Rightarrow> groups \<Rightarrow> groups" where
  "count_marker m grouped =
     (let (known, count) = (case map_of grouped (mk_marker_id m) of None \<Rightarrow> (m, 0) | Some g \<Rightarrow> g)
      in dict_set (mk_marker_id m) (known, Suc count) grouped)"

record facet =
  fc_level_id :: ustr
  fc_level_name :: ustr
  fc_options :: "(marker \<times> nat) list"

definition option_key :: "chars \<Rightarrow> marker \<times> nat \<Rightarrow> bool \<times> nat_chunk list \<times> ustr \<times> ustr" where
  "option_key C choice =
     (let m = fst choice in
      (mk_kind m = UNRECOGNIZED, natural_key C (mk_display_value m),
       case mk_raw_value m of None \<Rightarrow> [] | Some v \<Rightarrow> v, mk_marker_id m))"

definition facet_from_groups :: "chars \<Rightarrow> groups \<Rightarrow> ustr \<Rightarrow> facet option" where
  "facet_from_groups C grouped prefix =
     (case grouped of
        [] \<Rightarrow> None
      | (_, first, _) # _ \<Rightarrow>
          Some \<lparr>fc_level_id = mk_level_id first, fc_level_name = mk_level_name first,
                fc_options = sort_key (option_key C)
                  (filter (\<lambda>(m, _). starts_with (ch_casefold C (mk_display_value m)) (ch_casefold C prefix))
                    (map snd grouped))\<rparr>)"

definition facet_of :: "chars \<Rightarrow> search_item list \<Rightarrow> nat \<Rightarrow> ustr \<Rightarrow> facet option" where
  "facet_of C candidates selected_length prefix =
     facet_from_groups C
       (foldl (\<lambda>grouped item. if length (it_markers item) \<le> selected_length then grouped
                              else count_marker (it_markers item ! selected_length) grouped) [] candidates)
       prefix"

section \<open>Sorting rows\<close>

text \<open>A row is an item with its score. The checks come first; then one or two stable sorts.\<close>

definition check_sort :: "sort_field \<Rightarrow> sort_direction \<Rightarrow> exn + unit" where
  "check_sort field direction =
     ebind (eguard (direction \<noteq> Other_direction) (api INVALID_QUERY 400)) (\<lambda>_.
     ebind (eguard (field \<noteq> RELEVANCE \<or> direction = DESC) (api INVALID_QUERY 400)) (\<lambda>_.
     eguard (field \<noteq> Other_field) (api INVALID_QUERY 400)))"

definition sort_dir :: "sort_direction \<Rightarrow> ('a \<Rightarrow> 'k::linorder) \<Rightarrow> 'a list \<Rightarrow> 'a list" where
  "sort_dir direction f xs = (if direction = DESC then sorted_desc f xs else sort_key f xs)"

text \<open>The keys of all rows; the first bad time stamp raises.\<close>

fun instant_keys :: "chars \<Rightarrow> (search_item \<times> nat) list \<Rightarrow> exn + (ustr \<times> search_item \<times> nat) list" where
  "instant_keys C [] = Inr []"
| "instant_keys C (r # rows) =
     ebind (instant_sort_key C (it_modified_at (fst r))) (\<lambda>k.
     ebind (instant_keys C rows) (\<lambda>ks. Inr ((k, r) # ks)))"

definition sort_rows ::
  "chars \<Rightarrow> (search_item \<times> nat) list \<Rightarrow> sort_field \<Rightarrow> sort_direction \<Rightarrow> exn + search_item list" where
  "sort_rows C rows field direction =
     ebind (check_sort field direction) (\<lambda>_.
     let tied = sort_key (path_tie C \<circ> fst) rows in
     case field of
       RELEVANCE \<Rightarrow> Inr (map fst (sort_key (\<lambda>r. (- int (snd r), path_tie C (fst r))) rows))
     | PATH \<Rightarrow> Inr (map fst (sort_dir direction (path_tie C \<circ> fst) rows))
     | NAME \<Rightarrow> Inr (map fst (sort_dir direction (\<lambda>r. natural_key C (it_filename (fst r))) tied))
     | MODIFIED_AT \<Rightarrow>
         ebind (instant_keys C tied) (\<lambda>keyed.
         Inr (map (fst \<circ> snd) (sort_dir direction fst keyed)))
     | SIZE \<Rightarrow> Inr (map fst (sort_dir direction (\<lambda>r. it_size_bytes (fst r)) tied))
     | Other_field \<Rightarrow> Inl (api INVALID_QUERY 400))"

end
