(* ===== verification/World.thy ===== *)
theory World
  imports Search
begin

text \<open>
  The state of the running service: the database, the sandbox tree, and a counter that
  identifies every interaction with the outside. Everything the code reads from outside is a
  function of that counter, held in the record \<open>env\<close>: the clock, \<open>uuid4\<close>, the faults of
  system calls and commits, the changes other processes make to the tree between two calls, and
  the library functions the sources call (case folding, the SHA-256 digest, password hashing).
  A theorem about all environments therefore covers every clock, every crash point and every
  interleaving of foreign file changes.

  \<open>hashed\<close> lists the documents the sources pass to \<open>digest\<close>; \<open>payload\<close> is what
  \<open>Context.page\<close> cuts into pages: the paged rows and the document around them (which keeps
  its row field empty).
\<close>

section \<open>Paged documents\<close>

record queue_head =
  qh_queue_generation :: ustr
  qh_matching_count :: nat
  qh_eligible_count :: nat
  qh_ready :: nat
  qh_processing :: nat
  qh_attention :: nat
  qh_status_counts :: "(queue_status \<times> nat) list"

datatype head =
    Head_none
  | Head_queue queue_head
  | Head_simulation simulation
  | Head_preview preview
  | Head_batch batch

datatype row =
    Row_target target_dir
  | Row_version version
  | Row_plan plan_row
  | Row_queue queue_item
  | Row_outcome outcome
  | Row_batch batch
  | Row_quarantine quarantine
  | Row_actor actor
  | Row_event event

record payload =
  pl_head :: head
  pl_rows :: "row list"

datatype scope =
    Scope_targets | Scope_dictionary_versions | Scope_simulation | Scope_queue | Scope_preview
  | Scope_batch | Scope_batches | Scope_quarantine | Scope_actors | Scope_audit

record page_result =
  pg_payload :: payload
  pg_next_cursor :: "ustr option"

text \<open>
  A saved cursor. \<open>cu_legacy\<close> is the payload of a cursor written before compact snapshots;
  \<open>cu_position\<close> is the keyset position of an audit cursor (\<open>audit_keyset\<close>).
\<close>

record cursor =
  cu_scope :: scope
  cu_owner :: ustr
  cu_query :: ustr
  cu_snapshot_id :: ustr
  cu_offset :: nat
  cu_expires :: time
  cu_legacy :: "payload option"
  cu_position :: "(time \<times> ustr) option"

datatype snapshot_body =
    Snap_rows scope payload
  | Snap_audit nat "ustr option"

record page_snapshot =
  ps_snapshot_id :: ustr
  ps_owner :: ustr
  ps_query :: ustr
  ps_body :: snapshot_body
  ps_payload_bytes :: nat
  ps_expires :: time

section \<open>Idempotent results, digests\<close>

datatype idem_result =
    Res_publish dictionary version rule_set
  | Res_batch page_result

record idempotency =
  id_body :: ustr
  id_status :: nat
  id_result :: idem_result

record publish_body =
  pb_expected_draft_revision :: int
  pb_simulation_id :: ustr
  pb_acknowledge_no_scenario :: bool
  pb_comment :: ustr

datatype execution_mode = DIRECT | PREVIEWED

record batch_body =
  bb_selection_id :: ustr
  bb_execution_mode :: execution_mode
  bb_preview_id :: "ustr option"

record queue_filters =
  fl_statuses :: "queue_status list"
  fl_query_text :: ustr

record audit_query =
  aq_from :: time
  aq_to :: time
  aq_company_id :: "ustr option"
  aq_action :: "audit_action option"
  aq_result :: "event_result option"
  aq_actor_id :: "ustr option"
  aq_query_text :: ustr

record index_config =
  ic_schema_set_version :: ustr
  ic_schema :: schema
  ic_prefixes :: "ustr list"

datatype hashed =
    H_items "queue_item list"
  | H_rules "flat_rule list"
  | H_rows "plan_row list"
  | H_members ustr "(ustr \<times> ustr) list"
  | H_strings "ustr list"
  | H_queue_query ustr queue_filters
  | H_page scope ustr ustr payload
  | H_cursor scope ustr ustr ustr nat time
  | H_legacy ustr
  | H_audit_query audit_query
  | H_audit_snapshot ustr ustr nat time
  | H_audit_cursor ustr ustr ustr time ustr
  | H_publish publish_body
  | H_batch batch_body
  | H_return return_body
  | H_text ustr
  | H_config index_config
  | H_files "(ustr \<times> fingerprint) list" index_config

section \<open>The search outbox\<close>

record outbox_row =
  ob_event_key :: ustr
  ob_root_id :: ustr
  ob_item_id :: ustr
  ob_relative_path :: ustr
  ob_size_bytes :: int
  ob_modified_at :: time

section \<open>The search index of a root\<close>

text \<open>
  The published index document, the progress of a scan and its checkpoint chunks. A progress
  without a run of chunks may hold the whole run in \<open>ip_legacy\<close>, as older versions wrote it.
\<close>

record entry_id =
  en_item_id :: ustr
  en_dev :: int
  en_ino :: int

datatype freshness_status = CURRENT | STALE

record freshness =
  fs_indexed_at :: ustr
  fs_last_successful_sync_at :: ustr
  fs_status :: freshness_status

datatype index_storage = IN_SQLITE | IN_OPENSEARCH

record index_doc =
  xd_root :: root
  xd_index_generation :: ustr
  xd_indexed_at :: ustr
  xd_items :: "search_item list"
  xd_entry_ids :: "(ustr \<times> entry_id) list"
  xd_fingerprint_digest :: ustr
  xd_freshness :: freshness
  xd_storage :: "index_storage option"

datatype scan_status = SCAN_RUNNING | SCAN_FAILED | SCAN_COMPLETE

record progress =
  ip_root_id :: ustr
  ip_status :: scan_status
  ip_count :: "nat option"
  ip_checkpoint :: "ustr option"
  ip_remaining :: "int option"
  ip_incoming :: bool
  ip_config_digest :: "ustr option"
  ip_run_id :: "ustr option"
  ip_chunk_count :: "nat option"
  ip_legacy :: "((ustr \<times> fingerprint) list \<times> search_item list) option"

record chunk =
  ck_root_id :: ustr
  ck_run_id :: ustr
  ck_sequence :: nat
  ck_found :: "(ustr \<times> fingerprint) list"
  ck_items :: "search_item list"

section \<open>The database\<close>

record db =
  db_root :: "root table"
  db_company :: "company table"
  db_user :: "user table"
  db_session :: "session table"
  db_login_rate :: "time list table"
  db_dictionary :: "dictionary table"
  db_version :: "version table"
  db_simulation :: "simulation table"
  db_queue :: "queue_item table"
  db_selection :: "selection table"
  db_preview :: "preview table"
  db_batch :: "batch table"
  db_attempt :: "attempt table"
  db_claim :: "claim table"
  db_quarantine :: "quarantine table"
  db_return :: "return_op table"
  db_return_key :: "return_key table"
  db_idempotency :: "idempotency table"
  db_cursor :: "cursor table"
  db_page_snapshot :: "page_snapshot table"
  db_index :: "index_doc table"
  db_progress :: "progress table"
  db_chunk :: "chunk table"
  db_outbox :: "outbox_row list"
  db_audit :: "event list"

definition empty_db :: db where
  "empty_db = \<lparr>db_root = [], db_company = [], db_user = [], db_session = [], db_login_rate = [],
     db_dictionary = [], db_version = [], db_simulation = [], db_queue = [], db_selection = [],
     db_preview = [], db_batch = [], db_attempt = [], db_claim = [], db_quarantine = [],
     db_return = [], db_return_key = [], db_idempotency = [], db_cursor = [], db_page_snapshot = [],
     db_index = [], db_progress = [], db_chunk = [], db_outbox = [], db_audit = []\<rparr>"

section \<open>The sandbox tree\<close>

text \<open>
  An entry per path from the sandbox root, a path being the list of its components. \<open>Link\<close> is
  a symbolic link, \<open>Special\<close> any other entry that is neither a directory nor a regular file.
\<close>

datatype node = Dir | File fingerprint | Link | Special

type_synonym fs = "ustr list \<Rightarrow> node option"

section \<open>The environment\<close>

record settings =
  st_result_limit :: nat
  st_max_batch_items :: nat
  st_ttl :: int
  st_readiness_seconds :: int
  st_absolute_session_seconds :: int
  st_idle_session_seconds :: int
  st_allowed_origins :: "ustr list"

definition default_settings :: settings where
  "default_settings = \<lparr>st_result_limit = 100, st_max_batch_items = 1000, st_ttl = 300,
     st_readiness_seconds = 5, st_absolute_session_seconds = 28800, st_idle_session_seconds = 1800,
     st_allowed_origins = [lit ''http://localhost:8000'', lit ''http://127.0.0.1:8000'', lit ''http://localhost:5173'']\<rparr>"

text \<open>A system call or a commit fails (\<open>Os_error\<close>) or the process dies there (\<open>Kill\<close>).\<close>

datatype fault = Os_error | Kill

record env =
  e_settings :: settings
  e_clock :: "nat \<Rightarrow> time"
  e_uid :: "nat \<Rightarrow> ustr"
  e_fault :: "nat \<Rightarrow> fault option"
  e_disturb :: "nat \<Rightarrow> fs \<Rightarrow> fs"
  e_probe :: bool
  e_listing :: "nat \<Rightarrow> fs \<Rightarrow> ustr list \<Rightarrow> ustr list"
  e_monotonic :: "nat \<Rightarrow> time"
  e_casefold :: "ustr \<Rightarrow> ustr"
  e_digest :: "hashed \<Rightarrow> ustr"
  e_payload_bytes :: "payload \<Rightarrow> nat"
  e_metadata_bytes :: "ustr \<Rightarrow> ustr \<Rightarrow> ustr \<Rightarrow> nat \<Rightarrow> ustr option \<Rightarrow> time \<Rightarrow> nat"
  e_utf8_length :: "ustr \<Rightarrow> nat"
  e_token :: "nat \<Rightarrow> ustr"
  e_token_key :: "ustr \<Rightarrow> ustr"
  e_verify :: "ustr \<Rightarrow> ustr \<Rightarrow> bool"
  e_hash :: "nat \<Rightarrow> ustr \<Rightarrow> ustr"
  e_dummy_hash :: ustr

record world =
  db :: db
  fs :: fs
  tick :: nat

type_synonym 'a act = "(world, 'a) action"

section \<open>Primitive actions\<close>

definition read_clock :: "env \<Rightarrow> time act" where
  "read_clock E = (\<lambda>w. (Inr (e_clock E (tick w)), w\<lparr>tick := Suc (tick w)\<rparr>))"

definition read_monotonic :: "env \<Rightarrow> time act" where
  "read_monotonic E = (\<lambda>w. (Inr (e_monotonic E (tick w)), w\<lparr>tick := Suc (tick w)\<rparr>))"

text \<open>\<open>uid(prefix)\<close>\<close>

definition uid :: "env \<Rightarrow> string \<Rightarrow> ustr act" where
  "uid E prefix = (\<lambda>w. (Inr (lit prefix @ 45 # e_uid E (tick w)), w\<lparr>tick := Suc (tick w)\<rparr>))"

definition fault_exn :: "fault \<Rightarrow> exn \<Rightarrow> exn" where
  "fault_exn f e = (case f of Os_error \<Rightarrow> e | Kill \<Rightarrow> Killed)"

text \<open>
  One filesystem call: first whatever other processes did to the tree since the last call, then
  the call itself, unless it fails.
\<close>

definition fs_call :: "env \<Rightarrow> (fs \<Rightarrow> (exn + 'a) \<times> fs) \<Rightarrow> 'a act" where
  "fs_call E f = (\<lambda>w.
     let t = e_disturb E (tick w) (fs w) in
     case e_fault E (tick w) of
       Some x \<Rightarrow> (Inl (fault_exn x (FsError OsFailure)), w\<lparr>fs := t, tick := Suc (tick w)\<rparr>)
     | None \<Rightarrow> (fst (f t), w\<lparr>fs := snd (f t), tick := Suc (tick w)\<rparr>))"

text \<open>
  A write transaction: an exception of the body rolls the database back (not the tree), and so
  does a failing commit.
\<close>

definition transaction :: "env \<Rightarrow> 'a act \<Rightarrow> 'a act" where
  "transaction E m = (\<lambda>w.
     case m w of
       (Inl e, u) \<Rightarrow> (Inl e, u\<lparr>db := db w\<rparr>)
     | (Inr x, u) \<Rightarrow>
         (case e_fault E (tick u) of
            Some f \<Rightarrow> (Inl (fault_exn f PyRuntimeError), u\<lparr>db := db w, tick := Suc (tick u)\<rparr>)
          | None \<Rightarrow> (Inr x, u\<lparr>tick := Suc (tick u)\<rparr>)))"

text \<open>The methods of \<open>UnitOfWork\<close>, for the table a kind selects.\<close>

definition get_row :: "(db \<Rightarrow> 'v table) \<Rightarrow> ustr \<Rightarrow> 'v option act" where
  "get_row sel k = asks (\<lambda>w. tbl_get (sel (db w)) k)"

definition require_row :: "(db \<Rightarrow> 'v table) \<Rightarrow> ustr \<Rightarrow> 'v act" where
  "require_row sel k =
     bnd (get_row sel k) (\<lambda>r. case r of None \<Rightarrow> raise (api NOT_FOUND 404) | Some v \<Rightarrow> ret v)"

definition list_rows :: "(db \<Rightarrow> 'v table) \<Rightarrow> 'v list act" where
  "list_rows sel = asks (\<lambda>w. tbl_rows (sel (db w)))"

definition put_row :: "(('v table \<Rightarrow> 'v table) \<Rightarrow> db \<Rightarrow> db) \<Rightarrow> ustr \<Rightarrow> 'v \<Rightarrow> unit act" where
  "put_row upd k v = modify (\<lambda>w. w\<lparr>db := upd (tbl_put k v) (db w)\<rparr>)"

text \<open>\<open>INSERT INTO objects\<close> without \<open>ON CONFLICT\<close>: a taken key violates the primary key.\<close>

definition insert_row ::
  "(db \<Rightarrow> 'v table) \<Rightarrow> (('v table \<Rightarrow> 'v table) \<Rightarrow> db \<Rightarrow> db) \<Rightarrow> ustr \<Rightarrow> 'v \<Rightarrow> unit act" where
  "insert_row sel upd k v =
     bnd (get_row sel k) (\<lambda>r. case r of None \<Rightarrow> put_row upd k v | Some _ \<Rightarrow> raise IntegrityError)"

definition delete_row :: "(('v table \<Rightarrow> 'v table) \<Rightarrow> db \<Rightarrow> db) \<Rightarrow> ustr \<Rightarrow> unit act" where
  "delete_row upd k = modify (\<lambda>w. w\<lparr>db := upd (tbl_delete k) (db w)\<rparr>)"

text \<open>\<open>append_event\<close>: the audit table has a unique \<open>id\<close>.\<close>

definition append_event :: "event \<Rightarrow> unit act" where
  "append_event e =
     bnd (asks (\<lambda>w. ev_event_id e \<in> ev_event_id ` set (db_audit (db w)))) (\<lambda>taken.
     if taken then raise IntegrityError
     else modify (\<lambda>w. w\<lparr>db := db_audit_update (\<lambda>l. l @ [e]) (db w)\<rparr>))"

section \<open>Their weakest preconditions\<close>

lemma wp_read_clock [wp_rules]:
  "wp (read_clock E) Q X w = Q (e_clock E (tick w)) (w\<lparr>tick := Suc (tick w)\<rparr>)"
  by (simp add: wp_def read_clock_def)

lemma wp_read_monotonic [wp_rules]:
  "wp (read_monotonic E) Q X w = Q (e_monotonic E (tick w)) (w\<lparr>tick := Suc (tick w)\<rparr>)"
  by (simp add: wp_def read_monotonic_def)

lemma wp_uid [wp_rules]:
  "wp (uid E p) Q X w = Q (lit p @ 45 # e_uid E (tick w)) (w\<lparr>tick := Suc (tick w)\<rparr>)"
  by (simp add: wp_def uid_def)

lemma wp_get_row [wp_rules]: "wp (get_row sel k) Q X w = Q (tbl_get (sel (db w)) k) w"
  by (simp add: get_row_def wp_rules)

lemma wp_require_row [wp_rules]:
  "wp (require_row sel k) Q X w =
   (case tbl_get (sel (db w)) k of None \<Rightarrow> X (api NOT_FOUND 404) w | Some v \<Rightarrow> Q v w)"
  by (simp add: require_row_def wp_rules split: option.split)

lemma wp_list_rows [wp_rules]: "wp (list_rows sel) Q X w = Q (tbl_rows (sel (db w))) w"
  by (simp add: list_rows_def wp_rules)

lemma wp_put_row [wp_rules]:
  "wp (put_row upd k v) Q X w = Q () (w\<lparr>db := upd (tbl_put k v) (db w)\<rparr>)"
  by (simp add: put_row_def wp_rules)

lemma wp_insert_row [wp_rules]:
  "wp (insert_row sel upd k v) Q X w =
   (case tbl_get (sel (db w)) k of
      None \<Rightarrow> Q () (w\<lparr>db := upd (tbl_put k v) (db w)\<rparr>) | Some _ \<Rightarrow> X IntegrityError w)"
  by (simp add: insert_row_def wp_rules split: option.split)

lemma wp_delete_row [wp_rules]:
  "wp (delete_row upd k) Q X w = Q () (w\<lparr>db := upd (tbl_delete k) (db w)\<rparr>)"
  by (simp add: delete_row_def wp_rules)

lemma wp_append_event [wp_rules]:
  "wp (append_event e) Q X w =
   (if ev_event_id e \<in> ev_event_id ` set (db_audit (db w)) then X IntegrityError w
    else Q () (w\<lparr>db := db_audit_update (\<lambda>l. l @ [e]) (db w)\<rparr>))"
  by (simp add: append_event_def wp_rules)

lemma wp_transaction [wp_rules]:
  "wp (transaction E m) Q X w =
   wp m (\<lambda>x u. case e_fault E (tick u) of
            Some f \<Rightarrow> X (fault_exn f PyRuntimeError) (u\<lparr>db := db w, tick := Suc (tick u)\<rparr>)
          | None \<Rightarrow> Q x (u\<lparr>tick := Suc (tick u)\<rparr>))
        (\<lambda>e u. X e (u\<lparr>db := db w\<rparr>)) w"
  by (auto simp: wp_def transaction_def split: prod.splits sum.splits option.splits)

lemma wp_fs_call:
  "wp (fs_call E f) Q X w =
   (let t = e_disturb E (tick w) (fs w) in
    case e_fault E (tick w) of
      Some x \<Rightarrow> X (fault_exn x (FsError OsFailure)) (w\<lparr>fs := t, tick := Suc (tick w)\<rparr>)
    | None \<Rightarrow> (case fst (f t) of
                Inl e \<Rightarrow> X e (w\<lparr>fs := snd (f t), tick := Suc (tick w)\<rparr>)
              | Inr y \<Rightarrow> Q y (w\<lparr>fs := snd (f t), tick := Suc (tick w)\<rparr>)))"
  by (auto simp: wp_def fs_call_def Let_def split: sum.splits option.splits)

section \<open>Invariants of the database\<close>

text \<open>
  An invariant of the database alone is kept by everything that does not write a table; a
  transaction keeps it when its body does.
\<close>

abbreviation (input) on_db :: "(db \<Rightarrow> bool) \<Rightarrow> world \<Rightarrow> bool" where
  "on_db I w \<equiv> I (db w)"

lemma keeps_read_clock [keeps_rules]: "keeps (on_db I) (read_clock E)"
  by (simp add: keeps_wp wp_rules)

lemma keeps_read_monotonic [keeps_rules]: "keeps (on_db I) (read_monotonic E)"
  by (simp add: keeps_wp wp_rules)

lemma keeps_uid [keeps_rules]: "keeps (on_db I) (uid E p)"
  by (simp add: keeps_wp wp_rules)

lemma keeps_get_row [keeps_rules]: "keeps I (get_row sel k)"
  by (simp add: keeps_wp wp_rules)

lemma keeps_require_row [keeps_rules]: "keeps I (require_row sel k)"
  by (simp add: keeps_wp wp_rules split: option.split)

lemma keeps_list_rows [keeps_rules]: "keeps I (list_rows sel)"
  by (simp add: keeps_wp wp_rules)

lemma keeps_fs_call [keeps_rules]: "keeps (on_db I) (fs_call E f)"
  by (auto simp: keeps_wp wp_fs_call Let_def split: option.split sum.split)

lemma keeps_put_row:
  "(\<And>d. I d \<Longrightarrow> I (upd (tbl_put k v) d)) \<Longrightarrow> keeps (on_db I) (put_row upd k v)"
  by (simp add: keeps_wp wp_rules)

lemma keeps_insert_row:
  "(\<And>d. I d \<Longrightarrow> tbl_get (sel d) k = None \<Longrightarrow> I (upd (tbl_put k v) d)) \<Longrightarrow>
   keeps (on_db I) (insert_row sel upd k v)"
  by (simp add: keeps_wp wp_rules split: option.split)

lemma keeps_delete_row:
  "(\<And>d. I d \<Longrightarrow> I (upd (tbl_delete k) d)) \<Longrightarrow> keeps (on_db I) (delete_row upd k)"
  by (simp add: keeps_wp wp_rules)

lemma keeps_append_event:
  "(\<And>d e. I d \<Longrightarrow> I (db_audit_update (\<lambda>l. l @ [e]) d)) \<Longrightarrow> keeps (on_db I) (append_event e)"
  by (simp add: keeps_wp wp_rules)

lemma keeps_transaction [keeps_rules]: "keeps (on_db I) m \<Longrightarrow> keeps (on_db I) (transaction E m)"
  unfolding keeps_wp wp_rules
  by (fastforce intro: wp_mono split: option.split)

text \<open>A transaction is atomic: on the exceptional exit the database is the one it started with.\<close>

lemma transaction_atomic: "transaction E m w = (Inl e, u) \<Longrightarrow> db u = db w"
  by (auto simp: transaction_def split: prod.splits sum.splits option.splits)

lemma transaction_Inr:
  "transaction E m w = (Inr x, v) \<longleftrightarrow>
   (\<exists>u. m w = (Inr x, u) \<and> e_fault E (tick u) = None \<and> v = u\<lparr>tick := Suc (tick u)\<rparr>)"
  by (auto simp: transaction_def split: prod.splits sum.splits option.splits)

section \<open>Stepping through an action\<close>

text \<open>
  \<open>vc\<close> splits the precondition of an action into the facts each of its branches needs, one rule
  per primitive; used with \<open>intro\<close>, it leaves the goals of the paths through the action.
\<close>

named_theorems vc

lemma vc_bnd [vc]: "wp m (\<lambda>x. wp (f x) Q X) X s \<Longrightarrow> wp (bnd m f) Q X s"
  by (simp add: wp_rules)

lemma vc_ret [vc]: "Q x s \<Longrightarrow> wp (ret x) Q X s"
  by (simp add: wp_rules)

lemma vc_raise [vc]: "X e s \<Longrightarrow> wp (raise e) Q X s"
  by (simp add: wp_rules)

lemma vc_asks [vc]: "Q (f s) s \<Longrightarrow> wp (asks f) Q X s"
  by (simp add: wp_rules)

lemma vc_modify [vc]: "Q () (g s) \<Longrightarrow> wp (modify g) Q X s"
  by (simp add: wp_rules)

lemma vc_ensure [vc]: "(c \<Longrightarrow> Q () s) \<Longrightarrow> (\<not> c \<Longrightarrow> X e s) \<Longrightarrow> wp (ensure c e) Q X s"
  by (simp add: wp_rules)

lemma vc_if [vc]: "(c \<Longrightarrow> wp m Q X s) \<Longrightarrow> (\<not> c \<Longrightarrow> wp n Q X s) \<Longrightarrow> wp (if c then m else n) Q X s"
  by simp

lemma vc_let [vc]: "wp (f t) Q X s \<Longrightarrow> wp (let x = t in f x) Q X s"
  by simp

lemma vc_option [vc]:
  "(x = None \<Longrightarrow> wp m Q X s) \<Longrightarrow> (\<And>y. x = Some y \<Longrightarrow> wp (f y) Q X s) \<Longrightarrow>
   wp (case x of None \<Rightarrow> m | Some y \<Rightarrow> f y) Q X s"
  by (cases x) simp_all

lemma vc_try_else [vc]: "wp m (\<lambda>x. wp (k x) Q X) (\<lambda>e. wp (h e) Q X) s \<Longrightarrow> wp (try_else m h k) Q X s"
  by (simp add: wp_rules)

lemma vc_catch [vc]: "wp m Q (\<lambda>e. wp (h e) Q X) s \<Longrightarrow> wp (try_catch m h) Q X s"
  by (simp add: wp_rules)

lemma vc_clock [vc]: "Q (e_clock E (tick w)) (w\<lparr>tick := Suc (tick w)\<rparr>) \<Longrightarrow> wp (read_clock E) Q X w"
  by (simp add: wp_rules)

lemma vc_monotonic [vc]: "Q (e_monotonic E (tick w)) (w\<lparr>tick := Suc (tick w)\<rparr>) \<Longrightarrow> wp (read_monotonic E) Q X w"
  by (simp add: wp_rules)

lemma vc_uid [vc]: "Q (lit p @ 45 # e_uid E (tick w)) (w\<lparr>tick := Suc (tick w)\<rparr>) \<Longrightarrow> wp (uid E p) Q X w"
  by (simp add: wp_rules)

lemma vc_get [vc]: "Q (tbl_get (sel (db w)) k) w \<Longrightarrow> wp (get_row sel k) Q X w"
  by (simp add: wp_rules)

lemma vc_require [vc]:
  "(\<And>v. tbl_get (sel (db w)) k = Some v \<Longrightarrow> Q v w) \<Longrightarrow>
   (tbl_get (sel (db w)) k = None \<Longrightarrow> X (api NOT_FOUND 404) w) \<Longrightarrow> wp (require_row sel k) Q X w"
  by (simp add: wp_rules split: option.split)

lemma vc_put [vc]: "Q () (w\<lparr>db := upd (tbl_put k v) (db w)\<rparr>) \<Longrightarrow> wp (put_row upd k v) Q X w"
  by (simp add: wp_rules)

lemma vc_insert [vc]:
  "(tbl_get (sel (db w)) k = None \<Longrightarrow> Q () (w\<lparr>db := upd (tbl_put k v) (db w)\<rparr>)) \<Longrightarrow>
   (\<And>r. tbl_get (sel (db w)) k = Some r \<Longrightarrow> X IntegrityError w) \<Longrightarrow> wp (insert_row sel upd k v) Q X w"
  by (simp add: wp_rules split: option.split)

lemma vc_delete [vc]: "Q () (w\<lparr>db := upd (tbl_delete k) (db w)\<rparr>) \<Longrightarrow> wp (delete_row upd k) Q X w"
  by (simp add: wp_rules)

lemma vc_list [vc]: "Q (tbl_rows (sel (db w))) w \<Longrightarrow> wp (list_rows sel) Q X w"
  by (simp add: wp_rules)

section \<open>Reading leaves the database alone\<close>

lemma wp_reading:
  assumes "keeps (on_db ((=) (db w))) m" and "\<And>x u. db u = db w \<Longrightarrow> Q x u" and "\<And>e u. db u = db w \<Longrightarrow> X e u"
  shows "wp m Q X w"
  using keepsD [OF assms(1)] assms(2,3) by (intro wpI) (metis (mono_tags))+

section \<open>Transactions end in the invariant\<close>

definition ends :: "(db \<Rightarrow> bool) \<Rightarrow> 'a act \<Rightarrow> bool" where
  "ends I m \<longleftrightarrow> (\<forall>w. I (db w) \<longrightarrow> wp m (\<lambda>_ u. I (db u)) (\<lambda>_ _. True) w)"

lemma keeps_ends: "ends I m \<Longrightarrow> keeps (on_db I) (transaction E m)"
  unfolding ends_def keeps_wp wp_transaction
  by (erule all_forward, rule impI, drule (1) mp, erule wp_mono) (auto split: option.split)

lemma wp_weaken_db:
  assumes "keeps (on_db ((=) (db w))) m" and "\<And>x u. db u = db w \<Longrightarrow> Q x u"
  shows "wp m Q (\<lambda>_ _. True) w"
  using assms by (auto intro: wp_reading)

lemma wp_keeps_step:
  assumes "keeps (on_db I) m" and "I (db v)" and "\<And>x u. I (db u) \<Longrightarrow> Q x u"
  shows "wp m Q (\<lambda>_ _. True) v"
  using assms keepsD [of "on_db I" m v] by (intro wpI) blast+

lemma keeps_use:
  assumes "keeps (on_db I) m" and "I (db v)" and "\<And>x u. I (db u) \<Longrightarrow> Q x u" and "\<And>e u. I (db u) \<Longrightarrow> X e u"
  shows "wp m Q X v"
  using assms keepsD [of "on_db I" m v] by (intro wpI) blast+

lemma ends_keeps: "keeps (on_db I) m \<Longrightarrow> ends I m"
  unfolding ends_def by (auto elim!: keeps_use)

lemma ends_bnd: "ends I m \<Longrightarrow> (\<And>x. ends I (f x)) \<Longrightarrow> ends I (bnd m f)"
  unfolding ends_def wp_bnd by (blast intro: wp_mono)

lemma ends_each: "(\<And>x. ends I (f x)) \<Longrightarrow> ends I (each f xs)"
  by (induction xs) (auto intro: ends_bnd ends_keeps keeps_ret)

lemma ends_let: "(\<And>x. ends I (f x)) \<Longrightarrow> ends I (let x = t in f x)"
  by simp

end
