(* ===== verification/Files.thy ===== *)
theory Files
  imports World
begin

text \<open>
  \<open>filesystem.py\<close> over the tree of the world: the path syntax check, the descriptor walk that
  refuses links, \<open>stat\<close>, \<open>exists\<close>, \<open>is_directory\<close>, and \<open>rename_no_replace\<close> as the
  sequence of its system calls, each of which may fail, be preceded by foreign changes, or be the
  last thing the process does. A directory descriptor is the path of the directory it was opened
  at. \<open>moves\<close> is the abstract specification: the only change is that regular files take
  free names.
\<close>

section \<open>Paths\<close>

text \<open>\<open>_parts\<close>\<close>

definition parts :: "bool \<Rightarrow> ustr \<Rightarrow> exn + ustr list" where
  "parts allow_empty relative =
     (if backslash \<in> set relative \<or> 0 \<in> set relative then Inl (FsError InvalidPath)
      else if relative = [] \<and> allow_empty then Inr []
      else if relative = [] \<or> hd relative = slash \<or> last relative = slash then Inl (FsError InvalidPath)
      else
        let ps = split_on slash relative in
        if \<exists>p\<in>set ps. p = [] \<or> p = lit ''.'' \<or> p = lit ''..'' then Inl (FsError InvalidPath) else Inr ps)"

text \<open>\<open>_open_directory\<close>: every component is opened without following links.\<close>

fun open_directory :: "fs \<Rightarrow> ustr list \<Rightarrow> ustr list \<Rightarrow> exn + ustr list" where
  "open_directory t d [] = Inr d"
| "open_directory t d (c # cs) =
     (case t (d @ [c]) of
        None \<Rightarrow> Inl (FsError FileNotFound)
      | Some Dir \<Rightarrow> open_directory t (d @ [c]) cs
      | Some _ \<Rightarrow> Inl (FsError NotADirectory))"

definition open_parent :: "fs \<Rightarrow> ustr \<Rightarrow> exn + (ustr list \<times> ustr)" where
  "open_parent t relative =
     (case parts False relative of
        Inl e \<Rightarrow> Inl e
      | Inr ps \<Rightarrow> (case open_directory t [] (butlast ps) of Inl e \<Rightarrow> Inl e | Inr d \<Rightarrow> Inr (d, last ps)))"

section \<open>Reading\<close>

definition stat_in :: "fs \<Rightarrow> ustr \<Rightarrow> exn + fingerprint option" where
  "stat_in t relative =
     (case open_parent t relative of
        Inl e \<Rightarrow> if e = FsError FileNotFound then Inr None else Inl e
      | Inr (d, leaf) \<Rightarrow> (case t (d @ [leaf]) of Some (File fp) \<Rightarrow> Inr (Some fp) | _ \<Rightarrow> Inr None))"

definition exists_in :: "fs \<Rightarrow> ustr \<Rightarrow> exn + bool" where
  "exists_in t relative =
     (case open_parent t relative of
        Inl e \<Rightarrow> if e = FsError FileNotFound then Inr False else Inl e
      | Inr (d, leaf) \<Rightarrow> Inr (t (d @ [leaf]) \<noteq> None))"

definition is_directory_in :: "fs \<Rightarrow> ustr \<Rightarrow> exn + bool" where
  "is_directory_in t relative =
     (case parts True relative of
        Inl e \<Rightarrow> Inl e
      | Inr ps \<Rightarrow> (case open_directory t [] ps of Inl _ \<Rightarrow> Inr False | Inr _ \<Rightarrow> Inr True))"

definition fs_read :: "env \<Rightarrow> (fs \<Rightarrow> exn + 'a) \<Rightarrow> 'a act" where
  "fs_read E f = fs_call E (\<lambda>t. (f t, t))"

definition fs_stat :: "env \<Rightarrow> ustr \<Rightarrow> fingerprint option act" where
  "fs_stat E relative = fs_read E (\<lambda>t. stat_in t relative)"

definition fs_exists :: "env \<Rightarrow> ustr \<Rightarrow> bool act" where
  "fs_exists E relative = fs_read E (\<lambda>t. exists_in t relative)"

text \<open>An operating-system error while opening the directory is an answer, not an exception.\<close>

definition fs_is_directory :: "env \<Rightarrow> ustr \<Rightarrow> bool act" where
  "fs_is_directory E relative =
     try_catch (fs_read E (\<lambda>t. is_directory_in t relative))
       (\<lambda>e. if e = FsError OsFailure then ret False else raise e)"

section \<open>The exclusive rename\<close>

text \<open>\<open>_lstat_regular\<close> followed by \<open>_require_identity\<close>.\<close>

definition require_identity :: "fs \<Rightarrow> ustr list \<Rightarrow> fingerprint \<Rightarrow> exn + unit" where
  "require_identity t p expected =
     (case t p of
        None \<Rightarrow> Inl (FsError SourceChanged)
      | Some (File fp) \<Rightarrow> if fp = expected then Inr () else Inl (FsError SourceChanged)
      | Some _ \<Rightarrow> Inl (FsError NotRegularFile))"

text \<open>
  The kernel's \<open>renameat2(RENAME_NOREPLACE)\<close>: the entry at \<open>s\<close>, with everything below it,
  takes the name \<open>t\<close>; an occupied target is refused.
\<close>

definition relocate :: "ustr list \<Rightarrow> ustr list \<Rightarrow> fs \<Rightarrow> fs" where
  "relocate s d t =
     (\<lambda>p. if take (length d) p = d then t (s @ drop (length d) p)
          else if take (length s) p = s then None else t p)"

definition rename_exclusive :: "ustr list \<Rightarrow> ustr list \<Rightarrow> fs \<Rightarrow> (exn + unit) \<times> fs" where
  "rename_exclusive s d t =
     (if t s = None \<or> t (butlast d) \<noteq> Some Dir then (Inl (FsError SourceChanged), t)
      else if t d \<noteq> None then (Inl (FsError TargetExists), t)
      else if take (length s) d = s then (Inl (FsError OsFailure), t)
      else (Inr (), relocate s d t))"

text \<open>\<open>_verify_and_fsync_after_rename\<close>; a failing \<open>fsync\<close> is the fault of the call.\<close>

definition verify_after_rename :: "fs \<Rightarrow> ustr list \<Rightarrow> fingerprint \<Rightarrow> exn + unit" where
  "verify_after_rename t d expected =
     (if t d = Some (File expected) then Inr () else Inl (FsError PostRenameChanged))"

definition rename_no_replace :: "env \<Rightarrow> ustr \<Rightarrow> ustr \<Rightarrow> fingerprint \<Rightarrow> unit act" where
  "rename_no_replace E source target expected =
     bnd (ensure (e_probe E) (FsError UnsupportedFilesystem)) (\<lambda>_.
     bnd (fs_read E (\<lambda>t. open_parent t source)) (\<lambda>sp.
     bnd (fs_read E (\<lambda>t. open_parent t target)) (\<lambda>tp.
     let s = fst sp @ [snd sp]; d = fst tp @ [snd tp] in
     bnd (fs_read E (\<lambda>t. require_identity t s expected)) (\<lambda>_.
     bnd (fs_read E (\<lambda>t. require_identity t s expected)) (\<lambda>_.
     bnd (fs_call E (rename_exclusive s d)) (\<lambda>_.
     fs_read E (\<lambda>t. verify_after_rename t d expected)))))))"

section \<open>Well-formed trees, quiet environments\<close>

text \<open>Every entry has a directory above it.\<close>

definition fs_wf :: "fs \<Rightarrow> bool" where
  "fs_wf t \<longleftrightarrow> t [] = Some Dir \<and> (\<forall>p c. t (p @ [c]) \<noteq> None \<longrightarrow> t p = Some Dir)"

text \<open>No other process touches the tree between two calls.\<close>

definition quiet :: "env \<Rightarrow> bool" where
  "quiet E \<longleftrightarrow> (\<forall>k t. e_disturb E k t = t)"

end
