(* ===== verification/Journal.thy ===== *)
theory Journal
  imports World
begin

text \<open>
  \<open>audit.py\<close> and the queries of \<open>audit_pagination.py\<close>: emitting an event into the append-only
  journal, the visibility of SYSTEM events, the in-memory query and the SQL query with its
  keyset condition, the newest visible event, and the list of actors. The journal is the list of
  events in \<open>seq\<close> order (\<open>AUTOINCREMENT\<close>, and the triggers that refuse updates and
  deletions); the event at position \<open>n\<close> has \<open>seq = n + 1\<close>.
\<close>

section \<open>Emitting\<close>

definition system_actions :: "audit_action list" where
  "system_actions = [LOGIN_SUCCEEDED, LOGIN_FAILURE, LOGOUT, ACCOUNT_BLOCKED, ACCOUNT_CREATED,
     ACCOUNT_UNBLOCKED, PASSWORD_CHANGED]"

definition new_event :: "ustr \<Rightarrow> actor option \<Rightarrow> audit_action \<Rightarrow> ustr \<Rightarrow> time \<Rightarrow> event_result \<Rightarrow> event" where
  "new_event event_id actor action request_id now result =
     \<lparr>ev_event_id = event_id, ev_occurred_at = now, ev_actor = actor,
      ev_category = (if action \<in> set system_actions then SYSTEM else BUSINESS), ev_action = action,
      ev_result = result, ev_request_id = request_id, ev_operation_id = None,
      ev_source_attempt_id = None, ev_company_id = None, ev_dictionary_id = None,
      ev_version_id = None, ev_rule_set_id = None, ev_batch_id = None, ev_attempt_id = None,
      ev_item_id = None, ev_source = None, ev_target = None, ev_reason_code = None, ev_comment = None\<rparr>"

text \<open>The keyword arguments \<open>**links\<close> are an update of the event's link fields.\<close>

definition emit ::
  "env \<Rightarrow> actor option \<Rightarrow> audit_action \<Rightarrow> ustr \<Rightarrow> time \<Rightarrow> event_result \<Rightarrow> (event \<Rightarrow> event) \<Rightarrow> event act" where
  "emit E actor action request_id now result links =
     bnd (uid E ''event'') (\<lambda>event_id.
     let e = links (new_event event_id actor action request_id now result) in
     bnd (append_event e) (\<lambda>_. ret e))"

section \<open>Reading\<close>

definition visible :: "actor \<Rightarrow> event \<Rightarrow> bool" where
  "visible actor e \<longleftrightarrow> act_role actor = ADMIN \<or> ev_category e = BUSINESS"

definition visible_events :: "db \<Rightarrow> actor \<Rightarrow> event list" where
  "visible_events d actor = filter (visible actor) (rev (db_audit d))"

definition query_bounds :: "actor \<Rightarrow> audit_query \<Rightarrow> exn + time \<times> time" where
  "query_bounds actor body =
     (if aq_from body \<ge> aq_to body then Inl (api VALIDATION_ERROR 422)
      else if (case aq_action body of None \<Rightarrow> False | Some a \<Rightarrow> a \<in> set system_actions) \<and> act_role actor \<noteq> ADMIN
      then Inl (api FORBIDDEN 403)
      else Inr (aq_from body, aq_to body))"

definition wanted :: "'a option \<Rightarrow> 'a option \<Rightarrow> bool" where
  "wanted x y \<longleftrightarrow> x = None \<or> y = x"

definition mentions :: "(ustr \<Rightarrow> ustr) \<Rightarrow> ustr \<Rightarrow> location option \<Rightarrow> bool" where
  "mentions casefold text l =
     (case l of None \<Rightarrow> contains text (casefold []) | Some l \<Rightarrow> contains text (casefold (loc_display_path l)))"

definition event_matches :: "(ustr \<Rightarrow> ustr) \<Rightarrow> audit_query \<Rightarrow> event \<Rightarrow> bool" where
  "event_matches casefold body e \<longleftrightarrow>
     aq_from body \<le> ev_occurred_at e \<and> ev_occurred_at e < aq_to body \<and>
     wanted (aq_company_id body) (ev_company_id e) \<and>
     wanted (aq_action body) (Some (ev_action e)) \<and>
     wanted (aq_result body) (Some (ev_result e)) \<and>
     (aq_actor_id body = None \<or>
        (case ev_actor e of None \<Rightarrow> False | Some a \<Rightarrow> Some (act_user_id a) = aq_actor_id body)) \<and>
     (let text = casefold (aq_query_text body) in
        text = [] \<or> mentions casefold text (ev_source e) \<or> mentions casefold text (ev_target e))"

definition event_key :: "event \<Rightarrow> time \<times> ustr" where
  "event_key e = (ev_occurred_at e, ev_event_id e)"

definition query_events :: "env \<Rightarrow> db \<Rightarrow> actor \<Rightarrow> audit_query \<Rightarrow> exn + event list" where
  "query_events E d actor body =
     (case query_bounds actor body of
        Inl e \<Rightarrow> Inl e
      | Inr _ \<Rightarrow>
          Inr (sorted_desc event_key (filter (event_matches (e_casefold E) body) (visible_events d actor))))"

section \<open>The SQL queries\<close>

text \<open>
  \<open>_where\<close> and \<open>_events\<close>: the rows with \<open>seq\<close> at most the cutoff, in the interval, visible,
  with the filters, strictly after the keyset position, newest first. A display path that is NULL
  makes \<open>wiseway_casefold_contains\<close> zero.
\<close>

definition sql_mentions :: "(ustr \<Rightarrow> ustr) \<Rightarrow> ustr \<Rightarrow> location option \<Rightarrow> bool" where
  "sql_mentions casefold needle l =
     (case l of None \<Rightarrow> False | Some l \<Rightarrow> contains (casefold needle) (casefold (loc_display_path l)))"

definition audit_where ::
  "(ustr \<Rightarrow> ustr) \<Rightarrow> actor \<Rightarrow> audit_query \<Rightarrow> (time \<times> ustr) option \<Rightarrow> event \<Rightarrow> bool" where
  "audit_where casefold actor body after e \<longleftrightarrow>
     aq_from body \<le> ev_occurred_at e \<and> ev_occurred_at e < aq_to body \<and>
     (act_role actor \<noteq> ADMIN \<longrightarrow> ev_category e = BUSINESS) \<and>
     (aq_company_id body \<noteq> None \<longrightarrow> ev_company_id e = aq_company_id body) \<and>
     (aq_action body \<noteq> None \<longrightarrow> Some (ev_action e) = aq_action body) \<and>
     (aq_result body \<noteq> None \<longrightarrow> Some (ev_result e) = aq_result body) \<and>
     (aq_actor_id body \<noteq> None \<longrightarrow> map_option act_user_id (ev_actor e) = aq_actor_id body) \<and>
     (aq_query_text body \<noteq> [] \<longrightarrow>
        sql_mentions casefold (aq_query_text body) (ev_source e) \<or>
        sql_mentions casefold (aq_query_text body) (ev_target e)) \<and>
     (case after of
        None \<Rightarrow> True
      | Some (occurred, event_id) \<Rightarrow>
          ev_occurred_at e < occurred \<or> ev_occurred_at e = occurred \<and> ev_event_id e < event_id)"

definition audit_rows ::
  "(ustr \<Rightarrow> ustr) \<Rightarrow> db \<Rightarrow> actor \<Rightarrow> audit_query \<Rightarrow> nat \<Rightarrow> nat \<Rightarrow> (time \<times> ustr) option \<Rightarrow> event list" where
  "audit_rows casefold d actor body cutoff_seq limit after =
     take (limit + 1)
       (sorted_desc event_key
         (filter (audit_where casefold actor body after) (take cutoff_seq (db_audit d))))"

definition newest_visible :: "db \<Rightarrow> actor \<Rightarrow> nat \<Rightarrow> ustr option" where
  "newest_visible d actor cutoff_seq =
     (case filter (visible actor) (rev (take cutoff_seq (db_audit d))) of
        [] \<Rightarrow> None | e # _ \<Rightarrow> Some (ev_event_id e))"

text \<open>\<open>SELECT MAX(seq)\<close> of the visible rows, 0 if there are none.\<close>

definition visible_cutoff :: "db \<Rightarrow> actor \<Rightarrow> nat" where
  "visible_cutoff d actor = length (dropWhile (\<lambda>e. \<not> visible actor e) (rev (db_audit d)))"

definition newest_visible_event_id :: "db \<Rightarrow> actor \<Rightarrow> ustr option" where
  "newest_visible_event_id d actor = newest_visible d actor (visible_cutoff d actor)"

text \<open>
  \<open>audit_actors\<close>: for every visible actor identifier, the actor document of its first event,
  if its name or login starts with the prefix, sorted by folded name and identifier.
\<close>

definition first_actor :: "event list \<Rightarrow> ustr \<Rightarrow> actor option" where
  "first_actor evs actor_id =
     (case filter (\<lambda>e. map_option act_user_id (ev_actor e) = Some actor_id) evs of
        [] \<Rightarrow> None | e # _ \<Rightarrow> ev_actor e)"

definition audit_actors :: "env \<Rightarrow> db \<Rightarrow> actor \<Rightarrow> ustr \<Rightarrow> actor list" where
  "audit_actors E d viewer prefix =
     (let evs = filter (visible viewer) (db_audit d);
          ids = remdups (List.map_filter (\<lambda>e. map_option act_user_id (ev_actor e)) evs);
          cf = e_casefold E
      in sort_key (\<lambda>a. (cf (act_display_name a), act_user_id a))
           (filter (\<lambda>a. starts_with (cf (act_display_name a)) (cf prefix) \<or> starts_with (cf (act_login a)) (cf prefix))
             (List.map_filter (first_actor evs) ids)))"

lemma wp_emit [wp_rules]:
  "wp (emit E a c r n s l) Q X w =
   (let e = l (new_event (lit ''event'' @ 45 # e_uid E (tick w)) a c r n s); u = w\<lparr>tick := Suc (tick w)\<rparr> in
    if ev_event_id e \<in> ev_event_id ` set (db_audit (db w)) then X IntegrityError u
    else Q e (u\<lparr>db := db_audit_update (\<lambda>l. l @ [e]) (db w)\<rparr>))"
  by (simp add: emit_def wp_rules Let_def)

end
