(* ===== verification/Services.thy ===== *)
theory Services
  imports Files Rules Journal
begin

text \<open>
  The class \<open>Context\<close> of \<open>services.py\<close> without its pagination: logical locations and their
  physical paths, the plan of a list of items against the sandbox, the public view of a batch
  computed from its attempts, and the idempotent execution of an operation.
\<close>

section \<open>Locations\<close>

text \<open>
  \<open>str(PurePosixPath(relative))\<close> is \<open>relative\<close> itself for a path that passes the checks:
  it has no empty, dot or double-dot component and no leading slash.
\<close>

definition safe_relative :: "ustr \<Rightarrow> bool" where
  "safe_relative relative \<longleftrightarrow>
     relative \<noteq> [] \<and> backslash \<notin> set relative \<and> \<not> starts_with relative [slash] \<and>
     (\<forall>p\<in>set (split_on slash relative). p \<noteq> [] \<and> p \<noteq> lit ''.'' \<and> p \<noteq> lit ''..'')"

definition location :: "ustr \<Rightarrow> ustr \<Rightarrow> location act" where
  "location root_id relative =
     bnd (get_row db_root root_id) (\<lambda>root.
     case root of
       None \<Rightarrow> raise (api INVALID_TARGET 422)
     | Some root \<Rightarrow>
         bnd (ensure (safe_relative relative) (api PATH_OUTSIDE_ROOT 422)) (\<lambda>_.
         ret \<lparr>loc_root_id = root_id, loc_relative_path = relative,
              loc_display_path = rstrip_char slash (rt_display_prefix root) @ slash # relative\<rparr>))"

definition physical :: "location \<Rightarrow> ustr act" where
  "physical l =
     bnd (location (loc_root_id l) (loc_relative_path l)) (\<lambda>checked.
     bnd (require_row db_root (loc_root_id checked)) (\<lambda>root.
     ret (join_with slash (filter (\<lambda>p. p \<noteq> []) [rt_base root, loc_relative_path checked]))))"

text \<open>The physical path as a function of the database.\<close>

definition phys_path :: "db \<Rightarrow> location \<Rightarrow> ustr option" where
  "phys_path d l =
     (case tbl_get (db_root d) (loc_root_id l) of
        None \<Rightarrow> None
      | Some root \<Rightarrow>
          if safe_relative (loc_relative_path l)
          then Some (if rt_base root = [] then loc_relative_path l
                     else rt_base root @ slash # loc_relative_path l)
          else None)"

definition exists_at :: "env \<Rightarrow> location \<Rightarrow> bool act" where
  "exists_at E l = bnd (physical l) (fs_exists E)"

definition targets :: "env \<Rightarrow> ustr \<Rightarrow> target_dir list act" where
  "targets E company_id =
     bnd (require_row db_company company_id) (\<lambda>company.
     bnd (fold_act (\<lambda>target result.
            bnd (location (tg_root_id target) (tg_relative_directory target)) (\<lambda>l.
            bnd (physical l) (\<lambda>p.
            bnd (fs_is_directory E p) (\<lambda>is_dir.
            ret (if is_dir
                 then result @ [\<lparr>tg_root_id = tg_root_id target,
                                 tg_relative_directory = tg_relative_directory target,
                                 td_display_path = loc_display_path l\<rparr>]
                 else result)))))
          (c_targets company) []) (\<lambda>result.
     ret (sort_key (\<lambda>v. (e_casefold E (td_display_path v), td_display_path v)) result)))"

section \<open>Plans\<close>

definition ready_items :: "ustr \<Rightarrow> queue_item list act" where
  "ready_items company_id =
     bnd (list_rows db_queue) (\<lambda>rows.
     ret (map public_item
       (filter (\<lambda>q. q_company_id q = company_id \<and> q_status q = Q_READY \<and> q_selectable q) rows)))"

definition source_info :: "env \<Rightarrow> location \<Rightarrow> metadata option act" where
  "source_info E l =
     bnd (physical l) (\<lambda>p.
     bnd (fs_stat E p) (\<lambda>meta.
     ret (case meta of
            None \<Rightarrow> None
          | Some m \<Rightarrow>
              Some \<lparr>md_filename = last (split_on slash (loc_relative_path l)), md_location = l,
                    md_size_bytes = fp_size m, md_modified_at = utc_ns (fp_mtime_ns m)\<rparr>)))"

definition plan :: "env \<Rightarrow> queue_item list \<Rightarrow> flat_rule list \<Rightarrow> ustr \<Rightarrow> plan_row list act" where
  "plan E items rules company_id =
     bnd (require_row db_company company_id) (\<lambda>company.
     plan_rows (e_casefold E) items rules
       \<lparr>tg_root_id = lit ''manual-root'', tg_relative_directory = c_folder company\<rparr>
       (exists_at E) location (source_info E))"

section \<open>Batches\<close>

text \<open>\<open>batch_attempts\<close>: the attempt rows of every requested batch, in one pass.\<close>

definition batch_attempts :: "ustr list \<Rightarrow> (ustr \<times> attempt list) list act" where
  "batch_attempts batch_ids =
     bnd (list_rows db_attempt) (\<lambda>rows.
     ret (map (\<lambda>b. (b, filter (\<lambda>a. a_batch_id a = b) rows)) (remdups batch_ids)))"

definition zero_outcome_counts :: outcome_counts where
  "zero_outcome_counts = \<lparr>oc_sorted = 0, oc_manual_review = 0, oc_requires_decision = 0,
     oc_quarantined = 0, oc_skipped = 0, oc_recovery_required = 0\<rparr>"

fun count_outcome :: "outcome_state \<Rightarrow> outcome_counts \<Rightarrow> outcome_counts" where
  "count_outcome O_SORTED c = c\<lparr>oc_sorted := oc_sorted c + 1\<rparr>"
| "count_outcome O_MANUAL_REVIEW c = c\<lparr>oc_manual_review := oc_manual_review c + 1\<rparr>"
| "count_outcome O_REQUIRES_DECISION c = c\<lparr>oc_requires_decision := oc_requires_decision c + 1\<rparr>"
| "count_outcome O_QUARANTINED c = c\<lparr>oc_quarantined := oc_quarantined c + 1\<rparr>"
| "count_outcome O_SKIPPED c = c\<lparr>oc_skipped := oc_skipped c + 1\<rparr>"
| "count_outcome O_RECOVERY_REQUIRED c = c\<lparr>oc_recovery_required := oc_recovery_required c + 1\<rparr>"
| "count_outcome O_PENDING c = c"
| "count_outcome O_PROCESSING c = c"

definition completed_of :: "outcome_counts \<Rightarrow> nat" where
  "completed_of c = oc_sorted c + oc_manual_review c + oc_requires_decision c + oc_quarantined c + oc_skipped c"

definition batch_view :: "batch \<Rightarrow> attempt list \<Rightarrow> batch" where
  "batch_view b attempts =
     (let outcomes = sort_key o_attempt_id (map a_outcome attempts);
          counts = fold (\<lambda>x. count_outcome (o_state x)) outcomes zero_outcome_counts;
          completed = completed_of counts;
          started = List.map_filter o_started_at outcomes;
          finished = List.map_filter o_finished_at outcomes;
          status =
            (if completed = b_selected_count b
             then (if oc_sorted counts = completed then B_COMPLETED else B_COMPLETED_WITH_ISSUES)
             else if oc_recovery_required counts \<noteq> 0 then B_RECOVERY_REQUIRED
             else if started \<noteq> [] then B_RUNNING
             else B_ACCEPTED)
      in b\<lparr>b_outcomes := outcomes, b_counts := counts, b_completed_count := completed,
           b_started_at := (if started = [] then None else Some (Min (set started))),
           b_finished_at :=
             (if completed = b_selected_count b \<and> finished \<noteq> [] then Some (Max (set finished)) else None),
           b_status := status\<rparr>)"

definition batch_of :: "ustr \<Rightarrow> batch act" where
  "batch_of batch_id =
     bnd (require_row db_batch batch_id) (\<lambda>b.
     bnd (batch_attempts [batch_id]) (\<lambda>grouped.
     ret (batch_view b (snd (hd grouped)))))"

section \<open>Idempotent execution\<close>

definition idempotent ::
  "env \<Rightarrow> ustr \<Rightarrow> actor \<Rightarrow> ustr \<Rightarrow> hashed \<Rightarrow> (nat \<times> idem_result) act \<Rightarrow> (nat \<times> idem_result) act" where
  "idempotent E operation actor key body action =
     (let record_id = e_digest E (H_strings [act_user_id actor, operation, key]) in
      bnd (get_row db_idempotency record_id) (\<lambda>previous.
      case previous of
        Some p \<Rightarrow>
          if id_body p \<noteq> e_digest E body then raise (api IDEMPOTENCY_KEY_REUSED 409)
          else ret (id_status p, id_result p)
      | None \<Rightarrow>
          bnd action (\<lambda>r.
          bnd (insert_row db_idempotency db_idempotency_update record_id
                 \<lparr>id_body = e_digest E body, id_status = fst r, id_result = snd r\<rparr>) (\<lambda>_.
          ret r))))"

section \<open>Lemmas\<close>

lemma wp_location [wp_rules]:
  "wp (location r p) Q X w =
   (case tbl_get (db_root (db w)) r of
      None \<Rightarrow> X (api INVALID_TARGET 422) w
    | Some root \<Rightarrow>
        if safe_relative p
        then Q \<lparr>loc_root_id = r, loc_relative_path = p,
                loc_display_path = rstrip_char slash (rt_display_prefix root) @ slash # p\<rparr> w
        else X (api PATH_OUTSIDE_ROOT 422) w)"
  by (simp add: location_def wp_rules split: option.split)

lemma safe_relative_nonempty: "safe_relative p \<Longrightarrow> p \<noteq> []"
  by (simp add: safe_relative_def)

lemma wp_physical [wp_rules]:
  "wp (physical l) Q X w =
   (case phys_path (db w) l of
      Some p \<Rightarrow> Q p w
    | None \<Rightarrow> X (if tbl_get (db_root (db w)) (loc_root_id l) = None then api INVALID_TARGET 422
                else api PATH_OUTSIDE_ROOT 422) w)"
  by (auto simp: physical_def phys_path_def wp_rules safe_relative_nonempty split: option.split)

lemma keeps_location [keeps_rules]: "keeps I (location r p)"
  unfolding location_def by (intro keeps_rules)

lemma keeps_physical [keeps_rules]: "keeps I (physical l)"
  unfolding physical_def by (intro keeps_rules)

lemma keeps_fs_read [keeps_rules]: "keeps (on_db I) (fs_read E f)"
  unfolding fs_read_def by (intro keeps_rules)

lemma keeps_fs_stat [keeps_rules]: "keeps (on_db I) (fs_stat E p)"
  unfolding fs_stat_def by (intro keeps_rules)

lemma keeps_fs_exists [keeps_rules]: "keeps (on_db I) (fs_exists E p)"
  unfolding fs_exists_def by (intro keeps_rules)

lemma keeps_fs_is_directory [keeps_rules]: "keeps (on_db I) (fs_is_directory E p)"
  unfolding fs_is_directory_def by (intro keeps_rules)

lemma keeps_rename [keeps_rules]: "keeps (on_db I) (rename_no_replace E s t fp)"
  unfolding rename_no_replace_def by (intro keeps_rules)

lemma keeps_exists_at [keeps_rules]: "keeps (on_db I) (exists_at E l)"
  unfolding exists_at_def by (intro keeps_rules)

lemma keeps_source_info [keeps_rules]: "keeps (on_db I) (source_info E l)"
  unfolding source_info_def by (intro keeps_rules)

end
