(* ===== verification/Pages.thy ===== *)
theory Pages
  imports Services
begin

text \<open>
  The immutable pages of \<open>services.py\<close> and \<open>audit_pagination.py\<close>: a result that does not
  fit on its first page is stored once as a snapshot, and opaque cursors address positions in
  it; the audit journal is paged by a keyset position under a fixed cutoff. Snapshots are
  bounded in number and size per user and expire after a day.
\<close>

section \<open>Quota and expiry\<close>

definition page_cursor_seconds :: time where
  "page_cursor_seconds = seconds 86400"

definition max_page_snapshots_per_user :: nat where
  "max_page_snapshots_per_user = 64"

definition max_page_snapshot_bytes :: nat where
  "max_page_snapshot_bytes = 8388608"

definition max_page_snapshot_total_bytes_per_user :: nat where
  "max_page_snapshot_total_bytes_per_user = 33554432"

definition delete_expired_pages :: "time \<Rightarrow> unit act" where
  "delete_expired_pages now =
     modify (\<lambda>w. w\<lparr>db := (db w)
       \<lparr>db_cursor := filter (\<lambda>r. now < cu_expires (snd r)) (db_cursor (db w)),
        db_page_snapshot := filter (\<lambda>r. now < ps_expires (snd r)) (db_page_snapshot (db w))\<rparr>\<rparr>)"

definition owned_snapshots :: "db \<Rightarrow> ustr \<Rightarrow> page_snapshot list" where
  "owned_snapshots d owner = filter (\<lambda>s. ps_owner s = owner) (tbl_rows (db_page_snapshot d))"

definition check_page_quota :: "ustr \<Rightarrow> nat \<Rightarrow> unit act" where
  "check_page_quota owner payload_bytes =
     bnd (asks (\<lambda>w. owned_snapshots (db w) owner)) (\<lambda>owned.
     ensure (\<not> (payload_bytes > max_page_snapshot_bytes \<or>
                length owned \<ge> max_page_snapshots_per_user \<or>
                sum_list (map ps_payload_bytes owned) + payload_bytes > max_page_snapshot_total_bytes_per_user))
       (ApiError RATE_LIMITED 429 None True))"

section \<open>Snapshot pages\<close>

abbreviation bad_cursor :: exn where
  "bad_cursor \<equiv> api VALIDATION_ERROR 422"

text \<open>Where a page starts: offset, expiry, snapshot identifier, stored snapshot, payload.\<close>

record page_start =
  st_offset :: nat
  st_expires :: time
  st_snapshot_id :: ustr
  st_snapshot :: "page_snapshot option"
  st_payload :: payload

definition snapshot_key :: "env \<Rightarrow> scope \<Rightarrow> ustr \<Rightarrow> ustr \<Rightarrow> payload \<Rightarrow> ustr" where
  "snapshot_key E scope user signature payload =
     lit ''page-snapshot-'' @ e_digest E (H_page scope user signature payload)"

definition resume_page ::
  "env \<Rightarrow> scope \<Rightarrow> ustr \<Rightarrow> ustr \<Rightarrow> payload \<Rightarrow> time \<Rightarrow> ustr \<Rightarrow> page_start act" where
  "resume_page E scope user signature payload now c =
     bnd (get_row db_cursor c) (\<lambda>saved.
     case saved of
       None \<Rightarrow> raise bad_cursor
     | Some cu \<Rightarrow>
         if cu_scope cu \<noteq> scope \<or> cu_owner cu \<noteq> user \<or> cu_query cu \<noteq> signature \<or> cu_expires cu \<le> now
         then raise bad_cursor
         else
           (case cu_legacy cu of
              Some old \<Rightarrow>
                let snapshot_id = lit ''page-snapshot-legacy-'' @ take 32 (e_digest E (H_legacy c)) in
                bnd (get_row db_page_snapshot snapshot_id) (\<lambda>snapshot.
                ret \<lparr>st_offset = cu_offset cu, st_expires = cu_expires cu, st_snapshot_id = snapshot_id,
                     st_snapshot = snapshot,
                     st_payload =
                       (case snapshot of
                          Some s \<Rightarrow> (case ps_body s of Snap_rows _ p \<Rightarrow> p | Snap_audit _ _ \<Rightarrow> old)
                        | None \<Rightarrow> old)\<rparr>)
            | None \<Rightarrow>
                bnd (get_row db_page_snapshot (cu_snapshot_id cu)) (\<lambda>snapshot.
                case snapshot of
                  None \<Rightarrow> raise bad_cursor
                | Some s \<Rightarrow>
                    (case ps_body s of
                       Snap_audit _ _ \<Rightarrow> raise PyKeyError
                     | Snap_rows sc p \<Rightarrow>
                         if sc \<noteq> scope \<or> ps_owner s \<noteq> user \<or> ps_query s \<noteq> signature \<or> ps_expires s \<le> now
                         then raise bad_cursor
                         else ret \<lparr>st_offset = cu_offset cu, st_expires = cu_expires cu,
                                   st_snapshot_id = ps_snapshot_id s, st_snapshot = Some s,
                                   st_payload = p\<rparr>))))"

definition first_page ::
  "env \<Rightarrow> scope \<Rightarrow> ustr \<Rightarrow> ustr \<Rightarrow> payload \<Rightarrow> time \<Rightarrow> page_start act" where
  "first_page E scope user signature payload now =
     bnd (delete_expired_pages now) (\<lambda>_.
     let snapshot_id = snapshot_key E scope user signature payload in
     bnd (get_row db_page_snapshot snapshot_id) (\<lambda>snapshot.
     ret \<lparr>st_offset = 0,
          st_expires = (case snapshot of Some s \<Rightarrow> ps_expires s | None \<Rightarrow> now + page_cursor_seconds),
          st_snapshot_id = snapshot_id, st_snapshot = snapshot, st_payload = payload\<rparr>))"

text \<open>The snapshot of a page with a successor: the stored one, or a new one within the quota.\<close>

definition keep_snapshot ::
  "env \<Rightarrow> scope \<Rightarrow> ustr \<Rightarrow> ustr \<Rightarrow> page_start \<Rightarrow> ustr act" where
  "keep_snapshot E scope user signature st =
     (case st_snapshot st of
        Some s \<Rightarrow> ret (ps_snapshot_id s)
      | None \<Rightarrow>
          let payload_bytes = e_payload_bytes E (st_payload st) in
          bnd (check_page_quota user payload_bytes) (\<lambda>_.
          bnd (put_row db_page_snapshot_update (st_snapshot_id st)
                 \<lparr>ps_snapshot_id = st_snapshot_id st, ps_owner = user, ps_query = signature,
                  ps_body = Snap_rows scope (st_payload st), ps_payload_bytes = payload_bytes,
                  ps_expires = st_expires st\<rparr>) (\<lambda>_.
          ret (st_snapshot_id st))))"

definition cursor_key ::
  "env \<Rightarrow> scope \<Rightarrow> ustr \<Rightarrow> ustr \<Rightarrow> ustr \<Rightarrow> nat \<Rightarrow> time \<Rightarrow> ustr" where
  "cursor_key E scope user signature snapshot_id next_offset expires =
     lit ''cursor-'' @ take 32 (e_digest E (H_cursor scope user signature snapshot_id next_offset expires))"

definition page_write ::
  "env \<Rightarrow> scope \<Rightarrow> actor \<Rightarrow> hashed \<Rightarrow> payload \<Rightarrow> ustr option \<Rightarrow> nat \<Rightarrow> page_result act" where
  "page_write E scope actor query payload cursor limit =
     (let user = act_user_id actor; signature = e_digest E query in
      bnd (read_clock E) (\<lambda>now.
      bnd (case cursor of
             Some c \<Rightarrow> if c \<noteq> [] then resume_page E scope user signature payload now c
                       else first_page E scope user signature payload now
           | None \<Rightarrow> first_page E scope user signature payload now) (\<lambda>st.
      let rows = pl_rows (st_payload st);
          out = (st_payload st)\<lparr>pl_rows := take limit (drop (st_offset st) rows)\<rparr>;
          next_offset = st_offset st + limit in
      if next_offset < length rows then
        bnd (keep_snapshot E scope user signature st) (\<lambda>snapshot_id.
        let key = cursor_key E scope user signature snapshot_id next_offset (st_expires st) in
        bnd (put_row db_cursor_update key
               \<lparr>cu_scope = scope, cu_owner = user, cu_query = signature, cu_snapshot_id = snapshot_id,
                cu_offset = next_offset, cu_expires = st_expires st, cu_legacy = None,
                cu_position = None\<rparr>) (\<lambda>_.
        ret \<lparr>pg_payload = out, pg_next_cursor = Some key\<rparr>))
      else ret \<lparr>pg_payload = out, pg_next_cursor = None\<rparr>)))"

text \<open>
  \<open>Context.page\<close>. \<open>write\<close> is \<open>tx.write\<close>; a reader opens a short write transaction for
  the pagination metadata.
\<close>

definition page ::
  "env \<Rightarrow> bool \<Rightarrow> scope \<Rightarrow> actor \<Rightarrow> hashed \<Rightarrow> payload \<Rightarrow> ustr option \<Rightarrow> nat \<Rightarrow> page_result act" where
  "page E write scope actor query payload cursor limit =
     (if cursor = None \<and> length (pl_rows payload) \<le> limit
      then ret \<lparr>pg_payload = payload\<lparr>pl_rows := take limit (pl_rows payload)\<rparr>, pg_next_cursor = None\<rparr>
      else if write then page_write E scope actor query payload cursor limit
      else transaction E (page_write E scope actor query payload cursor limit))"

section \<open>Keyset pages of the audit journal\<close>

record audit_page =
  ap_items :: "event list"
  ap_next_cursor :: "ustr option"
  ap_newest_event_id :: "ustr option"

record audit_snapshot =
  as_snapshot_id :: ustr
  as_cutoff_seq :: nat
  as_newest_event_id :: "ustr option"

definition snapshot_for_cursor ::
  "actor \<Rightarrow> ustr \<Rightarrow> ustr \<Rightarrow> time \<Rightarrow> (audit_snapshot \<times> (time \<times> ustr)) act" where
  "snapshot_for_cursor actor signature c now =
     bnd (get_row db_cursor c) (\<lambda>saved.
     case saved of
       None \<Rightarrow> raise bad_cursor
     | Some cu \<Rightarrow>
         (case cu_position cu of
            None \<Rightarrow> raise bad_cursor
          | Some after \<Rightarrow>
              if cu_scope cu \<noteq> Scope_audit \<or> cu_owner cu \<noteq> act_user_id actor \<or> cu_query cu \<noteq> signature
                 \<or> cu_expires cu \<le> now
              then raise bad_cursor
              else bnd (get_row db_page_snapshot (cu_snapshot_id cu)) (\<lambda>snapshot.
                case snapshot of
                  None \<Rightarrow> raise bad_cursor
                | Some s \<Rightarrow>
                    (case ps_body s of
                       Snap_rows _ _ \<Rightarrow> raise bad_cursor
                     | Snap_audit cutoff newest \<Rightarrow>
                         if ps_owner s \<noteq> act_user_id actor \<or> ps_query s \<noteq> signature \<or> ps_expires s \<le> now
                         then raise bad_cursor
                         else ret (\<lparr>as_snapshot_id = ps_snapshot_id s, as_cutoff_seq = cutoff,
                                    as_newest_event_id = newest\<rparr>, after)))))"

text \<open>\<open>SELECT ... LIMIT 1\<close> without an order: the first row in key order stands for any.\<close>

definition same_audit_snapshot :: "ustr \<Rightarrow> ustr \<Rightarrow> nat \<Rightarrow> time \<Rightarrow> page_snapshot \<Rightarrow> bool" where
  "same_audit_snapshot owner signature cutoff now s \<longleftrightarrow>
     (case ps_body s of Snap_audit c _ \<Rightarrow> c = cutoff | Snap_rows _ _ \<Rightarrow> False) \<and>
     ps_owner s = owner \<and> ps_query s = signature \<and> ps_expires s > now"

definition snap_newest :: "page_snapshot \<Rightarrow> ustr option" where
  "snap_newest s = (case ps_body s of Snap_audit _ newest \<Rightarrow> newest | Snap_rows _ _ \<Rightarrow> None)"

definition reserve_audit_snapshot ::
  "env \<Rightarrow> actor \<Rightarrow> ustr \<Rightarrow> nat \<Rightarrow> ustr option \<Rightarrow> audit_snapshot act" where
  "reserve_audit_snapshot E actor signature cutoff_seq newest_event_id =
     bnd (read_clock E) (\<lambda>now.
     let expires = now + page_cursor_seconds; user = act_user_id actor in
     transaction E (
       bnd (delete_expired_pages now) (\<lambda>_.
       bnd (list_rows db_page_snapshot) (\<lambda>rows.
       case filter (same_audit_snapshot user signature cutoff_seq now) rows of
         s # _ \<Rightarrow> ret \<lparr>as_snapshot_id = ps_snapshot_id s, as_cutoff_seq = cutoff_seq,
                      as_newest_event_id = snap_newest s\<rparr>
       | [] \<Rightarrow>
           let snapshot_id = lit ''audit-page-snapshot-'' @
                 take 32 (e_digest E (H_audit_snapshot user signature cutoff_seq expires));
               bytes = e_metadata_bytes E snapshot_id user signature cutoff_seq newest_event_id expires in
           bnd (check_page_quota user bytes) (\<lambda>_.
           bnd (put_row db_page_snapshot_update snapshot_id
                  \<lparr>ps_snapshot_id = snapshot_id, ps_owner = user, ps_query = signature,
                   ps_body = Snap_audit cutoff_seq newest_event_id, ps_payload_bytes = bytes,
                   ps_expires = expires\<rparr>) (\<lambda>_.
           ret \<lparr>as_snapshot_id = snapshot_id, as_cutoff_seq = cutoff_seq,
                as_newest_event_id = newest_event_id\<rparr>))))))"

definition create_audit_cursor ::
  "env \<Rightarrow> actor \<Rightarrow> ustr \<Rightarrow> audit_snapshot \<Rightarrow> time \<Rightarrow> ustr \<Rightarrow> ustr act" where
  "create_audit_cursor E actor signature snapshot occurred_at event_id =
     bnd (read_clock E) (\<lambda>now.
     let user = act_user_id actor;
         key = lit ''cursor-'' @
           take 32 (e_digest E (H_audit_cursor user signature (as_snapshot_id snapshot) occurred_at event_id)) in
     bnd (transaction E (
       bnd (get_row db_page_snapshot (as_snapshot_id snapshot)) (\<lambda>saved.
       case saved of
         None \<Rightarrow> raise bad_cursor
       | Some s \<Rightarrow>
           (case ps_body s of
              Snap_rows _ _ \<Rightarrow> raise bad_cursor
            | Snap_audit _ _ \<Rightarrow>
                if ps_owner s \<noteq> user \<or> ps_query s \<noteq> signature \<or> ps_expires s \<le> now then raise bad_cursor
                else put_row db_cursor_update key
                  \<lparr>cu_scope = Scope_audit, cu_owner = user, cu_query = signature,
                   cu_snapshot_id = ps_snapshot_id s, cu_offset = 0, cu_expires = ps_expires s,
                   cu_legacy = None, cu_position = Some (occurred_at, event_id)\<rparr>)))) (\<lambda>_.
     ret key))"

definition query_page ::
  "env \<Rightarrow> actor \<Rightarrow> audit_query \<Rightarrow> ustr option \<Rightarrow> nat \<Rightarrow> audit_page act" where
  "query_page E actor body cursor limit =
     (let signature = e_digest E (H_audit_query body) in
     bnd (case query_bounds actor body of Inl e \<Rightarrow> raise e | Inr _ \<Rightarrow> ret ()) (\<lambda>_.
     bnd (read_clock E) (\<lambda>now.
     bnd (case cursor of
            Some c \<Rightarrow>
              if c \<noteq> [] then
                bnd (snapshot_for_cursor actor signature c now) (\<lambda>sa.
                ret (Some (fst sa), Some (snd sa), as_cutoff_seq (fst sa), as_newest_event_id (fst sa)))
              else asks (\<lambda>w. let cutoff = visible_cutoff (db w) actor in
                     (None, None, cutoff, newest_visible (db w) actor cutoff))
          | None \<Rightarrow> asks (\<lambda>w. let cutoff = visible_cutoff (db w) actor in
                     (None, None, cutoff, newest_visible (db w) actor cutoff)))
       (\<lambda>(snapshot, after, cutoff_seq, newest_event_id).
     bnd (asks (\<lambda>w. audit_rows (e_casefold E) (db w) actor body cutoff_seq limit after)) (\<lambda>rows.
     let items = take limit rows in
     if length rows > limit then
       bnd (case snapshot of
              Some s \<Rightarrow> ret s
            | None \<Rightarrow> reserve_audit_snapshot E actor signature cutoff_seq newest_event_id) (\<lambda>s.
       let l = last items in
       bnd (create_audit_cursor E actor signature s (ev_occurred_at l) (ev_event_id l)) (\<lambda>key.
       ret \<lparr>ap_items = items, ap_next_cursor = Some key, ap_newest_event_id = newest_event_id\<rparr>))
     else ret \<lparr>ap_items = items, ap_next_cursor = None, ap_newest_event_id = newest_event_id\<rparr>)))))"

end
