(* ===== verification/Worker.thy ===== *)
theory Worker
  imports Services
begin

text \<open>
  \<open>worker.py\<close>: the durable executor of accepted attempts, and \<open>enqueue_move\<close> of
  \<open>search_outbox.py\<close>, which it calls. Every database step is its own transaction; the rename
  lies between the transaction that makes the intent durable and the one that records the
  outcome. A read-only transaction neither writes nor fails to commit and is its body. The lock
  of the worker is not modelled: it makes \<open>run_once\<close> return zero.
\<close>

section \<open>Reading an attempt\<close>

definition get_attempt :: "ustr \<Rightarrow> attempt option act" where
  "get_attempt attempt_id = get_row db_attempt attempt_id"

definition manual_target :: "attempt \<Rightarrow> location act" where
  "manual_target a =
     bnd (require_row db_company (a_company_id a)) (\<lambda>company.
     location (lit ''manual-root'') (c_folder company @ slash # q_filename (a_item a)))"

definition quarantine_target :: "attempt \<Rightarrow> location act" where
  "quarantine_target a =
     bnd (require_row db_company (a_company_id a)) (\<lambda>company.
     location (lit ''quarantine-root'')
       (c_folder company @ slash # a_attempt_id a @ 95 # q_filename (a_item a)))"

section \<open>Steps inside a transaction\<close>

definition attempt_links :: "attempt \<Rightarrow> event \<Rightarrow> event" where
  "attempt_links a e =
     e\<lparr>ev_company_id := Some (a_company_id a), ev_batch_id := Some (a_batch_id a),
       ev_attempt_id := Some (a_attempt_id a), ev_item_id := Some (q_item_id (a_item a)),
       ev_source := Some (q_source (a_item a))\<rparr>"

text \<open>\<open>_start_attempt\<close>: returns the attempt with its start time set.\<close>

definition start_attempt :: "env \<Rightarrow> attempt \<Rightarrow> time \<Rightarrow> location option \<Rightarrow> attempt act" where
  "start_attempt E a now target =
     (if o_started_at (a_outcome a) \<noteq> None then ret a
      else
        bnd (emit E (Some (a_actor a)) FILE_ATTEMPT_STARTED (a_request_id a) now SUCCESS
               (\<lambda>e. (attempt_links a e)\<lparr>ev_target := target\<rparr>)) (\<lambda>_.
        ret (a\<lparr>a_outcome := (a_outcome a)\<lparr>o_started_at := Some now\<rparr>\<rparr>)))"

definition quarantine_key :: "attempt \<Rightarrow> ustr" where
  "quarantine_key a = lit ''quarantine-'' @ a_attempt_id a"

definition put_quarantine :: "attempt \<Rightarrow> location \<Rightarrow> time \<Rightarrow> unit act" where
  "put_quarantine a target now =
     bnd (get_row db_quarantine (quarantine_key a)) (\<lambda>old.
     if old = None then
       put_row db_quarantine_update (quarantine_key a)
         \<lparr>qu_quarantine_id = quarantine_key a, qu_revision = 1, qu_item_id = q_item_id (a_item a),
          qu_company_id = a_company_id a, qu_filename = q_filename (a_item a), qu_location = target,
          qu_original_location = q_source (a_item a), qu_reason_code = TECHNICAL_ERROR,
          qu_quarantined_at = now, qu_source_attempt_id = a_attempt_id a,
          qu_recovery_operation_id = None, qu_can_return = True,
          qu_fingerprint = Some (q_fingerprint (a_item a)), qu_returned = False\<rparr>
     else ret ())"

text \<open>
  \<open>enqueue_move\<close>: only for a root whose index is stored in OpenSearch; one row per attempt, the
  first one wins (\<open>ON CONFLICT(event_key) DO NOTHING\<close>).
\<close>

definition add_outbox :: "outbox_row \<Rightarrow> outbox_row list \<Rightarrow> outbox_row list" where
  "add_outbox row rows = (if ob_event_key row \<in> ob_event_key ` set rows then rows else rows @ [row])"

definition enqueue_move :: "ustr \<Rightarrow> ustr \<Rightarrow> location \<Rightarrow> fingerprint \<Rightarrow> unit act" where
  "enqueue_move attempt_id item_id actual fp =
     bnd (get_row db_root (loc_root_id actual)) (\<lambda>root.
     if (case root of None \<Rightarrow> True | Some r \<Rightarrow> \<not> rt_opensearch r) then ret ()
     else
       modify (\<lambda>w. w\<lparr>db := db_outbox_update (add_outbox
         \<lparr>ob_event_key = attempt_id, ob_root_id = loc_root_id actual, ob_item_id = item_id,
          ob_relative_path = loc_relative_path actual, ob_size_bytes = fp_size fp,
          ob_modified_at = utc_ns (fp_mtime_ns fp)\<rparr>) (db w)\<rparr>))"

text \<open>The queue item after an outcome; \<open>current\<close> is the file found for a changed source.\<close>

definition finished_item ::
  "queue_item \<Rightarrow> outcome_state \<Rightarrow> reason option \<Rightarrow> fingerprint option \<Rightarrow> time \<Rightarrow> queue_item" where
  "finished_item item state reason current now =
     (if state = O_REQUIRES_DECISION then
        item\<lparr>q_status := Q_REQUIRES_DECISION, q_selectable := True, q_active_attempt_id := None,
             q_reason_code := reason\<rparr>
      else if state = O_SKIPPED \<and> reason = Some SOURCE_MISSING then
        item\<lparr>q_status := Q_MISSING, q_selectable := False, q_active_attempt_id := None, q_reason_code := reason\<rparr>
      else if state = O_SKIPPED \<and> reason = Some SOURCE_CHANGED then
        (case current of
           None \<Rightarrow>
             item\<lparr>q_status := Q_MISSING, q_selectable := False, q_active_attempt_id := None,
                  q_reason_code := Some SOURCE_MISSING\<rparr>
         | Some fp \<Rightarrow>
             item\<lparr>q_item_revision := q_item_revision item + 1, q_status := Q_WAITING_READY,
                  q_selectable := False, q_active_attempt_id := None,
                  q_reason_code := Some SOURCE_CHANGED, q_fingerprint := fp,
                  q_size_bytes := fp_size fp, q_modified_at := utc_ns (fp_mtime_ns fp),
                  q_observed_at := now\<rparr>)
      else
        item\<lparr>q_status := Q_MISSING, q_selectable := False, q_active_attempt_id := None,
             q_reason_code := reason, q_departed := True\<rparr>)"

section \<open>Recording an outcome\<close>

text \<open>What \<open>_finish\<close> writes besides the attempt, the item and the claim.\<close>

definition finish_records ::
  "env \<Rightarrow> ustr \<Rightarrow> attempt \<Rightarrow> ustr \<Rightarrow> outcome_state \<Rightarrow> reason option \<Rightarrow> location option \<Rightarrow> time \<Rightarrow> unit act" where
  "finish_records E attempt_id a item_id state reason actual now =
     bnd (case actual of
            Some l \<Rightarrow> if state = O_QUARANTINED then put_quarantine a l now else ret ()
          | None \<Rightarrow> ret ()) (\<lambda>_.
     bnd (case actual of
            Some l \<Rightarrow>
              if state = O_SORTED then enqueue_move attempt_id item_id l (q_fingerprint (a_item a)) else ret ()
          | None \<Rightarrow> ret ()) (\<lambda>_.
     bnd (emit E (Some (a_actor a)) FILE_ATTEMPT_FINISHED (a_request_id a) now
            (if state = O_SORTED then SUCCESS else ISSUE)
            (\<lambda>e. (attempt_links a e)\<lparr>ev_attempt_id := Some attempt_id, ev_item_id := Some item_id,
                   ev_target := actual, ev_reason_code := reason\<rparr>)) (\<lambda>_.
     ret ())))"

definition finished_attempt ::
  "attempt \<Rightarrow> outcome_state \<Rightarrow> reason option \<Rightarrow> location option \<Rightarrow> time \<Rightarrow> attempt" where
  "finished_attempt a state reason actual now =
     a\<lparr>a_phase := DONE,
       a_outcome := (a_outcome a)\<lparr>o_state := state, o_reason_code := reason, o_actual_location := actual,
                                  o_finished_at := Some now\<rparr>\<rparr>"

definition finish_body ::
  "env \<Rightarrow> ustr \<Rightarrow> outcome_state \<Rightarrow> reason option \<Rightarrow> location option \<Rightarrow> unit act" where
  "finish_body E attempt_id state reason actual =
     bnd (require_row db_attempt attempt_id) (\<lambda>a0.
     if a_phase a0 = DONE then ret ()
     else
       bnd (read_clock E) (\<lambda>now.
       bnd (start_attempt E a0 now (a_intent_target a0)) (\<lambda>a1.
       let a = finished_attempt a1 state reason actual now in
       bnd (put_row db_attempt_update attempt_id a) (\<lambda>_.
       bnd (require_row db_queue (q_item_id (a_item a))) (\<lambda>item.
       bnd (if state = O_SKIPPED \<and> reason = Some SOURCE_CHANGED
            then bnd (physical (q_source (a_item a))) (fs_stat E) else ret None) (\<lambda>current.
       bnd (put_row db_queue_update (q_item_id item) (finished_item item state reason current now)) (\<lambda>_.
       bnd (delete_row db_claim_update (q_item_id item)) (\<lambda>_.
       finish_records E attempt_id a (q_item_id item) state reason actual now))))))))"

definition finish ::
  "env \<Rightarrow> ustr \<Rightarrow> outcome_state \<Rightarrow> reason option \<Rightarrow> location option \<Rightarrow> unit act" where
  "finish E attempt_id state reason actual = transaction E (finish_body E attempt_id state reason actual)"

definition stuck_attempt :: "attempt \<Rightarrow> location option \<Rightarrow> attempt" where
  "stuck_attempt a actual_location =
     a\<lparr>a_phase := PH_RECOVERY_REQUIRED,
       a_outcome := (a_outcome a)\<lparr>o_state := O_RECOVERY_REQUIRED, o_reason_code := Some RECOVERY_REQUIRED,
                                  o_actual_location := actual_location, o_finished_at := None\<rparr>\<rparr>"

definition recovery_body :: "env \<Rightarrow> ustr \<Rightarrow> location option \<Rightarrow> bool act" where
  "recovery_body E attempt_id actual_location =
     bnd (require_row db_attempt attempt_id) (\<lambda>a0.
     if a_phase a0 = DONE then ret False
     else if a_phase a0 = PH_RECOVERY_REQUIRED then ret True
     else
       bnd (read_clock E) (\<lambda>now.
       bnd (start_attempt E a0 now (a_intent_target a0)) (\<lambda>a1.
       let a = stuck_attempt a1 actual_location in
       bnd (put_row db_attempt_update attempt_id a) (\<lambda>_.
       bnd (require_row db_queue (q_item_id (a_item a))) (\<lambda>item.
       bnd (put_row db_queue_update (q_item_id item)
              (item\<lparr>q_status := Q_RECOVERY_REQUIRED, q_selectable := False,
                    q_reason_code := Some RECOVERY_REQUIRED\<rparr>)) (\<lambda>_.
       bnd (emit E (Some (a_actor a)) RECOVERY_REQUIRED_EVENT (a_request_id a) now ISSUE
              (\<lambda>e. (attempt_links a e)\<lparr>ev_operation_id := Some attempt_id,
                     ev_source_attempt_id := Some attempt_id, ev_attempt_id := Some attempt_id,
                     ev_item_id := Some (q_item_id item), ev_target := a_intent_target a,
                     ev_reason_code := Some RECOVERY_REQUIRED\<rparr>)) (\<lambda>_.
       ret True)))))))"

definition recovery_required :: "env \<Rightarrow> ustr \<Rightarrow> location option \<Rightarrow> bool act" where
  "recovery_required E attempt_id actual_location = transaction E (recovery_body E attempt_id actual_location)"

section \<open>Intents and the move\<close>

definition intended_attempt :: "attempt \<Rightarrow> location \<Rightarrow> outcome_state \<Rightarrow> reason option \<Rightarrow> attempt" where
  "intended_attempt a target state reason =
     a\<lparr>a_phase := INTENT, a_intent_target := Some target, a_intended_state := Some state,
       a_intended_reason := reason,
       a_outcome := (a_outcome a)\<lparr>o_state := O_PROCESSING, o_reason_code := None\<rparr>\<rparr>"

definition intent ::
  "env \<Rightarrow> ustr \<Rightarrow> location \<Rightarrow> outcome_state \<Rightarrow> reason option \<Rightarrow> unit act" where
  "intent E attempt_id target state reason =
     transaction E (
       bnd (require_row db_attempt attempt_id) (\<lambda>a0.
       if a_phase a0 \<noteq> QUEUED then ret ()
       else
         bnd (read_clock E) (\<lambda>now.
         bnd (start_attempt E (intended_attempt a0 target state reason) now (Some target)) (\<lambda>a.
         put_row db_attempt_update attempt_id a))))"

text \<open>\<open>except Exception\<close> catches everything but the end of the process.\<close>

definition catch_all :: "'a act \<Rightarrow> 'a act \<Rightarrow> 'a act" where
  "catch_all m h = try_catch m (\<lambda>e. if e = Killed then raise Killed else h)"

definition need :: "'a option \<Rightarrow> 'a act" where
  "need x = (case x of None \<Rightarrow> raise PyKeyError | Some v \<Rightarrow> ret v)"

definition quarantine_or_recover :: "env \<Rightarrow> ustr \<Rightarrow> bool act" where
  "quarantine_or_recover E attempt_id =
     bnd (require_row db_attempt attempt_id) (\<lambda>a.
     let item = a_item a; fp = q_fingerprint item in
     bnd (physical (q_source item)) (\<lambda>source.
     bnd (fs_stat E source) (\<lambda>observed.
     if observed \<noteq> Some fp then recovery_required E attempt_id None
     else
       bnd (quarantine_target a) (\<lambda>target.
       bnd (exists_at E target) (\<lambda>occupied.
       if occupied then recovery_required E attempt_id (Some (q_source item))
       else
         bnd (transaction E (
           bnd (require_row db_attempt attempt_id) (\<lambda>saved.
           put_row db_attempt_update attempt_id
             (saved\<lparr>a_intent_target := Some target, a_intended_state := Some O_QUARANTINED,
                    a_intended_reason := Some TECHNICAL_ERROR\<rparr>)))) (\<lambda>_.
         try_else
           (bnd (physical (q_source item)) (\<lambda>s.
            bnd (physical target) (\<lambda>t.
            rename_no_replace E s t fp)))
           (\<lambda>e. if e = Killed then raise Killed else recovery_required E attempt_id None)
           (\<lambda>_.
            bnd (physical target) (\<lambda>t.
            bnd (fs_stat E t) (\<lambda>moved.
            if moved \<noteq> Some fp then recovery_required E attempt_id None
            else
              bnd (finish E attempt_id O_QUARANTINED (Some TECHNICAL_ERROR) (Some target)) (\<lambda>_.
              ret True))))))))))"

text \<open>The \<open>except\<close> clauses and the rest of \<open>_execute_intent\<close>.\<close>

definition rename_failed :: "env \<Rightarrow> ustr \<Rightarrow> attempt \<Rightarrow> ustr \<Rightarrow> exn \<Rightarrow> bool act" where
  "rename_failed E attempt_id a source e =
     (let own = q_source (a_item a) in
      if e = Killed then raise Killed
      else if e = FsError TargetExists then
        bnd (finish E attempt_id O_REQUIRES_DECISION
               (Some (if a_intended_state a = Some O_MANUAL_REVIEW
                      then MANUAL_REVIEW_NAME_OCCUPIED else TARGET_OCCUPIED)) (Some own)) (\<lambda>_.
        ret True)
      else if e = FsError PostRenameChanged then recovery_required E attempt_id None
      else if e = FsError SourceChanged then
        bnd (fs_stat E source) (\<lambda>current.
        bnd (finish E attempt_id O_SKIPPED
               (Some (if current = None then SOURCE_MISSING else SOURCE_CHANGED))
               (if current \<noteq> None then Some own else None)) (\<lambda>_.
        ret True))
      else quarantine_or_recover E attempt_id)"

definition rename_done :: "env \<Rightarrow> ustr \<Rightarrow> ustr \<Rightarrow> fingerprint \<Rightarrow> bool act" where
  "rename_done E attempt_id target expected =
     bnd (fs_stat E target) (\<lambda>moved.
     if moved \<noteq> Some expected then recovery_required E attempt_id None
     else
       bnd (require_row db_attempt attempt_id) (\<lambda>fresh.
       bnd (need (a_intended_state fresh)) (\<lambda>state.
       bnd (finish E attempt_id state (a_intended_reason fresh) (a_intent_target fresh)) (\<lambda>_.
       ret True))))"

definition execute_intent :: "env \<Rightarrow> ustr \<Rightarrow> bool act" where
  "execute_intent E attempt_id =
     bnd (require_row db_attempt attempt_id) (\<lambda>a.
     if a_phase a \<noteq> INTENT then ret False
     else
       bnd (physical (q_source (a_item a))) (\<lambda>source.
       bnd (bnd (need (a_intent_target a)) physical) (\<lambda>target.
       try_else (rename_no_replace E source target (q_fingerprint (a_item a)))
         (rename_failed E attempt_id a source)
         (\<lambda>_. rename_done E attempt_id target (q_fingerprint (a_item a))))))"

section \<open>One attempt\<close>

definition run_queued :: "env \<Rightarrow> ustr \<Rightarrow> attempt \<Rightarrow> bool act" where
  "run_queued E attempt_id a =
     (let item = a_item a; p = a_plan a;
          done = (\<lambda>state reason actual. bnd (finish E attempt_id state reason actual) (\<lambda>_. ret True)) in
      bnd (physical (q_source item)) (\<lambda>source.
      try_else (fs_stat E source)
        (\<lambda>e. if e = Killed then raise Killed else recovery_required E attempt_id None)
        (\<lambda>observed.
          if observed = None then done O_SKIPPED (Some SOURCE_MISSING) None
          else if observed \<noteq> Some (q_fingerprint item) then
            done O_SKIPPED (Some SOURCE_CHANGED) (Some (q_source item))
          else
            (case p_predicted_state p of
               REQUIRES_DECISION \<Rightarrow> done O_REQUIRES_DECISION (p_reason_code p) (Some (q_source item))
             | WILL_MOVE \<Rightarrow>
                 bnd (need (p_target p)) (\<lambda>target.
                 bnd (intent E attempt_id target O_SORTED None) (\<lambda>_.
                 execute_intent E attempt_id))
             | WILL_MANUAL_REVIEW \<Rightarrow>
                 bnd (manual_target a) (\<lambda>target.
                 bnd (exists_at E target) (\<lambda>occupied.
                 if occupied then
                   done O_REQUIRES_DECISION (Some MANUAL_REVIEW_NAME_OCCUPIED) (Some (q_source item))
                 else
                   bnd (intent E attempt_id target O_MANUAL_REVIEW (p_reason_code p)) (\<lambda>_.
                   execute_intent E attempt_id)))
             | P_NOT_READY \<Rightarrow> done O_SKIPPED (Some SOURCE_CHANGED) (Some (q_source item))))))"

text \<open>
  \<open>_recover\<close>. The attempt it requeues is in phase QUEUED afterwards, so the \<open>_run\<close> it calls
  is the queued case.
\<close>

definition requeued_attempt :: "attempt \<Rightarrow> attempt" where
  "requeued_attempt a =
     a\<lparr>a_phase := QUEUED,
       a_outcome := (a_outcome a)\<lparr>o_state := O_PENDING, o_reason_code := None, o_actual_location := None,
                                  o_finished_at := None\<rparr>\<rparr>"

definition requeue :: "env \<Rightarrow> ustr \<Rightarrow> unit act" where
  "requeue E attempt_id =
     transaction E (
       bnd (require_row db_attempt attempt_id) (\<lambda>saved.
       put_row db_attempt_update attempt_id (requeued_attempt saved)))"

definition retry_intent :: "env \<Rightarrow> ustr \<Rightarrow> unit act" where
  "retry_intent E attempt_id =
     transaction E (
       bnd (require_row db_attempt attempt_id) (\<lambda>saved.
       put_row db_attempt_update attempt_id (saved\<lparr>a_phase := INTENT\<rparr>)))"

text \<open>No durable intent: nothing was moved, so an unchanged source can be queued again.\<close>

definition recover_unintended :: "env \<Rightarrow> ustr \<Rightarrow> attempt \<Rightarrow> bool act" where
  "recover_unintended E attempt_id a =
     (if a_phase a = PH_RECOVERY_REQUIRED then
        bnd (catch_all
               (bnd (physical (q_source (a_item a))) (\<lambda>source.
                bnd (fs_stat E source) (\<lambda>observed.
                ret (observed = Some (q_fingerprint (a_item a)))))) (ret False)) (\<lambda>unchanged.
        if unchanged then
          bnd (requeue E attempt_id) (\<lambda>_.
          bnd (require_row db_attempt attempt_id) (run_queued E attempt_id))
        else recovery_required E attempt_id None)
      else recovery_required E attempt_id None)"

text \<open>A durable intent: compare where the file is with the source and the intended target.\<close>

definition recover_intended :: "env \<Rightarrow> ustr \<Rightarrow> attempt \<Rightarrow> location \<Rightarrow> bool \<Rightarrow> bool act" where
  "recover_intended E attempt_id a target allow_quarantine_retry =
     (let fp = q_fingerprint (a_item a) in
      bnd (physical (q_source (a_item a))) (\<lambda>source.
      bnd (physical target) (\<lambda>target_physical.
      bnd (fs_stat E source) (\<lambda>s.
      bnd (fs_stat E target_physical) (\<lambda>t.
      bnd (fs_exists E target_physical) (\<lambda>target_occupied.
      let source_present = (s = Some fp); target_present = (t = Some fp) in
      if \<not> source_present \<and> target_present then
        bnd (need (a_intended_state a)) (\<lambda>state.
        bnd (finish E attempt_id state (a_intended_reason a) (Some target)) (\<lambda>_.
        ret True))
      else if source_present \<and> \<not> target_occupied \<and>
              (a_intended_state a \<noteq> Some O_QUARANTINED \<or> allow_quarantine_retry) then
        bnd (retry_intent E attempt_id) (\<lambda>_.
        execute_intent E attempt_id)
      else
        recovery_required E attempt_id
          (if source_present then Some (q_source (a_item a)) else None)))))))"

definition recover_attempt :: "env \<Rightarrow> ustr \<Rightarrow> bool \<Rightarrow> bool act" where
  "recover_attempt E attempt_id allow_quarantine_retry =
     bnd (get_attempt attempt_id) (\<lambda>found.
     case found of
       None \<Rightarrow> ret False
     | Some a \<Rightarrow>
         if a_phase a \<noteq> INTENT \<and> a_phase a \<noteq> PH_RECOVERY_REQUIRED then ret False
         else
           (case a_intent_target a of
              None \<Rightarrow> recover_unintended E attempt_id a
            | Some target \<Rightarrow> recover_intended E attempt_id a target allow_quarantine_retry))"

definition run_attempt :: "env \<Rightarrow> ustr \<Rightarrow> bool act" where
  "run_attempt E attempt_id =
     bnd (get_attempt attempt_id) (\<lambda>found.
     case found of
       None \<Rightarrow> ret False
     | Some a \<Rightarrow>
         (case a_phase a of
            DONE \<Rightarrow> ret False
          | INTENT \<Rightarrow> recover_attempt E attempt_id False
          | PH_RECOVERY_REQUIRED \<Rightarrow> recover_attempt E attempt_id False
          | QUEUED \<Rightarrow> run_queued E attempt_id a))"

section \<open>The loop\<close>

definition pending_attempts :: "db \<Rightarrow> ustr list" where
  "pending_attempts d = map a_attempt_id (filter (\<lambda>a. a_phase a \<noteq> DONE) (tbl_rows (db_attempt d)))"

definition run_guarded :: "env \<Rightarrow> ustr \<Rightarrow> nat \<Rightarrow> nat act" where
  "run_guarded E attempt_id processed =
     catch_all
       (bnd (run_attempt E attempt_id) (\<lambda>progress.
        ret (if progress then Suc processed else processed)))
       (bnd (recovery_required E attempt_id None) (\<lambda>_.
        ret (Suc processed)))"

definition run_once :: "env \<Rightarrow> nat act" where
  "run_once E =
     bnd (asks (\<lambda>w. pending_attempts (db w))) (\<lambda>attempts.
     fold_act (run_guarded E) attempts 0)"

definition recover :: "env \<Rightarrow> ustr \<Rightarrow> bool act" where
  "recover E attempt_id =
     bnd (recover_attempt E attempt_id True) (\<lambda>_.
     bnd (get_attempt attempt_id) (\<lambda>found.
     ret (case found of None \<Rightarrow> False | Some a \<Rightarrow> a_phase a = DONE)))"

end
