(* ===== verification/Quarantine.thy ===== *)
theory Quarantine
  imports Pages Worker
begin

text \<open>
  \<open>quarantine.py\<close>: the list of quarantined files and the explicit return of one of them to its
  original place, with a durable intent, an idempotency key and no automatic second move.
\<close>

section \<open>Listing\<close>

definition public_quarantine :: "quarantine \<Rightarrow> quarantine" where
  "public_quarantine q = q\<lparr>qu_fingerprint := None, qu_returned := False\<rparr>"

definition list_quarantine ::
  "env \<Rightarrow> bool \<Rightarrow> actor \<Rightarrow> ustr \<Rightarrow> ustr option \<Rightarrow> nat \<Rightarrow> page_result act" where
  "list_quarantine E write actor company_id cursor limit =
     bnd (get_row db_company company_id) (\<lambda>company.
     bnd (ensure (company \<noteq> None) (api VALIDATION_ERROR 422)) (\<lambda>_.
     bnd (list_rows db_quarantine) (\<lambda>rows.
     bnd (collect (\<lambda>q.
            bnd (if qu_can_return q then exists_at E (qu_original_location q) else ret False) (\<lambda>occupied.
            ret ((public_quarantine q)\<lparr>qu_can_return := qu_can_return q \<and> \<not> occupied\<rparr>)))
          (filter (\<lambda>q. qu_company_id q = company_id \<and> \<not> qu_returned q) rows)) (\<lambda>items.
     page E write Scope_quarantine actor (H_strings [company_id])
       \<lparr>pl_head = Head_none,
        pl_rows = map Row_quarantine (sorted_desc (\<lambda>q. (qu_quarantined_at q, qu_quarantine_id q)) items)\<rparr>
       cursor limit))))"

section \<open>Recording a return\<close>

definition returned_item :: "queue_item \<Rightarrow> quarantine \<Rightarrow> fingerprint \<Rightarrow> time \<Rightarrow> queue_item" where
  "returned_item item q fp now =
     item\<lparr>q_item_revision := q_item_revision item + 1, q_status := Q_WAITING_READY, q_selectable := False,
          q_reason_code := None, q_active_attempt_id := None, q_source := qu_original_location q,
          q_filename := last (split_on slash (loc_relative_path (qu_original_location q))),
          q_fingerprint := fp, q_departed := False, q_observed_at := now\<rparr>"

definition return_links :: "return_op \<Rightarrow> quarantine \<Rightarrow> event \<Rightarrow> event" where
  "return_links op q e =
     e\<lparr>ev_operation_id := Some (ro_operation_id op), ev_source_attempt_id := Some (qu_source_attempt_id q),
       ev_company_id := Some (qu_company_id q), ev_item_id := Some (qu_item_id q),
       ev_source := Some (ro_source op), ev_target := Some (ro_target op),
       ev_comment := Some (rb_comment (ro_body op))\<rparr>"

definition finish_return :: "env \<Rightarrow> return_op \<Rightarrow> (ustr \<times> queue_item) act" where
  "finish_return E operation =
     transaction E (
       bnd (require_row db_return (ro_operation_id operation)) (\<lambda>saved.
       if ro_phase saved = RET_DONE then need (ro_result saved)
       else
         bnd (require_row db_quarantine (ro_quarantine_id saved)) (\<lambda>q.
         bnd (require_row db_queue (qu_item_id q)) (\<lambda>item0.
         bnd (read_clock E) (\<lambda>now.
         let item = returned_item item0 q (ro_fingerprint saved) now;
             q' = q\<lparr>qu_revision := qu_revision q + 1, qu_can_return := False,
                    qu_recovery_operation_id := None, qu_returned := True\<rparr>;
             result = (ro_operation_id saved, public_item item) in
         bnd (put_row db_queue_update (q_item_id item) item) (\<lambda>_.
         bnd (put_row db_quarantine_update (qu_quarantine_id q) q') (\<lambda>_.
         bnd (put_row db_return_update (ro_operation_id saved)
                (saved\<lparr>ro_phase := RET_DONE, ro_result := Some result\<rparr>)) (\<lambda>_.
         bnd (read_clock E) (\<lambda>now'.
         bnd (emit E (Some (ro_actor saved)) QUARANTINE_RETURNED (ro_request_id saved) now' SUCCESS
                (return_links saved q')) (\<lambda>_.
         ret result))))))))))"

definition mark_recovery :: "env \<Rightarrow> return_op \<Rightarrow> unit act" where
  "mark_recovery E operation =
     transaction E (
       bnd (require_row db_return (ro_operation_id operation)) (\<lambda>saved.
       if ro_phase saved = RET_RECOVERY_REQUIRED then ret ()
       else
         bnd (put_row db_return_update (ro_operation_id saved) (saved\<lparr>ro_phase := RET_RECOVERY_REQUIRED\<rparr>)) (\<lambda>_.
         bnd (require_row db_quarantine (ro_quarantine_id saved)) (\<lambda>q.
         bnd (put_row db_quarantine_update (qu_quarantine_id q) (q\<lparr>qu_revision := qu_revision q + 1\<rparr>)) (\<lambda>_.
         bnd (read_clock E) (\<lambda>now.
         bnd (emit E (Some (ro_actor saved)) RECOVERY_REQUIRED_EVENT (ro_request_id saved) now ISSUE
                (\<lambda>e. (return_links saved q e)\<lparr>ev_reason_code := Some RECOVERY_REQUIRED\<rparr>)) (\<lambda>_.
         ret ())))))))"

definition resolve :: "env \<Rightarrow> return_op \<Rightarrow> (ustr \<times> queue_item) act" where
  "resolve E operation =
     (case ro_phase operation of
        RET_DONE \<Rightarrow> need (ro_result operation)
      | RET_REJECTED \<Rightarrow>
          bnd (need (ro_error operation)) (\<lambda>code. raise (api code 409))
      | _ \<Rightarrow>
          bnd (catch_all
                 (bnd (bnd (physical (ro_source operation)) (fs_stat E)) (\<lambda>s.
                  bnd (bnd (physical (ro_target operation)) (fs_stat E)) (\<lambda>t.
                  ret (s, t))))
                 (ret (None, None))) (\<lambda>(source, target).
          if source = None \<and> target = Some (ro_fingerprint operation) then finish_return E operation
          else
            bnd (mark_recovery E operation) (\<lambda>_.
            raise (ApiError RECOVERY_NEEDED 409 (Some (ro_operation_id operation)) False))))"

section \<open>Returning an item\<close>

text \<open>The first transaction: the operation of a known key, or a new durable intent.\<close>

definition return_intent ::
  "env \<Rightarrow> actor \<Rightarrow> ustr \<Rightarrow> ustr \<Rightarrow> return_body \<Rightarrow> ustr \<Rightarrow> (bool \<times> return_op) act" where
  "return_intent E actor quarantine_id key body request_id =
     transaction E (
       bnd (get_row db_return_key key) (\<lambda>record.
       case record of
         Some r \<Rightarrow>
           bnd (ensure (rk_hash r = e_digest E (H_return body)) (api IDEMPOTENCY_KEY_REUSED 409)) (\<lambda>_.
           bnd (require_row db_return (rk_operation_id r)) (\<lambda>operation.
           ret (True, operation)))
       | None \<Rightarrow>
           bnd (require_row db_quarantine quarantine_id) (\<lambda>q.
           bnd (ensure (\<not> (qu_returned q \<or> qu_recovery_operation_id q \<noteq> None \<or> \<not> qu_can_return q))
                  (api INVALID_STATE 409)) (\<lambda>_.
           bnd (ensure (qu_revision q = rb_expected_revision body) (api QUARANTINE_VERSION_CONFLICT 409)) (\<lambda>_.
           bnd (ensure (strip (rb_comment body) \<noteq> []) (api VALIDATION_ERROR 422)) (\<lambda>_.
           bnd (exists_at E (qu_original_location q)) (\<lambda>occupied.
           bnd (ensure (\<not> occupied) (api ORIGINAL_PATH_OCCUPIED 409)) (\<lambda>_.
           bnd (physical (qu_location q)) (\<lambda>source.
           bnd (fs_stat E source) (\<lambda>expected.
           case expected of
             None \<Rightarrow> raise (api INVALID_STATE 409)
           | Some fp \<Rightarrow>
               if qu_fingerprint q \<noteq> None \<and> qu_fingerprint q \<noteq> Some fp then raise (api INVALID_STATE 409)
               else
                 bnd (uid E ''return'') (\<lambda>operation_id.
                 let operation = \<lparr>ro_operation_id = operation_id, ro_quarantine_id = qu_quarantine_id q,
                       ro_actor = actor, ro_request_id = request_id, ro_body = body, ro_phase = RET_INTENT,
                       ro_fingerprint = fp, ro_source = qu_location q, ro_target = qu_original_location q,
                       ro_result = None, ro_error = None\<rparr> in
                 bnd (insert_row db_return db_return_update operation_id operation) (\<lambda>_.
                 bnd (insert_row db_return_key db_return_key_update key
                        \<lparr>rk_hash = e_digest E (H_return body), rk_operation_id = operation_id\<rparr>) (\<lambda>_.
                 bnd (put_row db_quarantine_update (qu_quarantine_id q)
                        (q\<lparr>qu_can_return := False, qu_recovery_operation_id := Some operation_id\<rparr>)) (\<lambda>_.
                 ret (False, operation)))))))))))))))"

definition reject_return :: "env \<Rightarrow> return_op \<Rightarrow> unit act" where
  "reject_return E operation =
     transaction E (
       bnd (require_row db_quarantine (ro_quarantine_id operation)) (\<lambda>q.
       bnd (put_row db_quarantine_update (qu_quarantine_id q)
              (q\<lparr>qu_can_return := True, qu_recovery_operation_id := None\<rparr>)) (\<lambda>_.
       put_row db_return_update (ro_operation_id operation)
         (operation\<lparr>ro_phase := RET_REJECTED, ro_error := Some ORIGINAL_PATH_OCCUPIED\<rparr>))))"

definition return_item ::
  "env \<Rightarrow> actor \<Rightarrow> ustr \<Rightarrow> ustr \<Rightarrow> return_body \<Rightarrow> ustr \<Rightarrow> (ustr \<times> queue_item) act" where
  "return_item E actor quarantine_id idempotency_key body request_id =
     (let key = e_digest E (H_strings [act_user_id actor, quarantine_id, idempotency_key]) in
      bnd (return_intent E actor quarantine_id key body request_id) (\<lambda>(replayed, operation).
      if replayed then resolve E operation
      else
        try_else
          (bnd (physical (ro_source operation)) (\<lambda>source.
           bnd (physical (ro_target operation)) (\<lambda>target.
           rename_no_replace E source target (ro_fingerprint operation))))
          (\<lambda>e.
            if e = Killed then raise Killed
            else if e = FsError TargetExists then
              bnd (reject_return E operation) (\<lambda>_. raise (api ORIGINAL_PATH_OCCUPIED 409))
            else resolve E operation)
          (\<lambda>_. resolve E operation)))"

definition reconcile :: "env \<Rightarrow> unit act" where
  "reconcile E =
     bnd (list_rows db_return) (\<lambda>rows.
     each (\<lambda>operation.
         try_catch (bnd (resolve E operation) (\<lambda>_. ret ()))
           (\<lambda>e. case e of ApiError _ _ _ _ \<Rightarrow> ret () | _ \<Rightarrow> raise e))
       (filter (\<lambda>op. ro_phase op = RET_INTENT \<or> ro_phase op = RET_RECOVERY_REQUIRED) rows))"

end
