(* ===== verification/Samples.thy ===== *)
theory Samples
  imports Files
begin

text \<open>
  Concrete inputs for the witnesses: an environment with a running clock, distinct identifiers
  and no faults, a small tree, and the worlds built from them.
\<close>

definition sample_env :: env where
  "sample_env =
     \<lparr>e_settings = default_settings, e_clock = (\<lambda>k. seconds (int k)), e_uid = (\<lambda>k. [k]),
      e_fault = (\<lambda>k. None), e_disturb = (\<lambda>k t. t), e_probe = True,
      e_listing = (\<lambda>k t d. filter (\<lambda>c. t (d @ [c]) \<noteq> None) [lit ''in'', lit ''out'', lit ''quar'', lit ''man'', lit ''x'', lit ''y'']),
      e_monotonic = (\<lambda>k. 0),
      e_casefold = map (\<lambda>c. if 65 \<le> c \<and> c \<le> 90 then c + 32 else c),
      e_digest = (\<lambda>h. [0]), e_payload_bytes = (\<lambda>p. length (pl_rows p)), e_metadata_bytes = (\<lambda>_ _ _ _ _ _. 200),
      e_utf8_length = length,
      e_token = (\<lambda>k. [k]), e_token_key = (\<lambda>s. s), e_verify = (\<lambda>h p. h = p), e_hash = (\<lambda>k p. p),
      e_dummy_hash = []\<rparr>"

lemma sample_env_quiet: "quiet sample_env"
  by (simp add: quiet_def sample_env_def)

definition sample_fp :: fingerprint where
  "sample_fp = \<lparr>fp_dev = 1, fp_ino = 7, fp_size = 10, fp_mtime_ns = 5000\<rparr>"

definition sample_fs :: fs where
  "sample_fs = map_of
     [([], Dir), ([lit ''in''], Dir), ([lit ''out''], Dir), ([lit ''quar''], Dir), ([lit ''man''], Dir),
      ([lit ''in'', lit ''x''], File sample_fp)]"

lemma sample_fs_wf: "fs_wf sample_fs"
  by (auto simp: fs_wf_def sample_fs_def append_eq_Cons_conv split: if_splits)

definition sample_world :: world where
  "sample_world = \<lparr>db = empty_db, fs = sample_fs, tick = 0\<rparr>"

text \<open>The same environment with a clock that stands still.\<close>

definition still_env :: env where
  "still_env = sample_env\<lparr>e_clock := (\<lambda>k. 0)\<rparr>"

definition sample_actor :: actor where
  "sample_actor = \<lparr>act_user_id = lit ''u1'', act_login = lit ''ann'', act_display_name = lit ''Ann'', act_role = ADMIN\<rparr>"

text \<open>
  A database with one accepted attempt: the file \<open>x\<close> of the incoming root is to move to
  \<open>y\<close> of the root \<open>out\<close>.
\<close>

definition sample_root :: "string \<Rightarrow> string \<Rightarrow> ustr \<times> root" where
  "sample_root k b = (lit k, \<lparr>rt_root_id = lit k, rt_label = lit k, rt_display_prefix = lit k,
     rt_base = lit b, rt_searchable = True, rt_incoming_company = None, rt_opensearch = False, rt_sqlite = False,
     rt_schema_set_version = lit ''v'', rt_schema = \<lparr>sc_version = lit ''v'', sc_root_levels = [], sc_tail = []\<rparr>,
     rt_scan_prefixes = [[]]\<rparr>)"

definition sample_company :: company where
  "sample_company = \<lparr>c_company_id = lit ''c1'', c_name = lit ''C'', c_folder = lit ''c'', c_targets = []\<rparr>"

definition sample_item :: queue_item where
  "sample_item =
     \<lparr>q_item_id = lit ''i1'', q_item_revision = 1, q_company_id = lit ''c1'', q_incoming_source_id = lit ''in-root'',
      q_source_name = lit ''in'',
      q_source = \<lparr>loc_root_id = lit ''in-root'', loc_relative_path = lit ''x'', loc_display_path = lit ''in-root/x''\<rparr>,
      q_filename = lit ''x'', q_size_bytes = 10, q_modified_at = 5, q_status = Q_READY, q_reason_code = None,
      q_selectable = True, q_active_attempt_id = None, q_fingerprint = sample_fp, q_observed_at = 0,
      q_departed = False\<rparr>"

definition sample_target :: location where
  "sample_target = \<lparr>loc_root_id = lit ''out-root'', loc_relative_path = lit ''y'', loc_display_path = lit ''out-root/y''\<rparr>"

definition sample_row :: plan_row where
  "sample_row =
     \<lparr>p_item_id = lit ''i1'', p_item_revision = 1, p_source = q_source sample_item, p_filename = lit ''x'',
      p_company_id = lit ''c1'', p_predicted_state = WILL_MOVE, p_reason_code = None,
      p_target = Some sample_target, p_matched_rules = [], p_selected_rule = None, p_collision = None,
      p_source_metadata = None\<rparr>"

definition sample_attempt :: attempt where
  "sample_attempt =
     \<lparr>a_attempt_id = lit ''a1'', a_batch_id = lit ''b1'', a_company_id = lit ''c1'', a_actor = sample_actor,
      a_request_id = lit ''r1'', a_item = sample_item, a_plan = sample_row,
      a_outcome = \<lparr>o_attempt_id = lit ''a1'', o_item_id = lit ''i1'', o_item_revision = 1, o_state = O_PENDING,
        o_reason_code = None, o_source = q_source sample_item, o_planned_target = Some sample_target,
        o_actual_location = None, o_matched_rule = None, o_started_at = None, o_finished_at = None\<rparr>,
      a_phase = QUEUED, a_intent_target = None, a_intended_state = None, a_intended_reason = None\<rparr>"

definition queued_db :: db where
  "queued_db = empty_db
     \<lparr>db_root := [sample_root ''in-root'' ''in'', sample_root ''manual-root'' ''man'',
                  sample_root ''out-root'' ''out'', sample_root ''quarantine-root'' ''quar''],
      db_company := [(lit ''c1'', sample_company)],
      db_queue := [(lit ''i1'', sample_item\<lparr>q_status := Q_PROCESSING, q_selectable := False,
                     q_active_attempt_id := Some (lit ''a1'')\<rparr>)],
      db_attempt := [(lit ''a1'', sample_attempt)],
      db_claim := [(lit ''i1'', \<lparr>cl_attempt_id = lit ''a1'', cl_batch_id = lit ''b1''\<rparr>)]\<rparr>"

definition queued_world :: world where
  "queued_world = \<lparr>db = queued_db, fs = sample_fs, tick = 0\<rparr>"

lemma queued_world_simps [simp]: "fs queued_world = sample_fs" "db queued_world = queued_db" "tick queued_world = 0"
  by (simp_all add: queued_world_def)

text \<open>The same attempt after its intent was made durable and the process killed.\<close>

definition intent_attempt :: attempt where
  "intent_attempt = sample_attempt
     \<lparr>a_phase := INTENT, a_intent_target := Some sample_target, a_intended_state := Some O_SORTED,
      a_outcome := (a_outcome sample_attempt)\<lparr>o_state := O_PROCESSING, o_started_at := Some 0\<rparr>\<rparr>"

definition intent_world :: world where
  "intent_world = queued_world\<lparr>db := queued_db\<lparr>db_attempt := [(lit ''a1'', intent_attempt)]\<rparr>\<rparr>"

end
