(* ===== verification/Files_Correct.thy ===== *)
theory Files_Correct
  imports Files Samples
begin

text \<open>
  What \<open>filesystem.py\<close> guarantees: the exact set of accepted paths, the descriptor walk, and the
  exclusive rename as a move of one regular file to a free name. \<open>fs_wf\<close> is the well-formedness
  of a tree (every entry has a directory above it), \<open>moves\<close> the abstract specification of every
  change the service makes to the tree, \<open>quiet\<close> an environment in which no other process
  touches the tree (faults and crashes remain).
\<close>

section \<open>Paths\<close>

definition component_ok :: "ustr \<Rightarrow> bool" where
  "component_ok p \<longleftrightarrow> p \<noteq> [] \<and> p \<noteq> lit ''.'' \<and> p \<noteq> lit ''..'' \<and> slash \<notin> set p \<and> backslash \<notin> set p \<and> 0 \<notin> set p"

lemma set_join_with: "set (join_with c ps) \<subseteq> insert c (\<Union>p\<in>set ps. set p)"
  by (induction c ps rule: join_with.induct) auto

lemma split_on_subset: "p \<in> set (split_on c s) \<Longrightarrow> set p \<subseteq> set s"
  by (induction s arbitrary: p) (fastforce split: if_splits list.splits)+

lemma split_on_hd_last:
  "hd (split_on c s) = [] \<longleftrightarrow> s = [] \<or> hd s = c"
  "last (split_on c s) = [] \<longleftrightarrow> s = [] \<or> last s = c"
proof -
  show "hd (split_on c s) = [] \<longleftrightarrow> s = [] \<or> hd s = c"
    by (cases s) (auto split: list.splits)
  show "last (split_on c s) = [] \<longleftrightarrow> s = [] \<or> last s = c"
  proof (induction s)
    case (Cons x xs)
    then show ?case
    proof (cases "split_on c xs")
      case (Cons p ps)
      with Cons.IH show ?thesis
        by (cases ps; cases xs) (auto split: if_splits list.splits)
    qed simp
  qed simp
qed

lemma parts_exact:
  "parts False relative = Inr ps \<longleftrightarrow> ps \<noteq> [] \<and> (\<forall>p\<in>set ps. component_ok p) \<and> relative = join_with slash ps"
proof
  assume p: "parts False relative = Inr ps"
  then have ps: "ps = split_on slash relative" and no: "backslash \<notin> set relative" "0 \<notin> set relative"
    and ok: "\<forall>p\<in>set ps. p \<noteq> [] \<and> p \<noteq> lit ''.'' \<and> p \<noteq> lit ''..''"
    by (auto simp: parts_def Let_def split: if_splits)
  have "component_ok p" if "p \<in> set ps" for p
  proof -
    have "slash \<notin> set p" "set p \<subseteq> set relative"
      using that unfolding ps by (auto dest: split_on_parts split_on_subset)
    with no ok that show ?thesis by (auto simp: component_ok_def)
  qed
  then show "ps \<noteq> [] \<and> (\<forall>p\<in>set ps. component_ok p) \<and> relative = join_with slash ps"
    by (simp add: ps)
next
  assume a: "ps \<noteq> [] \<and> (\<forall>p\<in>set ps. component_ok p) \<and> relative = join_with slash ps"
  then have sp: "split_on slash relative = ps"
    by (auto simp: component_ok_def intro: split_join)
  have "backslash \<notin> set relative" "0 \<notin> set relative"
    using a set_join_with [of slash ps] by (auto simp: component_ok_def)
  moreover have "hd ps \<in> set ps" "last ps \<in> set ps" using a by simp_all
  then have "relative \<noteq> []" "hd relative \<noteq> slash" "last relative \<noteq> slash"
    using split_on_hd_last [of slash relative] sp a by (auto simp: component_ok_def)
  ultimately show "parts False relative = Inr ps"
    using a sp by (auto simp: parts_def Let_def component_ok_def)
qed

lemma open_directory_Inr:
  "open_directory t d cs = Inr e \<Longrightarrow> e = d @ cs \<and> (\<forall>k. 0 < k \<and> k \<le> length cs \<longrightarrow> t (d @ take k cs) = Some Dir)"
proof (induction t d cs rule: open_directory.induct)
  case (2 t d c cs)
  then have c: "t (d @ [c]) = Some Dir" and o: "open_directory t (d @ [c]) cs = Inr e"
    by (auto split: option.splits node.splits)
  from "2.IH" [OF c _ o] c show ?case
    by (auto simp: take_Cons split: nat.splits) (metis append_Nil2 neq0_conv take_eq_Nil)
qed simp

lemma open_parent_Inr:
  assumes "open_parent t relative = Inr (d, leaf)"
  shows "parts False relative = Inr (d @ [leaf])"
    and "\<forall>k. 0 < k \<and> k \<le> length d \<longrightarrow> t (take k d) = Some Dir"
proof -
  from assms obtain ps where ps: "parts False relative = Inr ps" "leaf = last ps"
    and o: "open_directory t [] (butlast ps) = Inr d"
    by (auto simp: open_parent_def split: sum.splits)
  moreover from ps(1) have "ps \<noteq> []" by (simp add: parts_exact)
  ultimately show "parts False relative = Inr (d @ [leaf])"
    using open_directory_Inr [OF o] by simp
  show "\<forall>k. 0 < k \<and> k \<le> length d \<longrightarrow> t (take k d) = Some Dir"
    using open_directory_Inr [OF o] by simp
qed

section \<open>The tree\<close>

lemma fs_wf_no_child:
  assumes "fs_wf t" and "t s \<noteq> Some Dir" and "q \<noteq> []"
  shows "t (s @ q) = None"
  using assms(3)
proof (induction q rule: rev_induct)
  case (snoc c q)
  show ?case
  proof (rule ccontr)
    assume "t (s @ q @ [c]) \<noteq> None"
    then have "t (s @ q) = Some Dir" using assms(1) by (metis append_assoc fs_wf_def)
    with snoc assms(2) show False by (cases "q = []") auto
  qed
qed simp

lemma relocate_file:
  assumes "fs_wf t" and "t s = Some (File fp)" and "t d = None" and "s \<noteq> d"
  shows "relocate s d t = t(s := None, d := Some (File fp))"
proof
  fix p
  have sub: "\<And>q. q \<noteq> [] \<Longrightarrow> t (s @ q) = None" "\<And>q. q \<noteq> [] \<Longrightarrow> t (d @ q) = None"
    using assms fs_wf_no_child by auto
  consider q where "p = d @ q" | "take (length d) p \<noteq> d" by (metis append_take_drop_id)
  then show "relocate s d t p = (t(s := None, d := Some (File fp))) p"
  proof cases
    case 1
    then show ?thesis using sub assms(2,4) by (cases "q = []") (auto simp: relocate_def)
  next
    case 2
    then have pd: "p \<noteq> d" by auto
    show ?thesis
    proof (cases "take (length s) p = s")
      case True
      then obtain q where "p = s @ q" by (metis append_take_drop_id)
      with 2 pd sub(1) [of q] show ?thesis by (cases "q = []") (auto simp: relocate_def)
    next
      case False
      then have "p \<noteq> s" by auto
      with False 2 pd show ?thesis by (simp add: relocate_def)
    qed
  qed
qed

section \<open>Moves of regular files\<close>

text \<open>The specification of a move: a regular file takes a free name in an existing directory.\<close>

definition file_moved :: "ustr list \<Rightarrow> ustr list \<Rightarrow> fingerprint \<Rightarrow> fs \<Rightarrow> fs \<Rightarrow> bool" where
  "file_moved s d fp t t' \<longleftrightarrow> t s = Some (File fp) \<and> t d = None \<and> d \<noteq> [] \<and> t (butlast d) = Some Dir \<and>
     t' = t(s := None, d := Some (File fp))"

definition move1 :: "fs \<Rightarrow> fs \<Rightarrow> bool" where
  "move1 t t' \<longleftrightarrow> (\<exists>s d fp. file_moved s d fp t t')"

abbreviation moves :: "fs \<Rightarrow> fs \<Rightarrow> bool" where
  "moves \<equiv> move1\<^sup>*\<^sup>*"

lemma file_moved_wf:
  assumes "fs_wf t" and "file_moved s d fp t t'"
  shows "fs_wf t'"
proof -
  have s: "s \<noteq> []" using assms by (auto simp: fs_wf_def file_moved_def)
  have "t' p = Some Dir" if "t' (p @ [c]) \<noteq> None" for p c
  proof -
    have "t p = Some Dir"
    proof (cases "p @ [c] = d")
      case True
      with assms(2) show ?thesis by (auto simp: file_moved_def)
    next
      case False
      with that assms show ?thesis
        by (auto simp: file_moved_def fs_wf_def split: if_splits)
    qed
    with assms(2) show ?thesis by (auto simp: file_moved_def)
  qed
  moreover have "t' [] = Some Dir"
    using assms s by (auto simp: file_moved_def fs_wf_def)
  ultimately show ?thesis by (simp add: fs_wf_def)
qed

lemma moves_wf: "moves t t' \<Longrightarrow> fs_wf t \<Longrightarrow> fs_wf t'"
  by (induction rule: rtranclp_induct) (auto simp: move1_def dest: file_moved_wf)

text \<open>Moves lose no file and touch no directory, link or special entry.\<close>

lemma move1_keeps:
  assumes "move1 t t'"
  shows "t p = Some (File fp) \<Longrightarrow> \<exists>q. t' q = Some (File fp)"
    and "t p = Some n \<Longrightarrow> \<forall>fp. n \<noteq> File fp \<Longrightarrow> t' p = Some n"
    and "t' p = Some (File fp) \<Longrightarrow> \<exists>q. t q = Some (File fp)"
proof -
  from assms obtain s d f where t: "t s = Some (File f)" "t d = None"
    and t': "t' = t(s := None, d := Some (File f))" and sd: "s \<noteq> d"
    unfolding move1_def file_moved_def by force
  show "\<exists>q. t' q = Some (File fp)" if "t p = Some (File fp)"
  proof (cases "p = s")
    case True
    with that t t' have "t' d = Some (File fp)" by simp
    then show ?thesis ..
  next
    case False
    with that t t' have "t' p = Some (File fp)" by auto
    then show ?thesis ..
  qed
  show "t' p = Some n" if "t p = Some n" "\<forall>fp. n \<noteq> File fp"
    using that t t' by auto
  show "\<exists>q. t q = Some (File fp)" if "t' p = Some (File fp)"
    using that t t' sd by (cases "p = d") (auto split: if_splits)
qed

lemma moves_keep_files: "moves t t' \<Longrightarrow> t p = Some (File fp) \<Longrightarrow> \<exists>q. t' q = Some (File fp)"
  by (induction rule: rtranclp_induct) (auto dest: move1_keeps(1))

lemma moves_keep_others: "moves t t' \<Longrightarrow> t p = Some n \<Longrightarrow> \<forall>fp. n \<noteq> File fp \<Longrightarrow> t' p = Some n"
  by (induction rule: rtranclp_induct) (auto dest: move1_keeps(2))

lemma moves_no_new_files: "moves t t' \<Longrightarrow> t' p = Some (File fp) \<Longrightarrow> \<exists>q. t q = Some (File fp)"
  by (induction arbitrary: p rule: rtranclp_induct) (auto dest: move1_keeps(3))

lemma wp_fs_read:
  "wp (fs_read E f) Q X w =
   (let t = e_disturb E (tick w) (fs w); u = w\<lparr>fs := t, tick := Suc (tick w)\<rparr> in
    case e_fault E (tick w) of
      Some x \<Rightarrow> X (fault_exn x (FsError OsFailure)) u
    | None \<Rightarrow> (case f t of Inl e \<Rightarrow> X e u | Inr y \<Rightarrow> Q y u))"
  by (simp add: fs_read_def wp_fs_call Let_def split: option.split sum.split)

lemma wp_fs_read_quiet:
  "quiet E \<Longrightarrow> wp (fs_read E f) Q X w =
   (case e_fault E (tick w) of
      Some x \<Rightarrow> X (fault_exn x (FsError OsFailure)) (w\<lparr>tick := Suc (tick w)\<rparr>)
    | None \<Rightarrow> (case f (fs w) of Inl e \<Rightarrow> X e (w\<lparr>tick := Suc (tick w)\<rparr>)
                              | Inr y \<Rightarrow> Q y (w\<lparr>tick := Suc (tick w)\<rparr>)))"
  by (simp add: wp_fs_read quiet_def Let_def split: option.split sum.split)

lemma fault_exn_cases: "fault_exn x e = e \<or> fault_exn x e = Killed"
  by (cases x) (simp_all add: fault_exn_def)

definition rename_effect ::
  "ustr \<Rightarrow> ustr \<Rightarrow> fingerprint \<Rightarrow> fs \<Rightarrow> fs \<Rightarrow> bool" where
  "rename_effect source target fp t t' \<longleftrightarrow>
     (\<exists>s d. parts False source = Inr s \<and> parts False target = Inr d \<and> file_moved s d fp t t')"

lemma rename_exclusive_file:
  assumes "fs_wf t" and "t s = Some (File fp)" and "s \<noteq> []" and "d \<noteq> []"
    and "rename_exclusive s d t = (r, t')"
  shows "(\<exists>e. r = Inl (FsError e) \<and> t' = t) \<or> r = Inr () \<and> file_moved s d fp t t'"
proof -
  have "s \<noteq> d" if "t d = None" using that assms(2) by auto
  with assms show ?thesis
    by (auto simp: rename_exclusive_def file_moved_def relocate_file split: if_splits)
qed

lemma rename_wp:
  assumes q: "quiet E" and wf: "fs_wf (fs w)"
  shows "wp (rename_no_replace E source target fp)
    (\<lambda>_ u. db u = db w \<and> rename_effect source target fp (fs w) (fs u))
    (\<lambda>e u. db u = db w \<and> (fs u = fs w \<or>
       (e = FsError OsFailure \<or> e = Killed) \<and> rename_effect source target fp (fs w) (fs u))) w"
proof -
  have call: "wp (fs_call E (rename_exclusive s d)) Q X u" if u: "db u = db w" "fs u = fs w"
    and s: "fs w s = Some (File fp)" "s \<noteq> []" "d \<noteq> []"
    and Q: "\<And>v. db v = db w \<Longrightarrow> file_moved s d fp (fs w) (fs v) \<Longrightarrow> Q () v"
    and X: "\<And>e v. db v = db w \<Longrightarrow> fs v = fs w \<Longrightarrow> X e v" for s d Q X u
    using rename_exclusive_file [OF wf s] q u Q X
    by (cases "rename_exclusive s d (fs w)") (fastforce simp: wp_fs_call quiet_def Let_def split: option.split sum.split)
  have verify: "verify_after_rename t' d fp = Inr ()" if "file_moved s d fp t t'" for s d t t'
    using that by (simp add: verify_after_rename_def file_moved_def)
  have id: "require_identity t s fp = Inr x \<longleftrightarrow> t s = Some (File fp)" for t s x
    by (auto simp: require_identity_def split: option.splits node.splits)
  have eff: "rename_effect source target fp (fs w) t"
    if "open_parent (fs w) source = Inr (a, b)" "open_parent (fs w) target = Inr (c, d)"
      "file_moved (a @ [b]) (c @ [d]) fp (fs w) t" for a b c d t
    using that open_parent_Inr(1) unfolding rename_effect_def by blast
  show ?thesis
    unfolding rename_no_replace_def wp_rules Let_def wp_fs_read_quiet [OF q]
    by (auto split!: option.split sum.split intro!: call simp: id verify eff fault_exn_def
        split: fault.splits dest: eff)
qed

section \<open>The rename without faults\<close>

text \<open>No other process and no fault.\<close>

definition calm :: "env \<Rightarrow> bool" where
  "calm E \<longleftrightarrow> quiet E \<and> e_probe E \<and> (\<forall>k. e_fault E k = None)"

lemma fs_wf_above: "fs_wf t \<Longrightarrow> t (p @ q) \<noteq> None \<Longrightarrow> q \<noteq> [] \<Longrightarrow> t p = Some Dir"
  by (metis fs_wf_no_child)

lemma open_directory_wf: "fs_wf t \<Longrightarrow> t (d @ cs) = Some Dir \<Longrightarrow> open_directory t d cs = Inr (d @ cs)"
proof (induction cs arbitrary: d)
  case (Cons c cs)
  have "t (d @ [c]) = Some Dir"
    using Cons.prems fs_wf_above [of t "d @ [c]" cs] by (cases "cs = []") auto
  with Cons show ?case by simp
qed simp

lemma open_parent_wf:
  assumes "fs_wf t" and "parts False p = Inr s" and "t (butlast s) = Some Dir"
  shows "open_parent t p = Inr (butlast s, last s)" and "butlast s @ [last s] = s"
proof -
  have "s \<noteq> []" using assms(2) by (simp add: parts_exact)
  then show "open_parent t p = Inr (butlast s, last s)" "butlast s @ [last s] = s"
    using assms open_directory_wf [of t "[]" "butlast s"] by (simp_all add: open_parent_def)
qed

lemma wp_read_calm: "calm E \<Longrightarrow> wp (fs_read E f) Q X w =
    (case f (fs w) of Inl e \<Rightarrow> X e (w\<lparr>tick := Suc (tick w)\<rparr>) | Inr x \<Rightarrow> Q x (w\<lparr>tick := Suc (tick w)\<rparr>))"
  by (simp add: calm_def wp_fs_read_quiet)

text \<open>Where the parent directory exists, reading a path is looking it up.\<close>

lemma reads_wf:
  assumes "fs_wf t" and "parts False p = Inr s" and "t (butlast s) = Some Dir"
  shows "stat_in t p = Inr (case t s of Some (File fp) \<Rightarrow> Some fp | _ \<Rightarrow> None)" and "exists_in t p = Inr (t s \<noteq> None)"
  using open_parent_wf [OF assms] by (auto simp: stat_in_def exists_in_def split: option.split node.split)

lemma parent_of_entry: "fs_wf t \<Longrightarrow> s \<noteq> [] \<Longrightarrow> t s \<noteq> None \<Longrightarrow> t (butlast s) = Some Dir"
  using fs_wf_above [of t "butlast s" "[last s]"] by simp

lemma fs_read_calm:
  assumes "calm E" and "f (fs w) = Inr x" and "\<And>u. db u = db w \<Longrightarrow> fs u = fs w \<Longrightarrow> tick u = Suc (tick w) \<Longrightarrow> Q x u"
  shows "wp (fs_read E f) Q X w"
  using assms by (auto simp: calm_def wp_fs_read_quiet)

lemma rename_calm:
  assumes c: "calm E" and wf: "fs_wf (fs w)" and p: "parts False sp = Inr s" "parts False dp = Inr d"
    and m: "file_moved s d fp (fs w) t'" and Q: "\<And>u. db u = db w \<Longrightarrow> fs u = t' \<Longrightarrow> tick w \<le> tick u \<Longrightarrow> Q () u"
  shows "wp (rename_no_replace E sp dp fp) Q X w"
proof -
  from p have ne: "s \<noteq> []" "d \<noteq> []" by (auto simp: parts_exact)
  from m have s: "fs w s = Some (File fp)" and d: "fs w d = None" "fs w (butlast d) = Some Dir"
    by (simp_all add: file_moved_def)
  have sp: "fs w (butlast s) = Some Dir" using parent_of_entry [OF wf ne(1)] s by simp
  have "s \<noteq> d" using s d by auto
  have "take (length s) d \<noteq> s"
  proof
    assume "take (length s) d = s"
    then obtain q where q: "d = s @ q" by (metis append_take_drop_id)
    with s d ne have "q \<noteq> []" by auto
    then have "butlast d = s @ butlast q" using q by (simp add: butlast_append)
    with fs_wf_no_child [OF wf, of s "butlast q"] d s show False by (cases "butlast q = []") auto
  qed
  then have ex: "rename_exclusive s d (fs w) = (Inr (), t')"
    using relocate_file [OF wf s d(1) \<open>s \<noteq> d\<close>] s d ne m by (auto simp: rename_exclusive_def file_moved_def)
  have call: "wp (fs_call E (rename_exclusive s d)) R X u" if "fs u = fs w"
    "\<And>v. db v = db u \<Longrightarrow> fs v = t' \<Longrightarrow> tick v = Suc (tick u) \<Longrightarrow> R () v" for R u
    using that c ex by (simp add: wp_fs_call calm_def quiet_def Let_def)
  have pr: "e_probe E" using c by (simp add: calm_def)
  have td: "verify_after_rename t' d fp = Inr ()" using m by (simp add: file_moved_def verify_after_rename_def)
  have id: "require_identity (fs w) s fp = Inr ()" using s by (simp add: require_identity_def)
  note o = open_parent_wf [OF wf p(1) sp] open_parent_wf [OF wf p(2) d(2)]
  show ?thesis
    unfolding rename_no_replace_def ensure_def Let_def if_P [OF pr]
    by (intro vc fs_read_calm [OF c] call Q | simp add: o id td)+
qed

section \<open>Properties\<close>

text \<open>
  C28: a path is accepted exactly when it is the slash-joined list of one or more components, none
  empty, none a dot or a double dot, none with a backslash or a NUL; the components are returned.
  No accepted path can leave the sandbox lexically.
\<close>

theorem parts_accepts_exactly:
  "parts False relative = Inr ps \<longleftrightarrow>
   ps \<noteq> [] \<and> (\<forall>p\<in>set ps. component_ok p) \<and> relative = join_with slash ps"
  by (rule parts_exact)

theorem parts_accepts_exactly_witness:
  "parts False (lit ''a/b'') = Inr [lit ''a'', lit ''b'']"
  by (subst parts_accepts_exactly) (simp add: component_ok_def)

text \<open>
  C6: for every clock and every pattern of failing calls and crashes, \<open>rename_no_replace\<close>
  leaves the database alone and either moves the one verified file to the free target name or
  leaves the tree as it was; when it reports success the file has moved, and when it raises after
  a move the exception is an operating-system error or the end of the process, never one of the
  exceptions its callers read as ``not moved''.
\<close>

theorem rename_no_replace_all_or_nothing:
  assumes "quiet E" and "fs_wf (fs w)" and "rename_no_replace E source target fp w = (r, u)"
  shows "db u = db w \<and>
    (if r = Inr () then rename_effect source target fp (fs w) (fs u)
     else fs u = fs w \<or>
       r \<in> {Inl (FsError OsFailure), Inl Killed} \<and> rename_effect source target fp (fs w) (fs u))"
  using wp_run [OF rename_wp [OF assms(1,2), of source target fp] assms(3)]
  by (auto split: sum.splits)

theorem rename_no_replace_all_or_nothing_witness:
  "rename_effect (lit ''in/x'') (lit ''out/y'') sample_fp sample_fs
     (fs (snd (rename_no_replace sample_env (lit ''in/x'') (lit ''out/y'') sample_fp sample_world)))"
proof -
  have "fst (rename_no_replace sample_env (lit ''in/x'') (lit ''out/y'') sample_fp sample_world) = Inr ()"
    by code_simp
  moreover have "fs sample_world = sample_fs" by (simp add: sample_world_def)
  ultimately show ?thesis
    using rename_no_replace_all_or_nothing [of sample_env sample_world "lit ''in/x''" "lit ''out/y''" sample_fp]
      sample_fs_wf
    by (metis prod.collapse sample_env_quiet)
qed

end
