(* ===== verification/Execution_Safety.thy ===== *)
theory Execution_Safety
  imports Quarantine Files_Correct
begin

text \<open>
  What the worker and the quarantine service do to the tree: as long as no other process changes
  it, every run, with whatever failures and wherever it is killed, only moves regular files to
  free names.
\<close>

section \<open>Invariants of the tree\<close>

abbreviation (input) on_fs :: "(fs \<Rightarrow> bool) \<Rightarrow> world \<Rightarrow> bool" where
  "on_fs K w \<equiv> K (fs w)"

named_theorems fs_rules

lemma fs_keeps_simple [fs_rules]:
  "keeps (on_fs K) (read_clock E)" "keeps (on_fs K) (uid E p)" "keeps (on_fs K) (put_row upd k v)"
  "keeps (on_fs K) (delete_row upd2 k)" "keeps (on_fs K) (append_event e)"
  "keeps (on_fs K) (insert_row sel upd3 k v3)"
  by (simp_all add: keeps_wp wp_rules split: option.split)

lemma fs_keeps_transaction [fs_rules]: "keeps (on_fs K) m \<Longrightarrow> keeps (on_fs K) (transaction E m)"
  unfolding keeps_wp wp_transaction
  by (erule all_forward, rule impI, drule (1) mp, erule wp_mono) (auto split: option.split)

lemma fs_keeps_read [fs_rules]: "quiet E \<Longrightarrow> keeps (on_fs K) (fs_read E f)"
  by (auto simp: keeps_wp wp_fs_read_quiet split: option.split sum.split)

lemma fs_keeps_stat [fs_rules]: "quiet E \<Longrightarrow> keeps (on_fs K) (fs_stat E p)"
  unfolding fs_stat_def by (rule fs_rules)

lemma fs_keeps_exists [fs_rules]: "quiet E \<Longrightarrow> keeps (on_fs K) (fs_exists E p)"
  unfolding fs_exists_def by (rule fs_rules)

lemma fs_keeps_exists_at [fs_rules]: "quiet E \<Longrightarrow> keeps (on_fs K) (exists_at E p)"
  unfolding exists_at_def by (intro keeps_rules fs_rules)

lemma fs_keeps_emit [fs_rules]: "keeps (on_fs K) (emit E a c r n s l)"
  unfolding emit_def Let_def by (intro keeps_rules fs_rules)

lemma fs_keeps_start [fs_rules]: "keeps (on_fs K) (start_attempt E a n t)"
  unfolding start_attempt_def by (intro keeps_rules fs_rules)

lemma fs_keeps_enqueue [fs_rules]: "keeps (on_fs K) (enqueue_move a i l f)"
  by (simp add: enqueue_move_def keeps_wp wp_rules)

lemma fs_keeps_put_quarantine [fs_rules]: "keeps (on_fs K) (put_quarantine a t n)"
  unfolding put_quarantine_def by (intro keeps_rules fs_rules)

lemma fs_keeps_finish [fs_rules]: "quiet E \<Longrightarrow> keeps (on_fs K) (finish E a s r l)"
  unfolding finish_def finish_body_def finish_records_def Let_def by (intro keeps_rules fs_rules)

lemma fs_keeps_recovery [fs_rules]: "keeps (on_fs K) (recovery_required E a l)"
  unfolding recovery_required_def recovery_body_def Let_def by (intro keeps_rules fs_rules)

lemma fs_keeps_intent [fs_rules]: "keeps (on_fs K) (intent E a t s r)"
  unfolding intent_def Let_def by (intro keeps_rules fs_rules)

lemma fs_keeps_requeue [fs_rules]: "keeps (on_fs K) (requeue E a)" "keeps (on_fs K) (retry_intent E a)"
  unfolding requeue_def retry_intent_def Let_def by (intro keeps_rules fs_rules)+

lemma keeps_need [keeps_rules]: "keeps I (need x)"
  unfolding need_def by (intro keeps_rules)

lemma keeps_catch_all [keeps_rules]: "keeps I m \<Longrightarrow> keeps I h \<Longrightarrow> keeps I (catch_all m h)"
  unfolding catch_all_def by (intro keeps_rules)

lemma keeps_phase [keeps_rules]:
  "keeps I a \<Longrightarrow> keeps I b \<Longrightarrow> keeps I c \<Longrightarrow> keeps I d \<Longrightarrow>
   keeps I (case x of QUEUED \<Rightarrow> a | INTENT \<Rightarrow> b | PH_RECOVERY_REQUIRED \<Rightarrow> c | DONE \<Rightarrow> d)"
  by (cases x) simp_all

lemma keeps_plan_state [keeps_rules]:
  "keeps I a \<Longrightarrow> keeps I b \<Longrightarrow> keeps I c \<Longrightarrow> keeps I d \<Longrightarrow>
   keeps I (case x of WILL_MOVE \<Rightarrow> a | WILL_MANUAL_REVIEW \<Rightarrow> b | REQUIRES_DECISION \<Rightarrow> c | P_NOT_READY \<Rightarrow> d)"
  by (cases x) simp_all

lemma keeps_manual_target [keeps_rules]: "keeps I (manual_target a)"
  unfolding manual_target_def by (intro keeps_rules)

lemma keeps_quarantine_target [keeps_rules]: "keeps I (quarantine_target a)"
  unfolding quarantine_target_def by (intro keeps_rules)

lemma keeps_get_attempt [keeps_rules]: "keeps I (get_attempt a)"
  unfolding get_attempt_def by (intro keeps_rules)

definition reachable_tree :: "fs \<Rightarrow> fs \<Rightarrow> bool" where
  "reachable_tree t0 t \<longleftrightarrow> fs_wf t \<and> moves t0 t"

lemma fs_keeps_rename [fs_rules]:
  assumes "quiet E"
  shows "keeps (on_fs (reachable_tree t0)) (rename_no_replace E s t fp)"
proof -
  have "rename_effect s t fp a b \<Longrightarrow> reachable_tree t0 a \<Longrightarrow> reachable_tree t0 b" for a b
    unfolding rename_effect_def reachable_tree_def
    by (meson file_moved_wf move1_def rtranclp.rtrancl_into_rtrancl)
  then show ?thesis
    unfolding keeps_wp by (auto intro!: wp_mono [OF rename_wp [OF assms]] simp: reachable_tree_def)
qed

lemma fs_keeps_quarantine_or_recover [fs_rules]:
  "quiet E \<Longrightarrow> keeps (on_fs (reachable_tree t0)) (quarantine_or_recover E a)"
  unfolding quarantine_or_recover_def Let_def by (intro keeps_rules fs_rules)

lemma fs_keeps_execute [fs_rules]:
  "quiet E \<Longrightarrow> keeps (on_fs (reachable_tree t0)) (execute_intent E a)"
  unfolding execute_intent_def rename_failed_def rename_done_def Let_def by (intro keeps_rules fs_rules)

lemma fs_keeps_run_queued [fs_rules]:
  "quiet E \<Longrightarrow> keeps (on_fs (reachable_tree t0)) (run_queued E i a)"
  unfolding run_queued_def Let_def by (intro keeps_rules fs_rules)

lemma fs_keeps_recover_attempt [fs_rules]:
  "quiet E \<Longrightarrow> keeps (on_fs (reachable_tree t0)) (recover_attempt E i b)"
  unfolding recover_attempt_def recover_unintended_def recover_intended_def Let_def by (intro keeps_rules fs_rules)

lemma fs_keeps_run_once: "quiet E \<Longrightarrow> keeps (on_fs (reachable_tree t0)) (run_once E)"
  unfolding run_once_def run_guarded_def run_attempt_def by (intro keeps_rules fs_rules)

lemma fs_keeps_recover: "quiet E \<Longrightarrow> keeps (on_fs (reachable_tree t0)) (recover E i)"
  unfolding recover_def by (intro keeps_rules fs_rules)

lemma keeps_return_phase [keeps_rules]:
  "keeps I a \<Longrightarrow> keeps I b \<Longrightarrow> keeps I c \<Longrightarrow> keeps I d \<Longrightarrow>
   keeps I (case x of RET_INTENT \<Rightarrow> a | RET_REJECTED \<Rightarrow> b | RET_RECOVERY_REQUIRED \<Rightarrow> c | RET_DONE \<Rightarrow> d)"
  by (cases x) simp_all

lemma keeps_exn [keeps_rules]:
  "(\<And>c n p r. keeps I (a c n p r)) \<Longrightarrow> keeps I b \<Longrightarrow> keeps I c \<Longrightarrow> keeps I i \<Longrightarrow> keeps I d \<Longrightarrow> keeps I j \<Longrightarrow> keeps I f \<Longrightarrow>
   (\<And>x. keeps I (g x)) \<Longrightarrow> keeps I h \<Longrightarrow>
   keeps I (case x of ApiError c n p r \<Rightarrow> a c n p r | IntegrityError \<Rightarrow> b | PyKeyError \<Rightarrow> c | PyIndexError \<Rightarrow> i
     | PyValueError \<Rightarrow> d | PyTypeError \<Rightarrow> j | PyRuntimeError \<Rightarrow> f | FsError x \<Rightarrow> g x | Killed \<Rightarrow> h)"
  by (cases x) simp_all

lemma fs_keeps_resolve [fs_rules]: "quiet E \<Longrightarrow> keeps (on_fs K) (resolve E op)"
  unfolding resolve_def finish_return_def mark_recovery_def Let_def
  by (intro keeps_rules fs_rules)

lemma fs_keeps_return_item: "quiet E \<Longrightarrow> keeps (on_fs (reachable_tree t0)) (return_item E a q k b r)"
  unfolding return_item_def return_intent_def reject_return_def Let_def by (intro keeps_rules fs_rules)

lemma fs_keeps_reconcile: "quiet E \<Longrightarrow> keeps (on_fs (reachable_tree t0)) (reconcile E)"
  unfolding reconcile_def by (intro keeps_rules fs_rules)

section \<open>Moves preserve the files\<close>

definition same_files :: "fs \<Rightarrow> fs \<Rightarrow> bool" where
  "same_files t t' \<longleftrightarrow>
     (\<forall>p fp. t p = Some (File fp) \<longrightarrow> (\<exists>q. t' q = Some (File fp))) \<and>
     (\<forall>p fp. t' p = Some (File fp) \<longrightarrow> (\<exists>q. t q = Some (File fp))) \<and>
     (\<forall>p n. (\<forall>fp. n \<noteq> File fp) \<longrightarrow> (t p = Some n \<longleftrightarrow> t' p = Some n))"

lemma move1_others: "move1 t t' \<Longrightarrow> t' p = Some n \<Longrightarrow> \<forall>fp. n \<noteq> File fp \<Longrightarrow> t p = Some n"
  by (auto simp: move1_def file_moved_def split: if_splits)

lemma moves_others: "moves t t' \<Longrightarrow> t' p = Some n \<Longrightarrow> \<forall>fp. n \<noteq> File fp \<Longrightarrow> t p = Some n"
  by (induction rule: rtranclp_induct) (auto dest: move1_others)

lemma moves_same_files: "moves t t' \<Longrightarrow> same_files t t'"
  unfolding same_files_def by (blast intro: moves_keep_files moves_no_new_files moves_keep_others moves_others)

lemma reachable_tree_run:
  assumes "keeps (on_fs (reachable_tree (fs w))) m" and "fs_wf (fs w)"
  shows "moves (fs w) (fs (snd (m w))) \<and> same_files (fs w) (fs (snd (m w)))"
proof -
  have "reachable_tree (fs w) (fs (snd (m w)))"
    using assms by (auto simp: keeps_def reachable_tree_def)
  then show ?thesis by (auto simp: reachable_tree_def intro: moves_same_files)
qed

section \<open>Properties\<close>

text \<open>
  C5: the executor never loses, overwrites or creates a file. Whatever a worker run or a recovery
  does, with any failing system calls and commits and killed at any point, the tree it leaves is
  reached from the one it found by moves of single regular files to names that were free: every
  file is still there under some name with its identity, no file is new, and directories, links
  and special entries are untouched.
\<close>

theorem worker_preserves_files:
  assumes "quiet E" and "fs_wf (fs w)"
  shows "moves (fs w) (fs (snd (run_once E w))) \<and> same_files (fs w) (fs (snd (run_once E w))) \<and>
    moves (fs w) (fs (snd (recover E attempt_id w))) \<and> same_files (fs w) (fs (snd (recover E attempt_id w)))"
  using reachable_tree_run [OF fs_keeps_run_once [OF assms(1)] assms(2)]
    reachable_tree_run [OF fs_keeps_recover [OF assms(1)] assms(2)] by blast

theorem worker_preserves_files_witness:
  "moves sample_fs (fs (snd (run_once sample_env queued_world))) \<and>
   same_files sample_fs (fs (snd (run_once sample_env queued_world)))"
  using worker_preserves_files [OF sample_env_quiet, of queued_world] sample_fs_wf by simp

text \<open>
  C29: the same for the quarantine service: returning a file and reconciling the pending returns
  only move single regular files to free names, on every failure and crash path.
\<close>

theorem quarantine_preserves_files:
  assumes "quiet E" and "fs_wf (fs w)"
  shows "moves (fs w) (fs (snd (return_item E actor q k body r w))) \<and>
    same_files (fs w) (fs (snd (return_item E actor q k body r w))) \<and>
    moves (fs w) (fs (snd (reconcile E w))) \<and> same_files (fs w) (fs (snd (reconcile E w)))"
  using reachable_tree_run [OF fs_keeps_return_item [OF assms(1)] assms(2)]
    reachable_tree_run [OF fs_keeps_reconcile [OF assms(1)] assms(2)] by blast

lemma sample_env_calm: "calm sample_env"
  by (simp add: calm_def sample_env_quiet) (simp add: sample_env_def)

text \<open>The file \<open>x\<close> in quarantine, and its return to the incoming folder.\<close>

definition quarantined :: quarantine where
  "quarantined =
     \<lparr>qu_quarantine_id = lit ''q'', qu_revision = 1, qu_item_id = lit ''i1'', qu_company_id = lit ''c1'', qu_filename = lit ''x'',
      qu_location = \<lparr>loc_root_id = lit ''quarantine-root'', loc_relative_path = lit ''x'', loc_display_path = lit ''x''\<rparr>,
      qu_original_location = q_source sample_item, qu_reason_code = TECHNICAL_ERROR, qu_quarantined_at = 0,
      qu_source_attempt_id = lit ''a1'', qu_recovery_operation_id = None, qu_can_return = True,
      qu_fingerprint = Some sample_fp, qu_returned = False\<rparr>"

definition quarantined_fs :: fs where
  "quarantined_fs = map_of
     [([], Dir), ([lit ''in''], Dir), ([lit ''out''], Dir), ([lit ''quar''], Dir), ([lit ''man''], Dir),
      ([lit ''quar'', lit ''x''], File sample_fp)]"

definition quarantined_world :: world where
  "quarantined_world = \<lparr>db = queued_db\<lparr>db_quarantine := [(lit ''q'', quarantined)]\<rparr>, fs = quarantined_fs, tick = 0\<rparr>"

definition return_request :: return_body where
  "return_request = \<lparr>rb_expected_revision = 1, rb_comment = lit ''ok''\<rparr>"

definition returned_world :: world where
  "returned_world = snd (return_item sample_env sample_actor (lit ''q'') (lit ''k'') return_request (lit ''r'') quarantined_world)"

definition returning :: "(exn + bool \<times> return_op) \<times> world" where
  "returning = return_intent sample_env sample_actor (lit ''q'')
     (e_digest sample_env (H_strings [act_user_id sample_actor, lit ''q'', lit ''k''])) return_request (lit ''r'') quarantined_world"

lemma quarantined_fs_wf: "fs_wf quarantined_fs"
  by (auto simp: fs_wf_def quarantined_fs_def append_eq_Cons_conv split: if_splits)

lemma physical_same: "keeps ((=) w) (physical l)"
  unfolding physical_def location_def require_row_def get_row_def by (intro keeps_rules)

lemma wp_known: "m w = (Inr x, u) \<Longrightarrow> wp m Q X w = Q x u"
  by (simp add: wp_def)

lemma returned_moves: "rename_effect (lit ''quar/x'') (lit ''in/x'') sample_fp quarantined_fs (fs returned_world)"
proof -
  let ?eff = "\<lambda>t. rename_effect (lit ''quar/x'') (lit ''in/x'') sample_fp quarantined_fs t"
  have "keeps (on_fs ((=) quarantined_fs)) (return_intent sample_env a q k b r)" for a q k b r
    unfolding return_intent_def Let_def by (intro keeps_rules fs_rules sample_env_quiet)
  then have start: "fs (snd returning) = quarantined_fs"
    unfolding returning_def keeps_def by (metis quarantined_world_def world.select_convs(2))
  have "case fst returning of Inl e \<Rightarrow> False | Inr (replayed, op) \<Rightarrow>
      \<not> replayed \<and> ro_source op = qu_location quarantined \<and> ro_target op = q_source sample_item \<and> ro_fingerprint op = sample_fp"
    by code_simp
  then obtain op where first: "fst returning = Inr (False, op)"
    and op: "ro_source op = qu_location quarantined" "ro_target op = q_source sample_item" "ro_fingerprint op = sample_fp"
    by (auto split: sum.splits)
  have run: "returning = (Inr (False, op), snd returning)" using first by (metis prod.collapse)
  have "fst (physical (qu_location quarantined) (snd returning)) = Inr (lit ''quar/x'')"
    "fst (physical (q_source sample_item) (snd returning)) = Inr (lit ''in/x'')" by code_simp+
  moreover have "snd (physical l (snd returning)) = snd returning" for l
    using physical_same unfolding keeps_def by metis
  ultimately have paths: "physical (qu_location quarantined) (snd returning) = (Inr (lit ''quar/x''), snd returning)"
    "physical (q_source sample_item) (snd returning) = (Inr (lit ''in/x''), snd returning)" by (metis prod.collapse)+
  have paths': "parts False (lit ''quar/x'') = Inr [lit ''quar'', lit ''x'']" "parts False (lit ''in/x'') = Inr [lit ''in'', lit ''x'']"
    by code_simp+
  have moved: "file_moved [lit ''quar'', lit ''x''] [lit ''in'', lit ''x''] sample_fp (fs (snd returning))
      (quarantined_fs([lit ''quar'', lit ''x''] := None, [lit ''in'', lit ''x''] := Some (File sample_fp)))"
    unfolding start by (simp add: file_moved_def quarantined_fs_def)
  have "wp (rename_no_replace sample_env (lit ''quar/x'') (lit ''in/x'') sample_fp) (\<lambda>_ _. True) (\<lambda>_ _. False) (snd returning)"
    by (rule rename_calm [OF sample_env_calm _ paths' moved]) (simp_all add: start quarantined_fs_wf)
  then obtain v where rename: "rename_no_replace sample_env (lit ''quar/x'') (lit ''in/x'') sample_fp (snd returning) = (Inr (), v)"
    by (auto simp: wp_def split: prod.splits sum.splits)
  have "?eff (fs v)"
    using wp_run_Inr [OF rename_wp [OF sample_env_quiet] rename] quarantined_fs_wf by (simp add: start)
  moreover have "wp (resolve sample_env op) (\<lambda>_ u. fs v = fs u) (\<lambda>_ u. fs v = fs u) v"
    using fs_keeps_resolve [OF sample_env_quiet, of "(=) (fs v)" op] by (simp add: keeps_wp)
  ultimately have "wp (resolve sample_env op) (\<lambda>_ u. ?eff (fs u)) (\<lambda>_ u. ?eff (fs u)) v"
    by (elim wp_mono) simp_all
  moreover note known = wp_known [where m = "return_intent sample_env sample_actor (lit ''q'')
      (e_digest sample_env (H_strings [act_user_id sample_actor, lit ''q'', lit ''k''])) return_request (lit ''r'')" and w = quarantined_world,
      OF run [unfolded returning_def], folded returning_def]
    wp_known [where m = "physical l" and w = "snd returning" for l, OF paths(1)]
    wp_known [where m = "physical l" and w = "snd returning" for l, OF paths(2)]
    wp_known [where m = "rename_no_replace sample_env (lit ''quar/x'') (lit ''in/x'') sample_fp" and w = "snd returning", OF rename]
  ultimately have "wp (return_item sample_env sample_actor (lit ''q'') (lit ''k'') return_request (lit ''r'')) (\<lambda>_ u. ?eff (fs u)) (\<lambda>_ u. ?eff (fs u))
      quarantined_world"
    unfolding return_item_def Let_def wp_bnd known(1)
    by (simp add: wp_try_else wp_bnd op known(2,3,4) del: lit_simps)
  then show ?thesis by (simp add: wp_const returned_world_def)
qed

theorem quarantine_preserves_files_witness:
  "rename_effect (lit ''quar/x'') (lit ''in/x'') sample_fp quarantined_fs (fs returned_world) \<and>
   moves quarantined_fs (fs returned_world) \<and> same_files quarantined_fs (fs returned_world)"
proof -
  have "fs quarantined_world = quarantined_fs" by (simp add: quarantined_world_def)
  then show ?thesis
    using quarantine_preserves_files [OF sample_env_quiet, of quarantined_world sample_actor "lit ''q''" "lit ''k''" return_request "lit ''r''"]
      quarantined_fs_wf returned_moves
    unfolding returned_world_def by simp
qed

end
