(* ===== verification/Dictionaries.thy ===== *)
theory Dictionaries
  imports Pages
begin

text \<open>
  \<open>dictionaries.py\<close>: the rule set of a company, its flattened rules, and the operations of the
  dictionary service: create, replace and restore a draft, simulate it on the ready files,
  publish it as a new immutable version, and the reads. An operation is one function of the
  service; the dispatch on its name is the caller's.
\<close>

section \<open>Rule sets\<close>

definition rule_set_of :: "env \<Rightarrow> ustr \<Rightarrow> rule_set act" where
  "rule_set_of E company_id =
     bnd (list_rows db_dictionary) (\<lambda>rows.
     let members = sort_key fst (List.map_filter (\<lambda>d.
           if d_company_id d = company_id
           then map_option (\<lambda>v. (d_dictionary_id d, v)) (d_active_version_id d) else None) rows) in
     ret \<lparr>rs_rule_set_id = lit ''rule-set-'' @ take 24 (e_digest E (H_members company_id members)),
          rs_company_id = company_id, rs_members = members\<rparr>)"

definition flat :: "ustr \<Rightarrow> ustr option \<Rightarrow> rule \<Rightarrow> flat_rule" where
  "flat dictionary_id version_id r =
     \<lparr>r_rule_id = r_rule_id r, r_priority = r_priority r, r_match_field = r_match_field r,
      r_mask = r_mask r, r_target = r_target r, r_target_stem = r_target_stem r,
      fr_dictionary_id = dictionary_id, fr_version_id = version_id\<rparr>"

definition flattened_rules :: "ustr \<Rightarrow> dictionary option \<Rightarrow> flat_rule list act" where
  "flattened_rules company_id candidate =
     bnd (list_rows db_dictionary) (\<lambda>rows.
     fold_act (\<lambda>d result.
         if d_company_id d \<noteq> company_id then ret result
         else
           (case candidate of
              Some c \<Rightarrow>
                if d_dictionary_id d = d_dictionary_id c
                then ret (result @ map (flat (d_dictionary_id d) None) (dr_rules (d_draft c)))
                else (case d_active_version_id d of
                        None \<Rightarrow> ret result
                      | Some v \<Rightarrow> bnd (require_row db_version v) (\<lambda>version.
                          ret (result @ map (flat (d_dictionary_id d) (Some (v_version_id version))) (v_rules version))))
            | None \<Rightarrow>
                (case d_active_version_id d of
                   None \<Rightarrow> ret result
                 | Some v \<Rightarrow> bnd (require_row db_version v) (\<lambda>version.
                     ret (result @ map (flat (d_dictionary_id d) (Some (v_version_id version))) (v_rules version))))))
       (sort_key d_dictionary_id rows) [])"

section \<open>Checks\<close>

definition check_revision :: "dictionary \<Rightarrow> int \<Rightarrow> unit act" where
  "check_revision d expected =
     ensure (dr_revision (d_draft d) = expected) (api DRAFT_VERSION_CONFLICT 409)"

definition unique_name :: "env \<Rightarrow> ustr \<Rightarrow> ustr \<Rightarrow> ustr option \<Rightarrow> unit act" where
  "unique_name E company_id name excluded =
     bnd (ensure (name \<noteq> []) (api VALIDATION_ERROR 422)) (\<lambda>_.
     bnd (list_rows db_dictionary) (\<lambda>rows.
     ensure (\<not> (\<exists>d\<in>set rows. d_company_id d = company_id \<and> Some (d_dictionary_id d) \<noteq> excluded \<and>
               e_casefold E (strip (d_name d)) = e_casefold E name))
       (api DICTIONARY_NAME_CONFLICT 409)))"

definition bad_stem :: "env \<Rightarrow> ustr \<Rightarrow> bool" where
  "bad_stem E stem \<longleftrightarrow>
     stem = [] \<or> length stem > 200 \<or> e_utf8_length E stem > 255 \<or> stem = lit ''.'' \<or> stem = lit ''..'' \<or>
     (\<exists>c\<in>set stem. c = slash \<or> c = backslash \<or> c = 0) \<or> (\<exists>c\<in>set stem. c < 32 \<or> c = 127)"

text \<open>The loop of \<open>_validate_rules\<close>, with the identifiers seen so far.\<close>

fun check_rules :: "env \<Rightarrow> (ustr \<times> ustr) list \<Rightarrow> ustr list \<Rightarrow> rule list \<Rightarrow> exn option" where
  "check_rules E tgts ids [] = None"
| "check_rules E tgts ids (r # rs) =
     (if r_rule_id r \<in> set ids then Some (api VALIDATION_ERROR 422)
      else if (tg_root_id (r_target r), tg_relative_directory (r_target r)) \<notin> set tgts
      then Some (api INVALID_TARGET 422)
      else if bad_stem E (r_target_stem r) then Some (api VALIDATION_ERROR 422)
      else check_rules E tgts (r_rule_id r # ids) rs)"

definition validate_rules :: "env \<Rightarrow> ustr \<Rightarrow> rule list \<Rightarrow> unit act" where
  "validate_rules E company_id rules =
     bnd (targets E company_id) (\<lambda>values.
     case check_rules E (map (\<lambda>t. (tg_root_id t, tg_relative_directory t)) values) [] rules of
       None \<Rightarrow> ret () | Some e \<Rightarrow> raise e)"

section \<open>Drafts\<close>

definition create_dictionary ::
  "env \<Rightarrow> actor \<Rightarrow> ustr \<Rightarrow> ustr \<Rightarrow> ustr \<Rightarrow> ustr \<Rightarrow> dictionary act" where
  "create_dictionary E actor company_id body_name description request_id =
     (let name = strip body_name in
      bnd (require_row db_company company_id) (\<lambda>_.
      bnd (unique_name E company_id name None) (\<lambda>_.
      bnd (read_clock E) (\<lambda>now.
      bnd (uid E ''dictionary'') (\<lambda>dictionary_id.
      let d = \<lparr>d_dictionary_id = dictionary_id, d_company_id = company_id, d_name = name,
               d_description = description,
               d_draft = \<lparr>dr_revision = 1, dr_rules = [], dr_based_on_version_id = None\<rparr>,
               d_active_version_id = None, d_versions_count = 0, d_updated_at = now, d_updated_by = actor\<rparr> in
      bnd (insert_row db_dictionary db_dictionary_update dictionary_id d) (\<lambda>_.
      bnd (emit E (Some actor) DICTIONARY_CREATED request_id now SUCCESS
             (\<lambda>e. e\<lparr>ev_company_id := Some company_id, ev_dictionary_id := Some dictionary_id\<rparr>)) (\<lambda>_.
      ret d)))))))"

record draft_body =
  bd_expected_revision :: int
  bd_name :: ustr
  bd_description :: ustr
  bd_rules :: "rule list"

definition replace_draft ::
  "env \<Rightarrow> actor \<Rightarrow> ustr \<Rightarrow> draft_body \<Rightarrow> ustr \<Rightarrow> dictionary act" where
  "replace_draft E actor dictionary_id body request_id =
     bnd (require_row db_dictionary dictionary_id) (\<lambda>d.
     bnd (check_revision d (bd_expected_revision body)) (\<lambda>_.
     let name = strip (bd_name body) in
     bnd (unique_name E (d_company_id d) name (Some (d_dictionary_id d))) (\<lambda>_.
     bnd (validate_rules E (d_company_id d) (bd_rules body)) (\<lambda>_.
     bnd (read_clock E) (\<lambda>now.
     let d' = d\<lparr>d_name := name, d_description := bd_description body,
                d_draft := \<lparr>dr_revision = dr_revision (d_draft d) + 1, dr_rules = bd_rules body,
                            dr_based_on_version_id = None\<rparr>,
                d_updated_at := now, d_updated_by := actor\<rparr> in
     bnd (put_row db_dictionary_update (d_dictionary_id d) d') (\<lambda>_.
     bnd (emit E (Some actor) DRAFT_SAVED request_id now SUCCESS
            (\<lambda>e. e\<lparr>ev_company_id := Some (d_company_id d), ev_dictionary_id := Some (d_dictionary_id d)\<rparr>)) (\<lambda>_.
     ret d')))))))"

definition restore_draft ::
  "env \<Rightarrow> actor \<Rightarrow> ustr \<Rightarrow> int \<Rightarrow> ustr \<Rightarrow> ustr \<Rightarrow> dictionary act" where
  "restore_draft E actor dictionary_id expected version_id request_id =
     bnd (require_row db_dictionary dictionary_id) (\<lambda>d.
     bnd (check_revision d expected) (\<lambda>_.
     bnd (require_row db_version version_id) (\<lambda>v.
     bnd (ensure (v_dictionary_id v = d_dictionary_id d) (api NOT_FOUND 404)) (\<lambda>_.
     bnd (read_clock E) (\<lambda>now.
     bnd (unique_name E (d_company_id d) (v_name v) (Some (d_dictionary_id d))) (\<lambda>_.
     let d' = d\<lparr>d_name := v_name v, d_description := v_description v,
                d_draft := \<lparr>dr_revision = dr_revision (d_draft d) + 1, dr_rules = v_rules v,
                            dr_based_on_version_id = Some (v_version_id v)\<rparr>,
                d_updated_at := now, d_updated_by := actor\<rparr> in
     bnd (put_row db_dictionary_update (d_dictionary_id d) d') (\<lambda>_.
     bnd (emit E (Some actor) DICTIONARY_RESTORED request_id now SUCCESS
            (\<lambda>e. e\<lparr>ev_company_id := Some (d_company_id d), ev_dictionary_id := Some (d_dictionary_id d),
                   ev_version_id := Some (v_version_id v)\<rparr>)) (\<lambda>_.
     ret d'))))))))"

section \<open>Simulation and publication\<close>

definition public_simulation :: "simulation \<Rightarrow> simulation" where
  "public_simulation s = s\<lparr>si_rows := [], si_ready_digest := [], si_rules_digest := [], si_owner := [], si_expires := 0\<rparr>"

definition simulation_payload :: "simulation \<Rightarrow> payload" where
  "simulation_payload s =
     \<lparr>pl_head = Head_simulation (public_simulation s), pl_rows = map Row_plan (si_rows s)\<rparr>"

definition simulate ::
  "env \<Rightarrow> actor \<Rightarrow> ustr \<Rightarrow> int \<Rightarrow> ustr \<Rightarrow> page_result act" where
  "simulate E actor dictionary_id expected request_id =
     bnd (require_row db_dictionary dictionary_id) (\<lambda>d.
     bnd (check_revision d expected) (\<lambda>_.
     bnd (read_clock E) (\<lambda>now.
     bnd (ready_items (d_company_id d)) (\<lambda>items.
     bnd (flattened_rules (d_company_id d) (Some d)) (\<lambda>rules.
     bnd (plan E items rules (d_company_id d)) (\<lambda>rows.
     bnd (uid E ''simulation'') (\<lambda>simulation_id.
     bnd (rule_set_of E (d_company_id d)) (\<lambda>base.
     bnd (uid E ''ready-snapshot'') (\<lambda>ready_snapshot_id.
     let expires = now + seconds (st_ttl (e_settings E));
         s = \<lparr>si_simulation_id = simulation_id, si_dictionary_id = d_dictionary_id d,
              si_draft_revision = dr_revision (d_draft d), si_base_rule_set = base,
              si_ready_snapshot_id = ready_snapshot_id, si_created_at = now, si_expires_at = expires,
              si_total = length rows, si_counts = plan_counts rows, si_empty_ready_set = (items = []),
              si_rows = rows, si_ready_digest = e_digest E (H_items items),
              si_rules_digest = e_digest E (H_rules rules), si_owner = act_user_id actor,
              si_expires = expires\<rparr> in
     bnd (insert_row db_simulation db_simulation_update simulation_id s) (\<lambda>_.
     bnd (emit E (Some actor) DICTIONARY_SIMULATED request_id now SUCCESS
            (\<lambda>e. e\<lparr>ev_company_id := Some (d_company_id d), ev_dictionary_id := Some (d_dictionary_id d),
                   ev_rule_set_id := Some (rs_rule_set_id base)\<rparr>)) (\<lambda>_.
     page E True Scope_simulation actor (H_strings [simulation_id]) (simulation_payload s) None 100)))))))))))"

definition fresh_simulation :: "env \<Rightarrow> simulation \<Rightarrow> unit act" where
  "fresh_simulation E s =
     bnd (require_row db_dictionary (si_dictionary_id s)) (\<lambda>d.
     bnd (flattened_rules (d_company_id d) (Some d)) (\<lambda>rules.
     bnd (ready_items (d_company_id d)) (\<lambda>ready.
     bnd (read_clock E) (\<lambda>now.
     bnd (rule_set_of E (d_company_id d)) (\<lambda>current.
     ensure (\<not> (now \<ge> si_expires s \<or> dr_revision (d_draft d) \<noteq> si_draft_revision s \<or>
                current \<noteq> si_base_rule_set s \<or> e_digest E (H_rules rules) \<noteq> si_rules_digest s \<or>
                e_digest E (H_items ready) \<noteq> si_ready_digest s))
       (api STALE_SIMULATION 409))))))"

definition publish ::
  "env \<Rightarrow> actor \<Rightarrow> ustr \<Rightarrow> publish_body \<Rightarrow> ustr \<Rightarrow> (dictionary \<times> version \<times> rule_set) act" where
  "publish E actor dictionary_id body request_id =
     bnd (require_row db_dictionary dictionary_id) (\<lambda>d.
     bnd (check_revision d (pb_expected_draft_revision body)) (\<lambda>_.
     bnd (require_row db_simulation (pb_simulation_id body)) (\<lambda>s.
     bnd (ensure (si_dictionary_id s = d_dictionary_id d) (api STALE_SIMULATION 409)) (\<lambda>_.
     bnd (fresh_simulation E s) (\<lambda>_.
     bnd (ensure (pc_rule_conflicts (si_counts s) = 0) (api RULE_CONFLICT_ERROR 409)) (\<lambda>_.
     bnd (ensure (\<not> (pc_no_scenario (si_counts s) \<noteq> 0 \<and> \<not> pb_acknowledge_no_scenario body))
            (api NO_SCENARIO_ACK_REQUIRED 409)) (\<lambda>_.
     bnd (validate_rules E (d_company_id d) (dr_rules (d_draft d))) (\<lambda>_.
     bnd (ensure (strip (pb_comment body) \<noteq> []) (api VALIDATION_ERROR 422)) (\<lambda>_.
     bnd (read_clock E) (\<lambda>now.
     bnd (uid E ''version'') (\<lambda>version_id.
     let v = \<lparr>v_version_id = version_id, v_dictionary_id = d_dictionary_id d,
              v_version_number = d_versions_count d + 1, v_name = d_name d,
              v_description = d_description d, v_rules = dr_rules (d_draft d), v_published_at = now,
              v_published_by = actor, v_comment = pb_comment body,
              v_restored_from_version_id = dr_based_on_version_id (d_draft d)\<rparr>;
         d' = d\<lparr>d_active_version_id := Some version_id, d_versions_count := v_version_number v,
                d_updated_at := now, d_updated_by := actor\<rparr> in
     bnd (insert_row db_version db_version_update version_id v) (\<lambda>_.
     bnd (put_row db_dictionary_update (d_dictionary_id d) d') (\<lambda>_.
     bnd (rule_set_of E (d_company_id d)) (\<lambda>current.
     bnd (emit E (Some actor) DICTIONARY_PUBLISHED request_id now SUCCESS
            (\<lambda>e. e\<lparr>ev_company_id := Some (d_company_id d), ev_dictionary_id := Some (d_dictionary_id d),
                   ev_version_id := Some version_id, ev_rule_set_id := Some (rs_rule_set_id current),
                   ev_comment := Some (pb_comment body)\<rparr>)) (\<lambda>_.
     ret (d', v, current))))))))))))))))"

section \<open>Reads\<close>

definition list_dictionaries :: "env \<Rightarrow> ustr \<Rightarrow> dictionary list act" where
  "list_dictionaries E company_id =
     bnd (require_row db_company company_id) (\<lambda>_.
     bnd (list_rows db_dictionary) (\<lambda>rows.
     ret (sort_key (\<lambda>d. (e_casefold E (d_name d), d_name d, d_dictionary_id d))
       (filter (\<lambda>d. d_company_id d = company_id) rows))))"

definition get_dictionary :: "ustr \<Rightarrow> dictionary act" where
  "get_dictionary dictionary_id = require_row db_dictionary dictionary_id"

definition list_targets ::
  "env \<Rightarrow> bool \<Rightarrow> actor \<Rightarrow> ustr \<Rightarrow> ustr option \<Rightarrow> nat \<Rightarrow> page_result act" where
  "list_targets E write actor company_id cursor limit =
     bnd (targets E company_id) (\<lambda>values.
     page E write Scope_targets actor (H_strings [company_id])
       \<lparr>pl_head = Head_none, pl_rows = map Row_target values\<rparr> cursor limit)"

definition resolve_target :: "env \<Rightarrow> ustr \<Rightarrow> ustr \<Rightarrow> target_dir act" where
  "resolve_target E company_id display_path =
     bnd (targets E company_id) (\<lambda>values.
     case filter (\<lambda>t. td_display_path t = display_path) values of
       t # _ \<Rightarrow> ret t
     | [] \<Rightarrow> raise (api INVALID_TARGET 422))"

definition list_versions ::
  "env \<Rightarrow> bool \<Rightarrow> actor \<Rightarrow> ustr \<Rightarrow> ustr option \<Rightarrow> nat \<Rightarrow> page_result act" where
  "list_versions E write actor dictionary_id cursor limit =
     bnd (require_row db_dictionary dictionary_id) (\<lambda>d.
     bnd (list_rows db_version) (\<lambda>rows.
     page E write Scope_dictionary_versions actor (H_strings [dictionary_id])
       \<lparr>pl_head = Head_none,
        pl_rows = map Row_version (sorted_desc v_version_number
                    (filter (\<lambda>v. v_dictionary_id v = d_dictionary_id d) rows))\<rparr> cursor limit))"

definition get_version :: "ustr \<Rightarrow> ustr \<Rightarrow> version act" where
  "get_version dictionary_id version_id =
     bnd (require_row db_version version_id) (\<lambda>v.
     bnd (ensure (v_dictionary_id v = dictionary_id) (api NOT_FOUND 404)) (\<lambda>_.
     ret v))"

definition get_simulation ::
  "env \<Rightarrow> bool \<Rightarrow> actor \<Rightarrow> ustr \<Rightarrow> ustr option \<Rightarrow> nat \<Rightarrow> page_result act" where
  "get_simulation E write actor simulation_id cursor limit =
     bnd (require_row db_simulation simulation_id) (\<lambda>s.
     page E write Scope_simulation actor (H_strings [simulation_id]) (simulation_payload s) cursor limit)"

end
