(* ===== verification/Sorting.thy ===== *)
theory Sorting
  imports Dictionaries
begin

text \<open>
  \<open>sorting.py\<close>: the queue of a company, the immutable selection of queue items, the preview
  of a selection, and the acceptance of a batch, which creates one attempt per item and claims
  the items that are free.
\<close>

section \<open>The queue\<close>

definition queue_states :: "queue_status list" where
  "queue_states = [Q_DISCOVERED, Q_WAITING_READY, Q_READY, Q_PROCESSING, Q_REQUIRES_DECISION,
     Q_RECOVERY_REQUIRED, Q_MISSING]"

definition queue_snapshot :: "ustr \<Rightarrow> queue_item list act" where
  "queue_snapshot company_id =
     bnd (list_rows db_queue) (\<lambda>rows.
     ret (filter (\<lambda>q. q_company_id q = company_id \<and> \<not> q_departed q) rows))"

definition queue_items_from_snapshot :: "env \<Rightarrow> queue_filters \<Rightarrow> queue_item list \<Rightarrow> queue_item list" where
  "queue_items_from_snapshot E filters items =
     (let states = (if fl_statuses filters \<noteq> [] then fl_statuses filters
                    else filter (\<lambda>s. s \<noteq> Q_MISSING) queue_states);
          cf = e_casefold E; text = cf (fl_query_text filters)
      in sort_key (\<lambda>q. (cf (loc_display_path (q_source q)), loc_display_path (q_source q), q_item_id q))
           (filter (\<lambda>q. q_status q \<in> set states \<and>
                        (text = [] \<or> contains text (cf (q_filename q)) \<or>
                         contains text (cf (loc_display_path (q_source q))))) items))"

definition queue_generation :: "env \<Rightarrow> queue_item list \<Rightarrow> ustr" where
  "queue_generation E snapshot =
     lit ''queue-'' @ take 32 (e_digest E (H_items (map public_item snapshot)))"

definition status_count :: "queue_item list \<Rightarrow> queue_status \<Rightarrow> nat" where
  "status_count snapshot s = length (filter (\<lambda>q. q_status q = s) snapshot)"

definition require_company :: "ustr \<Rightarrow> unit act" where
  "require_company company_id =
     bnd (get_row db_company company_id) (\<lambda>c. ensure (c \<noteq> None) (api VALIDATION_ERROR 422))"

definition query_queue ::
  "env \<Rightarrow> bool \<Rightarrow> actor \<Rightarrow> ustr \<Rightarrow> queue_filters \<Rightarrow> ustr option \<Rightarrow> nat \<Rightarrow> page_result act" where
  "query_queue E write actor company_id filters cursor limit =
     bnd (require_company company_id) (\<lambda>_.
     bnd (queue_snapshot company_id) (\<lambda>snapshot.
     let items = queue_items_from_snapshot E filters snapshot;
         count = status_count snapshot in
     page E write Scope_queue actor (H_queue_query company_id filters)
       \<lparr>pl_head = Head_queue
          \<lparr>qh_queue_generation = queue_generation E snapshot, qh_matching_count = length items,
           qh_eligible_count = length (filter q_selectable items), qh_ready = count Q_READY,
           qh_processing = count Q_PROCESSING,
           qh_attention = count Q_REQUIRES_DECISION + count Q_RECOVERY_REQUIRED,
           qh_status_counts = map (\<lambda>s. (s, count s)) queue_states\<rparr>,
        pl_rows = map (Row_queue \<circ> public_item) items\<rparr> cursor limit))"

section \<open>Selections\<close>

record selection_body =
  sb_company_id :: ustr
  sb_mode :: selection_mode
  sb_items :: "(ustr \<times> int) list"
  sb_filters :: queue_filters
  sb_expected_eligible_count :: nat

definition require_owner :: "ustr \<Rightarrow> actor \<Rightarrow> unit act" where
  "require_owner owner actor = ensure (owner = act_user_id actor) (api FORBIDDEN 403)"

definition get_selection :: "actor \<Rightarrow> ustr \<Rightarrow> selection act" where
  "get_selection actor key =
     bnd (require_row db_selection key) (\<lambda>s.
     bnd (require_owner (se_owner s) actor) (\<lambda>_.
     ret s))"

text \<open>The explicit mode: every requested item in the order of the request, with the ones seen.\<close>

definition select_item :: "ustr \<Rightarrow> ustr \<times> int \<Rightarrow> queue_item list \<Rightarrow> queue_item list act" where
  "select_item company requested items =
     bnd (get_row db_queue (fst requested)) (\<lambda>item.
     case item of
       None \<Rightarrow> raise (api SELECTION_CHANGED 409)
     | Some q \<Rightarrow>
         if q_company_id q \<noteq> company \<or> q_item_id q \<in> q_item_id ` set items \<or>
            q_item_revision q \<noteq> snd requested \<or> \<not> q_selectable q
         then raise (api SELECTION_CHANGED 409)
         else ret (items @ [q]))"

definition public_selection :: "selection \<Rightarrow> selection" where
  "public_selection s = s\<lparr>se_items := [], se_owner := [], se_batch_id := None\<rparr>"

definition create_selection :: "env \<Rightarrow> actor \<Rightarrow> selection_body \<Rightarrow> selection act" where
  "create_selection E actor body =
     (let company = sb_company_id body in
      bnd (require_company company) (\<lambda>_.
      bnd (if sb_mode body = EXPLICIT then fold_act (select_item company) (sb_items body) []
           else
             bnd (queue_snapshot company) (\<lambda>snapshot.
             let items = filter q_selectable (queue_items_from_snapshot E (sb_filters body) snapshot) in
             bnd (ensure (length items = sb_expected_eligible_count body) (api SELECTION_CHANGED 409)) (\<lambda>_.
             ret items))) (\<lambda>items.
      bnd (ensure (items \<noteq> []) (api EMPTY_SELECTION 422)) (\<lambda>_.
      bnd (ensure (length items \<le> st_max_batch_items (e_settings E)) (api BATCH_LIMIT_EXCEEDED 422)) (\<lambda>_.
      bnd (read_clock E) (\<lambda>now.
      bnd (uid E ''selection'') (\<lambda>selection_id.
      bnd (queue_snapshot company) (\<lambda>snapshot.
      let s = \<lparr>se_selection_id = selection_id, se_company_id = company, se_mode = sb_mode body,
               se_selected_count = length items, se_created_at = now,
               se_expires_at = now + seconds (st_ttl (e_settings E)),
               se_queue_generation = queue_generation E snapshot, se_items = items,
               se_owner = act_user_id actor, se_batch_id = None\<rparr> in
      bnd (put_row db_selection_update selection_id s) (\<lambda>_.
      ret (public_selection s))))))))))"

definition check_saved_item :: "env \<Rightarrow> queue_item \<Rightarrow> unit act" where
  "check_saved_item E saved =
     bnd (get_row db_claim (q_item_id saved)) (\<lambda>claimed.
     if claimed \<noteq> None then ret ()
     else
       bnd (get_row db_queue (q_item_id saved)) (\<lambda>current.
       case current of
         None \<Rightarrow> raise (api SELECTION_CHANGED 409)
       | Some q \<Rightarrow>
           bnd (ensure (q_item_revision q = q_item_revision saved \<and> q_selectable q) (api SELECTION_CHANGED 409)) (\<lambda>_.
           bnd (physical (q_source saved)) (\<lambda>p.
           bnd (fs_stat E p) (\<lambda>observed.
           ensure (observed = Some (q_fingerprint saved)) (api SELECTION_CHANGED 409))))))"

definition check_selection :: "env \<Rightarrow> selection \<Rightarrow> unit act" where
  "check_selection E s =
     bnd (read_clock E) (\<lambda>now.
     bnd (ensure (se_expires_at s > now) (api SELECTION_EXPIRED 409)) (\<lambda>_.
     each (check_saved_item E) (se_items s)))"

section \<open>Previews\<close>

definition public_preview :: "preview \<Rightarrow> preview" where
  "public_preview p = p\<lparr>pv_rows := [], pv_owner := []\<rparr>"

definition preview_payload :: "preview \<Rightarrow> payload" where
  "preview_payload p = \<lparr>pl_head = Head_preview (public_preview p), pl_rows = map Row_plan (pv_rows p)\<rparr>"

definition create_preview :: "env \<Rightarrow> actor \<Rightarrow> ustr \<Rightarrow> page_result act" where
  "create_preview E actor selection_id =
     bnd (get_selection actor selection_id) (\<lambda>s.
     bnd (check_selection E s) (\<lambda>_.
     let company = se_company_id s in
     bnd (flattened_rules company None) (\<lambda>rules.
     bnd (plan E (se_items s) rules company) (\<lambda>rows.
     bnd (read_clock E) (\<lambda>now.
     bnd (uid E ''preview'') (\<lambda>preview_id.
     bnd (rule_set_of E company) (\<lambda>current.
     let p = \<lparr>pv_preview_id = preview_id, pv_selection_id = se_selection_id s, pv_company_id = company,
              pv_rule_set = current, pv_created_at = now,
              pv_expires_at = min (now + seconds (st_ttl (e_settings E))) (se_expires_at s),
              pv_total = length rows, pv_counts = plan_counts rows, pv_rows = rows,
              pv_owner = act_user_id actor\<rparr> in
     bnd (put_row db_preview_update preview_id p) (\<lambda>_.
     page E True Scope_preview actor (H_strings [preview_id]) (preview_payload p) None 100))))))))"

definition get_preview ::
  "env \<Rightarrow> bool \<Rightarrow> actor \<Rightarrow> ustr \<Rightarrow> ustr option \<Rightarrow> nat \<Rightarrow> page_result act" where
  "get_preview E write actor preview_id cursor limit =
     bnd (require_row db_preview preview_id) (\<lambda>p.
     bnd (require_owner (pv_owner p) actor) (\<lambda>_.
     page E write Scope_preview actor (H_strings [preview_id]) (preview_payload p) cursor limit))"

section \<open>Acceptance\<close>

text \<open>Any change under a preview that has not been executed makes the preview stale.\<close>

definition stale_if_previewed :: "bool \<Rightarrow> exn \<Rightarrow> unit act" where
  "stale_if_previewed previewed e =
     (case e of
        ApiError code _ _ _ \<Rightarrow>
          if previewed \<and> code \<in> {SELECTION_CHANGED, SELECTION_EXPIRED} then raise (api STALE_PREVIEW 409) else raise e
      | _ \<Rightarrow> raise e)"

definition attempt_of ::
  "ustr \<Rightarrow> ustr \<Rightarrow> ustr \<Rightarrow> actor \<Rightarrow> ustr \<Rightarrow> time \<Rightarrow> bool \<Rightarrow> queue_item \<Rightarrow> plan_row \<Rightarrow> attempt" where
  "attempt_of attempt_id batch_id company actor request_id now occupied saved row =
     \<lparr>a_attempt_id = attempt_id, a_batch_id = batch_id, a_company_id = company, a_actor = actor,
      a_request_id = request_id, a_item = saved, a_plan = row,
      a_outcome =
        \<lparr>o_attempt_id = attempt_id, o_item_id = q_item_id saved, o_item_revision = q_item_revision saved,
         o_state = (if occupied then O_SKIPPED else O_PENDING),
         o_reason_code = (if occupied then Some ALREADY_PROCESSING else None),
         o_source = q_source saved, o_planned_target = p_target row, o_actual_location = None,
         o_matched_rule = p_selected_rule row, o_started_at = None,
         o_finished_at = (if occupied then Some now else None)\<rparr>,
      a_phase = (if occupied then DONE else QUEUED), a_intent_target = None, a_intended_state = None,
      a_intended_reason = None\<rparr>"

definition accept_item ::
  "env \<Rightarrow> actor \<Rightarrow> ustr \<Rightarrow> ustr \<Rightarrow> ustr \<Rightarrow> time \<Rightarrow> queue_item \<times> plan_row \<Rightarrow> unit act" where
  "accept_item E actor request_id company batch_id now sr =
     (let saved = fst sr in
      bnd (uid E ''attempt'') (\<lambda>attempt_id.
      bnd (get_row db_claim (q_item_id saved)) (\<lambda>claimed.
      let occupied = (claimed \<noteq> None);
          a = attempt_of attempt_id batch_id company actor request_id now occupied saved (snd sr);
          links = (\<lambda>e. e\<lparr>ev_company_id := Some company, ev_batch_id := Some batch_id,
                       ev_attempt_id := Some attempt_id, ev_item_id := Some (q_item_id saved),
                       ev_source := Some (q_source saved)\<rparr>) in
      bnd (insert_row db_attempt db_attempt_update attempt_id a) (\<lambda>_.
      if occupied then
        bnd (emit E (Some actor) FILE_ATTEMPT_STARTED request_id now SUCCESS links) (\<lambda>_.
        bnd (emit E (Some actor) FILE_ATTEMPT_FINISHED request_id now ISSUE
               (\<lambda>e. (links e)\<lparr>ev_reason_code := Some ALREADY_PROCESSING\<rparr>)) (\<lambda>_.
        ret ()))
      else
        bnd (insert_row db_claim db_claim_update (q_item_id saved)
               \<lparr>cl_attempt_id = attempt_id, cl_batch_id = batch_id\<rparr>) (\<lambda>_.
        bnd (require_row db_queue (q_item_id saved)) (\<lambda>item.
        put_row db_queue_update (q_item_id item)
          (item\<lparr>q_status := Q_PROCESSING, q_selectable := False, q_active_attempt_id := Some attempt_id,
                q_reason_code := None\<rparr>)))))))"

definition batch_payload :: "batch \<Rightarrow> payload" where
  "batch_payload b = \<lparr>pl_head = Head_batch (b\<lparr>b_outcomes := []\<rparr>), pl_rows = map Row_outcome (b_outcomes b)\<rparr>"

text \<open>The rows of the batch: the current plan, or the stored preview if nothing changed under it.\<close>

definition accepted_rows ::
  "env \<Rightarrow> actor \<Rightarrow> selection \<Rightarrow> bool \<Rightarrow> ustr option \<Rightarrow> rule_set \<Rightarrow> plan_row list \<Rightarrow> plan_row list act" where
  "accepted_rows E actor s previewed preview_id current rows =
     (if \<not> previewed then ret rows
      else
        bnd (case preview_id of None \<Rightarrow> raise PyKeyError | Some k \<Rightarrow> require_row db_preview k) (\<lambda>p.
        bnd (require_owner (pv_owner p) actor) (\<lambda>_.
        bnd (read_clock E) (\<lambda>now.
        bnd (ensure (\<not> (pv_selection_id p \<noteq> se_selection_id s \<or> pv_expires_at p \<le> now \<or>
                         pv_rule_set p \<noteq> current \<or>
                         e_digest E (H_rows (pv_rows p)) \<noteq> e_digest E (H_rows rows)))
               (api STALE_PREVIEW 409)) (\<lambda>_.
        ret (pv_rows p))))))"

definition accept :: "env \<Rightarrow> actor \<Rightarrow> batch_body \<Rightarrow> ustr \<Rightarrow> page_result act" where
  "accept E actor body request_id =
     bnd (get_selection actor (bb_selection_id body)) (\<lambda>s.
     let previewed = (bb_execution_mode body = PREVIEWED) in
     bnd (try_catch (check_selection E s) (stale_if_previewed previewed)) (\<lambda>_.
     bnd (ensure (se_batch_id s = None) (api INVALID_STATE 409)) (\<lambda>_.
     let company = se_company_id s in
     bnd (rule_set_of E company) (\<lambda>current.
     bnd (flattened_rules company None) (\<lambda>rules.
     bnd (plan E (se_items s) rules company) (\<lambda>planned.
     bnd (accepted_rows E actor s previewed (bb_preview_id body) current planned) (\<lambda>rows.
     bnd (read_clock E) (\<lambda>now.
     bnd (uid E ''batch'') (\<lambda>batch_id.
     let b = \<lparr>b_batch_id = batch_id, b_company_id = company, b_actor = actor,
              b_selection_id = se_selection_id s,
              b_preview_id = bb_preview_id body,
              b_rule_set = current, b_status = B_ACCEPTED, b_created_at = now, b_started_at = None,
              b_finished_at = None, b_selected_count = length rows, b_completed_count = 0,
              b_counts = zero_outcome_counts, b_outcomes = []\<rparr> in
     bnd (insert_row db_batch db_batch_update batch_id b) (\<lambda>_.
     bnd (emit E (Some actor) BATCH_ACCEPTED request_id now SUCCESS
            (\<lambda>e. e\<lparr>ev_company_id := Some company, ev_batch_id := Some batch_id,
                   ev_rule_set_id := Some (rs_rule_set_id current)\<rparr>)) (\<lambda>_.
     bnd (each (accept_item E actor request_id company batch_id now) (zip (se_items s) rows)) (\<lambda>_.
     bnd (put_row db_selection_update (se_selection_id s) (s\<lparr>se_batch_id := Some batch_id\<rparr>)) (\<lambda>_.
     bnd (batch_of batch_id) (\<lambda>result.
     page E True Scope_batch actor (H_strings [batch_id]) (batch_payload result) None 100))))))))))))))"

section \<open>Batch reads\<close>

definition get_batch ::
  "env \<Rightarrow> bool \<Rightarrow> actor \<Rightarrow> ustr \<Rightarrow> ustr option \<Rightarrow> nat \<Rightarrow> page_result act" where
  "get_batch E write actor batch_id cursor limit =
     bnd (batch_of batch_id) (\<lambda>b.
     page E write Scope_batch actor (H_strings [batch_id]) (batch_payload b) cursor limit)"

text \<open>The list keeps only the summary fields: no outcomes, rule set, selection or preview.\<close>

definition batch_summary :: "batch \<Rightarrow> batch" where
  "batch_summary b =
     b\<lparr>b_outcomes := [], b_selection_id := [], b_preview_id := None,
       b_rule_set := \<lparr>rs_rule_set_id = [], rs_company_id = [], rs_members = []\<rparr>, b_started_at := None\<rparr>"

definition list_batches ::
  "env \<Rightarrow> bool \<Rightarrow> actor \<Rightarrow> ustr \<Rightarrow> ustr option \<Rightarrow> nat \<Rightarrow> page_result act" where
  "list_batches E write actor company_id cursor limit =
     bnd (require_company company_id) (\<lambda>_.
     bnd (list_rows db_batch) (\<lambda>rows.
     let own = filter (\<lambda>b. b_company_id b = company_id) rows in
     bnd (batch_attempts (map b_batch_id own)) (\<lambda>grouped.
     let batches = map (\<lambda>b. batch_view b (the (map_of grouped (b_batch_id b)))) own in
     page E write Scope_batches actor (H_strings [company_id])
       \<lparr>pl_head = Head_none,
        pl_rows = map (Row_batch \<circ> batch_summary)
                    (sorted_desc (\<lambda>b. (b_created_at b, b_batch_id b)) batches)\<rparr> cursor limit)))"

end
