(* ===== verification/Pages_Correct.thy ===== *)
theory Pages_Correct
  imports Pages Samples
begin

text \<open>
  Pages are immutable and complete: following the cursors of a snapshot returns every row of
  the payload exactly once, whatever the queried tables have become; the snapshots of a user
  stay within their quota on every path; a cursor is bound to its user, scope and query.
\<close>

section \<open>Following the cursors of a snapshot\<close>


definition faultless :: "env \<Rightarrow> bool" where
  "faultless E \<longleftrightarrow> (\<forall>k. e_fault E k = None)"

definition snapshot_row :: "db \<Rightarrow> ustr \<Rightarrow> scope \<Rightarrow> ustr \<Rightarrow> ustr \<Rightarrow> payload \<Rightarrow> time \<Rightarrow> bool" where
  "snapshot_row d k scope user signature P bound \<longleftrightarrow>
     (\<exists>s. tbl_get (db_page_snapshot d) k = Some s \<and> ps_snapshot_id s = k \<and>
          ps_body s = Snap_rows scope P \<and> ps_owner s = user \<and> ps_query s = signature \<and>
          bound \<le> ps_expires s)"

definition cursor_at :: "db \<Rightarrow> ustr \<Rightarrow> scope \<Rightarrow> ustr \<Rightarrow> ustr \<Rightarrow> payload \<Rightarrow> time \<Rightarrow> nat \<Rightarrow> bool" where
  "cursor_at d c scope user signature P bound k \<longleftrightarrow> c \<noteq> [] \<and>
     (\<exists>cu. tbl_get (db_cursor d) c = Some cu \<and> cu_scope cu = scope \<and> cu_owner cu = user \<and>
        cu_query cu = signature \<and> cu_offset cu = k \<and> cu_legacy cu = None \<and> bound \<le> cu_expires cu \<and>
        snapshot_row d (cu_snapshot_id cu) scope user signature P bound)"

lemma wp_faultless_transaction:
  "faultless E \<Longrightarrow> wp m (\<lambda>x u. Q x (u\<lparr>tick := Suc (tick u)\<rparr>)) (\<lambda>_ _. False) w \<Longrightarrow>
   wp (transaction E m) Q (\<lambda>_ _. False) w"
  by (simp add: wp_transaction faultless_def)

text \<open>What one page answers, and the cursor it leaves.\<close>

definition page_answer :: "scope \<Rightarrow> ustr \<Rightarrow> ustr \<Rightarrow> payload \<Rightarrow> time \<Rightarrow> nat \<Rightarrow> nat \<Rightarrow> page_result \<Rightarrow> db \<Rightarrow> bool" where
  "page_answer scope user signature P bound k limit r d \<longleftrightarrow>
     pg_payload r = P\<lparr>pl_rows := take limit (drop k (pl_rows P))\<rparr> \<and>
     (case pg_next_cursor r of
        None \<Rightarrow> length (pl_rows P) \<le> k + limit
      | Some c \<Rightarrow> k + limit < length (pl_rows P) \<and> cursor_at d c scope user signature P bound (k + limit))"

lemma resume_answer:
  assumes f: "faultless E" and clk: "\<And>k. e_clock E k < bound"
    and c: "cursor_at (db w) c scope (act_user_id actor) (e_digest E query) P bound k"
  shows "wp (page E write scope actor query P' (Some c) limit)
    (\<lambda>r u. page_answer scope (act_user_id actor) (e_digest E query) P bound k limit r (db u))
    (\<lambda>_ _. False) w"
proof -
  have "wp (page_write E scope actor query P' (Some c) limit)
    (\<lambda>r u. page_answer scope (act_user_id actor) (e_digest E query) P bound k limit r (db u))
    (\<lambda>_ _. False) w"
    using c order.strict_trans2 [OF clk, of _ "tick w"] unfolding page_write_def resume_page_def wp_rules Let_def cursor_at_def snapshot_row_def
    by (auto simp: wp_rules keep_snapshot_def page_answer_def cursor_at_def snapshot_row_def cursor_key_def not_le order.strict_trans2 [OF clk])
  then show ?thesis
    by (auto simp: page_def wp_transaction f [unfolded faultless_def])
qed

lemma tbl_get_filter: "tbl_get t k = None \<Longrightarrow> tbl_get (filter p t) k = None"
  by (auto simp: tbl_get_def map_of_eq_None_iff)

lemma start_answer:
  assumes f: "faultless E" and clk: "\<And>k. e_clock E k < bound" "\<And>k. bound \<le> e_clock E k + page_cursor_seconds"
    and fresh: "tbl_get (db_page_snapshot (db w)) (snapshot_key E scope (act_user_id actor) (e_digest E query) P) = None"
    and quota: "length (owned_snapshots (db w) (act_user_id actor)) < max_page_snapshots_per_user"
      "sum_list (map ps_payload_bytes (owned_snapshots (db w) (act_user_id actor))) + e_payload_bytes E P
         \<le> max_page_snapshot_total_bytes_per_user"
      "e_payload_bytes E P \<le> max_page_snapshot_bytes"
  shows "wp (page E write scope actor query P None limit)
    (\<lambda>r u. page_answer scope (act_user_id actor) (e_digest E query) P bound 0 limit r (db u))
    (\<lambda>_ _. False) w"
proof -
  let ?kept = "filter (\<lambda>r. e_clock E (tick w) < ps_expires (snd r)) (db_page_snapshot (db w))"
  let ?d = "(db w)\<lparr>db_cursor := filter (\<lambda>r. e_clock E (tick w) < cu_expires (snd r)) (db_cursor (db w)),
        db_page_snapshot := ?kept\<rparr>"
  have own: "owned_snapshots ?d u = filter (\<lambda>s. e_clock E (tick w) < ps_expires s) (owned_snapshots (db w) u)" for u
    by (simp add: owned_snapshots_def tbl_rows_def filter_map o_def conj_commute)
  have sum_le: "sum_list (map ps_payload_bytes (filter p xs)) \<le> sum_list (map ps_payload_bytes xs)" for p xs
    by (induction xs) auto
  have room: "length (owned_snapshots ?d (act_user_id actor)) < max_page_snapshots_per_user"
    "sum_list (map ps_payload_bytes (owned_snapshots ?d (act_user_id actor))) + e_payload_bytes E P
       \<le> max_page_snapshot_total_bytes_per_user"
    unfolding own using quota(1,2) sum_le by (meson le_less_trans length_filter_le order.trans add_le_mono1)+
  have "wp (page_write E scope actor query P None limit)
    (\<lambda>r u. page_answer scope (act_user_id actor) (e_digest E query) P bound 0 limit r (db u))
    (\<lambda>_ _. False) w"
    using fresh room quota(3) clk(2)
    unfolding page_write_def first_page_def delete_expired_pages_def wp_rules Let_def
    by (auto simp: wp_rules keep_snapshot_def check_page_quota_def tbl_get_filter not_less
      page_answer_def cursor_at_def snapshot_row_def cursor_key_def)
  moreover have "page_answer scope (act_user_id actor) (e_digest E query) P bound 0 limit
      \<lparr>pg_payload = P\<lparr>pl_rows := take limit (pl_rows P)\<rparr>, pg_next_cursor = None\<rparr> (db w)"
    if "length (pl_rows P) \<le> limit"
    using that by (simp add: page_answer_def)
  ultimately show ?thesis
    by (auto simp: page_def wp_transaction wp_ret f [unfolded faultless_def])
qed
text \<open>A reader that follows the cursors: one request per page, each with the payload and limit of its time.\<close>

fun read_on ::
  "env \<Rightarrow> bool \<Rightarrow> scope \<Rightarrow> actor \<Rightarrow> hashed \<Rightarrow> ustr option \<Rightarrow> (payload \<times> nat) list \<Rightarrow> (row list \<times> ustr option) act" where
  "read_on E write scope actor query c [] = ret ([], c)"
| "read_on E write scope actor query c ((payload, limit) # reqs) =
     bnd (page E write scope actor query payload c limit) (\<lambda>r.
     case pg_next_cursor r of
       None \<Rightarrow> ret (pl_rows (pg_payload r), None)
     | Some c' \<Rightarrow>
         bnd (read_on E write scope actor query (Some c') reqs) (\<lambda>(xs, c'').
         ret (pl_rows (pg_payload r) @ xs, c'')))"

lemma read_on_resumed:
  assumes f: "faultless E" and clk: "\<And>k. e_clock E k < bound"
    and "cursor_at (db w) c scope (act_user_id actor) (e_digest E query) P bound k"
    and "\<forall>r\<in>set reqs. 0 < snd r" and "length (pl_rows P) \<le> k + length reqs" and "reqs \<noteq> []"
  shows "wp (read_on E write scope actor query (Some c) reqs)
    (\<lambda>r _. r = (drop k (pl_rows P), None)) (\<lambda>_ _. False) w"
  using assms(3-)
proof (induction reqs arbitrary: c k w)
  case (Cons r reqs)
  have cut: "take l (drop k xs) @ drop (k + l) xs = drop k xs" for l and xs :: "row list"
    by (metis append_take_drop_id drop_drop add.commute)
  obtain P' limit where r: "r = (P', limit)" by (cases r)
  have limit: "0 < limit" using Cons.prems(2) r by simp
  have "wp (read_on E write scope actor query (Some c') reqs)
      (\<lambda>x _. take limit (drop k (pl_rows P)) @ fst x = drop k (pl_rows P) \<and> snd x = None) (\<lambda>_ _. False) u"
    if "k + limit < length (pl_rows P)"
      "cursor_at (db u) c' scope (act_user_id actor) (e_digest E query) P bound (k + limit)" for c' u
    by (rule wp_mono [OF Cons.IH [OF that(2)]]) (use Cons.prems(2-) that(1) limit cut in \<open>cases reqs; auto\<close>)+
  then show ?case
    unfolding r read_on.simps wp_rules
    by (intro wp_mono [OF resume_answer [OF f clk Cons.prems(1)]])
      (auto simp: page_answer_def wp_rules
        split: option.splits)
qed simp

lemma read_on_all:
  assumes f: "faultless E" and clk: "\<And>k. e_clock E k < bound" "\<And>k. bound \<le> e_clock E k + page_cursor_seconds"
    and fresh: "tbl_get (db_page_snapshot (db w)) (snapshot_key E scope (act_user_id actor) (e_digest E query) P) = None"
    and quota: "length (owned_snapshots (db w) (act_user_id actor)) < max_page_snapshots_per_user"
      "sum_list (map ps_payload_bytes (owned_snapshots (db w) (act_user_id actor))) + e_payload_bytes E P
         \<le> max_page_snapshot_total_bytes_per_user"
      "e_payload_bytes E P \<le> max_page_snapshot_bytes"
    and reqs: "0 < limit" "\<forall>r\<in>set reqs. 0 < snd r" "length (pl_rows P) \<le> Suc (length reqs)"
  shows "wp (read_on E write scope actor query None ((P, limit) # reqs))
    (\<lambda>r _. r = (pl_rows P, None)) (\<lambda>_ _. False) w"
proof -
  have "wp (read_on E write scope actor query (Some c') reqs)
      (\<lambda>x _. take limit (pl_rows P) @ fst x = pl_rows P \<and> snd x = None) (\<lambda>_ _. False) u"
    if "limit < length (pl_rows P)"
      "cursor_at (db u) c' scope (act_user_id actor) (e_digest E query) P bound limit" for c' u
    by (rule wp_mono [OF read_on_resumed [OF f clk(1) that(2) reqs(2)]]) (use that(1) reqs in \<open>cases reqs; auto\<close>)+
  then show ?thesis
    unfolding read_on.simps wp_rules
    by (intro wp_mono [OF start_answer [OF f clk fresh quota]])
      (auto simp: page_answer_def wp_rules split: option.splits)
qed

section \<open>The quota\<close>

definition quota_ok :: "ustr \<Rightarrow> db \<Rightarrow> bool" where
  "quota_ok user d \<longleftrightarrow>
     length (owned_snapshots d user) \<le> max_page_snapshots_per_user \<and>
     sum_list (map ps_payload_bytes (owned_snapshots d user)) \<le> max_page_snapshot_total_bytes_per_user"

lemma length_rows_put:
  "length (filter P (tbl_rows (tbl_put k v t))) \<le> (if P v then 1 else 0) + length (filter P (tbl_rows t))"
  by (induction t) (auto simp: tbl_rows_def)

lemma sum_rows_put:
  "sum_list (map f (filter P (tbl_rows (tbl_put k v t)))) \<le>
   (if P v then f v else 0) + sum_list (map (f :: _ \<Rightarrow> nat) (filter P (tbl_rows t)))"
  by (induction t) (auto simp: tbl_rows_def)

lemma sum_list_filter_le: "sum_list (map (f :: _ \<Rightarrow> nat) (filter p xs)) \<le> sum_list (map f xs)"
  by (induction xs) auto

lemma quota_put:
  assumes "quota_ok user d"
    and "ps_owner s = user \<Longrightarrow> length (owned_snapshots d user) < max_page_snapshots_per_user \<and>
       sum_list (map ps_payload_bytes (owned_snapshots d user)) + ps_payload_bytes s \<le> max_page_snapshot_total_bytes_per_user"
  shows "quota_ok user (db_page_snapshot_update (tbl_put k s) d)"
  using assms length_rows_put [of "\<lambda>x. ps_owner x = user" k s "db_page_snapshot d"]
    sum_rows_put [of ps_payload_bytes "\<lambda>x. ps_owner x = user" k s "db_page_snapshot d"]
  by (cases "ps_owner s = user") (auto simp: quota_ok_def owned_snapshots_def)

lemma quota_expire:
  "quota_ok user d \<Longrightarrow> quota_ok user (d\<lparr>db_cursor := cs, db_page_snapshot := filter p (db_page_snapshot d)\<rparr>)"
proof -
  let ?d' = "d\<lparr>db_cursor := cs, db_page_snapshot := filter p (db_page_snapshot d)\<rparr>"
  let ?mine = "filter (\<lambda>r. ps_owner (snd r) = user) (db_page_snapshot d)"
  assume q: "quota_ok user d"
  have e: "owned_snapshots ?d' user = map snd (filter p ?mine)"
    by (simp add: owned_snapshots_def tbl_rows_def filter_map o_def conj_commute)
  have m: "owned_snapshots d user = map snd ?mine"
    by (simp add: owned_snapshots_def tbl_rows_def filter_map o_def)
  have "length (owned_snapshots ?d' user) \<le> length (owned_snapshots d user)"
    unfolding e m length_map by (rule length_filter_le)
  moreover have "sum_list (map ps_payload_bytes (owned_snapshots ?d' user)) \<le>
      sum_list (map ps_payload_bytes (owned_snapshots d user))"
    unfolding e m using sum_list_filter_le [of "ps_payload_bytes \<circ> snd" p ?mine] by (simp only: map_map)
  ultimately show ?thesis
    using q by (simp add: quota_ok_def)
qed

lemma quota_cursor [simp]: "quota_ok user (db_cursor_update f d) = quota_ok user d"
  by (simp add: quota_ok_def owned_snapshots_def)

lemma keeps_expire [keeps_rules]: "keeps (on_db (quota_ok user)) (delete_expired_pages now)"
  by (simp add: keeps_wp delete_expired_pages_def wp_rules quota_expire)

lemma keeps_put_cursor [keeps_rules]:
  "keeps (on_db (quota_ok user)) (put_row db_cursor_update k c)"
  by (rule keeps_put_row) simp

lemma keeps_guarded_put [keeps_rules]:
  "keeps (on_db (quota_ok user))
     (bnd (check_page_quota owner bytes) (\<lambda>_. bnd (put_row db_page_snapshot_update k
        \<lparr>ps_snapshot_id = i, ps_owner = owner, ps_query = q, ps_body = b, ps_payload_bytes = bytes,
         ps_expires = e\<rparr>) (\<lambda>_. ret x)))"
  by (auto simp: keeps_wp wp_rules check_page_quota_def not_le not_less intro!: quota_put)

lemma keeps_case_list [keeps_rules]:
  "keeps I m \<Longrightarrow> (\<And>x xs. keeps I (f x xs)) \<Longrightarrow> keeps I (case l of [] \<Rightarrow> m | x # xs \<Rightarrow> f x xs)"
  by (cases l) simp_all

lemma keeps_snapshot_body [keeps_rules]:
  "(\<And>s p. keeps I (f s p)) \<Longrightarrow> (\<And>c n. keeps I (g c n)) \<Longrightarrow>
   keeps I (case b of Snap_rows s p \<Rightarrow> f s p | Snap_audit c n \<Rightarrow> g c n)"
  by (cases b) simp_all

lemma keeps_page: "keeps (on_db (quota_ok user)) (page E write scope actor query payload cursor limit)"
  unfolding page_def page_write_def resume_page_def first_page_def keep_snapshot_def Let_def
  by (intro keeps_rules)

lemma keeps_case_sum [keeps_rules]:
  "(\<And>s. keeps I (f s)) \<Longrightarrow> (\<And>c. keeps I (g c)) \<Longrightarrow> keeps I (case b of Inl s \<Rightarrow> f s | Inr c \<Rightarrow> g c)"
  by (cases b) simp_all

lemma keeps_query_page: "keeps (on_db (quota_ok user)) (query_page E actor body cursor limit)"
  unfolding query_page_def snapshot_for_cursor_def reserve_audit_snapshot_def create_audit_cursor_def Let_def
  by (intro keeps_rules)

section \<open>The journal queries\<close>

lemma after_key:
  "(case after of None \<Rightarrow> True | Some (occurred, event_id) \<Rightarrow>
      ev_occurred_at e < occurred \<or> ev_occurred_at e = occurred \<and> ev_event_id e < event_id) \<longleftrightarrow>
   (case after of None \<Rightarrow> True | Some k \<Rightarrow> event_key e < k)"
  by (auto simp: event_key_def split: option.split)

lemma audit_where_after:
  "audit_where cf actor body after e \<longleftrightarrow>
   audit_where cf actor body None e \<and> (case after of None \<Rightarrow> True | Some k \<Rightarrow> event_key e < k)"
  unfolding audit_where_def after_key by auto

definition journal_ok :: "db \<Rightarrow> bool" where
  "journal_ok d \<longleftrightarrow> distinct (map ev_event_id (db_audit d))"

definition listing :: "(ustr \<Rightarrow> ustr) \<Rightarrow> event list \<Rightarrow> actor \<Rightarrow> audit_query \<Rightarrow> event list" where
  "listing cf evs actor body = sorted_desc event_key (filter (audit_where cf actor body None) evs)"

lemma event_key_distinct: "distinct (map ev_event_id evs) \<Longrightarrow> distinct (map event_key (filter P evs))"
  by (induction evs) (auto simp: event_key_def)

lemma listing_strict:
  assumes "distinct (map ev_event_id evs)"
  shows "sorted_wrt (>) (map event_key (listing cf evs actor body))"
  unfolding listing_def by (intro sorted_desc_strict event_key_distinct assms)

lemma audit_rows_slice:
  assumes "distinct (map ev_event_id (take cutoff (db_audit d)))"
    and "n < length (listing cf (take cutoff (db_audit d)) actor body)"
  shows "audit_rows cf d actor body cutoff limit (Some (event_key (listing cf (take cutoff (db_audit d)) actor body ! n))) =
    take (Suc limit) (drop (Suc n) (listing cf (take cutoff (db_audit d)) actor body))"
proof -
  let ?L = "listing cf (take cutoff (db_audit d)) actor body"
  let ?k = "event_key (?L ! n)"
  let ?R = "sorted_desc event_key (filter (audit_where cf actor body (Some ?k)) (take cutoff (db_audit d)))"
  have strict: "sorted_wrt (>) (map event_key ?L)" by (rule listing_strict [OF assms(1)])
  have "sorted_wrt (>) (map event_key ?R)" by (intro sorted_desc_strict event_key_distinct assms(1))
  moreover have "sorted_wrt (>) (map event_key (filter (\<lambda>x. event_key x < ?k) ?L))"
    using strict by (simp add: sorted_wrt_map sorted_wrt_filter)
  moreover have "set ?R = set (filter (\<lambda>x. event_key x < ?k) ?L)"
    using audit_where_after [of cf actor body "Some ?k"] by (auto simp: listing_def)
  ultimately have "?R = filter (\<lambda>x. event_key x < ?k) ?L"
    by (rule sorted_desc_unique)
  also have "\<dots> = drop (Suc n) ?L"
    by (rule filter_below [OF strict assms(2)])
  finally show ?thesis by (simp add: audit_rows_def)
qed

lemma audit_rows_first:
  "audit_rows cf d actor body cutoff limit None = take (Suc limit) (listing cf (take cutoff (db_audit d)) actor body)"
  by (simp add: audit_rows_def listing_def)

text \<open>The rows beyond the visible cutoff do not belong to the listing.\<close>

lemma dropWhile_take:
  "take (length (dropWhile (\<lambda>x. \<not> P x) (rev xs))) xs = rev (dropWhile (\<lambda>x. \<not> P x) (rev xs))"
  by (metis append_eq_conv_conj length_rev rev_append rev_rev_ident takeWhile_dropWhile_id)

lemma filter_cutoff:
  "filter (visible actor) (take (visible_cutoff d actor) (db_audit d)) = filter (visible actor) (db_audit d)"
proof -
  have "filter P (rev (dropWhile (\<lambda>x. \<not> P x) (rev xs))) = filter P xs" for P :: "event \<Rightarrow> bool" and xs
  proof -
    have "filter P (takeWhile (\<lambda>x. \<not> P x) (rev xs)) = []"
      by (auto simp: filter_empty_conv dest: set_takeWhileD)
    then have "filter P (rev xs) = filter P (dropWhile (\<lambda>x. \<not> P x) (rev xs))"
      by (metis append_Nil filter_append takeWhile_dropWhile_id)
    then show ?thesis by (metis rev_filter rev_rev_ident)
  qed
  then show ?thesis by (simp add: visible_cutoff_def dropWhile_take)
qed

lemma where_visible: "audit_where cf actor body after e \<Longrightarrow> visible actor e"
  by (auto simp: audit_where_def visible_def)

lemma listing_cutoff:
  "listing cf (take (visible_cutoff d actor) (db_audit d)) actor body = listing cf (db_audit d) actor body"
proof -
  have "filter (audit_where cf actor body None) xs =
      filter (audit_where cf actor body None) (filter (visible actor) xs)" for xs
    by (auto intro!: filter_cong dest: where_visible)
  then show ?thesis unfolding listing_def by (metis filter_cutoff)
qed

text \<open>The SQL listing and the in-memory query agree.\<close>

lemma where_matches:
  assumes "\<And>s. cf s = [] \<longleftrightarrow> s = []"
  shows "audit_where cf actor body None e \<longleftrightarrow> visible actor e \<and> event_matches cf body e"
proof -
  have m: "sql_mentions cf (aq_query_text body) l = mentions cf (cf (aq_query_text body)) l"
    if "aq_query_text body \<noteq> []" for l
    using that assms [of "[]"] assms [of "aq_query_text body"]
    by (cases "cf (aq_query_text body)") (auto simp: sql_mentions_def mentions_def split: option.split)
  have words: "(aq_query_text body \<noteq> [] \<longrightarrow> sql_mentions cf (aq_query_text body) (ev_source e) \<or> sql_mentions cf (aq_query_text body) (ev_target e))
      \<longleftrightarrow> (let text = cf (aq_query_text body) in text = [] \<or> mentions cf text (ev_source e) \<or> mentions cf text (ev_target e))"
    using m assms by (cases "aq_query_text body = []") (simp_all add: Let_def)
  have actor: "(aq_actor_id body \<noteq> None \<longrightarrow> map_option act_user_id (ev_actor e) = aq_actor_id body) \<longleftrightarrow>
      aq_actor_id body = None \<or> (case ev_actor e of None \<Rightarrow> False | Some a \<Rightarrow> Some (act_user_id a) = aq_actor_id body)"
    by (cases "ev_actor e") auto
  have w: "wanted x y \<longleftrightarrow> (x \<noteq> None \<longrightarrow> y = x)" for x y :: "'z option"
    by (auto simp: wanted_def)
  show ?thesis
    unfolding audit_where_def event_matches_def visible_def w words actor option.case by blast
qed

section \<open>Following the cursors of the journal\<close>

definition snapshot_ids_ok :: "db \<Rightarrow> bool" where
  "snapshot_ids_ok d \<longleftrightarrow> tbl_ok (db_page_snapshot d) \<and>
     (\<forall>r\<in>set (db_page_snapshot d). ps_snapshot_id (snd r) = fst r)"

definition audit_row :: "db \<Rightarrow> ustr \<Rightarrow> ustr \<Rightarrow> ustr \<Rightarrow> nat \<Rightarrow> time \<Rightarrow> bool" where
  "audit_row d k user signature cutoff bound \<longleftrightarrow>
     (\<exists>s n. tbl_get (db_page_snapshot d) k = Some s \<and> ps_snapshot_id s = k \<and> ps_body s = Snap_audit cutoff n \<and>
        ps_owner s = user \<and> ps_query s = signature \<and> bound \<le> ps_expires s)"

definition audit_cursor_at :: "db \<Rightarrow> ustr \<Rightarrow> ustr \<Rightarrow> ustr \<Rightarrow> nat \<Rightarrow> time \<Rightarrow> time \<times> ustr \<Rightarrow> bool" where
  "audit_cursor_at d c user signature cutoff bound after \<longleftrightarrow> c \<noteq> [] \<and>
     (\<exists>cu. tbl_get (db_cursor d) c = Some cu \<and> cu_scope cu = Scope_audit \<and> cu_owner cu = user \<and>
        cu_query cu = signature \<and> bound \<le> cu_expires cu \<and> cu_position cu = Some after \<and>
        audit_row d (cu_snapshot_id cu) user signature cutoff bound)"

definition journal_answer ::
  "event list \<Rightarrow> ustr \<Rightarrow> ustr \<Rightarrow> nat \<Rightarrow> time \<Rightarrow> nat \<Rightarrow> nat \<Rightarrow> audit_page \<Rightarrow> db \<Rightarrow> bool" where
  "journal_answer L user signature cutoff bound k limit r d \<longleftrightarrow>
     ap_items r = take limit (drop k L) \<and>
     (case ap_next_cursor r of
        None \<Rightarrow> length L \<le> k + limit
      | Some c \<Rightarrow> k + limit < length L \<and>
          audit_cursor_at d c user signature cutoff bound (event_key (L ! (k + limit - 1))))"

lemma create_cursor_answer:
  assumes f: "faultless E" and clk: "\<And>k. e_clock E k < bound"
    and "audit_row (db w) (as_snapshot_id s) (act_user_id actor) signature cutoff bound"
  shows "wp (create_audit_cursor E actor signature s t i)
    (\<lambda>c u. db_audit (db u) = db_audit (db w) \<and>
       audit_cursor_at (db u) c (act_user_id actor) signature cutoff bound (t, i)) (\<lambda>_ _. False) w"
  using assms(3) order.strict_trans2 [OF clk, of _ "tick w"]
  unfolding create_audit_cursor_def wp_rules Let_def
  by (auto simp: audit_row_def audit_cursor_at_def wp_rules f [unfolded faultless_def] not_le)

lemma snapshot_for_cursor_answer:
  assumes "audit_cursor_at (db w) c (act_user_id actor) signature cutoff bound after" and "now < bound"
  shows "wp (snapshot_for_cursor actor signature c now)
    (\<lambda>sa u. u = w \<and> snd sa = after \<and> as_cutoff_seq (fst sa) = cutoff \<and>
       audit_row (db w) (as_snapshot_id (fst sa)) (act_user_id actor) signature cutoff bound) (\<lambda>_ _. False) w"
  using assms unfolding snapshot_for_cursor_def wp_rules audit_cursor_at_def audit_row_def
  by (auto simp: wp_rules)

lemma reserve_answer:
  assumes f: "faultless E" and clk: "\<And>k. e_clock E k < bound" "\<And>k. bound \<le> e_clock E k + page_cursor_seconds"
    and ids: "snapshot_ids_ok (db w)" and live: "\<forall>s\<in>set (owned_snapshots (db w) (act_user_id actor)). bound \<le> ps_expires s"
    and quota: "length (owned_snapshots (db w) (act_user_id actor)) < max_page_snapshots_per_user"
      "\<And>i e. sum_list (map ps_payload_bytes (owned_snapshots (db w) (act_user_id actor)))
         + e_metadata_bytes E i (act_user_id actor) signature cutoff newest e \<le> max_page_snapshot_total_bytes_per_user"
      "\<And>i e. e_metadata_bytes E i (act_user_id actor) signature cutoff newest e \<le> max_page_snapshot_bytes"
  shows "wp (reserve_audit_snapshot E actor signature cutoff newest)
    (\<lambda>s u. db_audit (db u) = db_audit (db w) \<and>
       audit_row (db u) (as_snapshot_id s) (act_user_id actor) signature cutoff bound) (\<lambda>_ _. False) w"
proof -
  let ?now = "e_clock E (tick w)"
  let ?kept = "filter (\<lambda>r. ?now < ps_expires (snd r)) (db_page_snapshot (db w))"
  let ?d = "(db w)\<lparr>db_cursor := filter (\<lambda>r. ?now < cu_expires (snd r)) (db_cursor (db w)), db_page_snapshot := ?kept\<rparr>"
  have own: "owned_snapshots ?d u = filter (\<lambda>s. ?now < ps_expires s) (owned_snapshots (db w) u)" for u
    by (simp add: owned_snapshots_def tbl_rows_def filter_map o_def conj_commute)
  have room: "length (owned_snapshots ?d (act_user_id actor)) < max_page_snapshots_per_user"
    "sum_list (map ps_payload_bytes (owned_snapshots ?d (act_user_id actor)))
       + e_metadata_bytes E i (act_user_id actor) signature cutoff newest e \<le> max_page_snapshot_total_bytes_per_user" for i e
    unfolding own using quota(1) quota(2) [of i e] sum_list_filter_le
    by (meson le_less_trans length_filter_le order.trans add_le_mono1)+
  have found: "audit_row ?d (ps_snapshot_id s) (act_user_id actor) signature cutoff bound"
    if "filter (same_audit_snapshot (act_user_id actor) signature cutoff ?now) (tbl_rows ?kept) = s # ss" for s ss
  proof -
    from that have "s \<in> set (filter (same_audit_snapshot (act_user_id actor) signature cutoff ?now) (tbl_rows ?kept))"
      by simp
    then obtain k where k: "(k, s) \<in> set (db_page_snapshot (db w))" "?now < ps_expires s"
      and s: "same_audit_snapshot (act_user_id actor) signature cutoff ?now s"
      by (auto simp: tbl_rows_def)
    have "ps_snapshot_id s = k" using ids k(1) by (auto simp: snapshot_ids_ok_def)
    moreover have "tbl_ok ?kept"
      using ids by (simp add: snapshot_ids_ok_def tbl_ok_def sorted_wrt_map sorted_wrt_filter)
    then have "tbl_get ?kept k = Some s" using k by (simp add: tbl_get_in)
    moreover have "bound \<le> ps_expires s"
      using live k(1) s by (force simp: owned_snapshots_def same_audit_snapshot_def tbl_rows_def)
    ultimately show ?thesis
      using s by (auto simp: audit_row_def same_audit_snapshot_def split: snapshot_body.splits)
  qed
  show ?thesis
    unfolding reserve_audit_snapshot_def delete_expired_pages_def wp_rules Let_def
    using found room quota(3) clk(2)
    by (auto simp: wp_rules check_page_quota_def f [unfolded faultless_def] not_less audit_row_def
      split: list.split)
qed

text \<open>A reader of the journal: before every page, new events may have been appended.\<close>

fun read_journal ::
  "env \<Rightarrow> actor \<Rightarrow> audit_query \<Rightarrow> ustr option \<Rightarrow> (event list \<times> nat) list \<Rightarrow> (event list \<times> ustr option) act" where
  "read_journal E actor body c [] = ret ([], c)"
| "read_journal E actor body c ((new, limit) # reqs) =
     bnd (modify (\<lambda>w. w\<lparr>db := db_audit_update (\<lambda>l. l @ new) (db w)\<rparr>)) (\<lambda>_.
     bnd (query_page E actor body c limit) (\<lambda>r.
     case ap_next_cursor r of
       None \<Rightarrow> ret (ap_items r, None)
     | Some c' \<Rightarrow>
         bnd (read_journal E actor body (Some c') reqs) (\<lambda>(xs, c'').
         ret (ap_items r @ xs, c''))))"

lemma last_page: "0 < limit \<Longrightarrow> k + limit < length L \<Longrightarrow> last (take limit (drop k L)) = L ! (k + limit - 1)"
  by (subst last_conv_nth) (auto simp: min_def)

lemma next_answer:
  assumes f: "faultless E" and clk: "\<And>k. e_clock E k < bound" and q: "query_bounds actor body = Inr b"
    and L: "L = listing (e_casefold E) (take cutoff (db_audit (db w))) actor body"
    and d: "distinct (map ev_event_id (take cutoff (db_audit (db w))))"
    and k: "0 < k" "k < length L" and limit: "0 < limit"
    and c: "audit_cursor_at (db w) c (act_user_id actor) (e_digest E (H_audit_query body)) cutoff bound (event_key (L ! (k - 1)))"
  shows "wp (query_page E actor body (Some c) limit)
    (\<lambda>r u. db_audit (db u) = db_audit (db w) \<and>
       journal_answer L (act_user_id actor) (e_digest E (H_audit_query body)) cutoff bound k limit r (db u))
    (\<lambda>_ _. False) w"
proof -
  let ?sig = "e_digest E (H_audit_query body)" and ?user = "act_user_id actor"
  have rows: "audit_rows (e_casefold E) (db w) actor body cutoff limit (Some (event_key (L ! (k - 1)))) =
      take (Suc limit) (drop k L)"
    using audit_rows_slice [OF d, of "k - 1" "e_casefold E" actor body limit] k L by simp
  have c': "c \<noteq> []" using c by (simp add: audit_cursor_at_def)
  have more: "limit < length (take (Suc limit) (drop k L)) \<longleftrightarrow> k + limit < length L"
    using k by auto
  let ?u = "w\<lparr>tick := Suc (tick w)\<rparr>"
  have sc: "wp (snapshot_for_cursor actor ?sig c (e_clock E (tick w))) Q X ?u"
    if "\<And>s. as_cutoff_seq s = cutoff \<Longrightarrow> audit_row (db w) (as_snapshot_id s) ?user ?sig cutoff bound \<Longrightarrow>
      Q (s, event_key (L ! (k - 1))) ?u" for Q X
    by (rule wp_mono [OF snapshot_for_cursor_answer [of ?u c actor ?sig cutoff bound "event_key (L ! (k - 1))"]])
      (use c clk that in auto)
  have cc: "wp (create_audit_cursor E actor ?sig s (ev_occurred_at e) (ev_event_id e)) Q X ?u"
    if "audit_row (db w) (as_snapshot_id s) ?user ?sig cutoff bound"
      "\<And>c u. db_audit (db u) = db_audit (db w) \<Longrightarrow> audit_cursor_at (db u) c ?user ?sig cutoff bound (event_key e) \<Longrightarrow> Q c u"
    for s e Q X
    by (rule wp_mono [OF create_cursor_answer [OF f clk, of ?u s actor ?sig cutoff "ev_occurred_at e" "ev_event_id e"]])
      (use that in \<open>auto simp: event_key_def\<close>)
  show ?thesis
    using c' limit unfolding query_page_def
    by (simp add: q wp_rules Let_def del: One_nat_def)
      (rule sc, auto simp: rows more wp_rules Let_def min_def journal_answer_def last_page
        simp del: One_nat_def length_take length_drop intro!: cc)
qed

definition journal_room :: "env \<Rightarrow> db \<Rightarrow> actor \<Rightarrow> ustr \<Rightarrow> nat \<Rightarrow> ustr option \<Rightarrow> time \<Rightarrow> bool" where
  "journal_room E d actor signature cutoff newest bound \<longleftrightarrow>
     snapshot_ids_ok d \<and> (\<forall>s\<in>set (owned_snapshots d (act_user_id actor)). bound \<le> ps_expires s) \<and>
     length (owned_snapshots d (act_user_id actor)) < max_page_snapshots_per_user \<and>
     (\<forall>i e. sum_list (map ps_payload_bytes (owned_snapshots d (act_user_id actor)))
         + e_metadata_bytes E i (act_user_id actor) signature cutoff newest e \<le> max_page_snapshot_total_bytes_per_user \<and>
       e_metadata_bytes E i (act_user_id actor) signature cutoff newest e \<le> max_page_snapshot_bytes)"

lemma begin_answer:
  assumes f: "faultless E" and clk: "\<And>k. e_clock E k < bound" "\<And>k. bound \<le> e_clock E k + page_cursor_seconds"
    and q: "query_bounds actor body = Inr b"
    and cutoff: "cutoff = visible_cutoff (db w) actor"
    and L: "L = listing (e_casefold E) (take cutoff (db_audit (db w))) actor body"
    and limit: "0 < limit"
    and room: "journal_room E (db w) actor (e_digest E (H_audit_query body)) cutoff (newest_visible (db w) actor cutoff) bound"
  shows "wp (query_page E actor body None limit)
    (\<lambda>r u. db_audit (db u) = db_audit (db w) \<and>
       journal_answer L (act_user_id actor) (e_digest E (H_audit_query body)) cutoff bound 0 limit r (db u))
    (\<lambda>_ _. False) w"
proof -
  let ?sig = "e_digest E (H_audit_query body)" and ?user = "act_user_id actor"
  let ?newest = "newest_visible (db w) actor cutoff"
  have rows: "audit_rows (e_casefold E) (db w) actor body cutoff limit None = take (Suc limit) L"
    by (simp add: audit_rows_first L)
  have more: "limit < length (take (Suc limit) L) \<longleftrightarrow> limit < length L" by auto
  let ?u = "w\<lparr>tick := Suc (tick w)\<rparr>"
  have rs: "wp (reserve_audit_snapshot E actor ?sig cutoff ?newest) Q X ?u"
    if "\<And>s u. db_audit (db u) = db_audit (db w) \<Longrightarrow> audit_row (db u) (as_snapshot_id s) ?user ?sig cutoff bound \<Longrightarrow> Q s u" for Q X
    by (rule wp_mono [OF reserve_answer [OF f clk, of ?u actor ?sig cutoff ?newest]])
      (use room that in \<open>auto simp: journal_room_def\<close>)
  have cc: "wp (create_audit_cursor E actor ?sig s (ev_occurred_at e) (ev_event_id e)) Q X u"
    if "db_audit (db u) = db_audit (db w)" "audit_row (db u) (as_snapshot_id s) ?user ?sig cutoff bound"
      "\<And>c u. db_audit (db u) = db_audit (db w) \<Longrightarrow> audit_cursor_at (db u) c ?user ?sig cutoff bound (event_key e) \<Longrightarrow> Q c u"
    for s e Q X u
    by (rule wp_mono [OF create_cursor_answer [OF f clk(1), of u s actor ?sig cutoff "ev_occurred_at e" "ev_event_id e"]])
      (use that in \<open>auto simp: event_key_def\<close>)
  have lst: "last (take limit L) = L ! (limit - 1)" if "limit < length L"
    using last_page [OF limit, of 0 L] that by simp
  show ?thesis
    using limit unfolding query_page_def
    by (auto simp: q wp_rules Let_def cutoff [symmetric] rows more min_def journal_answer_def lst
      simp del: One_nat_def length_take intro!: rs cc)
qed

lemma listing_append: "cutoff \<le> length xs \<Longrightarrow> listing cf (take cutoff (xs @ ys)) actor body = listing cf (take cutoff xs) actor body"
  by simp

lemma read_journal_resumed:
  assumes f: "faultless E" and clk: "\<And>k. e_clock E k < bound" and q: "query_bounds actor body = Inr b"
    and "L = listing (e_casefold E) (take cutoff (db_audit (db w))) actor body"
    and "cutoff \<le> length (db_audit (db w))"
    and "distinct (map ev_event_id (take cutoff (db_audit (db w))))"
    and "0 < k" "k < length L"
    and "audit_cursor_at (db w) c (act_user_id actor) (e_digest E (H_audit_query body)) cutoff bound (event_key (L ! (k - 1)))"
    and "\<forall>r\<in>set reqs. 0 < snd r" and "length L \<le> k + length reqs"
  shows "wp (read_journal E actor body (Some c) reqs)
    (\<lambda>r _. fst r = drop k L \<and> snd r = None) (\<lambda>_ _. False) w"
  using assms(4-)
proof (induction reqs arbitrary: c k w)
  case (Cons r reqs)
  obtain new limit where r: "r = (new, limit)" by (cases r)
  have limit: "0 < limit" using Cons.prems(7) r by simp
  let ?u = "w\<lparr>db := db_audit_update (\<lambda>l. l @ new) (db w)\<rparr>"
  have cut: "take l (drop k xs) @ drop (k + l) xs = drop k xs" for l and xs :: "event list"
    by (metis append_take_drop_id drop_drop add.commute)
  have u: "take cutoff (db_audit (db ?u)) = take cutoff (db_audit (db w))" using Cons.prems(2) by simp
  have rest: "wp (read_journal E actor body (Some c') reqs)
      (\<lambda>x _. take limit (drop k L) @ fst x = drop k L \<and> snd x = None) (\<lambda>_ _. False) v"
    if "k + limit < length L" "db_audit (db v) = db_audit (db w) @ new"
      "audit_cursor_at (db v) c' (act_user_id actor) (e_digest E (H_audit_query body)) cutoff bound (event_key (L ! (k + limit - 1)))" for c' v
    by (rule wp_mono [OF Cons.IH [of v "k + limit" c']]) (use Cons.prems that limit cut u in auto)
  have "wp (query_page E actor body (Some c) limit)
    (\<lambda>r v. db_audit (db v) = db_audit (db ?u) \<and>
       journal_answer L (act_user_id actor) (e_digest E (H_audit_query body)) cutoff bound k limit r (db v))
    (\<lambda>_ _. False) ?u"
    by (rule next_answer [OF f clk q _ _ _ _ limit])
      (use Cons.prems u in \<open>auto simp: audit_cursor_at_def audit_row_def\<close>)
  then show ?case
    unfolding r read_journal.simps wp_rules
    by (rule wp_mono) (auto simp: journal_answer_def wp_rules intro!: rest split: option.splits)
qed simp

lemma read_journal_all:
  assumes f: "faultless E" and clk: "\<And>k. e_clock E k < bound" "\<And>k. bound \<le> e_clock E k + page_cursor_seconds"
    and q: "query_bounds actor body = Inr b" and ids: "journal_ok (db w)"
    and room: "journal_room E (db w) actor (e_digest E (H_audit_query body)) (visible_cutoff (db w) actor)
      (newest_visible_event_id (db w) actor) bound"
    and reqs: "0 < limit" "\<forall>r\<in>set reqs. 0 < snd r"
      "length (listing (e_casefold E) (db_audit (db w)) actor body) \<le> Suc (length reqs)"
  shows "wp (read_journal E actor body None (([], limit) # reqs))
    (\<lambda>r _. fst r = listing (e_casefold E) (db_audit (db w)) actor body \<and> snd r = None) (\<lambda>_ _. False) w"
proof -
  let ?c = "visible_cutoff (db w) actor"
  let ?L = "listing (e_casefold E) (db_audit (db w)) actor body"
  have L: "?L = listing (e_casefold E) (take ?c (db_audit (db w))) actor body" by (simp add: listing_cutoff)
  have c: "?c \<le> length (db_audit (db w))"
    by (simp add: visible_cutoff_def) (metis length_dropWhile_le length_rev)
  have d: "distinct (map ev_event_id (take ?c (db_audit (db w))))"
    using ids by (simp add: journal_ok_def take_map [symmetric])
  have rest: "wp (read_journal E actor body (Some c') reqs)
      (\<lambda>x _. take limit ?L @ fst x = ?L \<and> snd x = None) (\<lambda>_ _. False) v"
    if "limit < length ?L" "db_audit (db v) = db_audit (db w)"
      "audit_cursor_at (db v) c' (act_user_id actor) (e_digest E (H_audit_query body)) ?c bound (event_key (?L ! (limit - 1)))" for c' v
    by (rule wp_mono [OF read_journal_resumed [OF f clk(1) q, of ?L ?c v limit c']]) (use reqs that c d L in auto)
  have w: "w\<lparr>db := db_audit_update (\<lambda>l. l @ []) (db w)\<rparr> = w"
    by (cases "db w") simp
  have "wp (query_page E actor body None limit)
    (\<lambda>r v. db_audit (db v) = db_audit (db w) \<and>
       journal_answer ?L (act_user_id actor) (e_digest E (H_audit_query body)) ?c bound 0 limit r (db v))
    (\<lambda>_ _. False) w"
    by (rule begin_answer [OF f clk q refl L reqs(1)])
      (use room in \<open>simp add: newest_visible_event_id_def\<close>)
  then show ?thesis
    unfolding read_journal.simps wp_rules w
    by (rule wp_mono) (auto simp: journal_answer_def wp_rules intro!: rest split: option.splits)
qed

section \<open>Properties\<close>

text \<open>
  C9: pages are complete and immutable. A reader who asks for a result and then follows the
  cursors, with any page sizes, gets every row of the payload the first request computed, once
  and in order, although later requests compute other payloads: no row is skipped or repeated.
\<close>

theorem page_walk_complete:
  assumes "faultless E" and "\<And>k. e_clock E k < bound" and "\<And>k. bound \<le> e_clock E k + page_cursor_seconds"
    and "tbl_get (db_page_snapshot (db w)) (snapshot_key E scope (act_user_id actor) (e_digest E query) P) = None"
    and "length (owned_snapshots (db w) (act_user_id actor)) < max_page_snapshots_per_user"
    and "sum_list (map ps_payload_bytes (owned_snapshots (db w) (act_user_id actor))) + e_payload_bytes E P
         \<le> max_page_snapshot_total_bytes_per_user"
    and "e_payload_bytes E P \<le> max_page_snapshot_bytes"
    and "0 < limit" and "\<forall>r\<in>set reqs. 0 < snd r" and "length (pl_rows P) \<le> Suc (length reqs)"
  shows "fst (read_on E write scope actor query None ((P, limit) # reqs) w) = Inr (pl_rows P, None)"
  by (rule wp_total [OF read_on_all [OF assms]])

definition demo_payload :: "nat \<Rightarrow> payload" where
  "demo_payload n = \<lparr>pl_head = Head_none, pl_rows = replicate n (Row_actor sample_actor)\<rparr>"

lemma still_env_ok: "faultless still_env" "e_clock still_env k = 0" "e_payload_bytes still_env (demo_payload n) = n"
  "pl_rows (demo_payload n) = replicate n (Row_actor sample_actor)"
  by (simp_all add: faultless_def still_env_def sample_env_def demo_payload_def)

theorem page_walk_complete_witness:
  "fst (read_on still_env False Scope_actors sample_actor (H_strings []) None
     [(demo_payload 3, 2), (demo_payload 7, 1), (demo_payload 0, 5)] sample_world) = Inr (pl_rows (demo_payload 3), None)"
  by (rule page_walk_complete [where bound = 1])
    (simp_all add: still_env_ok sample_world_def empty_db_def owned_snapshots_def tbl_rows_def page_cursor_seconds_def
      seconds_def max_page_snapshots_per_user_def max_page_snapshot_bytes_def
      max_page_snapshot_total_bytes_per_user_def)

text \<open>
  C10: paging the audit journal is stable under concurrent appends. The pages a reader gets by
  following the keyset cursors are, put together, exactly the matching visible events of the
  journal as it was at the first request, newest first, although events are appended before
  every later request.
\<close>

theorem journal_walk_complete:
  assumes "faultless E" and "\<And>k. e_clock E k < bound" and "\<And>k. bound \<le> e_clock E k + page_cursor_seconds"
    and "query_bounds actor body = Inr b" and "journal_ok (db w)"
    and "journal_room E (db w) actor (e_digest E (H_audit_query body)) (visible_cutoff (db w) actor)
      (newest_visible_event_id (db w) actor) bound"
    and "0 < limit" and "\<forall>r\<in>set reqs. 0 < snd r"
    and "length (listing (e_casefold E) (db_audit (db w)) actor body) \<le> Suc (length reqs)"
  shows "fst (read_journal E actor body None (([], limit) # reqs) w) =
    Inr (listing (e_casefold E) (db_audit (db w)) actor body, None)"
  by (rule wp_total) (use read_journal_all [OF assms] in \<open>simp add: prod_eq_iff\<close>)

text \<open>
  C30: the SQL page query and the in-memory query of the journal answer the same: the first page
  is a prefix of the sorted list of matching visible events that \<open>query_events\<close> returns, cut
  after one row more than the limit.
\<close>

theorem audit_rows_agree:
  assumes "query_bounds actor body = Inr b" and "\<And>s. e_casefold E s = [] \<longleftrightarrow> s = []" and "journal_ok d"
  shows "\<exists>evs. query_events E d actor body = Inr evs \<and>
    audit_rows (e_casefold E) d actor body (visible_cutoff d actor) limit None = take (Suc limit) evs"
proof -
  let ?evs = "sorted_desc event_key (filter (event_matches (e_casefold E) body) (visible_events d actor))"
  have d: "distinct (map ev_event_id (db_audit d))" using assms(3) by (simp add: journal_ok_def)
  then have r: "distinct (map ev_event_id (rev (db_audit d)))" by (simp add: rev_map [symmetric])
  have "sorted_wrt (>) (map event_key ?evs)"
    unfolding visible_events_def filter_filter by (intro sorted_desc_strict event_key_distinct r)
  moreover have "set ?evs = set (listing (e_casefold E) (db_audit d) actor body)"
    by (auto simp: listing_def visible_events_def where_matches [OF assms(2)])
  ultimately have "?evs = listing (e_casefold E) (db_audit d) actor body"
    by (intro sorted_desc_unique [where f = event_key] listing_strict [OF d])
  then show ?thesis
    using assms(1) by (simp add: query_events_def audit_rows_first listing_cutoff)
qed

definition demo_event :: "nat \<Rightarrow> audit_action \<Rightarrow> event" where
  "demo_event n a = new_event [n] (Some sample_actor) a (lit ''req'') (int n) SUCCESS"

definition demo_journal :: world where
  "demo_journal = sample_world\<lparr>db := empty_db\<lparr>db_audit :=
     [demo_event 1 LOGOUT, demo_event 2 BATCH_ACCEPTED, demo_event 3 DRAFT_SAVED]\<rparr>\<rparr>"

definition demo_query :: audit_query where
  "demo_query = \<lparr>aq_from = 0, aq_to = 10, aq_company_id = None, aq_action = None, aq_result = None,
     aq_actor_id = None, aq_query_text = []\<rparr>"

lemma demo_journal_room:
  "journal_room still_env (db demo_journal) sample_actor s n m 1"
  by (simp add: journal_room_def demo_journal_def empty_db_def snapshot_ids_ok_def owned_snapshots_def tbl_rows_def
      max_page_snapshots_per_user_def max_page_snapshot_bytes_def max_page_snapshot_total_bytes_per_user_def
      still_env_def sample_env_def)

lemma demo_journal_listing:
  "length (listing (e_casefold still_env) (db_audit (db demo_journal)) sample_actor demo_query) \<le> 3"
proof -
  have "length (listing cf evs actor body) \<le> length evs" for cf evs actor body
    by (simp add: listing_def)
  from this [of _ "db_audit (db demo_journal)"] show ?thesis
    by (rule order.trans) (simp add: demo_journal_def)
qed

lemma demo_journal_ok: "journal_ok (db demo_journal)"
  by (simp add: journal_ok_def demo_journal_def demo_event_def new_event_def)

lemma demo_query_bounds: "query_bounds sample_actor demo_query = Inr (0, 10)"
  by (simp add: query_bounds_def demo_query_def)

theorem journal_walk_complete_witness:
  "fst (read_journal still_env sample_actor demo_query None
     [([], 1), ([demo_event 4 LOGOUT], 1), ([demo_event 5 LOGOUT, demo_event 6 LOGOUT], 2)] demo_journal) =
   Inr (listing (e_casefold still_env) (db_audit (db demo_journal)) sample_actor demo_query, None)"
  by (rule journal_walk_complete [where bound = 1, OF _ _ _ demo_query_bounds demo_journal_ok demo_journal_room])
    (use demo_journal_listing in \<open>simp_all add: still_env_ok page_cursor_seconds_def seconds_def\<close>)

theorem audit_rows_agree_witness:
  "\<exists>evs. query_events still_env (db demo_journal) sample_actor demo_query = Inr evs \<and>
    audit_rows (e_casefold still_env) (db demo_journal) sample_actor demo_query
      (visible_cutoff (db demo_journal) sample_actor) 2 None = take (Suc 2) evs"
  by (rule audit_rows_agree [OF demo_query_bounds _ demo_journal_ok]) (simp add: still_env_def sample_env_def)

text \<open>
  C31: no operation takes a user beyond the quota of 64 page snapshots and 32 MiB: a page request
  and a journal page request keep the bound for every user, on the error exits too.
\<close>

theorem page_quota_kept:
  assumes "quota_ok user (db w)"
  shows "quota_ok user (db (snd (page E write scope actor query payload cursor limit w))) \<and>
    quota_ok user (db (snd (query_page E actor' body cursor' limit' w)))"
  using keeps_page keeps_query_page assms unfolding keeps_def by blast

theorem page_quota_kept_witness:
  "quota_ok (act_user_id sample_actor)
     (db (snd (page still_env True Scope_actors sample_actor (H_strings []) (demo_payload 3) None 2 sample_world)))"
  by (rule page_quota_kept [THEN conjunct1])
    (simp add: quota_ok_def sample_world_def empty_db_def owned_snapshots_def tbl_rows_def)

text \<open>
  C32: a cursor is bound to the user, the scope and the query it was made for, and to its expiry:
  presented by anyone else, with another query or too late, it is refused and nothing changes.
\<close>

theorem page_cursor_bound:
  assumes "c \<noteq> []" and "tbl_get (db_cursor (db w)) c = Some cu"
    and "cu_owner cu \<noteq> act_user_id actor \<or> cu_scope cu \<noteq> scope \<or> cu_query cu \<noteq> e_digest E query \<or>
      cu_expires cu \<le> e_clock E (tick w)"
  shows "\<exists>u. page E write scope actor query payload (Some c) limit w = (Inl bad_cursor, u) \<and> db u = db w"
proof -
  have "page_write E scope actor query payload (Some c) limit w =
      (Inl bad_cursor, w\<lparr>tick := Suc (tick w)\<rparr>)"
    using assms
    by (auto simp: page_write_def resume_page_def bnd_def read_clock_def get_row_def asks_def raise_def Let_def)
  then show ?thesis
    using assms(1) by (auto simp: page_def transaction_def)
qed

definition foreign_cursor :: cursor where
  "foreign_cursor = \<lparr>cu_scope = Scope_queue, cu_owner = lit ''u2'', cu_query = [], cu_snapshot_id = [],
     cu_offset = 5, cu_expires = 100, cu_legacy = None, cu_position = None\<rparr>"

definition foreign_cursor_world :: world where
  "foreign_cursor_world = sample_world\<lparr>db := empty_db\<lparr>db_cursor := [(lit ''c'', foreign_cursor)]\<rparr>\<rparr>"

theorem page_cursor_bound_witness:
  "\<exists>u. page still_env False Scope_queue sample_actor (H_strings []) (demo_payload 3) (Some (lit ''c'')) 2
     foreign_cursor_world = (Inl bad_cursor, u) \<and> db u = db foreign_cursor_world"
  by (rule page_cursor_bound [where cu = foreign_cursor])
    (simp_all add: foreign_cursor_world_def foreign_cursor_def sample_actor_def)

end
