(* ===== verification/Execution_Claims.thy ===== *)
theory Execution_Claims
  imports Execution_Safety Sorting Pages_Correct
begin

text \<open>
  Mutual exclusion of the attempts and the finality of their outcomes. The claim table is the
  lock: every attempt that is not done holds the claim of its item, every claim belongs to such an
  attempt, and a claimed item is not selectable. Acceptance, the worker, the recovery and the
  quarantine service keep this on every exit; an attempt that is done is never written again.
\<close>

section \<open>Claims\<close>

definition attempt_ids :: "(ustr \<Rightarrow> attempt option) \<Rightarrow> bool" where
  "attempt_ids A \<longleftrightarrow> (\<forall>i a. A i = Some a \<longrightarrow> a_attempt_id a = i)"

definition queue_ids :: "(ustr \<Rightarrow> queue_item option) \<Rightarrow> bool" where
  "queue_ids Q \<longleftrightarrow> (\<forall>i q. Q i = Some q \<longrightarrow> q_item_id q = i)"

definition pending_claimed :: "(ustr \<Rightarrow> attempt option) \<Rightarrow> (ustr \<Rightarrow> claim option) \<Rightarrow> bool" where
  "pending_claimed A C \<longleftrightarrow>
     (\<forall>i a. A i = Some a \<longrightarrow> a_phase a \<noteq> DONE \<longrightarrow> map_option cl_attempt_id (C (q_item_id (a_item a))) = Some i)"

definition claims_pending :: "(ustr \<Rightarrow> attempt option) \<Rightarrow> (ustr \<Rightarrow> claim option) \<Rightarrow> bool" where
  "claims_pending A C \<longleftrightarrow>
     (\<forall>k c. C k = Some c \<longrightarrow>
        (case A (cl_attempt_id c) of None \<Rightarrow> False | Some a \<Rightarrow> q_item_id (a_item a) = k \<and> a_phase a \<noteq> DONE))"

definition claimed_locked :: "(ustr \<Rightarrow> queue_item option) \<Rightarrow> (ustr \<Rightarrow> claim option) \<Rightarrow> bool" where
  "claimed_locked Q C \<longleftrightarrow>
     (\<forall>k c. C k = Some c \<longrightarrow> (case Q k of None \<Rightarrow> False | Some q \<Rightarrow> \<not> q_selectable q))"

definition claims_ok :: "db \<Rightarrow> bool" where
  "claims_ok d \<longleftrightarrow>
     (let A = tbl_get (db_attempt d); Q = tbl_get (db_queue d); C = tbl_get (db_claim d) in
      attempt_ids A \<and> queue_ids Q \<and> pending_claimed A C \<and> claims_pending A C \<and> claimed_locked Q C)"

lemma claims_ok_simps [simp]:
  "claims_ok (db_audit_update f d) = claims_ok d" "claims_ok (db_outbox_update g d) = claims_ok d"
  "claims_ok (db_quarantine_update h d) = claims_ok d" "claims_ok (db_return_update h1 d) = claims_ok d"
  "claims_ok (db_return_key_update h2 d) = claims_ok d" "claims_ok (db_cursor_update h3 d) = claims_ok d"
  "claims_ok (db_page_snapshot_update h4 d) = claims_ok d" "claims_ok (db_batch_update h5 d) = claims_ok d"
  "claims_ok (db_selection_update h6 d) = claims_ok d"
  by (simp_all add: claims_ok_def)

text \<open>The changes of the executor: an attempt moves on, an item is locked, an item is released.\<close>

lemma claims_attempt:
  assumes "claims_ok d" and "tbl_get (db_attempt d) i = Some a" and "a_phase a \<noteq> DONE"
    and "a_attempt_id b = a_attempt_id a" and "a_item b = a_item a" and "a_phase b \<noteq> DONE"
  shows "claims_ok (db_attempt_update (tbl_put i b) d)"
proof -
  let ?A = "tbl_get (db_attempt d)" and ?C = "tbl_get (db_claim d)"
  have "attempt_ids (?A(i \<mapsto> b))"
    using assms by (auto simp: claims_ok_def attempt_ids_def Let_def)
  moreover have "pending_claimed (?A(i \<mapsto> b)) ?C"
    using assms by (auto simp: claims_ok_def pending_claimed_def Let_def)
  moreover have "claims_pending (?A(i \<mapsto> b)) ?C"
    using assms by (fastforce simp: claims_ok_def claims_pending_def Let_def split: option.splits)
  moreover have "tbl_get (tbl_put i b (db_attempt d)) = ?A(i \<mapsto> b)" by (rule ext) simp
  ultimately show ?thesis
    using assms(1) by (simp add: claims_ok_def Let_def)
qed

lemma claims_queue:
  assumes "claims_ok d" and "q_item_id q = i" and "\<not> q_selectable q"
  shows "claims_ok (db_queue_update (tbl_put i q) d)"
proof -
  let ?Q = "tbl_get (db_queue d)" and ?C = "tbl_get (db_claim d)"
  have "queue_ids (?Q(i \<mapsto> q))" and "claimed_locked (?Q(i \<mapsto> q)) ?C"
    using assms by (auto simp: claims_ok_def queue_ids_def claimed_locked_def Let_def)
  then show ?thesis
    using assms(1) by (simp add: claims_ok_def Let_def tbl_get_put_fun)
qed

lemma claims_release:
  assumes ok: "claims_ok d" and a: "tbl_get (db_attempt d) i = Some a" "a_phase a \<noteq> DONE"
    and b: "a_attempt_id b = a_attempt_id a" "a_item b = a_item a" "a_phase b = DONE"
    and k: "k = q_item_id (a_item a)" "q_item_id q = k"
  shows "claims_ok (db_claim_update (tbl_delete k) (db_queue_update (tbl_put k q) (db_attempt_update (tbl_put i b) d)))"
proof -
  let ?A = "tbl_get (db_attempt d)" and ?Q = "tbl_get (db_queue d)" and ?C = "tbl_get (db_claim d)"
  from ok have ok': "attempt_ids ?A" "queue_ids ?Q" "pending_claimed ?A ?C" "claims_pending ?A ?C" "claimed_locked ?Q ?C"
    by (simp_all add: claims_ok_def Let_def)
  have mine: "map_option cl_attempt_id (?C k) = Some i"
    using ok'(3) a k(1) by (simp add: pending_claimed_def)
  have "attempt_ids (?A(i \<mapsto> b))" and "queue_ids (?Q(k \<mapsto> q))"
    using ok'(1,2) a b k by (auto simp: attempt_ids_def queue_ids_def)
  moreover have "pending_claimed (?A(i \<mapsto> b)) (?C(k := None))"
    using ok'(3) b(3) mine by (fastforce simp: pending_claimed_def)
  moreover have "claims_pending (?A(i \<mapsto> b)) (?C(k := None))"
    using ok'(4) a(1) k(1) by (fastforce simp: claims_pending_def split: option.splits)
  moreover have "claimed_locked (?Q(k \<mapsto> q)) (?C(k := None))"
    using ok'(5) by (simp add: claimed_locked_def)
  ultimately show ?thesis
    by (simp add: claims_ok_def Let_def tbl_get_put_fun tbl_get_delete_fun)
qed

lemma claims_item_id: "claims_ok d \<Longrightarrow> tbl_get (db_queue d) i = Some q \<Longrightarrow> q_item_id q = i"
  by (simp add: claims_ok_def queue_ids_def Let_def)

lemma finished_item_id [simp]: "q_item_id (finished_item q s r c n) = q_item_id q"
  by (simp add: finished_item_def split: option.split)


text \<open>Every transaction of the executor restores the invariant by its end.\<close>

lemma wp_start_attempt:
  assumes "\<And>b u g. db u = db_audit_update g (db w) \<Longrightarrow> a_phase b = a_phase a \<Longrightarrow> a_attempt_id b = a_attempt_id a \<Longrightarrow>
      a_item b = a_item a \<Longrightarrow> a_intent_target b = a_intent_target a \<Longrightarrow> Q b u"
  shows "wp (start_attempt E a now t) Q (\<lambda>_ _. True) w"
proof -
  have "db_audit_update (\<lambda>l. l) (db w) = db w" by (cases "db w") simp
  then have "Q a w" using assms [of w "\<lambda>l. l" a] by simp
  then show ?thesis
    by (auto simp: start_attempt_def wp_rules Let_def intro!: assms)
qed

lemma db_audit_commute [simp]:
  "db_attempt (db_audit_update g d) = db_attempt d" "db_queue (db_audit_update g d) = db_queue d"
  "db_claim (db_audit_update g d) = db_claim d"
  by simp_all

lemma claims_emit [keeps_rules]: "keeps (on_db claims_ok) (emit E a c r n s l)"
  unfolding emit_def Let_def by (intro keeps_rules keeps_append_event) simp

lemma claims_put_quarantine [keeps_rules]: "keeps (on_db claims_ok) (put_quarantine a l n)"
  unfolding put_quarantine_def by (intro keeps_rules keeps_put_row) simp

lemma claims_enqueue [keeps_rules]: "keeps (on_db claims_ok) (enqueue_move a i l f)"
  by (simp add: enqueue_move_def keeps_wp wp_rules)

lemma claims_finish_records [keeps_rules]: "keeps (on_db claims_ok) (finish_records E i a k s r l n)"
  unfolding finish_records_def by (intro keeps_rules)

lemma finished_attempt_fields [simp]:
  "a_attempt_id (finished_attempt a s r l n) = a_attempt_id a" "a_item (finished_attempt a s r l n) = a_item a"
  "a_phase (finished_attempt a s r l n) = DONE"
  by (simp_all add: finished_attempt_def)

lemma stuck_attempt_fields [simp]:
  "a_attempt_id (stuck_attempt a l) = a_attempt_id a" "a_item (stuck_attempt a l) = a_item a"
  "a_phase (stuck_attempt a l) = PH_RECOVERY_REQUIRED"
  by (simp_all add: stuck_attempt_def)

lemma intended_attempt_fields [simp]:
  "a_attempt_id (intended_attempt a t s r) = a_attempt_id a" "a_item (intended_attempt a t s r) = a_item a"
  "a_phase (intended_attempt a t s r) = INTENT" "a_intent_target (intended_attempt a t s r) = Some t"
  by (simp_all add: intended_attempt_def)

lemma requeued_attempt_fields [simp]:
  "a_attempt_id (requeued_attempt a) = a_attempt_id a" "a_item (requeued_attempt a) = a_item a"
  "a_phase (requeued_attempt a) = QUEUED"
  by (simp_all add: requeued_attempt_def)

lemma finish_ends: "ends claims_ok (finish_body E i s r l)"
  unfolding ends_def
proof (intro allI impI)
  fix w :: world assume ok: "claims_ok (db w)"
  have stat: "keeps (on_db I) (if s = O_SKIPPED \<and> r = Some SOURCE_CHANGED
      then bnd (physical (q_source (a_item a))) (fs_stat E) else ret None)" for I a by (intro keeps_rules)
  show "wp (finish_body E i s r l) (\<lambda>_ u. claims_ok (db u)) (\<lambda>_ _. True) w"
    unfolding finish_body_def
    by (intro TrueI ok wp_weaken_db [OF stat] wp_start_attempt wp_keeps_step [OF claims_finish_records] vc)
      (auto simp: claims_item_id [OF ok] ok intro!: claims_release)
qed

lemma recovery_ends: "ends claims_ok (recovery_body E i l)"
  unfolding ends_def
proof (intro allI impI)
  fix w :: world assume ok: "claims_ok (db w)"
  show "wp (recovery_body E i l) (\<lambda>_ u. claims_ok (db u)) (\<lambda>_ _. True) w"
    unfolding recovery_body_def
    by (intro TrueI ok wp_start_attempt wp_keeps_step [OF claims_emit] vc)
      (auto simp: claims_item_id ok intro!: claims_queue claims_attempt)
qed


lemma intent_ends: "ends claims_ok (
   bnd (require_row db_attempt i) (\<lambda>a0. if a_phase a0 \<noteq> QUEUED then ret ()
     else bnd (read_clock E) (\<lambda>now.
       bnd (start_attempt E (intended_attempt a0 t s r) now (Some t)) (\<lambda>a.
       put_row db_attempt_update i a))))"
  unfolding ends_def
proof (intro allI impI)
  fix w :: world assume ok: "claims_ok (db w)"
  show "wp (bnd (require_row db_attempt i) (\<lambda>a0. if a_phase a0 \<noteq> QUEUED then ret ()
     else bnd (read_clock E) (\<lambda>now.
       bnd (start_attempt E (intended_attempt a0 t s r) now (Some t)) (\<lambda>a.
       put_row db_attempt_update i a)))) (\<lambda>_ u. claims_ok (db u)) (\<lambda>_ _. True) w"
    by (intro TrueI ok wp_start_attempt vc) (auto simp: ok intro!: claims_attempt)
qed

lemma claims_finish [keeps_rules]: "keeps (on_db claims_ok) (finish E i s r l)"
  unfolding finish_def by (rule keeps_ends [OF finish_ends])

lemma claims_recovery [keeps_rules]: "keeps (on_db claims_ok) (recovery_required E i l)"
  unfolding recovery_required_def by (rule keeps_ends [OF recovery_ends])

lemma claims_intent [keeps_rules]: "keeps (on_db claims_ok) (intent E i t s r)"
  unfolding intent_def by (rule keeps_ends [OF intent_ends])

lemma claims_retarget:
  "ends claims_ok (bnd (require_row db_attempt i) (\<lambda>saved. put_row db_attempt_update i
     (saved\<lparr>a_intent_target := t, a_intended_state := s, a_intended_reason := r\<rparr>)))"
  unfolding ends_def
proof (intro allI impI)
  fix w :: world assume ok: "claims_ok (db w)"
  have "claims_ok (db_attempt_update (tbl_put i (v\<lparr>a_intent_target := t, a_intended_state := s, a_intended_reason := r\<rparr>)) (db w))"
    if v: "tbl_get (db_attempt (db w)) i = Some v" for v
  proof -
    let ?v = "v\<lparr>a_intent_target := t, a_intended_state := s, a_intended_reason := r\<rparr>"
    let ?A = "tbl_get (db_attempt (db w))" and ?C = "tbl_get (db_claim (db w))"
    have "attempt_ids (?A(i \<mapsto> ?v))" "pending_claimed (?A(i \<mapsto> ?v)) ?C"
      using ok v by (auto simp: claims_ok_def attempt_ids_def pending_claimed_def Let_def)
    moreover have "claims_pending (?A(i \<mapsto> ?v)) ?C"
      using ok v by (fastforce simp: claims_ok_def claims_pending_def Let_def split: option.splits)
    ultimately show ?thesis using ok by (simp add: claims_ok_def Let_def tbl_get_put_fun)
  qed
  then show "wp (bnd (require_row db_attempt i) (\<lambda>saved. put_row db_attempt_update i
     (saved\<lparr>a_intent_target := t, a_intended_state := s, a_intended_reason := r\<rparr>)))
    (\<lambda>_ u. claims_ok (db u)) (\<lambda>_ _. True) w"
    by (intro TrueI vc) simp
qed

lemma claims_quarantine_or_recover [keeps_rules]: "keeps (on_db claims_ok) (quarantine_or_recover E i)"
  unfolding quarantine_or_recover_def Let_def by (intro keeps_rules keeps_ends [OF claims_retarget])

lemma claims_execute [keeps_rules]: "keeps (on_db claims_ok) (execute_intent E i)"
  unfolding execute_intent_def rename_failed_def rename_done_def Let_def by (intro keeps_rules)

lemma claims_run_queued [keeps_rules]: "keeps (on_db claims_ok) (run_queued E i a)"
  unfolding run_queued_def Let_def by (intro keeps_rules)

text \<open>Requeueing and retrying need the attempt to be pending, which its readers have checked.\<close>

definition pending_at :: "ustr \<Rightarrow> db \<Rightarrow> bool" where
  "pending_at i d \<longleftrightarrow> claims_ok d \<and> (\<exists>a. tbl_get (db_attempt d) i = Some a \<and> a_phase a \<noteq> DONE)"

lemma pending_requeue [keeps_rules]: "keeps (on_db (pending_at i)) (requeue E i)"
  unfolding requeue_def
  by (intro keeps_ends) (auto simp: ends_def wp_rules pending_at_def split: option.split intro!: claims_attempt)

lemma pending_retry [keeps_rules]: "keeps (on_db (pending_at i)) (retry_intent E i)"
  unfolding retry_intent_def
  by (intro keeps_ends) (auto simp: ends_def wp_rules pending_at_def split: option.split intro!: claims_attempt)


text \<open>An action that leads from one invariant to another, on both exits.\<close>

definition leads :: "(db \<Rightarrow> bool) \<Rightarrow> (db \<Rightarrow> bool) \<Rightarrow> 'a act \<Rightarrow> bool" where
  "leads P I m \<longleftrightarrow> (\<forall>w. P (db w) \<longrightarrow> wp m (\<lambda>_ u. I (db u)) (\<lambda>_ u. I (db u)) w)"

lemma leads_bnd:
  "(\<And>d. P d \<Longrightarrow> I d) \<Longrightarrow> keeps (on_db P) m \<Longrightarrow> (\<And>x. leads P I (f x)) \<Longrightarrow> leads P I (bnd m f)"
  unfolding leads_def wp_bnd by (auto elim!: keeps_use)

lemma leads_try_else:
  "keeps (on_db P) m \<Longrightarrow> (\<And>e. leads P I (h e)) \<Longrightarrow> (\<And>x. leads P I (k x)) \<Longrightarrow> leads P I (try_else m h k)"
  unfolding leads_def wp_try_else by (auto elim!: keeps_use)

lemma leads_keeps: "(\<And>d. P d \<Longrightarrow> I d) \<Longrightarrow> keeps (on_db I) m \<Longrightarrow> leads P I m"
  unfolding leads_def by (auto elim!: keeps_use)

lemma leads_if: "leads P I m \<Longrightarrow> leads P I n \<Longrightarrow> leads P I (if c then m else n)"
  by simp

lemma leads_plan_state:
  "leads P I a \<Longrightarrow> leads P I b \<Longrightarrow> leads P I c \<Longrightarrow> leads P I d \<Longrightarrow>
   leads P I (case x of WILL_MOVE \<Rightarrow> a | WILL_MANUAL_REVIEW \<Rightarrow> b | REQUIRES_DECISION \<Rightarrow> c | P_NOT_READY \<Rightarrow> d)"
  by (cases x) simp_all

lemma pending_claims: "pending_at i d \<Longrightarrow> claims_ok d"
  by (simp add: pending_at_def)

lemma keeps_reading_source:
  "keeps (on_db P) (catch_all (bnd (physical l) (\<lambda>source. bnd (fs_stat E source) (\<lambda>ob. ret (ob = fp)))) (ret False))"
  by (intro keeps_rules)

lemmas leads_claims = leads_bnd [of "pending_at i" claims_ok for i, OF pending_claims]
  leads_keeps [of "pending_at i" claims_ok for i, OF pending_claims]

lemma pending_recover_unintended: "leads (pending_at i) claims_ok (recover_unintended E i a)"
  unfolding recover_unintended_def
  by (intro leads_if leads_claims(1) [OF _ keeps_reading_source] leads_claims(1) [OF _ pending_requeue]
      leads_claims(2) keeps_rules)

lemma pending_recover_intended: "leads (pending_at i) claims_ok (recover_intended E i a l b)"
  unfolding recover_intended_def Let_def
  by (intro leads_if leads_claims(1) [OF _ keeps_physical] leads_claims(1) [OF _ keeps_fs_stat]
      leads_claims(1) [OF _ keeps_fs_exists] leads_claims(1) [OF _ pending_retry] leads_claims(2) keeps_rules)

lemma claims_recover_attempt [keeps_rules]: "keeps (on_db claims_ok) (recover_attempt E i b)"
  unfolding keeps_wp recover_attempt_def get_attempt_def
  by (intro allI impI vc pending_recover_unintended [unfolded leads_def, rule_format]
      pending_recover_intended [unfolded leads_def, rule_format])
    (auto simp: pending_at_def)

lemma claims_run_once: "keeps (on_db claims_ok) (run_once E)"
  unfolding run_once_def run_guarded_def run_attempt_def by (intro keeps_rules)

lemma claims_recover: "keeps (on_db claims_ok) (recover E i)"
  unfolding recover_def by (intro keeps_rules)

section \<open>Acceptance\<close>

lemma claims_accept_free:
  assumes ok: "claims_ok d" and new: "tbl_get (db_attempt d) i = None" "tbl_get (db_claim d) k = None"
    and a: "a_attempt_id a = i" "q_item_id (a_item a) = k" "a_phase a \<noteq> DONE"
    and q: "q_item_id q = k" "\<not> q_selectable q" and c: "cl_attempt_id c = i"
  shows "claims_ok (db_queue_update (tbl_put k q) (db_claim_update (tbl_put k c) (db_attempt_update (tbl_put i a) d)))"
proof -
  let ?A = "tbl_get (db_attempt d)" and ?Q = "tbl_get (db_queue d)" and ?C = "tbl_get (db_claim d)"
  from ok have ok': "attempt_ids ?A" "queue_ids ?Q" "pending_claimed ?A ?C" "claims_pending ?A ?C" "claimed_locked ?Q ?C"
    by (simp_all add: claims_ok_def Let_def)
  have "attempt_ids (?A(i \<mapsto> a))" "queue_ids (?Q(k \<mapsto> q))"
    using ok'(1,2) a(1) q(1) by (auto simp: attempt_ids_def queue_ids_def)
  moreover have "pending_claimed (?A(i \<mapsto> a)) (?C(k \<mapsto> c))"
    using ok'(3) a c new(2) by (fastforce simp: pending_claimed_def)
  moreover have "claims_pending (?A(i \<mapsto> a)) (?C(k \<mapsto> c))"
    using ok'(4) a c new(1) by (fastforce simp: claims_pending_def split: option.splits)
  moreover have "claimed_locked (?Q(k \<mapsto> q)) (?C(k \<mapsto> c))"
    using ok'(5) q by (auto simp: claimed_locked_def)
  ultimately show ?thesis by (simp add: claims_ok_def Let_def tbl_get_put_fun)
qed

lemma claims_accept_done:
  assumes ok: "claims_ok d" and new: "tbl_get (db_attempt d) i = None"
    and a: "a_attempt_id a = i" "a_phase a = DONE"
  shows "claims_ok (db_attempt_update (tbl_put i a) d)"
proof -
  let ?A = "tbl_get (db_attempt d)" and ?C = "tbl_get (db_claim d)"
  have "attempt_ids (?A(i \<mapsto> a))" "pending_claimed (?A(i \<mapsto> a)) ?C"
    using ok a by (auto simp: claims_ok_def attempt_ids_def pending_claimed_def Let_def)
  moreover have "claims_pending (?A(i \<mapsto> a)) ?C"
    using ok new by (fastforce simp: claims_ok_def claims_pending_def Let_def split: option.splits)
  ultimately show ?thesis using ok by (simp add: claims_ok_def Let_def tbl_get_put_fun)
qed

lemma attempt_of_fields [simp]:
  "a_attempt_id (attempt_of i b c ac r n oc q p) = i" "a_item (attempt_of i b c ac r n oc q p) = q"
  "a_phase (attempt_of i b c ac r n oc q p) = (if oc then DONE else QUEUED)"
  by (simp_all add: attempt_of_def)

lemma accept_item_ends: "ends claims_ok (accept_item E actor rq co b n sr)"
  unfolding ends_def
proof (intro allI impI)
  fix w :: world assume ok: "claims_ok (db w)"
  show "wp (accept_item E actor rq co b n sr) (\<lambda>_ u. claims_ok (db u)) (\<lambda>_ _. True) w"
    unfolding accept_item_def
    by (intro TrueI ok wp_keeps_step [OF claims_emit] vc)
      (auto simp: claims_item_id [OF ok] ok intro!: claims_accept_free claims_accept_done)
qed


text \<open>Paging touches only its own two tables; planning only reads.\<close>

definition page_blind :: "(db \<Rightarrow> bool) \<Rightarrow> bool" where
  "page_blind I \<longleftrightarrow> (\<forall>d f g. I d \<longrightarrow> I (db_cursor_update f d) \<and> I (db_page_snapshot_update g d))"

lemma keeps_page_blind:
  assumes I: "page_blind I"
  shows "keeps (on_db I) (page E b sc ac q p c l)"
proof -
  have "keeps (on_db I) (delete_expired_pages n)" for n
    using I by (auto simp: keeps_wp delete_expired_pages_def wp_rules page_blind_def)
  moreover have "keeps (on_db I) (put_row db_cursor_update k v)" "keeps (on_db I) (put_row db_page_snapshot_update k v')" for k v v'
    using I by (auto simp: page_blind_def intro!: keeps_put_row)
  ultimately show ?thesis
    unfolding page_def page_write_def resume_page_def first_page_def keep_snapshot_def check_page_quota_def Let_def
    by (intro keeps_rules)
qed

lemma keeps_plan_rows:
  assumes "\<And>l. keeps I (ex l)" and "\<And>r p. keeps I (loc r p)" and "\<And>l. keeps I (info l)"
  shows "keeps I (plan_rows cf items rules mt ex loc info)"
  unfolding plan_rows_def plan_one_def apply_manual_review_collisions_def manual_collision_def
    apply_target_collisions_def block_group_def block_row_def Let_def
  by (intro keeps_rules assms)

lemma keeps_plan [keeps_rules]: "keeps (on_db I) (plan E items rules c)"
  unfolding plan_def by (intro keeps_rules keeps_plan_rows)

lemma keeps_rule_set_of [keeps_rules]: "keeps I (rule_set_of E c)"
  unfolding rule_set_of_def Let_def by (intro keeps_rules)

lemma keeps_flattened [keeps_rules]: "keeps I (flattened_rules c cand)"
  unfolding flattened_rules_def by (intro keeps_rules)

lemma keeps_get_selection [keeps_rules]: "keeps I (get_selection a k)"
  unfolding get_selection_def require_owner_def by (intro keeps_rules)

lemma keeps_check_selection [keeps_rules]: "keeps (on_db I) (check_selection E s)"
  unfolding check_selection_def check_saved_item_def by (intro keeps_rules)

lemma keeps_stale [keeps_rules]: "keeps I (stale_if_previewed b e)"
  unfolding stale_if_previewed_def by (intro keeps_rules)

lemma keeps_accepted_rows [keeps_rules]: "keeps (on_db I) (accepted_rows E a s b p c r)"
  unfolding accepted_rows_def require_owner_def by (intro keeps_rules)

lemma keeps_batch_of [keeps_rules]: "keeps I (batch_of b)"
  unfolding batch_of_def batch_attempts_def by (intro keeps_rules)

lemma accept_ends: "ends claims_ok (accept E actor body rq)"
proof -
  have b: "keeps (on_db claims_ok) (insert_row db_batch db_batch_update k v)" for k v
    by (intro keeps_insert_row) simp
  have s: "keeps (on_db claims_ok) (put_row db_selection_update k v)" for k v
    by (intro keeps_put_row) simp
  have p: "keeps (on_db claims_ok) (page E b sc ac q p c l)" for b sc ac q p c l
    by (rule keeps_page_blind) (simp add: page_blind_def)
  show ?thesis
    unfolding accept_def Let_def
    by (intro ends_bnd ends_each accept_item_ends) (intro ends_keeps keeps_rules b s p)+
qed

section \<open>Returns\<close>

lemma returned_item_fields [simp]:
  "q_item_id (returned_item i q f n) = q_item_id i" "\<not> q_selectable (returned_item i q f n)"
  by (simp_all add: returned_item_def)

lemma claims_put_queue: "\<not> q_selectable q \<Longrightarrow> keeps (on_db claims_ok) (put_row db_queue_update (q_item_id q) q)"
  by (intro keeps_put_row claims_queue) simp_all

lemma claims_return_tables:
  "keeps (on_db claims_ok) (put_row db_quarantine_update k v)" "keeps (on_db claims_ok) (put_row db_return_update k r)"
  "keeps (on_db claims_ok) (insert_row db_return db_return_update k r)"
  "keeps (on_db claims_ok) (insert_row db_return_key db_return_key_update k rk)"
  by (intro keeps_put_row keeps_insert_row; simp)+

lemma claims_resolve [keeps_rules]: "keeps (on_db claims_ok) (resolve E op)"
  unfolding resolve_def finish_return_def mark_recovery_def Let_def
  by (intro keeps_rules claims_return_tables claims_put_queue returned_item_fields)

lemma claims_return_item: "keeps (on_db claims_ok) (return_item E a q k b r)"
  unfolding return_item_def return_intent_def reject_return_def Let_def
  by (intro keeps_rules claims_return_tables)

lemma claims_reconcile: "keeps (on_db claims_ok) (reconcile E)"
  unfolding reconcile_def by (intro keeps_rules)

lemma claims_accept: "keeps (on_db claims_ok) (transaction E (accept E a b r))"
  by (rule keeps_ends [OF accept_ends])

section \<open>A finished attempt stays as it is\<close>

definition settled :: "ustr \<Rightarrow> attempt \<Rightarrow> db \<Rightarrow> bool" where
  "settled i a d \<longleftrightarrow> tbl_get (db_attempt d) i = Some a \<and> a_phase a = DONE"

definition settled_beside :: "ustr \<Rightarrow> ustr \<Rightarrow> attempt \<Rightarrow> db \<Rightarrow> bool" where
  "settled_beside j i a d \<longleftrightarrow> settled i a d \<and> (\<exists>b. tbl_get (db_attempt d) j = Some b \<and> a_phase b \<noteq> DONE)"

lemma settled_besideD: "settled_beside j i a d \<Longrightarrow> settled i a d"
  by (simp add: settled_beside_def)

lemma settled_simps [simp]:
  "settled i a (db_audit_update f d) = settled i a d" "settled i a (db_outbox_update f1 d) = settled i a d"
  "settled i a (db_quarantine_update f2 d) = settled i a d" "settled i a (db_queue_update f3 d) = settled i a d"
  "settled i a (db_claim_update f4 d) = settled i a d" "settled i a (db_batch_update f5 d) = settled i a d"
  "settled i a (db_selection_update f6 d) = settled i a d"
  "settled_beside j i a (db_audit_update f d) = settled_beside j i a d"
  by (simp_all add: settled_def settled_beside_def)

lemma settled_put:
  "settled i a d \<Longrightarrow> tbl_get (db_attempt d) j = Some b \<Longrightarrow> a_phase b \<noteq> DONE \<Longrightarrow> settled i a (db_attempt_update (tbl_put j c) d)"
  by (auto simp: settled_def)

lemma settled_beside_put:
  "settled_beside j i a d \<Longrightarrow> a_phase c \<noteq> DONE \<Longrightarrow> settled_beside j i a (db_attempt_update (tbl_put j c) d)"
  by (auto simp: settled_beside_def settled_def)

lemma settled_records [keeps_rules]:
  "keeps (on_db (settled i a)) (emit E ac c r n s l)"
  "keeps (on_db (settled i a)) (finish_records E j b k s' r' l' n')"
  unfolding finish_records_def put_quarantine_def enqueue_move_def emit_def Let_def
  by (intro keeps_rules keeps_append_event keeps_put_row; simp add: keeps_wp wp_rules)+

lemma settled_finish [keeps_rules]: "keeps (on_db (settled i a)) (finish E j s r l)"
  unfolding finish_def
proof (intro keeps_ends, unfold ends_def, intro allI impI)
  fix w :: world assume ok: "settled i a (db w)"
  have stat: "keeps (on_db I) (if s = O_SKIPPED \<and> r = Some SOURCE_CHANGED
      then bnd (physical (q_source (a_item a))) (fs_stat E) else ret None)" for I a by (intro keeps_rules)
  show "wp (finish_body E j s r l) (\<lambda>_ u. settled i a (db u)) (\<lambda>_ _. True) w"
    unfolding finish_body_def
    by (intro TrueI ok wp_weaken_db [OF stat] wp_start_attempt wp_keeps_step [OF settled_records(2)] vc)
      (auto simp: ok intro!: settled_put)
qed

lemma settled_recovery [keeps_rules]: "keeps (on_db (settled i a)) (recovery_required E j l)"
  unfolding recovery_required_def
proof (intro keeps_ends, unfold ends_def, intro allI impI)
  fix w :: world assume ok: "settled i a (db w)"
  show "wp (recovery_body E j l) (\<lambda>_ u. settled i a (db u)) (\<lambda>_ _. True) w"
    unfolding recovery_body_def
    by (intro TrueI ok wp_start_attempt wp_keeps_step [OF settled_records(1)] vc)
      (auto simp: ok intro!: settled_put)
qed

lemma beside_intent: "keeps (on_db (settled_beside j i a)) (intent E j t s r)"
  unfolding intent_def
proof (intro keeps_ends, unfold ends_def, intro allI impI)
  fix w :: world assume ok: "settled_beside j i a (db w)"
  show "wp (bnd (require_row db_attempt j) (\<lambda>a0. if a_phase a0 \<noteq> QUEUED then ret ()
     else bnd (read_clock E) (\<lambda>now.
       bnd (start_attempt E (intended_attempt a0 t s r) now (Some t)) (\<lambda>a.
       put_row db_attempt_update j a)))) (\<lambda>_ u. settled_beside j i a (db u)) (\<lambda>_ _. True) w"
    by (intro TrueI ok wp_start_attempt vc) (auto simp: ok intro!: settled_beside_put)
qed

lemma beside_put:
  assumes "\<And>b. a_phase b \<noteq> DONE \<Longrightarrow> a_phase (f b) \<noteq> DONE"
  shows "keeps (on_db (settled_beside j i a))
    (transaction E (bnd (require_row db_attempt j) (\<lambda>saved. put_row db_attempt_update j (f saved))))"
  by (intro keeps_ends)
    (auto simp: ends_def wp_rules settled_beside_def settled_def assms split: option.split)

lemma beside_requeue: "keeps (on_db (settled_beside j i a)) (requeue E j)"
  unfolding requeue_def by (intro beside_put) simp

lemma beside_retry: "keeps (on_db (settled_beside j i a)) (retry_intent E j)"
  unfolding retry_intent_def by (intro beside_put) simp

lemmas leads_settled = leads_bnd [of "settled_beside j i a" "settled i a" for i j a, OF settled_besideD]
  leads_keeps [of "settled_beside j i a" "settled i a" for i j a, OF settled_besideD]

lemma settled_quarantine_or_recover:
  "leads (settled_beside j i a) (settled i a) (quarantine_or_recover E j)"
  unfolding quarantine_or_recover_def Let_def
  by (intro leads_settled(1) [OF _ keeps_require_row] leads_settled(1) [OF _ keeps_physical]
      leads_settled(1) [OF _ keeps_fs_stat] leads_if leads_settled(1) [OF _ keeps_quarantine_target]
      leads_settled(1) [OF _ keeps_exists_at] leads_settled(1) [OF _ beside_put] leads_try_else
      leads_settled(2) keeps_rules) simp_all


lemma settled_execute: "leads (settled_beside j i a) (settled i a) (execute_intent E j)"
proof -
  have need: "keeps (on_db P) (bnd (need (a_intent_target b)) physical)" for P b
    by (intro keeps_rules)
  show ?thesis
    unfolding execute_intent_def rename_failed_def rename_done_def Let_def
    by (intro leads_settled(1) [OF _ keeps_require_row] leads_if leads_settled(1) [OF _ keeps_physical]
        leads_settled(1) [OF _ need] leads_try_else keeps_rename settled_quarantine_or_recover
        leads_settled(2) keeps_rules)
qed

lemma settled_run_queued: "leads (settled_beside j i a) (settled i a) (run_queued E j b)"
  unfolding run_queued_def Let_def
  by (intro leads_settled(1) [OF _ keeps_physical] leads_try_else keeps_fs_stat leads_if leads_plan_state
      leads_settled(1) [OF _ keeps_need] leads_settled(1) [OF _ beside_intent]
      leads_settled(1) [OF _ keeps_manual_target] leads_settled(1) [OF _ keeps_exists_at]
      settled_execute leads_settled(2) keeps_rules)

lemma settled_recover_unintended:
  "leads (settled_beside j i a) (settled i a) (recover_unintended E j b)"
  unfolding recover_unintended_def
  by (intro leads_if leads_settled(1) [OF _ keeps_reading_source] leads_settled(1) [OF _ beside_requeue]
      leads_settled(1) [OF _ keeps_require_row] settled_run_queued leads_settled(2) keeps_rules)

lemma settled_recover_intended:
  "leads (settled_beside j i a) (settled i a) (recover_intended E j b l ar)"
  unfolding recover_intended_def Let_def
  by (intro leads_if leads_settled(1) [OF _ keeps_physical] leads_settled(1) [OF _ keeps_fs_stat]
      leads_settled(1) [OF _ keeps_fs_exists] leads_settled(1) [OF _ beside_retry] settled_execute
      leads_settled(2) keeps_rules)

lemmas settled_parts =
  settled_recover_unintended [unfolded leads_def, rule_format]
  settled_recover_intended [unfolded leads_def, rule_format]
  settled_run_queued [unfolded leads_def, rule_format]

lemma settled_recover_attempt [keeps_rules]: "keeps (on_db (settled i a)) (recover_attempt E j b)"
  unfolding keeps_wp recover_attempt_def get_attempt_def
  by (intro allI impI vc settled_parts) (auto simp: settled_beside_def)

lemma settled_run_attempt [keeps_rules]: "keeps (on_db (settled i a)) (run_attempt E j)"
proof -
  have r: "wp (recover_attempt E j b) (\<lambda>_ u. settled i a (db u)) (\<lambda>_ u. settled i a (db u)) w"
    if "settled i a (db w)" for b w
    using settled_recover_attempt that by (auto simp: keeps_wp)
  show ?thesis
    unfolding keeps_wp run_attempt_def get_attempt_def
    by (intro allI impI vc) (auto simp: settled_beside_def wp_rules intro!: r settled_parts split: phase.split)
qed

lemma settled_run_once: "keeps (on_db (settled i a)) (run_once E)"
  unfolding run_once_def run_guarded_def by (intro keeps_rules)

lemma settled_recover: "keeps (on_db (settled i a)) (recover E j)"
  unfolding recover_def by (intro keeps_rules)

section \<open>Properties\<close>

text \<open>
  The steps of the running service, each under an environment of its own: a batch is accepted,
  the worker runs, an attempt is recovered, a file is returned, the returns are reconciled.
\<close>

inductive service_step :: "world \<Rightarrow> world \<Rightarrow> bool" where
  step_accept: "service_step w (snd (transaction E (accept E actor body request_id) w))"
| step_work: "service_step w (snd (run_once E w))"
| step_recover: "service_step w (snd (recover E attempt_id w))"
| step_return: "service_step w (snd (return_item E actor quarantine_id key return_body request_id w))"
| step_reconcile: "service_step w (snd (reconcile E w))"

inductive_cases service_stepE: "service_step w u"

lemma service_step_claims: "service_step w u \<Longrightarrow> claims_ok (db w) \<Longrightarrow> claims_ok (db u)"
  by (erule service_stepE)
    (use claims_accept claims_run_once claims_recover claims_return_item claims_reconcile in
      \<open>auto simp: keeps_def\<close>)

definition exclusive :: "db \<Rightarrow> bool" where
  "exclusive d \<longleftrightarrow>
     (\<forall>i j a b. tbl_get (db_attempt d) i = Some a \<and> tbl_get (db_attempt d) j = Some b \<and>
        a_phase a \<noteq> DONE \<and> a_phase b \<noteq> DONE \<and> q_item_id (a_item a) = q_item_id (a_item b) \<longrightarrow> i = j) \<and>
     (\<forall>i a q. tbl_get (db_attempt d) i = Some a \<and> a_phase a \<noteq> DONE \<and>
        tbl_get (db_queue d) (q_item_id (a_item a)) = Some q \<longrightarrow> \<not> q_selectable q)"

lemma claims_exclusive: "claims_ok d \<Longrightarrow> exclusive d"
  unfolding exclusive_def
proof (intro conjI allI impI; elim conjE)
  fix i j a b
  assume "claims_ok d" "tbl_get (db_attempt d) i = Some a" "tbl_get (db_attempt d) j = Some b"
    "a_phase a \<noteq> DONE" "a_phase b \<noteq> DONE" "q_item_id (a_item a) = q_item_id (a_item b)"
  then show "i = j"
    unfolding claims_ok_def pending_claimed_def Let_def by (metis option.inject)
next
  fix i a q
  assume "claims_ok d" "tbl_get (db_attempt d) i = Some a" "a_phase a \<noteq> DONE"
    "tbl_get (db_queue d) (q_item_id (a_item a)) = Some q"
  then show "\<not> q_selectable q"
    unfolding claims_ok_def pending_claimed_def claimed_locked_def Let_def
    by (fastforce split: option.splits)
qed

text \<open>
  C3: a file is never worked on twice at once. In every state the service reaches by accepting
  batches, running the worker, recovering, returning and reconciling, in any order, with any
  failures and crashes, two unfinished attempts never concern the same item, and the item of an
  unfinished attempt cannot be selected again.
\<close>

theorem exclusive_processing:
  assumes "service_step\<^sup>*\<^sup>* w u" and "claims_ok (db w)"
  shows "exclusive (db u)"
proof -
  from assms have "claims_ok (db u)"
    by (induction rule: rtranclp_induct) (auto dest: service_step_claims)
  then show ?thesis by (rule claims_exclusive)
qed

lemma queued_db_claims: "claims_ok queued_db"
  by (simp add: claims_ok_def Let_def attempt_ids_def queue_ids_def pending_claimed_def claims_pending_def
      claimed_locked_def queued_db_def empty_db_def sample_attempt_def sample_item_def)

theorem exclusive_processing_witness:
  "exclusive (db (snd (run_once still_env (snd (recover sample_env (lit ''a1'') queued_world)))))"
  by (rule exclusive_processing [of queued_world])
    (auto intro: rtranclp.rtrancl_into_rtrancl step_work step_recover simp: queued_db_claims)

text \<open>
  C4: an outcome is final. Once an attempt is done its record is never changed again by the worker,
  by a recovery of any attempt or after any crash: no second outcome and no second move for it.
\<close>

theorem done_is_final:
  assumes "tbl_get (db_attempt (db w)) i = Some a" and "a_phase a = DONE"
  shows "tbl_get (db_attempt (db (snd (run_once E w)))) i = Some a \<and>
    tbl_get (db_attempt (db (snd (recover E j w)))) i = Some a"
  using assms settled_run_once [of i a E] settled_recover [of i a E j] by (auto simp: keeps_def settled_def)

definition done_world :: world where
  "done_world = queued_world\<lparr>db := queued_db\<lparr>db_attempt :=
     [(lit ''a0'', sample_attempt\<lparr>a_phase := DONE\<rparr>), (lit ''a1'', sample_attempt)]\<rparr>\<rparr>"

theorem done_is_final_witness:
  "tbl_get (db_attempt (db (snd (run_once sample_env done_world)))) (lit ''a0'') =
     Some (sample_attempt\<lparr>a_phase := DONE\<rparr>)"
  by (rule done_is_final [THEN conjunct1]) (simp_all add: done_world_def)

end
