(* ===== verification/Execution_Intent.thy ===== *)
theory Execution_Intent
  imports Execution_Claims
begin

text \<open>
  Write-ahead intents: the only move a run of the executor can make is the one recorded, before the
  rename, in the attempt. \<open>leadsw\<close> carries a condition on the world that an action may start
  from to the weaker one it ends in; \<open>accounted\<close> says that the tree changed by exactly the move
  of the durable intent.
\<close>

section \<open>From one world predicate to another\<close>

definition leadsw :: "(world \<Rightarrow> bool) \<Rightarrow> (world \<Rightarrow> bool) \<Rightarrow> 'a act \<Rightarrow> bool" where
  "leadsw P I m \<longleftrightarrow> (\<forall>w. P w \<longrightarrow> wp m (\<lambda>_. I) (\<lambda>_. I) w)"

lemma keeps_wpw: "keeps P m \<Longrightarrow> P w \<Longrightarrow> (\<And>x u. P u \<Longrightarrow> Q x u) \<Longrightarrow> (\<And>e u. P u \<Longrightarrow> X e u) \<Longrightarrow> wp m Q X w"
  using keepsD [of P m w] by (intro wpI) blast+

lemma leadsw_bnd:
  "(\<And>w. P w \<Longrightarrow> I w) \<Longrightarrow> keeps P m \<Longrightarrow> (\<And>x. leadsw P I (f x)) \<Longrightarrow> leadsw P I (bnd m f)"
  unfolding leadsw_def wp_bnd by (auto elim!: keeps_wpw)

lemma leadsw_keeps: "(\<And>w. P w \<Longrightarrow> I w) \<Longrightarrow> keeps I m \<Longrightarrow> leadsw P I m"
  unfolding leadsw_def by (auto elim!: keeps_wpw)

lemma leadsw_if: "leadsw P I m \<Longrightarrow> leadsw P I n \<Longrightarrow> leadsw P I (if c then m else n)"
  by simp

lemma leadsw_plan_state:
  "leadsw P I a \<Longrightarrow> leadsw P I b \<Longrightarrow> leadsw P I c \<Longrightarrow> leadsw P I d \<Longrightarrow>
   leadsw P I (case x of WILL_MOVE \<Rightarrow> a | WILL_MANUAL_REVIEW \<Rightarrow> b | REQUIRES_DECISION \<Rightarrow> c | P_NOT_READY \<Rightarrow> d)"
  by (cases x) simp_all

lemma leadsw_try_else:
  "keeps P m \<Longrightarrow> (\<And>e. leadsw P I (h e)) \<Longrightarrow> (\<And>x. leadsw P I (k x)) \<Longrightarrow> leadsw P I (try_else m h k)"
  unfolding leadsw_def wp_try_else by (auto elim!: keeps_wpw)

section \<open>Moves accounted for by the durable intent\<close>

definition intent_of :: "ustr \<Rightarrow> db \<Rightarrow> (location option \<times> queue_item) option" where
  "intent_of i d = map_option (\<lambda>a. (a_intent_target a, a_item a)) (tbl_get (db_attempt d) i)"

definition accounted :: "ustr \<Rightarrow> db \<Rightarrow> fs \<Rightarrow> fs \<Rightarrow> bool" where
  "accounted i d t t' \<longleftrightarrow>
     (\<exists>l item source target. intent_of i d = Some (Some l, item) \<and>
        phys_path d (q_source item) = Some source \<and> phys_path d l = Some target \<and>
        rename_effect source target (q_fingerprint item) t t')"

definition still :: "fs \<Rightarrow> world \<Rightarrow> bool" where
  "still t w \<longleftrightarrow> fs w = t \<and> fs_wf t"

definition moved_as_intended :: "ustr \<Rightarrow> fs \<Rightarrow> world \<Rightarrow> bool" where
  "moved_as_intended i t w \<longleftrightarrow> fs w = t \<or> accounted i (db w) t (fs w)"

definition same_intent :: "ustr \<Rightarrow> (location option \<times> queue_item) option \<Rightarrow> root table \<Rightarrow> db \<Rightarrow> bool" where
  "same_intent i x r d \<longleftrightarrow> intent_of i d = x \<and> db_root d = r"

lemma moved_same:
  assumes "\<And>t. keeps (on_fs ((=) t)) m" and "\<And>x r. keeps (on_db (same_intent i x r)) m"
  shows "keeps (moved_as_intended i t) m"
  unfolding keeps_def
proof (intro allI impI)
  fix w assume m: "moved_as_intended i t w"
  have "fs (snd (m w)) = fs w" using assms(1) by (simp add: keeps_def)
  moreover have "same_intent i (intent_of i (db w)) (db_root (db w)) (db (snd (m w)))"
    using assms(2) by (auto simp: keeps_def same_intent_def)
  ultimately show "moved_as_intended i t (snd (m w))"
    using m by (simp add: same_intent_def moved_as_intended_def accounted_def phys_path_def)
qed

lemma same_intent_simps [simp]:
  "same_intent i x r (db_audit_update f d) = same_intent i x r d" "same_intent i x r (db_queue_update f1 d) = same_intent i x r d"
  "same_intent i x r (db_claim_update f2 d) = same_intent i x r d" "same_intent i x r (db_quarantine_update f3 d) = same_intent i x r d"
  "same_intent i x r (db_outbox_update f4 d) = same_intent i x r d"
  by (simp_all add: same_intent_def intent_of_def)

lemma same_intent_put:
  "same_intent i x r d \<Longrightarrow> tbl_get (db_attempt d) j = Some b \<Longrightarrow> a_intent_target c = a_intent_target b \<Longrightarrow> a_item c = a_item b \<Longrightarrow>
   same_intent i x r (db_attempt_update (tbl_put j c) d)"
  by (auto simp: same_intent_def intent_of_def)

lemma same_intent_records [keeps_rules]:
  "keeps (on_db (same_intent i x r)) (emit E ac c rq n s l)"
  "keeps (on_db (same_intent i x r)) (finish_records E j b k s' r' l' n')"
  unfolding finish_records_def put_quarantine_def enqueue_move_def emit_def Let_def
  by (intro keeps_rules keeps_append_event keeps_put_row; simp add: keeps_wp wp_rules)+

lemma unchanged_target [simp]:
  "a_intent_target (finished_attempt a s r l n) = a_intent_target a"
  "a_intent_target (stuck_attempt a l) = a_intent_target a"
  "a_intent_target (requeued_attempt a) = a_intent_target a"
  by (simp_all add: finished_attempt_def stuck_attempt_def requeued_attempt_def)

lemma same_intent_finish [keeps_rules]: "keeps (on_db (same_intent i x r)) (finish E j s rs l)"
  unfolding finish_def
proof (intro keeps_ends, unfold ends_def, intro allI impI)
  fix w :: world assume ok: "same_intent i x r (db w)"
  have stat: "keeps (on_db I) (if s = O_SKIPPED \<and> rs = Some SOURCE_CHANGED
      then bnd (physical (q_source (a_item a))) (fs_stat E) else ret None)" for I a by (intro keeps_rules)
  show "wp (finish_body E j s rs l) (\<lambda>_ u. same_intent i x r (db u)) (\<lambda>_ _. True) w"
    unfolding finish_body_def
    by (intro TrueI ok wp_weaken_db [OF stat] wp_start_attempt wp_keeps_step [OF same_intent_records(2)] vc)
      (auto simp: ok intro!: same_intent_put)
qed

lemma same_intent_recovery [keeps_rules]: "keeps (on_db (same_intent i x r)) (recovery_required E j l)"
  unfolding recovery_required_def
proof (intro keeps_ends, unfold ends_def, intro allI impI)
  fix w :: world assume ok: "same_intent i x r (db w)"
  show "wp (recovery_body E j l) (\<lambda>_ u. same_intent i x r (db u)) (\<lambda>_ _. True) w"
    unfolding recovery_body_def
    by (intro TrueI ok wp_start_attempt wp_keeps_step [OF same_intent_records(1)] vc)
      (auto simp: ok intro!: same_intent_put)
qed

lemma moved_keeps [keeps_rules]:
  "quiet E \<Longrightarrow> keeps (moved_as_intended i t) (finish E j s rs l)"
  "keeps (moved_as_intended i t) (recovery_required E j l)"
  "quiet E \<Longrightarrow> keeps (moved_as_intended i t) (fs_stat E p)"
  "quiet E \<Longrightarrow> keeps (moved_as_intended i t) (fs_exists E p)"
  by (intro moved_same keeps_rules fs_rules; assumption?)+

lemma still_keeps [keeps_rules]:
  "quiet E \<Longrightarrow> keeps (still t) (finish E j s rs l)" "keeps (still t) (recovery_required E j l)"
  "quiet E \<Longrightarrow> keeps (still t) (fs_stat E p)" "quiet E \<Longrightarrow> keeps (still t) (fs_exists E p)"
  "quiet E \<Longrightarrow> keeps (still t) (exists_at E q)" "keeps (still t) (intent E j q st rsn)"
  "keeps (still t) (requeue E j)" "keeps (still t) (retry_intent E j)"
  unfolding still_def by (intro fs_rules; assumption?)+

lemma still_moved: "still t w \<Longrightarrow> moved_as_intended i t w"
  by (simp add: still_def moved_as_intended_def)


section \<open>The rename and what follows it\<close>

lemma vc_physical [vc]:
  "(\<And>p. phys_path (db w) l = Some p \<Longrightarrow> Q p w) \<Longrightarrow> (\<And>e. phys_path (db w) l = None \<Longrightarrow> X e w) \<Longrightarrow> wp (physical l) Q X w"
  by (auto simp: wp_physical split: option.split)

lemma vc_location [vc]:
  "(\<And>l. loc_root_id l = r \<Longrightarrow> loc_relative_path l = p \<Longrightarrow> Q l w) \<Longrightarrow> (\<And>e. X e w) \<Longrightarrow> wp (location r p) Q X w"
  by (auto simp: wp_location split: option.split)

lemma read_only:
  assumes "quiet E" and "\<And>x u. db u = db w \<Longrightarrow> fs u = fs w \<Longrightarrow> f (fs w) = Inr x \<Longrightarrow> Q x u"
    and "\<And>e u. db u = db w \<Longrightarrow> fs u = fs w \<Longrightarrow> X e u"
  shows "wp (fs_read E f) Q X w"
  by (auto simp: wp_fs_read_quiet [OF assms(1)] intro: assms split: option.split sum.split)

lemma read_stat:
  assumes "quiet E" and "\<And>x u. db u = db w \<Longrightarrow> fs u = fs w \<Longrightarrow> stat_in (fs w) p = Inr x \<Longrightarrow> Q x u"
    and "\<And>e u. db u = db w \<Longrightarrow> fs u = fs w \<Longrightarrow> X e u"
  shows "wp (fs_stat E p) Q X w"
  unfolding fs_stat_def by (intro read_only assms)

lemma read_exists_at:
  assumes "quiet E" and "\<And>x u. db u = db w \<Longrightarrow> fs u = fs w \<Longrightarrow> Q x u"
    and "\<And>e u. db u = db w \<Longrightarrow> fs u = fs w \<Longrightarrow> X e u"
  shows "wp (exists_at E l) Q X w"
  unfolding exists_at_def fs_exists_def by (intro vc read_only [OF assms(1)] assms) simp_all

lemma transaction_wp:
  assumes "wp m (\<lambda>x u. Q x (u\<lparr>tick := Suc (tick u)\<rparr>) \<and> (\<forall>e. X e (u\<lparr>db := db w, tick := Suc (tick u)\<rparr>)))
      (\<lambda>e u. X e (u\<lparr>db := db w\<rparr>)) w"
  shows "wp (transaction E m) Q X w"
  unfolding wp_transaction by (rule wp_mono [OF assms]) (auto split: option.split)

lemma stat_gone:
  assumes "parts False p = Inr s" and "stat_in t p = Inr (Some fp)"
  shows "t s = Some (File fp)"
proof -
  from assms(2) obtain d leaf where "open_parent t p = Inr (d, leaf)" "t (d @ [leaf]) = Some (File fp)"
    by (auto simp: stat_in_def split: sum.splits option.splits node.splits if_splits)
  with open_parent_Inr(1) assms(1) show ?thesis by fastforce
qed

lemma moved_gone:
  assumes "rename_effect sp dp fp t t'" and "stat_in t' sp = Inr (Some fp')"
  shows False
proof -
  from assms(1) obtain s d where "parts False sp = Inr s" "file_moved s d fp t t'"
    by (auto simp: rename_effect_def)
  moreover have "t' s = Some (File fp')" using stat_gone calculation(1) assms(2) by blast
  ultimately show False by (auto simp: file_moved_def split: if_splits)
qed

lemma after_rename:
  assumes "accounted i d t t'" and "db u = d" and "fs u = t'"
  shows "moved_as_intended i t u"
  using assms by (simp add: moved_as_intended_def)

lemma accountedI:
  assumes "tbl_get (db_attempt d) i = Some a" and "a_intent_target a = Some l" and "phys_path d (q_source (a_item a)) = Some sp"
    and "phys_path d l = Some dp" and "rename_effect sp dp (q_fingerprint (a_item a)) t t'"
  shows "accounted i d t t'"
  using assms by (auto simp: accounted_def intent_of_def)

text \<open>The continuation after a rename: nothing more is moved.\<close>

lemma moved_rest:
  "quiet E \<Longrightarrow> moved_as_intended i t u \<Longrightarrow> keeps (moved_as_intended i t) m \<Longrightarrow>
   wp m (\<lambda>_. moved_as_intended i t) (\<lambda>_. moved_as_intended i t) u"
  by (auto elim!: keeps_wpw)

lemma moved_reads [keeps_rules]:
  "keeps (moved_as_intended i t) (need x)" "keeps (moved_as_intended i t) (physical l)"
  "keeps (moved_as_intended i t) (require_row sel k)"
  by (intro keeps_rules)+

lemma rename_step:
  assumes q: "quiet E" and st: "still t w"
    and "\<And>v. db v = db w \<Longrightarrow> rename_effect sp dp fp t (fs v) \<Longrightarrow> Q () v"
    and "\<And>e v. db v = db w \<Longrightarrow> fs v = t \<or> rename_effect sp dp fp t (fs v) \<Longrightarrow> X e v"
  shows "wp (rename_no_replace E sp dp fp) Q X w"
  by (rule wp_mono [OF rename_wp [OF q]]) (use assms in \<open>auto simp: still_def\<close>)

lemma quarantine_move:
  assumes q: "quiet E" and st: "still t w"
    and a: "tbl_get (db_attempt (db w)) i = Some a" "a_intent_target a = Some l" "a_item a = item"
    and h: "\<And>e. keeps (moved_as_intended i t) (h e)" and k: "\<And>x. keeps (moved_as_intended i t) (k x)"
  shows "wp (try_else (bnd (physical (q_source item)) (\<lambda>s. bnd (physical l) (\<lambda>d.
      rename_no_replace E s d (q_fingerprint item)))) h k)
    (\<lambda>_. moved_as_intended i t) (\<lambda>_. moved_as_intended i t) w"
proof -
  have acc: "moved_as_intended i t v"
    if "db v = db w" "fs v = t \<or> rename_effect sp dp (q_fingerprint item) t (fs v)"
      "phys_path (db w) (q_source item) = Some sp" "phys_path (db w) l = Some dp" for v sp dp
    using that accountedI [OF a(1,2)] a(3) by (auto simp: moved_as_intended_def)
  show ?thesis
    by (intro vc rename_step [OF q st] moved_rest [OF q] h k)
      (metis acc still_moved st)+
qed

lemma quarantine_accounted:
  assumes q: "quiet E" and s: "still t w"
  shows "wp (quarantine_or_recover E i) (\<lambda>_. moved_as_intended i t) (\<lambda>_. moved_as_intended i t) w"
proof -
  have ok: "moved_as_intended i t u" and ok': "still t u" if "fs u = fs w" for u
    using that s by (simp_all add: moved_as_intended_def still_def)
  show ?thesis
    unfolding quarantine_or_recover_def quarantine_target_def
    by (intro vc_bnd vc_let vc_if vc_require vc_ret vc_physical vc_location vc_put
        read_stat [OF q] read_exists_at [OF q] transaction_wp)
      (auto simp: ok ok' intro!: quarantine_move [OF q]
        moved_rest [OF q, where m = "recovery_required E i l" for l] keeps_rules q)
qed

text \<open>If the file is gone from its source, the quarantine is not tried.\<close>

lemma quarantine_gone:
  assumes q: "quiet E" and m: "accounted i (db w) t (fs w)"
  shows "wp (quarantine_or_recover E i) (\<lambda>_. moved_as_intended i t) (\<lambda>_. moved_as_intended i t) w"
proof -
  have ok: "moved_as_intended i t u" if "fs u = fs w" "db u = db w" for u
    using that m by (simp add: moved_as_intended_def)
  have gone: False if "tbl_get (db_attempt (db w)) i = Some a" "phys_path (db w) (q_source (a_item a)) = Some p"
    "stat_in (fs w) p = Inr (Some fp)" for a p fp
    using that m moved_gone by (fastforce simp: accounted_def intent_of_def)
  show ?thesis
    unfolding quarantine_or_recover_def
    by (intro vc_bnd vc_let vc_if vc_require vc_ret vc_physical read_stat [OF q])
      (auto simp: ok intro!: moved_rest [OF q, where m = "recovery_required E i l" for l] keeps_rules q dest: gone)
qed

lemma failed_accounted:
  assumes q: "quiet E" and m: "still t w \<or> accounted i (db w) t (fs w)"
  shows "wp (rename_failed E i a p e) (\<lambda>_. moved_as_intended i t) (\<lambda>_. moved_as_intended i t) w"
proof -
  have ok: "moved_as_intended i t w" using m by (auto simp: moved_as_intended_def still_def)
  have quar: "wp (quarantine_or_recover E i) (\<lambda>_. moved_as_intended i t) (\<lambda>_. moved_as_intended i t) w"
    using m quarantine_accounted [OF q] quarantine_gone [OF q] by blast
  have r: "keeps (moved_as_intended i t) (bnd (finish E i s rs l) (\<lambda>_. ret True))"
    "keeps (moved_as_intended i t) (bnd (fs_stat E p) (\<lambda>c. bnd (finish E i s (f c) (g c)) (\<lambda>_. ret True)))"
    "keeps (moved_as_intended i t) (recovery_required E i l)" for s rs l f g
    by (intro keeps_rules q)+
  show ?thesis
    unfolding rename_failed_def Let_def
    by (intro vc_if quar moved_rest [OF q ok r(1)] moved_rest [OF q ok r(2)] moved_rest [OF q ok r(3)]) (simp add: wp_rules ok)
qed

lemma done_accounted: "quiet E \<Longrightarrow> keeps (moved_as_intended i t) (rename_done E i p fp)"
  unfolding rename_done_def by (intro keeps_rules)

lemma execute_accounted:
  assumes q: "quiet E" and s: "still t w"
  shows "wp (execute_intent E i) (\<lambda>_. moved_as_intended i t) (\<lambda>_. moved_as_intended i t) w"
proof -
  have acc: "still t v \<or> accounted i (db v) t (fs v)"
    if "db v = db w" "fs v = t \<or> rename_effect sp dp (q_fingerprint (a_item a)) t (fs v)" "tbl_get (db_attempt (db w)) i = Some a"
      "a_intent_target a = Some l"
      "phys_path (db w) (q_source (a_item a)) = Some sp" "phys_path (db w) l = Some dp" for v sp dp a l
    using that accountedI [of "db v" i a l] s by (auto simp: still_def)
  have mv: "moved_as_intended i t v" if "still t v \<or> accounted i (db v) t (fs v)" for v
    using that by (auto simp: moved_as_intended_def still_def)
  show ?thesis
    unfolding execute_intent_def need_def
    by (intro vc rename_step [OF q s] moved_rest [OF q _ done_accounted [OF q]] failed_accounted [OF q])
      (metis acc mv still_moved s)+
qed


section \<open>One run, one recovery\<close>

lemma still_execute: "quiet E \<Longrightarrow> leadsw (still t) (moved_as_intended i t) (execute_intent E i)"
  unfolding leadsw_def by (auto intro: execute_accounted)

lemmas leadsw_intent =
  leadsw_bnd [of "still t" "moved_as_intended i t" for i t, OF still_moved]
  leadsw_keeps [of "still t" "moved_as_intended i t" for i t, OF still_moved]

lemma still_run_queued: "quiet E \<Longrightarrow> leadsw (still t) (moved_as_intended i t) (run_queued E i a)"
  unfolding run_queued_def Let_def
  by (intro leadsw_intent(1) [OF _ keeps_physical] leadsw_try_else still_keeps leadsw_if leadsw_plan_state
      leadsw_intent(1) [OF _ keeps_need] leadsw_intent(1) [OF _ still_keeps(6)]
      leadsw_intent(1) [OF _ keeps_manual_target] leadsw_intent(1) [OF _ still_keeps(5)]
      still_execute leadsw_intent(2) keeps_rules; assumption?)

lemma still_reading_source:
  "quiet E \<Longrightarrow> keeps (still t) (catch_all (bnd (physical l) (\<lambda>source. bnd (fs_stat E source) (\<lambda>ob. ret (ob = fp)))) (ret False))"
  by (intro keeps_rules)

lemma still_recover_unintended:
  "quiet E \<Longrightarrow> leadsw (still t) (moved_as_intended i t) (recover_unintended E i a)"
  unfolding recover_unintended_def
  by (intro leadsw_if leadsw_intent(1) [OF _ still_reading_source] leadsw_intent(1) [OF _ still_keeps(7)]
      leadsw_intent(1) [OF _ keeps_require_row] still_run_queued leadsw_intent(2) keeps_rules; assumption?)

lemma still_recover_intended:
  "quiet E \<Longrightarrow> leadsw (still t) (moved_as_intended i t) (recover_intended E i a l b)"
  unfolding recover_intended_def Let_def
  by (intro leadsw_if leadsw_intent(1) [OF _ keeps_physical] leadsw_intent(1) [OF _ still_keeps(3)]
      leadsw_intent(1) [OF _ still_keeps(4)] leadsw_intent(1) [OF _ still_keeps(8)] still_execute
      leadsw_intent(2) keeps_rules; assumption?)

lemma leadsw_option:
  "leadsw P I m \<Longrightarrow> (\<And>y. leadsw P I (f y)) \<Longrightarrow> leadsw P I (case x of None \<Rightarrow> m | Some y \<Rightarrow> f y)"
  by (cases x) simp_all

lemma leadsw_phase:
  "leadsw P I a \<Longrightarrow> leadsw P I b \<Longrightarrow> leadsw P I c \<Longrightarrow> leadsw P I d \<Longrightarrow>
   leadsw P I (case x of QUEUED \<Rightarrow> a | INTENT \<Rightarrow> b | PH_RECOVERY_REQUIRED \<Rightarrow> c | DONE \<Rightarrow> d)"
  by (cases x) simp_all

lemma leadsw_then: "leadsw P I m \<Longrightarrow> (\<And>x. keeps I (f x)) \<Longrightarrow> leadsw P I (bnd m f)"
  unfolding leadsw_def wp_bnd keeps_wp
  by (intro allI impI, erule allE, drule (1) mp, erule wp_mono) blast+

lemma leadsw_catch_all: "leadsw P I m \<Longrightarrow> keeps I h \<Longrightarrow> leadsw P I (catch_all m h)"
  unfolding leadsw_def catch_all_def wp_try_catch wp_if wp_raise keeps_wp
  by (intro allI impI, erule allE, drule (1) mp, erule wp_mono) auto

lemma still_recover_attempt: "quiet E \<Longrightarrow> leadsw (still t) (moved_as_intended i t) (recover_attempt E i b)"
  unfolding recover_attempt_def get_attempt_def
  by (intro leadsw_intent(1) [OF _ keeps_get_row] leadsw_option leadsw_if still_recover_unintended
      still_recover_intended leadsw_intent(2) keeps_rules; assumption?)

lemma still_run_attempt: "quiet E \<Longrightarrow> leadsw (still t) (moved_as_intended i t) (run_attempt E i)"
  unfolding run_attempt_def get_attempt_def
  by (intro leadsw_intent(1) [OF _ keeps_get_row] leadsw_option leadsw_phase still_recover_attempt
      still_run_queued leadsw_intent(2) keeps_rules; assumption?)

lemma still_run_guarded: "quiet E \<Longrightarrow> leadsw (still t) (moved_as_intended i t) (run_guarded E i n)"
  unfolding run_guarded_def
  by (intro leadsw_catch_all leadsw_then still_run_attempt keeps_rules; assumption?)

lemma still_recover: "quiet E \<Longrightarrow> leadsw (still t) (moved_as_intended i t) (recover E i)"
  unfolding recover_def
  by (intro leadsw_then still_recover_attempt keeps_rules; assumption?)

lemma leadsw_run: "leadsw P I m \<Longrightarrow> P w \<Longrightarrow> I (snd (m w))"
  by (auto simp: leadsw_def wp_const)

section \<open>Properties\<close>

text \<open>
  C1: no move without a durable intent. Whatever a run or a recovery of an attempt does, with any
  faults and wherever it is killed, afterwards the tree is unchanged or it differs by exactly one
  move: that of the attempt's file, with the identity recorded at acceptance, from its source to the
  target of the intent that is stored in the attempt. A crash therefore never leaves a file moved
  that the database does not account for.
\<close>

theorem intent_before_move:
  assumes "quiet E" and "fs_wf (fs w)"
  shows "moved_as_intended i (fs w) (snd (run_guarded E i n w)) \<and>
    moved_as_intended i (fs w) (snd (recover E i w))"
  using leadsw_run [OF still_run_guarded [OF assms(1)], of "fs w" w i n]
    leadsw_run [OF still_recover [OF assms(1)], of "fs w" w i] assms(2)
  by (simp add: still_def)

theorem intent_before_move_witness:
  "moved_as_intended (lit ''a1'') sample_fs (snd (run_guarded sample_env (lit ''a1'') 0 queued_world))"
  using intent_before_move [OF sample_env_quiet, of queued_world "lit ''a1''" 0] sample_fs_wf by simp

end
