(* ===== verification/Execution_Recovery.thy ===== *)
theory Execution_Recovery
  imports Execution_Intent
begin

text \<open>
  Recovery as a liveness property: from an attempt with a durable intent, in an environment that is
  quiet and has no further fault, the recovery ends with the intended outcome.
\<close>

section \<open>Recovery completes\<close>

text \<open>Identifiers that are new.\<close>

definition fresh_events :: "env \<Rightarrow> world \<Rightarrow> bool" where
  "fresh_events E w \<longleftrightarrow> inj (e_uid E) \<and> (\<forall>k\<ge>tick w. lit ''event'' @ 45 # e_uid E k \<notin> ev_event_id ` set (db_audit (db w)))"

lemma emit_calm:
  assumes f: "fresh_events E w" and l: "\<And>e. ev_event_id (l e) = ev_event_id e"
    and Q: "\<And>e u g. fresh_events E u \<Longrightarrow> fs u = fs w \<Longrightarrow> db u = db_audit_update g (db w) \<Longrightarrow> Q e u"
  shows "wp (emit E ac c r n s l) Q X w"
proof -
  let ?id = "lit ''event'' @ 45 # e_uid E (tick w)" and ?v = "w\<lparr>tick := Suc (tick w)\<rparr>"
  let ?e = "l (new_event ?id ac c r n s)"
  have id: "ev_event_id ?e = ?id" using l by (simp add: new_event_def)
  have new: "?id \<notin> ev_event_id ` set (db_audit (db w))" using f by (simp add: fresh_events_def)
  have "fresh_events E (?v\<lparr>db := db_audit_update (\<lambda>l. l @ [?e]) (db w)\<rparr>)"
    using f by (auto simp: fresh_events_def l new_event_def inj_eq)
  then have "Q ?e (?v\<lparr>db := db_audit_update (\<lambda>l. l @ [?e]) (db w)\<rparr>)" by (rule Q) simp_all
  moreover have "wp (append_event ?e) R X ?v = R () (?v\<lparr>db := db_audit_update (\<lambda>l. l @ [?e]) (db w)\<rparr>)" for R
    using new unfolding wp_append_event id by simp
  ultimately show ?thesis
    unfolding emit_def by (intro vc) (simp only: wp_ret)
qed

lemma attempt_links_id [simp]: "ev_event_id (attempt_links a e) = ev_event_id e"
  by (simp add: attempt_links_def)

lemma start_calm:
  assumes f: "fresh_events E w"
    and Q: "\<And>b u g. fresh_events E u \<Longrightarrow> fs u = fs w \<Longrightarrow> db u = db_audit_update g (db w) \<Longrightarrow> a_item b = a_item a \<Longrightarrow> Q b u"
  shows "wp (start_attempt E a n t) Q X w"
proof -
  have "db_audit_update (\<lambda>l. l) (db w) = db w" by (cases "db w") simp
  then have "Q a w" using Q [of w "\<lambda>l. l" a] f by simp
  then show ?thesis
    unfolding start_attempt_def by (intro vc emit_calm [OF f]) (auto intro: Q)
qed

definition same_attempts :: "db \<Rightarrow> db \<Rightarrow> bool" where
  "same_attempts d e \<longleftrightarrow> db_attempt e = db_attempt d \<and> db_claim e = db_claim d"

lemma records_calm:
  assumes f: "fresh_events E w"
    and Q: "\<And>u. fs u = fs w \<Longrightarrow> same_attempts (db w) (db u) \<Longrightarrow> Q () u"
  shows "wp (finish_records E i a k s r l n) Q X w"
proof -
  have p: "wp (put_quarantine a l n) Q X v" if "fresh_events E v" "fs v = fs w" "same_attempts (db w) (db v)"
     "\<And>u. fresh_events E u \<Longrightarrow> fs u = fs w \<Longrightarrow> same_attempts (db w) (db u) \<Longrightarrow> Q () u" for Q X l v
    using that unfolding put_quarantine_def
    by (intro vc) (auto simp: fresh_events_def same_attempts_def)
  have q: "wp (enqueue_move i k l fp) Q X v" if "fresh_events E v" "fs v = fs w" "same_attempts (db w) (db v)"
     "\<And>u. fresh_events E u \<Longrightarrow> fs u = fs w \<Longrightarrow> same_attempts (db w) (db u) \<Longrightarrow> Q () u" for Q X l v fp
    using that unfolding enqueue_move_def
    by (intro vc) (auto simp: fresh_events_def same_attempts_def)
  have s: "same_attempts (db w) (db w)" by (simp add: same_attempts_def)
  show ?thesis
    unfolding finish_records_def
    by (intro vc_bnd vc_option vc_if vc_ret p q emit_calm Q) (auto simp: f s same_attempts_def attempt_links_id)
qed

definition finished_as :: "ustr \<Rightarrow> ustr \<Rightarrow> outcome_state \<Rightarrow> location option \<Rightarrow> db \<Rightarrow> bool" where
  "finished_as i k s l d \<longleftrightarrow>
     (\<exists>b. tbl_get (db_attempt d) i = Some b \<and> a_phase b = DONE \<and> o_state (a_outcome b) = s \<and> o_actual_location (a_outcome b) = l) \<and>
     tbl_get (db_claim d) k = None"

lemma finish_calm:
  assumes c: "calm E" and a: "tbl_get (db_attempt (db w)) i = Some a" "a_phase a \<noteq> DONE"
    and item: "tbl_get (db_queue (db w)) (q_item_id (a_item a)) = Some item" "q_item_id item = q_item_id (a_item a)"
    and fr: "fresh_events E w" and s: "s \<noteq> O_SKIPPED"
    and Q: "\<And>u. fs u = fs w \<Longrightarrow> finished_as i (q_item_id (a_item a)) s l (db u) \<Longrightarrow> Q () u"
  shows "wp (finish E i s r l) Q X w"
proof -
  from c have nf: "\<And>k. e_fault E k = None" by (simp add: calm_def)
  have tick: "fresh_events E (w\<lparr>tick := Suc (tick w)\<rparr>)" using fr by (simp add: fresh_events_def)
  show ?thesis
    unfolding finish_def finish_body_def wp_transaction nf option.case
    using a item s
    by (intro vc start_calm records_calm)
      (use fr in \<open>auto simp: tick fresh_events_def finished_as_def same_attempts_def nf finished_attempt_def intro!: Q\<close>)
qed


definition recovered :: "ustr \<Rightarrow> ustr \<Rightarrow> outcome_state \<Rightarrow> location option \<Rightarrow> fs \<Rightarrow> world \<Rightarrow> bool" where
  "recovered i k s l t u \<longleftrightarrow> fs u = t \<and> finished_as i k s l (db u)"

text \<open>An attempt whose intent is durable, in a consistent database, on a readable pair of paths.\<close>

definition intended ::
  "env \<Rightarrow> ustr \<Rightarrow> attempt \<Rightarrow> outcome_state \<Rightarrow> location \<Rightarrow> ustr list \<Rightarrow> ustr list \<Rightarrow> world \<Rightarrow> bool" where
  "intended E i a s l src dst w \<longleftrightarrow>
     fresh_events E w \<and> fs_wf (fs w) \<and> tbl_get (db_attempt (db w)) i = Some a \<and>
     (a_phase a = INTENT \<or> a_phase a = PH_RECOVERY_REQUIRED) \<and> a_intent_target a = Some l \<and>
     a_intended_state a = Some s \<and> s \<noteq> O_SKIPPED \<and>
     (\<exists>item. tbl_get (db_queue (db w)) (q_item_id (a_item a)) = Some item \<and> q_item_id item = q_item_id (a_item a)) \<and>
     (\<exists>sp dp. phys_path (db w) (q_source (a_item a)) = Some sp \<and> phys_path (db w) l = Some dp \<and>
        parts False sp = Inr src \<and> parts False dp = Inr dst) \<and>
     fs w (butlast src) = Some Dir \<and> fs w (butlast dst) = Some Dir"

lemma phys_path_attempt [simp]: "phys_path (db_attempt_update f d) l = phys_path d l"
  by (simp add: phys_path_def)

lemma execute_calm:
  assumes c: "calm E" and w: "intended E i a s l src dst w" "a_phase a = INTENT"
    and m: "file_moved src dst (q_fingerprint (a_item a)) (fs w) t'"
  shows "wp (execute_intent E i) (\<lambda>_. recovered i (q_item_id (a_item a)) s (Some l) t') (\<lambda>_ _. False) w"
proof -
  from w obtain item sp dp where i: "tbl_get (db_attempt (db w)) i = Some a" "a_intent_target a = Some l" "a_intended_state a = Some s"
      "tbl_get (db_queue (db w)) (q_item_id (a_item a)) = Some item" "q_item_id item = q_item_id (a_item a)" "s \<noteq> O_SKIPPED"
    and p: "phys_path (db w) (q_source (a_item a)) = Some sp" "phys_path (db w) l = Some dp" "parts False sp = Inr src" "parts False dp = Inr dst"
    and wf: "fs_wf (fs w)" and fr: "fresh_events E w" and d: "fs w (butlast dst) = Some Dir"
    by (auto simp: intended_def)
  have "fs_wf t'" using file_moved_wf [OF wf m] .
  moreover have "t' (butlast dst) = Some Dir" "t' dst = Some (File (q_fingerprint (a_item a)))"
    using m d by (auto simp: file_moved_def)
  ultimately have stat: "stat_in t' dp = Inr (Some (q_fingerprint (a_item a)))"
    using reads_wf(1) [OF _ p(4)] by simp
  have fr': "fresh_events E u" if "db u = db w" "tick w \<le> tick u" for u
    using fr that by (auto simp: fresh_events_def)
  have rest: "wp (rename_done E i dp (q_fingerprint (a_item a))) (\<lambda>_. recovered i (q_item_id (a_item a)) s (Some l) t') (\<lambda>_ _. False) u"
    if u: "db u = db w" "fs u = t'" "tick w \<le> tick u" for u
    unfolding rename_done_def fs_stat_def need_def recovered_def
    by (intro vc fs_read_calm [OF c, where x = "Some (q_fingerprint (a_item a))"] finish_calm [OF c, where a = a and item = item])
      (use u i w(2) in \<open>simp_all add: stat fr'\<close>)
  show ?thesis
    unfolding execute_intent_def need_def
    by (simp add: wp_rules i w(2) p) (intro rename_calm [OF c wf p(3,4) m] rest)
qed


lemma recover_intended_calm:
  assumes c: "calm E" and w: "intended E i a s l src dst w"
    and m: "file_moved src dst (q_fingerprint (a_item a)) (fs w) t' \<or>
      t' = fs w \<and> fs w src = None \<and> fs w dst = Some (File (q_fingerprint (a_item a)))"
  shows "wp (recover_intended E i a l True) (\<lambda>_. recovered i (q_item_id (a_item a)) s (Some l) t') (\<lambda>_ _. False) w"
proof -
  let ?fp = "q_fingerprint (a_item a)"
  from w obtain item sp dp where i: "tbl_get (db_attempt (db w)) i = Some a" "a_intent_target a = Some l" "a_intended_state a = Some s"
      "tbl_get (db_queue (db w)) (q_item_id (a_item a)) = Some item" "q_item_id item = q_item_id (a_item a)" "s \<noteq> O_SKIPPED"
      "a_phase a \<noteq> DONE"
    and p: "phys_path (db w) (q_source (a_item a)) = Some sp" "phys_path (db w) l = Some dp" "parts False sp = Inr src" "parts False dp = Inr dst"
    and wf: "fs_wf (fs w)" and fr: "fresh_events E w"
    and d: "fs w (butlast src) = Some Dir" "fs w (butlast dst) = Some Dir"
    by (auto simp: intended_def)
  have fr': "fresh_events E u" if "db_audit (db u) = db_audit (db w)" "tick w \<le> tick u" for u
    using fr that by (auto simp: fresh_events_def)
  have nf: "\<And>k. e_fault E k = None" using c by (simp add: calm_def)
  note r = reads_wf [OF wf p(3) d(1)] reads_wf [OF wf p(4) d(2)]
  let ?Q = "\<lambda>_. recovered i (q_item_id (a_item a)) s (Some l) t'" and ?X = "\<lambda>_ _. False"
  define u where "u = w\<lparr>tick := Suc (Suc (Suc (tick w)))\<rparr>"
  have u: "db u = db w" "fs u = fs w" "tick w \<le> tick u" by (simp_all add: u_def)
  note unfolds = recover_intended_def Let_def fs_stat_def fs_exists_def
  note reads = wp_bnd wp_physical wp_read_calm [OF c] p r
  from m show ?thesis
  proof
    assume mv: "file_moved src dst ?fp (fs w) t'"
    then have at: "fs w src = Some (File ?fp)" "fs w dst = None" by (auto simp: file_moved_def)
    let ?a = "a\<lparr>a_phase := INTENT\<rparr>"
    let ?u = "u\<lparr>db := db_attempt_update (tbl_put i ?a) (db u), tick := Suc (tick u)\<rparr>"
    have "intended E i ?a s l src dst ?u"
      using w u by (auto simp: intended_def intro: fr')
    from execute_calm [OF c this, of t'] mv u have "wp (execute_intent E i) ?Q ?X ?u" by simp
    then have "wp (retry_intent E i) (\<lambda>_. wp (execute_intent E i) ?Q ?X) ?X u"
      unfolding retry_intent_def by (simp add: wp_rules nf i u)
    then show ?thesis unfolding unfolds by (simp add: reads at u_def)
  next
    assume mv: "t' = fs w \<and> fs w src = None \<and> fs w dst = Some (File ?fp)"
    have "wp (finish E i s (a_intended_reason a) (Some l)) (\<lambda>x. wp (ret True) ?Q ?X) ?X u"
      by (rule finish_calm [OF c, where a = a and item = item]) (use u i mv in \<open>simp_all add: fr' recovered_def wp_ret\<close>)
    then show ?thesis unfolding unfolds by (simp add: reads mv i u_def need_def wp_ret [where x = "s"])
  qed
qed

section \<open>Properties\<close>

text \<open>
  C2: a crash between the durable intent and its outcome is repaired. For an attempt with a durable
  intent whose file is still at its source with the target free, or already at the target,
  a recovery without further faults ends, reports success, leaves the file at the intended place
  (moving it exactly once), records the intended outcome and releases the claim.
\<close>

theorem recovery_completes:
  assumes "calm E" and "intended E i a s l src dst w"
    and "file_moved src dst (q_fingerprint (a_item a)) (fs w) t' \<or>
      t' = fs w \<and> fs w src = None \<and> fs w dst = Some (File (q_fingerprint (a_item a)))"
  shows "fst (recover E i w) = Inr True \<and> recovered i (q_item_id (a_item a)) s (Some l) t' (snd (recover E i w))"
proof -
  have a: "tbl_get (db_attempt (db w)) i = Some a" "a_phase a = INTENT \<or> a_phase a = PH_RECOVERY_REQUIRED"
    "a_intent_target a = Some l" using assms(2) by (simp_all add: intended_def)
  have "wp (recover E i) (\<lambda>x u. x = True \<and> recovered i (q_item_id (a_item a)) s (Some l) t' u) (\<lambda>_ _. False) w"
    unfolding recover_def recover_attempt_def get_attempt_def
    using a by (auto simp: wp_rules recovered_def finished_as_def
        intro!: wp_mono [OF recover_intended_calm [OF assms]])
  then show ?thesis by (cases "recover E i w") (auto simp: wp_def split: sum.splits)
qed

theorem recovery_completes_witness:
  "fst (recover sample_env (lit ''a1'') intent_world) = Inr True \<and>
   fs (snd (recover sample_env (lit ''a1'') intent_world)) =
     sample_fs([lit ''in'', lit ''x''] := None, [lit ''out'', lit ''y''] := Some (File sample_fp))"
proof -
  let ?t = "sample_fs([lit ''in'', lit ''x''] := None, [lit ''out'', lit ''y''] := Some (File sample_fp))"
  have i: "intended sample_env (lit ''a1'') intent_attempt O_SORTED sample_target [lit ''in'', lit ''x''] [lit ''out'', lit ''y''] intent_world"
  proof -
    have "fs_wf (fs intent_world)" using sample_fs_wf by (simp add: intent_world_def queued_world_def)
    moreover have "parts False (lit ''in/x'') = Inr [lit ''in'', lit ''x'']" "parts False (lit ''out/y'') = Inr [lit ''out'', lit ''y'']"
      "safe_relative (lit ''x'')" "safe_relative (lit ''y'')" by code_simp+
    ultimately show ?thesis
      by (simp add: intended_def fresh_events_def intent_world_def queued_world_def queued_db_def empty_db_def intent_attempt_def
        sample_attempt_def sample_item_def sample_env_def inj_def phys_path_def sample_root_def sample_target_def)
        (simp add: sample_fs_def)
  qed
  have "file_moved [lit ''in'', lit ''x''] [lit ''out'', lit ''y''] (q_fingerprint (a_item intent_attempt)) (fs intent_world) ?t"
    by (simp add: file_moved_def intent_world_def queued_world_def intent_attempt_def sample_attempt_def sample_item_def sample_fs_def)
  then show ?thesis
    using recovery_completes [OF sample_env_calm i, of ?t] unfolding recovered_def by blast
qed

end
