(* ===== verification/Accounts.thy ===== *)
theory Accounts
  imports Journal Samples
begin

text \<open>
  \<open>auth.py\<close> and \<open>accounts.py\<close>: login with its two rate limits, sessions with an absolute and an
  idle end, the CSRF check, logout, and the administration of local accounts. The password hasher,
  \<open>secrets.token_urlsafe\<close> and the token digest are parameters of the environment; times are whole
  microseconds. The argument parser of the command line is not modelled.
\<close>

section \<open>Sessions\<close>

definition login_attempts_per_ip_and_login :: nat where
  "login_attempts_per_ip_and_login = 10"

definition login_attempts_per_ip :: nat where
  "login_attempts_per_ip = 100"

text \<open>\<open>secrets.token_urlsafe\<close>\<close>

definition new_token :: "env \<Rightarrow> ustr act" where
  "new_token E = (\<lambda>w. (Inr (e_token E (tick w)), w\<lparr>tick := Suc (tick w)\<rparr>))"

definition session_end :: "env \<Rightarrow> session \<Rightarrow> time" where
  "session_end E s =
     min (s_created s + seconds (st_absolute_session_seconds (e_settings E)))
         (s_touched s + seconds (st_idle_session_seconds (e_settings E)))"

record session_dto =
  sd_actor :: actor
  sd_expires_at :: time
  sd_csrf_token :: ustr

definition session_view :: "env \<Rightarrow> session \<Rightarrow> actor \<Rightarrow> session_dto" where
  "session_view E s actor = \<lparr>sd_actor = actor, sd_expires_at = session_end E s, sd_csrf_token = s_csrf s\<rparr>"

definition check_origin :: "env \<Rightarrow> ustr option \<Rightarrow> unit act" where
  "check_origin E origin =
     ensure (case origin of None \<Rightarrow> False | Some h \<Rightarrow> h \<in> set (st_allowed_origins (e_settings E))) (api FORBIDDEN 403)"

section \<open>Login\<close>

record credentials =
  cr_login :: ustr
  cr_password :: ustr

definition ip_bucket :: "env \<Rightarrow> ustr \<Rightarrow> ustr" where
  "ip_bucket E address = e_token_key E (lit ''ip:'' @ address)"

definition login_bucket :: "env \<Rightarrow> ustr \<Rightarrow> ustr \<Rightarrow> ustr" where
  "login_bucket E address login = e_token_key E (lit ''login:'' @ address @ 0 # e_casefold E login)"

definition recent_attempts :: "time \<Rightarrow> time list option \<Rightarrow> time list" where
  "recent_attempts now row = filter (\<lambda>attempt. now - attempt < seconds 60) (case row of None \<Rightarrow> [] | Some l \<Rightarrow> l)"

text \<open>The body of the transaction; a refused password is a value, raised after the commit.\<close>

definition login_body ::
  "env \<Rightarrow> credentials \<Rightarrow> ustr \<Rightarrow> ustr \<Rightarrow> time \<Rightarrow> (session_dto \<times> ustr) option act" where
  "login_body E body request_id address now =
     (let ip = ip_bucket E address; login = login_bucket E address (cr_login body) in
      bnd (get_row db_login_rate ip) (\<lambda>ip_row.
      bnd (get_row db_login_rate login) (\<lambda>login_row.
      let ip_attempts = recent_attempts now ip_row; login_attempts = recent_attempts now login_row in
      bnd (ensure (length ip_attempts < login_attempts_per_ip \<and>
                   length login_attempts < login_attempts_per_ip_and_login)
             (ApiError RATE_LIMITED 429 None True)) (\<lambda>_.
      bnd (put_row db_login_rate_update ip (ip_attempts @ [now])) (\<lambda>_.
      bnd (put_row db_login_rate_update login (login_attempts @ [now])) (\<lambda>_.
      bnd (list_rows db_user) (\<lambda>users.
      let found = List.find (\<lambda>u. act_login (u_actor u) = cr_login body) users in
      case found of
        None \<Rightarrow> bnd (emit E None LOGIN_FAILURE request_id now FAILED (\<lambda>e. e)) (\<lambda>_. ret None)
      | Some u \<Rightarrow>
          if \<not> e_verify E (u_password_hash u) (cr_password body) \<or> u_blocked u then
            bnd (emit E None LOGIN_FAILURE request_id now FAILED (\<lambda>e. e)) (\<lambda>_. ret None)
          else
            bnd (new_token E) (\<lambda>token.
            bnd (new_token E) (\<lambda>csrf.
            let s = \<lparr>s_user_id = act_user_id (u_actor u), s_csrf = csrf, s_created = now, s_touched = now\<rparr> in
            bnd (put_row db_session_update (e_token_key E token) s) (\<lambda>_.
            bnd (emit E (Some (u_actor u)) LOGIN_SUCCEEDED request_id now SUCCESS (\<lambda>e. e)) (\<lambda>_.
            ret (Some (session_view E s (u_actor u), token)))))))))))))"

definition login_user :: "env \<Rightarrow> credentials \<Rightarrow> ustr \<Rightarrow> ustr \<Rightarrow> (session_dto \<times> ustr) act" where
  "login_user E body request_id address =
     bnd (read_clock E) (\<lambda>now.
     bnd (transaction E (login_body E body request_id address now)) (\<lambda>result.
     case result of None \<Rightarrow> raise (api LOGIN_FAILED 401) | Some r \<Rightarrow> ret r))"

section \<open>Using a session\<close>

definition authenticate :: "env \<Rightarrow> ustr option \<Rightarrow> (session \<times> actor) act" where
  "authenticate E token =
     bnd (read_clock E) (\<lambda>now.
     bnd (get_row db_session (e_token_key E (case token of None \<Rightarrow> [] | Some t \<Rightarrow> t))) (\<lambda>found.
     case found of
       None \<Rightarrow> raise (api UNAUTHENTICATED 401)
     | Some s \<Rightarrow>
         bnd (get_row db_user (s_user_id s)) (\<lambda>user.
         case user of
           None \<Rightarrow> raise (api UNAUTHENTICATED 401)
         | Some u \<Rightarrow>
             bnd (ensure (\<not> u_blocked u \<and> now < session_end E s) (api UNAUTHENTICATED 401)) (\<lambda>_.
             ret (s, u_actor u)))))"

definition touch_session :: "env \<Rightarrow> ustr \<Rightarrow> unit act" where
  "touch_session E token =
     transaction E (
       bnd (get_row db_session (e_token_key E token)) (\<lambda>found.
       case found of
         None \<Rightarrow> ret ()
       | Some s \<Rightarrow>
           bnd (read_clock E) (\<lambda>now.
           put_row db_session_update (e_token_key E token) (s\<lparr>s_touched := now\<rparr>))))"

definition check_csrf :: "env \<Rightarrow> ustr option \<Rightarrow> ustr option \<Rightarrow> session \<Rightarrow> unit act" where
  "check_csrf E origin supplied s =
     bnd (check_origin E origin) (\<lambda>_.
     let given = (case supplied of None \<Rightarrow> [] | Some t \<Rightarrow> t) in
     ensure ((\<forall>c\<in>set given. c < 128) \<and> given = s_csrf s) (api CSRF_FAILED 403))"

definition logout :: "env \<Rightarrow> ustr \<Rightarrow> actor \<Rightarrow> ustr \<Rightarrow> unit act" where
  "logout E token actor request_id =
     transaction E (
       bnd (delete_row db_session_update (e_token_key E token)) (\<lambda>_.
       bnd (read_clock E) (\<lambda>now.
       bnd (emit E (Some actor) LOGOUT request_id now SUCCESS (\<lambda>e. e)) (\<lambda>_.
       ret ()))))"

section \<open>Account administration\<close>

definition login_char :: "nat \<Rightarrow> bool" where
  "login_char c \<longleftrightarrow> 48 \<le> c \<and> c \<le> 57 \<or> 65 \<le> c \<and> c \<le> 90 \<or> 97 \<le> c \<and> c \<le> 122"

text \<open>The pattern \<open>_LOGIN\<close>: a letter or digit, then at most 63 letters, digits, dots, underscores, hyphens.\<close>

definition login_ok :: "ustr \<Rightarrow> bool" where
  "login_ok login \<longleftrightarrow>
     (case login of
        [] \<Rightarrow> False
      | c # cs \<Rightarrow> login_char c \<and> length cs \<le> 63 \<and> (\<forall>x\<in>set cs. login_char x \<or> x = 46 \<or> x = 95 \<or> x = 45))"

definition validate_account :: "env \<Rightarrow> ustr \<Rightarrow> ustr option \<Rightarrow> ustr option \<Rightarrow> unit act" where
  "validate_account E login display_name password =
     bnd (ensure (login_ok login) (api VALIDATION_ERROR 422)) (\<lambda>_.
     bnd (ensure (case display_name of None \<Rightarrow> True | Some d \<Rightarrow> strip d \<noteq> [] \<and> length d \<le> 200)
            (api VALIDATION_ERROR 422)) (\<lambda>_.
     ensure (case password of None \<Rightarrow> True | Some p \<Rightarrow> 12 \<le> length p \<and> e_utf8_length E p \<le> 1024)
       (api VALIDATION_ERROR 422)))"

definition is_active_admin :: "user \<Rightarrow> bool" where
  "is_active_admin u \<longleftrightarrow> act_role (u_actor u) = ADMIN \<and> \<not> u_blocked u"

definition find_admin :: "ustr \<Rightarrow> user act" where
  "find_admin login =
     bnd (list_rows db_user) (\<lambda>users.
     case List.find (\<lambda>u. act_login (u_actor u) = login \<and> is_active_admin u) users of
       None \<Rightarrow> raise (api FORBIDDEN 403) | Some u \<Rightarrow> ret u)"

definition find_target :: "ustr \<Rightarrow> user act" where
  "find_target login =
     bnd (list_rows db_user) (\<lambda>users.
     case List.find (\<lambda>u. act_login (u_actor u) = login) users of
       None \<Rightarrow> raise (api NOT_FOUND 404) | Some u \<Rightarrow> ret u)"

definition revoke_sessions :: "ustr \<Rightarrow> unit act" where
  "revoke_sessions user_id =
     modify (\<lambda>w. w\<lparr>db := db_session_update (filter (\<lambda>r. s_user_id (snd r) \<noteq> user_id)) (db w)\<rparr>)"

definition hash_password :: "env \<Rightarrow> ustr \<Rightarrow> ustr act" where
  "hash_password E password = (\<lambda>w. (Inr (e_hash E (tick w) password), w\<lparr>tick := Suc (tick w)\<rparr>))"

text \<open>\<open>emit(tx, actor, action, uid("request"), now=clock(), comment=text + login)\<close>\<close>

definition emit_account :: "env \<Rightarrow> actor \<Rightarrow> audit_action \<Rightarrow> string \<Rightarrow> ustr \<Rightarrow> unit act" where
  "emit_account E actor action message login =
     bnd (uid E ''request'') (\<lambda>request_id.
     bnd (read_clock E) (\<lambda>now.
     bnd (emit E (Some actor) action request_id now SUCCESS (\<lambda>e. e\<lparr>ev_comment := Some (lit message @ login)\<rparr>)) (\<lambda>_.
     ret ())))"

definition put_user :: "user \<Rightarrow> unit act" where
  "put_user u = put_row db_user_update (act_user_id (u_actor u)) u"

definition create_body :: "env \<Rightarrow> ustr \<Rightarrow> ustr \<Rightarrow> ustr \<Rightarrow> role \<Rightarrow> ustr \<Rightarrow> actor act" where
  "create_body E actor_login login display_name role password =
     bnd (find_admin actor_login) (\<lambda>admin.
     bnd (list_rows db_user) (\<lambda>users.
     bnd (ensure (\<forall>u\<in>set users. e_casefold E (act_login (u_actor u)) \<noteq> e_casefold E login)
            (api VALIDATION_ERROR 422)) (\<lambda>_.
     bnd (uid E ''user'') (\<lambda>user_id.
     bnd (hash_password E password) (\<lambda>h.
     let actor = \<lparr>act_user_id = user_id, act_login = login, act_display_name = strip display_name, act_role = role\<rparr> in
     bnd (put_user \<lparr>u_actor = actor, u_password_hash = h, u_blocked = False\<rparr>) (\<lambda>_.
     bnd (emit_account E (u_actor admin) ACCOUNT_CREATED ''Created account: '' login) (\<lambda>_.
     ret actor)))))))"

definition create_user :: "env \<Rightarrow> ustr \<Rightarrow> ustr \<Rightarrow> ustr \<Rightarrow> role \<Rightarrow> ustr \<Rightarrow> actor act" where
  "create_user E actor_login login display_name role password =
     bnd (validate_account E login (Some display_name) (Some password)) (\<lambda>_.
     transaction E (create_body E actor_login login display_name role password))"

definition reset_password :: "env \<Rightarrow> ustr \<Rightarrow> ustr \<Rightarrow> ustr \<Rightarrow> unit act" where
  "reset_password E actor_login login password =
     bnd (validate_account E login None (Some password)) (\<lambda>_.
     transaction E (
       bnd (find_admin actor_login) (\<lambda>admin.
       bnd (find_target login) (\<lambda>target.
       bnd (hash_password E password) (\<lambda>h.
       bnd (put_user (target\<lparr>u_password_hash := h\<rparr>)) (\<lambda>_.
       bnd (revoke_sessions (act_user_id (u_actor target))) (\<lambda>_.
       emit_account E (u_actor admin) PASSWORD_CHANGED ''Password changed: '' login)))))))"

definition active_admins :: "user list \<Rightarrow> nat" where
  "active_admins users = length (filter is_active_admin users)"

definition block_body :: "env \<Rightarrow> ustr \<Rightarrow> ustr \<Rightarrow> unit act" where
  "block_body E actor_login login =
     bnd (find_admin actor_login) (\<lambda>admin.
     bnd (find_target login) (\<lambda>target.
     bnd (list_rows db_user) (\<lambda>users.
     bnd (ensure (\<not> (is_active_admin target \<and> active_admins users \<le> 1)) (api VALIDATION_ERROR 422)) (\<lambda>_.
     bnd (put_user (target\<lparr>u_blocked := True\<rparr>)) (\<lambda>_.
     bnd (revoke_sessions (act_user_id (u_actor target))) (\<lambda>_.
     emit_account E (u_actor admin) ACCOUNT_BLOCKED ''Blocked account: '' login))))))"

definition block_user :: "env \<Rightarrow> ustr \<Rightarrow> ustr \<Rightarrow> unit act" where
  "block_user E actor_login login =
     bnd (validate_account E login None None) (\<lambda>_. transaction E (block_body E actor_login login))"

definition unblock_user :: "env \<Rightarrow> ustr \<Rightarrow> ustr \<Rightarrow> unit act" where
  "unblock_user E actor_login login =
     bnd (validate_account E login None None) (\<lambda>_.
     transaction E (
       bnd (find_admin actor_login) (\<lambda>admin.
       bnd (find_target login) (\<lambda>target.
       bnd (put_user (target\<lparr>u_blocked := False\<rparr>)) (\<lambda>_.
       emit_account E (u_actor admin) ACCOUNT_UNBLOCKED ''Unblocked account: '' login)))))"

end
