(* ===== verification/Accounts_Correct.thy ===== *)
theory Accounts_Correct
  imports Accounts
begin

text \<open>
  The throttling of logins, the invariant of the accounts (own keys, logins unique up to case, an
  administrator who can act), the end of the sessions of a blocked account, and the life of a session
  from its login to its logout or end.
\<close>

section \<open>Throttling\<close>

fun login_all ::
  "env \<Rightarrow> (credentials \<times> ustr \<times> ustr) list \<Rightarrow> world \<Rightarrow> (credentials \<times> ustr \<times> (exn + session_dto \<times> ustr)) list" where
  "login_all E [] w = []"
| "login_all E ((body, request_id, address) # rest) w =
     (let r = login_user E body request_id address w in (body, address, fst r) # login_all E rest (snd r))"

text \<open>The password was checked and the answer given: success or a refused password.\<close>

definition answered :: "exn + 'a \<Rightarrow> bool" where
  "answered r \<longleftrightarrow> (case r of Inr _ \<Rightarrow> True | Inl e \<Rightarrow> e = api LOGIN_FAILED 401)"

text \<open>The attempts of a bucket that no reading of the clock finds outdated.\<close>

definition lasting :: "env \<Rightarrow> db \<Rightarrow> ustr \<Rightarrow> nat" where
  "lasting E d b = length (filter (\<lambda>x. \<forall>k. e_clock E k - x < seconds 60)
     (case tbl_get (db_login_rate d) b of None \<Rightarrow> [] | Some l \<Rightarrow> l))"

definition one_window :: "env \<Rightarrow> bool" where
  "one_window E \<longleftrightarrow> (\<forall>j k. e_clock E j - e_clock E k < seconds 60)"

lemma lasting_recent:
  "length (filter (\<lambda>x. \<forall>k. e_clock E k - x < seconds 60) (recent_attempts (e_clock E t) (tbl_get (db_login_rate d) b))) = lasting E d b"
proof -
  have f: "filter (\<lambda>x. \<forall>k. e_clock E k - x < seconds 60) (filter (\<lambda>a. e_clock E t - a < seconds 60) l) =
      filter (\<lambda>x. \<forall>k. e_clock E k - x < seconds 60) l" for l
    by (induction l) auto
  show ?thesis
    unfolding recent_attempts_def lasting_def f ..
qed

lemma lasting_le_recent: "lasting E d b \<le> length (recent_attempts (e_clock E t) (tbl_get (db_login_rate d) b))"
  using length_filter_le [of _ "recent_attempts (e_clock E t) (tbl_get (db_login_rate d) b)"] lasting_recent by metis

definition counted :: "env \<Rightarrow> ustr \<Rightarrow> db \<Rightarrow> db \<Rightarrow> bool" where
  "counted E b d d' \<longleftrightarrow> lasting E d b < login_attempts_per_ip_and_login \<and> lasting E d b < lasting E d' b \<and>
     (\<forall>c. lasting E d c \<le> lasting E d' c)"

lemma counted_put:
  assumes "one_window E" and "length (recent_attempts (e_clock E t) (tbl_get (db_login_rate d) b)) < login_attempts_per_ip_and_login"
    and "db_login_rate d' = tbl_put b (recent_attempts (e_clock E t) (tbl_get (db_login_rate d) b) @ [e_clock E t])
      (tbl_put a (recent_attempts (e_clock E t) (tbl_get (db_login_rate d) a) @ [e_clock E t]) (db_login_rate d))"
  shows "counted E b d d'"
proof -
  have "\<forall>k. e_clock E k - e_clock E t < seconds 60" using assms(1) by (simp add: one_window_def)
  then have "lasting E d' c = (if c = b \<or> c = a then Suc (lasting E d c) else lasting E d c)" for c
    using lasting_recent [of E t d c] by (auto simp: lasting_def assms(3))
  moreover have "lasting E d b < login_attempts_per_ip_and_login"
    using lasting_le_recent [of E d b t] assms(2) by linarith
  ultimately show ?thesis by (simp add: counted_def)
qed

lemma login_body_counts:
  assumes "one_window E"
  shows "wp (login_body E body rq address (e_clock E t)) (\<lambda>_ u. counted E (login_bucket E address (cr_login body)) (db w) (db u))
    (\<lambda>e _. e \<noteq> api LOGIN_FAILED 401) w"
proof -
  let ?b = "login_bucket E address (cr_login body)"
  have token: "wp (new_token E) Q X u = Q (e_token E (tick u)) (u\<lparr>tick := Suc (tick u)\<rparr>)" for Q X u
    by (simp add: wp_def new_token_def)
  show ?thesis
    unfolding login_body_def
    by (intro vc) (auto simp: wp_rules token Let_def split!: option.split intro!: counted_put [OF assms])
qed


lemma counted_le: "counted E b d d' \<Longrightarrow> lasting E d c \<le> lasting E d' c"
  by (simp add: counted_def)

lemma login_counts:
  assumes "one_window E" and "login_user E body rq address w = (r, u)"
  shows "(\<forall>c. lasting E (db w) c \<le> lasting E (db u) c) \<and>
    (answered r \<longrightarrow> counted E (login_bucket E address (cr_login body)) (db w) (db u))"
proof -
  let ?b = "login_bucket E address (cr_login body)"
  let ?R = "\<lambda>r u. (\<forall>c. lasting E (db w) c \<le> lasting E (db u) c) \<and> (answered r \<longrightarrow> counted E ?b (db w) (db u))"
  let ?w = "w\<lparr>tick := Suc (tick w)\<rparr>"
  have body: "wp (login_body E body rq address (e_clock E (tick w))) (\<lambda>_ u. counted E ?b (db ?w) (db u)) (\<lambda>e _. e \<noteq> api LOGIN_FAILED 401) ?w"
    by (rule login_body_counts [OF assms(1)])
  have "wp (login_user E body rq address) (\<lambda>x. ?R (Inr x)) (\<lambda>e. ?R (Inl e)) w"
    unfolding login_user_def
    by (intro vc, unfold wp_transaction, rule wp_mono [OF body])
      (auto simp: wp_rules answered_def fault_exn_def split: option.split fault.split dest: counted_le)
  with assms(2) show ?thesis by (cases r) (auto simp: wp_def)
qed

lemma login_all_bound:
  assumes "one_window E"
  shows "length (filter (\<lambda>(body, a, r). login_bucket E a (cr_login body) = b \<and> answered r) (login_all E reqs w))
     \<le> login_attempts_per_ip_and_login - lasting E (db w) b"
proof (induction reqs arbitrary: w)
  case (Cons q reqs)
  obtain body rq address where q: "q = (body, rq, address)" by (cases q)
  obtain r u where r: "login_user E body rq address w = (r, u)" by fastforce
  let ?b = "login_bucket E address (cr_login body)" and ?n = "\<lambda>w. login_attempts_per_ip_and_login - lasting E (db w) b"
  have "?n u + (if ?b = b \<and> answered r then 1 else 0) \<le> ?n w"
    using login_counts [OF assms r] by (auto simp: counted_def intro: diff_le_mono2 elim!: allE [of _ b])
  with Cons.IH [of u] show ?case
    by (auto simp: q r)
qed simp

section \<open>The accounts\<close>

definition users_keyed :: "(ustr \<Rightarrow> user option) \<Rightarrow> bool" where
  "users_keyed U \<longleftrightarrow> (\<forall>k u. U k = Some u \<longrightarrow> act_user_id (u_actor u) = k)"

definition logins_unique :: "env \<Rightarrow> (ustr \<Rightarrow> user option) \<Rightarrow> bool" where
  "logins_unique E U \<longleftrightarrow>
     (\<forall>j k u v. U j = Some u \<and> U k = Some v \<and>
        e_casefold E (act_login (u_actor u)) = e_casefold E (act_login (u_actor v)) \<longrightarrow> j = k)"

definition admin_left :: "(ustr \<Rightarrow> user option) \<Rightarrow> bool" where
  "admin_left U \<longleftrightarrow> (\<exists>k u. U k = Some u \<and> is_active_admin u)"

definition accounts_ok :: "env \<Rightarrow> db \<Rightarrow> bool" where
  "accounts_ok E d \<longleftrightarrow>
     tbl_ok (db_user d) \<and> users_keyed (tbl_get (db_user d)) \<and> logins_unique E (tbl_get (db_user d)) \<and>
     admin_left (tbl_get (db_user d))"

lemma accounts_ok_simps [simp]:
  "accounts_ok E (db_audit_update f d) = accounts_ok E d" "accounts_ok E (db_session_update g d) = accounts_ok E d"
  by (simp_all add: accounts_ok_def)

lemma find_row:
  assumes "tbl_ok t" and "List.find P (tbl_rows t) = Some u"
  obtains k where "tbl_get t k = Some u" "P u"
  using assms by (auto simp: find_Some_iff) (metis nth_mem tbl_rows_get)

lemma two_rows:
  assumes "tbl_ok t" and "1 < length (filter P (tbl_rows t))"
  shows "\<exists>j v. j \<noteq> k \<and> tbl_get t j = Some v \<and> P v"
proof (rule ccontr)
  assume no: "\<not> ?thesis"
  let ?l = "map fst (filter (P \<circ> snd) t)"
  have "set ?l \<subseteq> {k}" using no assms(1) by (auto simp: tbl_get_in)
  moreover have "distinct ?l" using tbl_ok_distinct [OF assms(1)] by (simp add: distinct_map_filter)
  ultimately have "length ?l \<le> 1"
    by (metis card_mono card_1_singleton_iff distinct_card finite.emptyI finite_insert is_singletonI is_singleton_altdef)
  with assms(2) show False by (simp add: tbl_rows_def filter_map)
qed

text \<open>Rewriting an account in place, keeping its login and an administrator.\<close>

lemma accounts_put:
  assumes ok: "accounts_ok E d" and k: "tbl_get (db_user d) k = Some u"
    and v: "act_user_id (u_actor v) = act_user_id (u_actor u)" "act_login (u_actor v) = act_login (u_actor u)"
    and a: "is_active_admin v \<or> (\<exists>j w. j \<noteq> k \<and> tbl_get (db_user d) j = Some w \<and> is_active_admin w)"
  shows "accounts_ok E (db_user_update (tbl_put k v) d)"
proof -
  let ?U = "tbl_get (db_user d)"
  from ok k v have "users_keyed (?U(k \<mapsto> v))" by (simp add: accounts_ok_def users_keyed_def)
  moreover have "admin_left (?U(k \<mapsto> v))"
    using a by (auto simp: admin_left_def)
  moreover have "logins_unique E (?U(k \<mapsto> v))"
    unfolding logins_unique_def
  proof (intro allI impI, elim conjE)
    fix i j x y
    assume h: "(?U(k \<mapsto> v)) i = Some x" "(?U(k \<mapsto> v)) j = Some y"
      "e_casefold E (act_login (u_actor x)) = e_casefold E (act_login (u_actor y))"
    have old: "\<exists>z. ?U i = Some z \<and> act_login (u_actor z) = act_login (u_actor x)" if "(?U(k \<mapsto> v)) i = Some x" for i x
      using that k v(2) by (auto split: if_splits)
    from old [OF h(1)] old [OF h(2)] h(3) obtain x' y' where
      "?U i = Some x'" "?U j = Some y'" "e_casefold E (act_login (u_actor x')) = e_casefold E (act_login (u_actor y'))" by metis
    with ok show "i = j" unfolding accounts_ok_def logins_unique_def by blast
  qed
  ultimately show ?thesis
    using ok by (simp add: accounts_ok_def tbl_ok_put tbl_get_put_fun)
qed

lemma accounts_insert:
  assumes ok: "accounts_ok E d" and k: "tbl_get (db_user d) k = None" "act_user_id (u_actor v) = k"
    and v: "\<And>j u. tbl_get (db_user d) j = Some u \<Longrightarrow> e_casefold E (act_login (u_actor u)) \<noteq> e_casefold E (act_login (u_actor v))"
  shows "accounts_ok E (db_user_update (tbl_put k v) d)"
proof -
  let ?U = "tbl_get (db_user d)"
  from ok k have "users_keyed (?U(k \<mapsto> v))" by (simp add: accounts_ok_def users_keyed_def)
  moreover have "admin_left (?U(k \<mapsto> v))"
    using ok k(1) unfolding accounts_ok_def admin_left_def by (metis fun_upd_apply option.distinct(1))
  moreover have "logins_unique E (?U(k \<mapsto> v))"
    unfolding logins_unique_def
  proof (intro allI impI, elim conjE)
    fix i j x y
    assume "(?U(k \<mapsto> v)) i = Some x" "(?U(k \<mapsto> v)) j = Some y"
      "e_casefold E (act_login (u_actor x)) = e_casefold E (act_login (u_actor y))"
    with ok v [of i] v [of j] show "i = j"
      unfolding accounts_ok_def logins_unique_def by (cases "i = k"; cases "j = k") (force, force, force, fastforce)
  qed
  ultimately show ?thesis
    using ok by (simp add: accounts_ok_def tbl_ok_put tbl_get_put_fun)
qed

section \<open>The operations keep the accounts\<close>

lemma keeps_validate [keeps_rules]: "keeps I (validate_account E l d p)"
  unfolding validate_account_def by (intro keeps_rules)

lemma wp_hash [wp_rules]: "wp (hash_password E p) Q X w = Q (e_hash E (tick w) p) (w\<lparr>tick := Suc (tick w)\<rparr>)"
  by (simp add: wp_def hash_password_def)

lemma vc_hash [vc]: "Q (e_hash E (tick w) p) (w\<lparr>tick := Suc (tick w)\<rparr>) \<Longrightarrow> wp (hash_password E p) Q X w"
  by (simp add: wp_hash)

lemma keeps_emit_account [keeps_rules]: "keeps (on_db (accounts_ok E)) (emit_account E' a x m l)"
  unfolding emit_account_def emit_def Let_def by (intro keeps_rules keeps_append_event) simp


lemma accounts_block_body: "ends (accounts_ok E) (block_body E' a l)"
  unfolding ends_def
proof (intro allI impI)
  fix w :: world assume ok: "accounts_ok E (db w)"
  then have t: "tbl_ok (db_user (db w))" and keyed: "users_keyed (tbl_get (db_user (db w)))" by (simp_all add: accounts_ok_def)
  have put: "accounts_ok E (db_user_update (tbl_put (act_user_id (u_actor u)) (u\<lparr>u_blocked := True\<rparr>)) (db w))"
    if f: "List.find P (tbl_rows (db_user (db w))) = Some u"
      and n: "\<not> (is_active_admin u \<and> active_admins (tbl_rows (db_user (db w))) \<le> 1)" for P u
  proof -
    obtain k where k: "tbl_get (db_user (db w)) k = Some u" using find_row [OF t f] by blast
    then have kid: "act_user_id (u_actor u) = k" using keyed by (simp add: users_keyed_def)
    have "\<exists>j v. j \<noteq> k \<and> tbl_get (db_user (db w)) j = Some v \<and> is_active_admin v"
    proof (cases "is_active_admin u")
      case True
      then show ?thesis using n two_rows [OF t, of is_active_admin k] by (simp add: active_admins_def)
    next
      case False
      from ok obtain j v where "tbl_get (db_user (db w)) j = Some v" "is_active_admin v"
        by (auto simp: accounts_ok_def admin_left_def)
      then show ?thesis using False k by (intro exI [of _ j] exI [of _ v]) auto
    qed
    then show ?thesis unfolding kid by (intro accounts_put [OF ok k]) simp_all
  qed
  show "wp (block_body E' a l) (\<lambda>_ u. accounts_ok E (db u)) (\<lambda>_ _. True) w"
    unfolding block_body_def find_admin_def find_target_def put_user_def revoke_sessions_def
    by (intro TrueI vc wp_keeps_step [OF keeps_emit_account]) (simp_all add: put)
qed

text \<open>Writing an account that another one with the same login and rights replaces.\<close>

lemma accounts_rewrite:
  assumes ok: "accounts_ok E d" and f: "List.find P (tbl_rows (db_user d)) = Some u"
    and v: "u_actor v = u_actor u" "u_blocked u \<or> u_blocked v = u_blocked u"
  shows "accounts_ok E (db_user_update (tbl_put (act_user_id (u_actor u)) v) d)"
proof -
  from ok have t: "tbl_ok (db_user d)" by (simp add: accounts_ok_def)
  obtain k where k: "tbl_get (db_user d) k = Some u" using find_row [OF t f] by blast
  then have "act_user_id (u_actor u) = k" using ok by (simp add: accounts_ok_def users_keyed_def)
  moreover have "is_active_admin v \<or> (\<exists>j w. j \<noteq> k \<and> tbl_get (db_user d) j = Some w \<and> is_active_admin w)"
  proof (cases "is_active_admin u")
    case True then show ?thesis using v by (simp add: is_active_admin_def)
  next
    case False
    from ok obtain j w where "tbl_get (db_user d) j = Some w" "is_active_admin w"
      by (auto simp: accounts_ok_def admin_left_def)
    then show ?thesis using False k by (intro disjI2 exI [of _ j] exI [of _ w]) auto
  qed
  ultimately show ?thesis using accounts_put [OF ok k, of v] v by simp
qed

lemma accounts_create_body:
  assumes ok: "accounts_ok E (db w)" and fresh: "\<And>k. tbl_get (db_user (db w)) (lit ''user'' @ 45 # e_uid E k) = None"
  shows "wp (create_body E a l n r p) (\<lambda>_ u. accounts_ok E (db u)) (\<lambda>_ _. True) w"
proof -
  from ok have t: "tbl_ok (db_user (db w))" by (simp add: accounts_ok_def)
  show ?thesis
    unfolding create_body_def find_admin_def put_user_def
    by (intro TrueI vc wp_keeps_step [OF keeps_emit_account])
      (use fresh tbl_rows_get [OF t] in \<open>auto intro!: accounts_insert [OF ok]\<close>)
qed

lemma accounts_reset_unblock:
  "keeps (on_db (accounts_ok E)) (reset_password E' a l p)" "keeps (on_db (accounts_ok E)) (unblock_user E' a l)"
  unfolding reset_password_def unblock_user_def find_admin_def find_target_def put_user_def revoke_sessions_def
  by (intro keeps_bnd keeps_validate keeps_ends, unfold ends_def, intro TrueI allI impI vc wp_keeps_step [OF keeps_emit_account];
      simp; rule accounts_rewrite; simp?; blast?)+

section \<open>Sessions of an account\<close>

definition no_sessions :: "ustr \<Rightarrow> db \<Rightarrow> bool" where
  "no_sessions user_id d \<longleftrightarrow> (\<forall>k s. tbl_get (db_session d) k = Some s \<longrightarrow> s_user_id s \<noteq> user_id)"

definition signed_out :: "ustr \<Rightarrow> db \<Rightarrow> bool" where
  "signed_out login d \<longleftrightarrow> (\<exists>k u. tbl_get (db_user d) k = Some u \<and> act_login (u_actor u) = login \<and> no_sessions k d)"

definition revoked :: "env \<Rightarrow> ustr \<Rightarrow> db \<Rightarrow> bool" where
  "revoked E login d \<longleftrightarrow> accounts_ok E d \<and> signed_out login d"

lemma signed_out_emit [keeps_rules]: "keeps (on_db (signed_out login)) (emit_account E' a x m l)"
  unfolding emit_account_def emit_def Let_def
  by (intro keeps_rules keeps_append_event) (simp add: signed_out_def no_sessions_def)

lemma signed_outI:
  assumes t: "tbl_ok (db_user d)" "users_keyed (tbl_get (db_user d))"
    and f: "List.find (\<lambda>u. act_login (u_actor u) = login) (tbl_rows (db_user d)) = Some u"
    and v: "u_actor v = u_actor u"
  shows "signed_out login (db_session_update (filter (\<lambda>r. s_user_id (snd r) \<noteq> act_user_id (u_actor u)))
    (db_user_update (tbl_put (act_user_id (u_actor u)) v) d))"
proof -
  obtain k where k: "tbl_get (db_user d) k = Some u" "act_login (u_actor u) = login" using find_row [OF t(1) f] by blast
  then have "act_user_id (u_actor u) = k" using t(2) by (simp add: users_keyed_def)
  then show ?thesis using k v unfolding signed_out_def no_sessions_def
    by (intro exI [of _ k] exI [of _ v]) (auto dest!: tbl_get_mem)
qed

lemma block_signs_out:
  assumes "accounts_ok E (db w)"
  shows "wp (block_user E' a l) (\<lambda>_ u. signed_out l (db u)) (\<lambda>_ _. True) w"
proof -
  have ok: "tbl_ok (db_user (db u))" "users_keyed (tbl_get (db_user (db u)))" if "db u = db w" for u
    using assms that by (simp_all add: accounts_ok_def)
  have "wp (block_body E' a l) (\<lambda>_ u. signed_out l (db u)) (\<lambda>_ _. True) w"
    unfolding block_body_def find_admin_def find_target_def put_user_def revoke_sessions_def
    by (intro TrueI vc wp_keeps_step [OF signed_out_emit]) (use ok in \<open>auto intro!: signed_outI\<close>)
  then show ?thesis
    unfolding block_user_def validate_account_def
    by (intro TrueI vc, unfold wp_transaction, elim wp_mono) (auto split: option.split)
qed

lemma reset_signs_out:
  assumes "accounts_ok E (db w)"
  shows "wp (reset_password E' a l p) (\<lambda>_ u. signed_out l (db u)) (\<lambda>_ _. True) w"
proof -
  have ok: "tbl_ok (db_user (db u))" "users_keyed (tbl_get (db_user (db u)))" if "db u = db w" for u
    using assms that by (simp_all add: accounts_ok_def)
  have "wp (bnd (find_admin a) (\<lambda>admin.
       bnd (find_target l) (\<lambda>target.
       bnd (hash_password E' p) (\<lambda>h.
       bnd (put_user (target\<lparr>u_password_hash := h\<rparr>)) (\<lambda>_.
       bnd (revoke_sessions (act_user_id (u_actor target))) (\<lambda>_.
       emit_account E' (u_actor admin) PASSWORD_CHANGED ''Password changed: '' l)))))) (\<lambda>_ u. signed_out l (db u)) (\<lambda>_ _. True) w"
    unfolding find_admin_def find_target_def put_user_def revoke_sessions_def
    by (intro TrueI vc wp_keeps_step [OF signed_out_emit]) (use ok in \<open>auto intro!: signed_outI\<close>)
  then show ?thesis
    unfolding reset_password_def validate_account_def
    by (intro TrueI vc, unfold wp_transaction, elim wp_mono) (auto split: option.split)
qed

lemma revoked_authenticate:
  assumes "revoked E login (db w)"
  shows "wp (authenticate E' token) (\<lambda>r _. act_login (snd r) \<noteq> login) (\<lambda>_ _. True) w"
proof -
  from assms obtain k u where k: "tbl_get (db_user (db w)) k = Some u" "act_login (u_actor u) = login" "no_sessions k (db w)"
    and ok: "logins_unique E (tbl_get (db_user (db w)))" by (auto simp: revoked_def signed_out_def accounts_ok_def)
  have "s_user_id s = k" if "tbl_get (db_user (db w)) (s_user_id s) = Some v" "act_login (u_actor v) = login" for s v
    using ok [unfolded logins_unique_def, rule_format, of "s_user_id s" v k u] k that by simp
  then show ?thesis
    using k(3) unfolding authenticate_def no_sessions_def by (intro TrueI vc) auto
qed


section \<open>The life of a session\<close>

datatype session_use =
    Log_in credentials ustr ustr
  | Touch ustr
  | Log_out ustr actor ustr

primrec use_session :: "env \<Rightarrow> session_use \<Rightarrow> world \<Rightarrow> world" where
  "use_session E (Log_in body request_id address) w = snd (login_user E body request_id address w)"
| "use_session E (Touch token) w = snd (touch_session E token w)"
| "use_session E (Log_out token actor request_id) w = snd (logout E token actor request_id w)"

text \<open>
  The time a session was last used, after one more request: a touch that is committed sets it, a logout that is
  committed ends the session, whoever sends them; logins never concern an existing session.
\<close>

primrec use_time :: "env \<Rightarrow> ustr \<Rightarrow> session_use \<Rightarrow> world \<Rightarrow> time option \<Rightarrow> time option" where
  "use_time E token (Log_in body request_id address) w t = t"
| "use_time E token (Touch x) w t =
     (if e_token_key E x = e_token_key E token \<and> fst (touch_session E x w) = Inr () then map_option (\<lambda>_. e_clock E (tick w)) t
      else t)"
| "use_time E token (Log_out x actor request_id) w t =
     (if e_token_key E x = e_token_key E token \<and> fst (logout E x actor request_id w) = Inr () then None else t)"

fun after_uses :: "env \<Rightarrow> session_use list \<Rightarrow> world \<Rightarrow> world" where
  "after_uses E [] w = w"
| "after_uses E (op # ops) w = after_uses E ops (use_session E op w)"

fun last_use :: "env \<Rightarrow> ustr \<Rightarrow> session_use list \<Rightarrow> world \<Rightarrow> time option \<Rightarrow> time option" where
  "last_use E token [] w t = t"
| "last_use E token (op # ops) w t = last_use E token ops (use_session E op w) (use_time E token op w t)"

text \<open>The stored session of a token key, the accounts, and a bound on the clock of interactions.\<close>

definition session_state :: "ustr \<Rightarrow> session option \<Rightarrow> user table \<Rightarrow> nat \<Rightarrow> world \<Rightarrow> bool" where
  "session_state key s users n w \<longleftrightarrow> tbl_get (db_session (db w)) key = s \<and> db_user (db w) = users \<and> n \<le> tick w"

lemma wp_new_token [wp_rules]: "wp (new_token E) Q X w = Q (e_token E (tick w)) (w\<lparr>tick := Suc (tick w)\<rparr>)"
  by (simp add: wp_def new_token_def)

lemma vc_new_token [vc]: "Q (e_token E (tick w)) (w\<lparr>tick := Suc (tick w)\<rparr>) \<Longrightarrow> wp (new_token E) Q X w"
  by (simp add: wp_rules)

lemma login_other:
  assumes "session_state key s users n w" and "\<And>k. n \<le> k \<Longrightarrow> e_token_key E (e_token E k) \<noteq> key"
  shows "session_state key s users n (snd (login_user E body rq address w))"
proof -
  have new: "e_token_key E (e_token E (Suc (tick w))) \<noteq> key" using assms by (simp add: session_state_def)
  have "wp (login_user E body rq address) (\<lambda>_. session_state key s users n) (\<lambda>_. session_state key s users n) w"
    unfolding login_user_def login_body_def
    by (intro vc, unfold wp_transaction, intro vc)
      (use assms(1) new in \<open>auto simp: wp_rules Let_def session_state_def split: option.split\<close>)
  then show ?thesis by (simp add: wp_const)
qed

lemma touch_state:
  assumes "session_state key s users n w"
  shows "wp (touch_session E x)
    (\<lambda>_. session_state key (if e_token_key E x = key then map_option (s_touched_update (\<lambda>_. e_clock E (tick w))) s else s) users n)
    (\<lambda>_. session_state key s users n) w"
  using assms by (auto simp: touch_session_def wp_rules session_state_def split: option.splits)

lemma logout_state:
  assumes "session_state key s users n w"
  shows "wp (logout E x actor rq) (\<lambda>_. session_state key (if e_token_key E x = key then None else s) users n)
    (\<lambda>_. session_state key s users n) w"
  using assms by (auto simp: logout_def wp_rules session_state_def Let_def split: option.splits)

lemma use_state:
  assumes st: "session_state (e_token_key E token) (map_option (\<lambda>t. base\<lparr>s_touched := t\<rparr>) t) users n w"
    and new: "\<And>k. n \<le> k \<Longrightarrow> e_token_key E (e_token E k) \<noteq> e_token_key E token"
  shows "session_state (e_token_key E token) (map_option (\<lambda>t. base\<lparr>s_touched := t\<rparr>) (use_time E token op w t)) users n (use_session E op w)"
proof (cases op)
  case (Log_in body rq address)
  then show ?thesis using login_other [OF st new] by simp
next
  case (Touch x)
  then show ?thesis using touch_state [OF st, of E x]
    by (cases "touch_session E x w") (auto simp: wp_def option.map_comp comp_def split: sum.splits if_splits)
next
  case (Log_out x actor rq)
  then show ?thesis using logout_state [OF st, of E x actor rq]
    by (cases "logout E x actor rq w") (auto simp: wp_def split: sum.splits if_splits)
qed

lemma uses_state:
  assumes "session_state (e_token_key E token) (map_option (\<lambda>t. base\<lparr>s_touched := t\<rparr>) t) users n w"
    and "\<And>k. n \<le> k \<Longrightarrow> e_token_key E (e_token E k) \<noteq> e_token_key E token"
  shows "session_state (e_token_key E token) (map_option (\<lambda>t. base\<lparr>s_touched := t\<rparr>) (last_use E token uses w t)) users n (after_uses E uses w)"
  using assms(1) by (induction uses arbitrary: w t) (auto intro: use_state [OF _ assms(2)])

text \<open>What a successful login stores.\<close>

definition opened :: "env \<Rightarrow> ustr \<Rightarrow> time \<Rightarrow> session_dto \<Rightarrow> ustr \<Rightarrow> world \<Rightarrow> bool" where
  "opened E login now dto token u \<longleftrightarrow>
     (\<exists>k<tick u. token = e_token E k) \<and> act_login (sd_actor dto) = login \<and>
     tbl_get (db_session (db u)) (e_token_key E token) =
       Some \<lparr>s_user_id = act_user_id (sd_actor dto), s_csrf = sd_csrf_token dto, s_created = now, s_touched = now\<rparr> \<and>
     (\<exists>a. tbl_get (db_user (db u)) (act_user_id (sd_actor dto)) = Some a \<and> u_actor a = sd_actor dto \<and> \<not> u_blocked a)"

lemma login_opens:
  assumes "accounts_ok E' (db w)"
  shows "wp (login_user E body rq address) (\<lambda>r u. opened E (cr_login body) (e_clock E (tick w)) (fst r) (snd r) u) (\<lambda>_ _. True) w"
proof -
  have found: "tbl_get (db_user d) (act_user_id (u_actor a)) = Some a \<and> act_login (u_actor a) = cr_login body"
    if "db_user d = db_user (db w)" "List.find (\<lambda>u. act_login (u_actor u) = cr_login body) (tbl_rows (db_user d)) = Some a" for d a
    using assms that by (auto simp: accounts_ok_def users_keyed_def elim: find_row)
  have stored: "wp (login_body E body rq address t) (\<lambda>r u. case r of None \<Rightarrow> True | Some r \<Rightarrow> opened E (cr_login body) t (fst r) (snd r) u)
      (\<lambda>_ _. True) v" if "db v = db w" for v t
    unfolding login_body_def
    by (intro vc TrueI) (use found that in \<open>auto simp: wp_rules Let_def opened_def session_view_def intro!: exI [of _ "tick v"]\<close>)
  show ?thesis
    unfolding login_user_def
    by (intro vc, unfold wp_transaction, rule wp_mono [OF stored])
      (auto simp: wp_rules opened_def intro: less_SucI split: option.splits)
qed

section \<open>Properties\<close>

text \<open>
  C23: logins are throttled. As long as the readings of the clock lie within one minute, at most ten
  logins from one address with one login name (up to case) are answered at all, whatever logins from
  anywhere are mixed in, whether they succeed or not, and whichever commits fail; every further one is
  refused before its password is looked at, or fails.
\<close>

theorem login_throttled:
  assumes "one_window E"
  shows "length (filter (\<lambda>(body, a, r). a = address \<and> e_casefold E (cr_login body) = e_casefold E login \<and> answered r)
     (login_all E reqs w)) \<le> 10"
proof -
  let ?p = "\<lambda>(body, a, r). a = address \<and> e_casefold E (cr_login body) = e_casefold E login \<and> answered r"
  let ?q = "\<lambda>(body, a, r). login_bucket E a (cr_login body) = login_bucket E address login \<and> answered r"
  have "length (filter ?p xs) \<le> length (filter ?q xs)" for xs
    by (induction xs) (auto simp: login_bucket_def)
  also have "length (filter ?q (login_all E reqs w)) \<le> 10"
    using login_all_bound [OF assms, of "login_bucket E address login" reqs w]
    by (simp add: login_attempts_per_ip_and_login_def)
  finally show ?thesis .
qed

theorem login_throttled_witness:
  "length (filter (\<lambda>(body, a, r). a = [1] \<and> e_casefold still_env (cr_login body) = e_casefold still_env (lit ''ann'') \<and> answered r)
     (login_all still_env (replicate 12 (\<lparr>cr_login = lit ''Ann'', cr_password = []\<rparr>, lit ''r'', [1])) sample_world)) \<le> 10"
  by (rule login_throttled) (simp add: one_window_def still_env_def seconds_def)

text \<open>
  C24: the accounts stay consistent. Creating, blocking and unblocking accounts and resetting a password,
  successful or not, keep every account under its own id, the logins unique up to case, and at least one
  administrator who is not blocked (for a new account: if the generated id is not taken).
\<close>

theorem accounts_kept:
  assumes "accounts_ok E (db w)" and "\<forall>k. tbl_get (db_user (db w)) (lit ''user'' @ 45 # e_uid E k) = None"
  shows "accounts_ok E (db (snd (create_user E a l n r p w))) \<and> accounts_ok E (db (snd (block_user E a l w))) \<and>
    accounts_ok E (db (snd (reset_password E a l p w))) \<and> accounts_ok E (db (snd (unblock_user E a l w)))"
proof (intro conjI)
  have "wp (create_user E a l n r p) (\<lambda>_ u. accounts_ok E (db u)) (\<lambda>_ u. accounts_ok E (db u)) w"
    unfolding create_user_def validate_account_def
    by (intro vc assms(1), unfold wp_transaction, rule wp_mono [OF accounts_create_body [OF assms(1)]])
      (use assms in \<open>auto split: option.split\<close>)
  then show "accounts_ok E (db (snd (create_user E a l n r p w)))" by (simp add: wp_const)
  have "keeps (on_db (accounts_ok E)) (block_user E a l)"
    unfolding block_user_def by (intro keeps_bnd keeps_validate keeps_ends accounts_block_body)
  then show "accounts_ok E (db (snd (block_user E a l w)))" using assms(1) by (simp add: keeps_def)
qed (use accounts_reset_unblock assms(1) in \<open>simp_all add: keeps_def\<close>)

definition account_world :: world where
  "account_world = sample_world\<lparr>db := empty_db\<lparr>db_user := [(lit ''u1'',
     \<lparr>u_actor = sample_actor, u_password_hash = lit ''secret-secret'', u_blocked = False\<rparr>),
     (lit ''u2'', \<lparr>u_actor = sample_actor\<lparr>act_user_id := lit ''u2'', act_login := lit ''bob'', act_role := WORKER\<rparr>,
        u_password_hash = lit ''other-secret'', u_blocked = False\<rparr>)],
     db_session := [(lit ''t'', \<lparr>s_user_id = lit ''u1'', s_csrf = [], s_created = 0, s_touched = 0\<rparr>),
       (lit ''t2'', \<lparr>s_user_id = lit ''u2'', s_csrf = [], s_created = 0, s_touched = 0\<rparr>)]\<rparr>\<rparr>"

lemma account_world_ok: "accounts_ok sample_env (db account_world)"
  by (auto simp: tbl_ok_Cons accounts_ok_def account_world_def sample_world_def empty_db_def users_keyed_def logins_unique_def
      admin_left_def is_active_admin_def sample_actor_def sample_env_def split: if_splits)

theorem accounts_kept_witness:
  "accounts_ok sample_env (db (snd (block_user sample_env (lit ''ann'') (lit ''ann'') account_world)))"
  using accounts_kept [OF account_world_ok]
  by (simp add: account_world_def sample_world_def empty_db_def sample_env_def)

text \<open>
  C33: blocking an account or resetting its password ends its sessions. After either operation has
  succeeded, no token of any kind authenticates as that login, at whatever time it is tried, until the
  state changes again.
\<close>

theorem revocation_ends_sessions:
  assumes "accounts_ok E (db w)" and "block_user E a login w = (Inr (), u) \<or> reset_password E a login p w = (Inr (), u)"
    and "authenticate E' token u = (Inr (s, actor), v)"
  shows "act_login actor \<noteq> login"
proof -
  have "keeps (on_db (accounts_ok E)) (block_user E a login)"
    unfolding block_user_def by (intro keeps_bnd keeps_validate keeps_ends accounts_block_body)
  then have "accounts_ok E (db (snd (block_user E a login w)))" using assms(1) by (simp add: keeps_def)
  moreover have "accounts_ok E (db (snd (reset_password E a login p w)))"
    using assms(1) accounts_reset_unblock(1) [of E E a login p] by (simp add: keeps_def)
  ultimately have "accounts_ok E (db u)" using assms(2) by (metis snd_conv)
  moreover have "signed_out login (db u)"
    using assms(2) block_signs_out [OF assms(1)] reset_signs_out [OF assms(1)] by (metis wp_run_Inr)
  ultimately have "revoked E login (db u)" by (simp add: revoked_def)
  from wp_run_Inr [OF revoked_authenticate [OF this] assms(3)] show ?thesis by simp
qed

definition reset_world :: world where
  "reset_world = snd (reset_password sample_env (lit ''ann'') (lit ''ann'') (lit ''secret-secret-2'') account_world)"

theorem revocation_ends_sessions_witness:
  "isl (fst (authenticate sample_env (Some (lit ''t'')) account_world)) = False \<and>
   isl (fst (authenticate sample_env (Some (lit ''t'')) reset_world)) \<and>
   act_login (snd (projr (fst (authenticate sample_env (Some (lit ''t2'')) reset_world)))) \<noteq> lit ''ann''"
proof (intro conjI)
  have r: "reset_password sample_env (lit ''ann'') (lit ''ann'') (lit ''secret-secret-2'') account_world = (Inr (), reset_world)"
  proof -
    have "fst (reset_password sample_env (lit ''ann'') (lit ''ann'') (lit ''secret-secret-2'') account_world) = Inr ()"
      by code_simp
    then show ?thesis unfolding reset_world_def by (metis prod.collapse)
  qed
  have "\<not> isl (fst (authenticate sample_env (Some (lit ''t2'')) reset_world))" by code_simp
  then have "authenticate sample_env (Some (lit ''t2'')) reset_world =
      (Inr (fst (projr (fst (authenticate sample_env (Some (lit ''t2'')) reset_world))),
            snd (projr (fst (authenticate sample_env (Some (lit ''t2'')) reset_world)))),
       snd (authenticate sample_env (Some (lit ''t2'')) reset_world))"
    by (metis prod.collapse sum.collapse(2))
  from revocation_ends_sessions [OF account_world_ok disjI2 [OF r] this]
  show "act_login (snd (projr (fst (authenticate sample_env (Some (lit ''t2'')) reset_world)))) \<noteq> lit ''ann''" .
qed code_simp+

text \<open>
  C34: a session lives exactly from its login to its logout or its end. After a successful login and any sequence of
  requests that log in, touch or log out any sessions, with any faults and killed processes, the token
  authenticates as the account that logged in while the clock is before both the absolute end, counted from the
  login, and the idle end, counted from the last committed touch of this session, unless a logout of it was
  committed; otherwise it is refused. Tokens and their digests are taken to be distinct.
\<close>

theorem session_lives:
  assumes "accounts_ok E (db w)" and "inj (\<lambda>k. e_token_key E (e_token E k))"
    and "login_user E body request_id address w = (Inr (dto, token), u)"
  shows "let v = after_uses E uses u; now = e_clock E (tick v); start = e_clock E (tick w);
      refused = Inl (api UNAUTHENTICATED 401) in
    act_login (sd_actor dto) = cr_login body \<and>
    fst (authenticate E (Some token) v) =
      (case last_use E token uses u (Some start) of
         None \<Rightarrow> refused
       | Some t \<Rightarrow>
           if now < start + seconds (st_absolute_session_seconds (e_settings E)) \<and>
              now < t + seconds (st_idle_session_seconds (e_settings E))
           then Inr (\<lparr>s_user_id = act_user_id (sd_actor dto), s_csrf = sd_csrf_token dto, s_created = start, s_touched = t\<rparr>,
             sd_actor dto)
           else refused)"
proof -
  let ?start = "e_clock E (tick w)" and ?v = "after_uses E uses u"
  let ?base = "\<lparr>s_user_id = act_user_id (sd_actor dto), s_csrf = sd_csrf_token dto, s_created = ?start, s_touched = ?start\<rparr>"
  from wp_run_Inr [OF login_opens [OF assms(1)] assms(3)]
  have opened: "opened E (cr_login body) ?start dto token u" by simp
  then obtain k where k: "k < tick u" "token = e_token E k" by (auto simp: opened_def)
  have new: "e_token_key E (e_token E j) \<noteq> e_token_key E token" if "tick u \<le> j" for j
    using injD [OF assms(2), of j k] that k by auto
  have "session_state (e_token_key E token) (map_option (\<lambda>t. ?base\<lparr>s_touched := t\<rparr>) (Some ?start)) (db_user (db u)) (tick u) u"
    using opened by (simp add: session_state_def opened_def)
  from uses_state [OF this new, of uses]
  have "tbl_get (db_session (db ?v)) (e_token_key E token) =
      map_option (\<lambda>t. ?base\<lparr>s_touched := t\<rparr>) (last_use E token uses u (Some ?start))"
    and "db_user (db ?v) = db_user (db u)" by (simp_all add: session_state_def)
  moreover obtain a where "tbl_get (db_user (db u)) (act_user_id (sd_actor dto)) = Some a" "u_actor a = sd_actor dto" "\<not> u_blocked a"
    using opened by (auto simp: opened_def)
  ultimately show ?thesis
    using opened by (cases "last_use E token uses u (Some ?start)")
      (auto simp: authenticate_def bnd_def read_clock_def get_row_def asks_def ensure_def ret_def raise_def session_end_def opened_def Let_def)
qed

definition ann_login :: "(exn + session_dto \<times> ustr) \<times> world" where
  "ann_login = login_user sample_env \<lparr>cr_login = lit ''ann'', cr_password = lit ''secret-secret''\<rparr> (lit ''r'') [1] account_world"

definition ann_uses :: "ustr \<Rightarrow> session_use list" where
  "ann_uses token = [Touch token, Log_in \<lparr>cr_login = lit ''bob'', cr_password = lit ''other-secret''\<rparr> (lit ''r2'') [2], Touch (lit ''t2'')]"

theorem session_lives_witness:
  "\<exists>dto token. fst ann_login = Inr (dto, token) \<and>
    map_sum id snd (fst (authenticate sample_env (Some token) (after_uses sample_env (ann_uses token) (snd ann_login)))) = Inr (sd_actor dto) \<and>
    fst (authenticate sample_env (Some token) (after_uses sample_env (ann_uses token @ [Log_out token sample_actor (lit ''r3'')]) (snd ann_login))) =
      Inl (api UNAUTHENTICATED 401)"
proof -
  let ?token = "snd (projr (fst ann_login))" and ?dto = "fst (projr (fst ann_login))"
  have "\<not> isl (fst ann_login)" by code_simp
  then have r: "fst ann_login = Inr (?dto, ?token)" by (metis prod.collapse sum.collapse(2))
  then have run: "login_user sample_env \<lparr>cr_login = lit ''ann'', cr_password = lit ''secret-secret''\<rparr> (lit ''r'') [1] account_world =
      (Inr (?dto, ?token), snd ann_login)" unfolding ann_login_def by (metis prod.collapse)
  have inj: "inj (\<lambda>k. e_token_key sample_env (e_token sample_env k))" by (simp add: inj_def sample_env_def)
  have live: "last_use sample_env ?token (ann_uses ?token) (snd ann_login) (Some 0) = Some (e_clock sample_env (tick (snd ann_login)))"
    and gone: "last_use sample_env ?token (ann_uses ?token @ [Log_out ?token sample_actor (lit ''r3'')]) (snd ann_login) (Some 0) = None"
    by code_simp+
  have "e_clock sample_env (tick (after_uses sample_env (ann_uses ?token) (snd ann_login))) < seconds (st_absolute_session_seconds (e_settings sample_env))"
    "e_clock sample_env (tick (after_uses sample_env (ann_uses ?token) (snd ann_login))) < e_clock sample_env (tick (snd ann_login)) +
      seconds (st_idle_session_seconds (e_settings sample_env))" by code_simp+
  moreover have "e_clock sample_env (tick account_world) = 0" by code_simp
  ultimately show ?thesis
    using r live gone session_lives [OF account_world_ok inj run, of "ann_uses ?token"]
      session_lives [OF account_world_ok inj run, of "ann_uses ?token @ [Log_out ?token sample_actor (lit ''r3'')]"]
    by (intro exI [of _ ?dto] exI [of _ ?token]) (simp add: Let_def)
qed

end
