(* ===== verification/Search_Index.thy ===== *)
theory Search_Index
  imports Search
begin

text \<open>
  \<open>search_index.py\<close>: the token postings, marker chains, fields and facet groups built once for a
  published generation, and the answers read from them. A row is the position of its item, which
  stands for the identity of the item object; Python dictionaries are the lists of their items.
  \<open>bisect_left\<close>, \<open>nsmallest\<close> and \<open>nlargest\<close> are written out by what they return. The
  lock and the laziness of the two rank tables are not modelled: they are recomputed.
\<close>

section \<open>Building\<close>

record search_index =
  sx_items :: "search_item list"
  sx_chains :: "(ustr list \<times> nat list) list"
  sx_postings :: "(ustr \<times> (nat \<times> nat) list) list"
  sx_fields :: "(nat \<times> ustr list) list list"
  sx_facets :: "(ustr list \<times> groups) list"

definition get_or :: "'v \<Rightarrow> ('k \<times> 'v) list \<Rightarrow> 'k \<Rightarrow> 'v" where
  "get_or z d k = (case map_of d k of None \<Rightarrow> z | Some v \<Rightarrow> v)"

definition append_position :: "ustr list \<Rightarrow> nat \<Rightarrow> (ustr list \<times> nat list) list \<Rightarrow> (ustr list \<times> nat list) list" where
  "append_position chain position by_chain = dict_set chain (get_or [] by_chain chain @ [position]) by_chain"

text \<open>The loop over the markers of one item; \<open>chain\<close> holds the ids before the marker.\<close>

fun add_markers ::
  "nat \<Rightarrow> ustr list \<Rightarrow> marker list \<Rightarrow> (ustr list \<times> nat list) list \<times> (ustr list \<times> groups) list \<Rightarrow>
   (ustr list \<times> nat list) list \<times> (ustr list \<times> groups) list" where
  "add_markers position chain [] s = s"
| "add_markers position chain (m # ms) (by_chain, facets) =
     (let facets' = dict_set chain (count_marker m (get_or [] facets chain)) facets;
          chain' = chain @ [mk_marker_id m]
      in add_markers position chain' ms (append_position chain' position by_chain, facets'))"

definition add_token :: "nat \<Rightarrow> nat \<Rightarrow> ustr \<Rightarrow> (ustr \<times> (nat \<times> nat) list) list \<Rightarrow> (ustr \<times> (nat \<times> nat) list) list" where
  "add_token position weight token postings =
     (let p = get_or [] postings token
      in dict_set token (dict_set position (max weight (get_or 0 p position)) p) postings)"

definition add_fields ::
  "nat \<Rightarrow> (nat \<times> ustr list) list \<Rightarrow> (ustr \<times> (nat \<times> nat) list) list \<Rightarrow> (ustr \<times> (nat \<times> nat) list) list" where
  "add_fields position streams postings =
     fold (\<lambda>(weight, ts). fold (add_token position weight) ts) streams postings"

definition add_item :: "chars \<Rightarrow> nat \<times> search_item \<Rightarrow> search_index \<Rightarrow> search_index" where
  "add_item C pi x =
     (let (position, item) = pi;
          (by_chain, facets) =
            add_markers position [] (it_markers item) (append_position [] position (sx_chains x), sx_facets x);
          streams = field_streams C item
      in x\<lparr>sx_chains := by_chain, sx_facets := facets, sx_fields := sx_fields x @ [streams],
           sx_postings := add_fields position streams (sx_postings x)\<rparr>)"

definition build_index :: "chars \<Rightarrow> search_item list \<Rightarrow> search_index" where
  "build_index C items =
     fold (add_item C) (enumerate 0 items)
       \<lparr>sx_items = items, sx_chains = [], sx_postings = [], sx_fields = [], sx_facets = []\<rparr>"

definition vocabulary :: "search_index \<Rightarrow> ustr list" where
  "vocabulary x = sort (map fst (sx_postings x))"

section \<open>Chains\<close>

definition positions :: "search_index \<Rightarrow> ustr list \<Rightarrow> exn + nat list" where
  "positions x selected =
     ebind (eguard (distinct selected) (api INVALID_MARKER_SELECTION 422)) (\<lambda>_.
     let ps = get_or [] (sx_chains x) selected in
     ebind (eguard (selected = [] \<or> ps \<noteq> []) (api INVALID_MARKER_SELECTION 422)) (\<lambda>_.
     Inr ps))"

definition selected_markers :: "search_index \<Rightarrow> ustr list \<Rightarrow> exn + marker list" where
  "selected_markers x selected =
     ebind (positions x selected) (\<lambda>ps.
     Inr (if selected \<noteq> [] then take (length selected) (it_markers (sx_items x ! hd ps)) else []))"

definition next_facet :: "chars \<Rightarrow> search_index \<Rightarrow> ustr list \<Rightarrow> ustr \<Rightarrow> exn + facet option" where
  "next_facet C x selected prefix =
     ebind (positions x selected) (\<lambda>_.
     Inr (facet_from_groups C (get_or [] (sx_facets x) selected) prefix))"

section \<open>Matching\<close>

definition bisect_left :: "'a::linorder list \<Rightarrow> 'a \<Rightarrow> nat" where
  "bisect_left xs x = length (takeWhile (\<lambda>y. y < x) xs)"

definition term_postings :: "search_index \<Rightarrow> ustr \<Rightarrow> (nat \<times> (nat \<times> nat) list) list" where
  "term_postings x term =
     (let vocab = vocabulary x in
      map (\<lambda>token. (if token = term then 2 else 1, get_or [] (sx_postings x) token))
        (takeWhile (\<lambda>token. starts_with token term) (drop (bisect_left vocab term) vocab)))"

definition allowed :: "nat list \<Rightarrow> ustr list \<Rightarrow> nat \<Rightarrow> bool" where
  "allowed ps selected position =
     (if selected = [] then True
      else let offset = bisect_left ps position in offset < length ps \<and> ps ! offset = position)"

text \<open>One term: \<open>scores\<close> is \<open>None\<close> before the first one.\<close>

definition admits :: "nat list \<Rightarrow> ustr list \<Rightarrow> (nat \<times> nat) list option \<Rightarrow> nat \<Rightarrow> bool" where
  "admits ps selected scores position =
     (case scores of Some s \<Rightarrow> position \<in> fst ` set s | None \<Rightarrow> allowed ps selected position)"

definition scan_postings ::
  "nat list \<Rightarrow> ustr list \<Rightarrow> (nat \<times> nat) list option \<Rightarrow> nat \<times> (nat \<times> nat) list \<Rightarrow> (nat \<times> nat) list \<Rightarrow> (nat \<times> nat) list" where
  "scan_postings ps selected scores mp matched =
     (let (multiplier, postings) = mp;
          candidates = (case scores of
              Some s \<Rightarrow> if length s < length postings then map fst s else map fst postings
            | None \<Rightarrow> map fst postings)
      in fold (\<lambda>position matched.
           case map_of postings position of
             None \<Rightarrow> matched
           | Some weight \<Rightarrow>
               if admits ps selected scores position
               then dict_set position (max (weight * multiplier) (get_or 0 matched position)) matched
               else matched) candidates matched)"

definition base_score :: "(nat \<times> nat) list option \<Rightarrow> nat \<Rightarrow> nat" where
  "base_score scores position = (case scores of None \<Rightarrow> 0 | Some s \<Rightarrow> get_or 0 s position)"

definition match_term ::
  "nat list \<Rightarrow> ustr list \<Rightarrow> (nat \<times> (nat \<times> nat) list) list \<Rightarrow> (nat \<times> nat) list option \<Rightarrow> (nat \<times> nat) list" where
  "match_term ps selected matches scores =
     map (\<lambda>(position, score). (position, base_score scores position + score))
       (fold (scan_postings ps selected scores) matches [])"

text \<open>\<open>if not scores: return []\<close> after every step: the empty result stays empty.\<close>

fun match_terms ::
  "nat list \<Rightarrow> ustr list \<Rightarrow> (nat \<times> (nat \<times> nat) list) list list \<Rightarrow> (nat \<times> nat) list option \<Rightarrow> (nat \<times> nat) list option" where
  "match_terms ps selected [] scores = scores"
| "match_terms ps selected (m # ms) scores =
     (let s = match_term ps selected m scores in
      if s = [] then Some [] else match_terms ps selected ms (Some s))"

definition smallest_postings :: "search_index \<Rightarrow> ustr list \<Rightarrow> (nat \<times> nat) list" where
  "smallest_postings x phrase = arg_min_list length (map (get_or [] (sx_postings x)) phrase)"

definition match_phrase ::
  "search_index \<Rightarrow> nat list \<Rightarrow> ustr list \<Rightarrow> ustr list \<Rightarrow> (nat \<times> nat) list option \<Rightarrow> (nat \<times> nat) list" where
  "match_phrase x ps selected phrase scores =
     (let smallest = smallest_postings x phrase;
          candidates = (case scores of
              Some s \<Rightarrow> if length s < length smallest then map fst s else map fst smallest
            | None \<Rightarrow> map fst smallest)
      in fold (\<lambda>position matched.
           if position \<notin> fst ` set smallest \<or> \<not> admits ps selected scores position then matched
           else
             let weights = phrase_weights (sx_fields x ! position) phrase in
             if weights = [] then matched
             else dict_set position (base_score scores position + 2 * length phrase * max_of weights) matched)
           candidates [])"

fun match_phrases ::
  "search_index \<Rightarrow> nat list \<Rightarrow> ustr list \<Rightarrow> ustr list list \<Rightarrow> (nat \<times> nat) list option \<Rightarrow> (nat \<times> nat) list option" where
  "match_phrases x ps selected [] scores = scores"
| "match_phrases x ps selected (p # phrases) scores =
     (let s = match_phrase x ps selected p scores in
      if s = [] then Some [] else match_phrases x ps selected phrases (Some s))"

text \<open>\<open>match\<close>: pairs of a position and its score, in the order of the positions.\<close>

definition match_query :: "search_index \<Rightarrow> query \<Rightarrow> ustr list \<Rightarrow> exn + (nat \<times> nat) list" where
  "match_query x q selected =
     ebind (positions x selected) (\<lambda>ps.
     let ms = sort_key (\<lambda>m. sum_list (map (length \<circ> snd) m)) (map (term_postings x) (qy_terms q)) in
     Inr (case match_terms ps selected ms None of
            Some [] \<Rightarrow> []
          | scores \<Rightarrow>
              (case match_phrases x ps selected (qy_phrases q) scores of
                 None \<Rightarrow> map (\<lambda>p. (p, 0)) ps
               | Some s \<Rightarrow> map (\<lambda>p. (p, get_or 0 s p)) (sort (map fst s)))))"

section \<open>Sorting with ranks\<close>

text \<open>The rank of an item is its place in the order of all items; equal names share a rank.\<close>

definition path_order :: "chars \<Rightarrow> search_index \<Rightarrow> nat list" where
  "path_order C x = sort_key (\<lambda>p. path_tie C (sx_items x ! p)) [0..<length (sx_items x)]"

definition path_rank :: "chars \<Rightarrow> search_index \<Rightarrow> nat \<Rightarrow> nat" where
  "path_rank C x p = length (takeWhile (\<lambda>q. q \<noteq> p) (path_order C x))"

text \<open>The loop that numbers the groups of equal name keys, from \<open>-1\<close> before the first.\<close>

fun group_ranks :: "('a \<Rightarrow> 'k) \<Rightarrow> 'k option \<Rightarrow> int \<Rightarrow> 'a list \<Rightarrow> ('a \<times> int) list" where
  "group_ranks key previous rank [] = []"
| "group_ranks key previous rank (p # ps) =
     (let k = key p; rank' = (if Some k = previous then rank else rank + 1)
      in (p, rank') # group_ranks key (Some k) rank' ps)"

definition name_rank :: "chars \<Rightarrow> search_index \<Rightarrow> nat \<Rightarrow> int" where
  "name_rank C x p =
     (let key = (\<lambda>q. natural_key C (it_filename (sx_items x ! q))) in
      get_or 0 (group_ranks key None (- 1) (sort_key key [0..<length (sx_items x)])) p)"

text \<open>\<open>nsmallest(limit, rows, key)\<close> and \<open>nlargest\<close>\<close>

definition select_rows :: "sort_direction \<Rightarrow> nat \<Rightarrow> ('a \<Rightarrow> 'k::linorder) \<Rightarrow> 'a list \<Rightarrow> 'a list" where
  "select_rows direction limit key rows = take limit (sort_dir direction key rows)"

definition sort_limited ::
  "chars \<Rightarrow> search_index \<Rightarrow> (nat \<times> nat) list \<Rightarrow> sort_field \<Rightarrow> sort_direction \<Rightarrow> nat \<Rightarrow> exn + search_item list" where
  "sort_limited C x rows field direction limit =
     (let item = (\<lambda>r. sx_items x ! fst r) in
      if length rows \<le> limit then sort_rows C (map (\<lambda>r. (item r, snd r)) rows) field direction
      else
        ebind (check_sort field direction) (\<lambda>_.
        let rank = (\<lambda>r. path_rank C x (fst r));
            tie = (\<lambda>r. if direction = DESC then - int (rank r) else int (rank r)) in
        Inr (map item
          (case field of
             PATH \<Rightarrow> select_rows direction limit rank rows
           | RELEVANCE \<Rightarrow> select_rows direction limit (\<lambda>r. (snd r, tie r)) rows
           | NAME \<Rightarrow> select_rows direction limit (\<lambda>r. (name_rank C x (fst r), tie r)) rows
           | SIZE \<Rightarrow> select_rows direction limit (\<lambda>r. (it_size_bytes (item r), tie r)) rows
           | _ \<Rightarrow> select_rows direction limit (\<lambda>r. (it_modified_at (item r), tie r)) rows))))"

end
