(* ===== verification/Search_Answer.thy ===== *)
theory Search_Answer
  imports Search_Index
begin

text \<open>
  The answers of \<open>search.py\<close> over a published root and its items, with or without a prepared index.
  A prepared index of other items is refused; that it is the same list object is modelled by the
  equality of the lists.
\<close>

datatype search_mode = IDLE | RESULTS

record search_response =
  sr_request_state_id :: ustr
  sr_mode :: search_mode
  sr_root_id :: ustr
  sr_schema_set_version :: ustr
  sr_index_generation :: ustr
  sr_applied_query_text :: ustr
  sr_selected_markers :: "marker list"
  sr_total :: "nat option"
  sr_returned_count :: nat
  sr_result_limit :: nat
  sr_limited :: bool
  sr_items :: "search_item list"
  sr_next_facet :: "facet option"
  sr_indexed_at :: ustr

definition idle_response :: "published_root \<Rightarrow> search_request \<Rightarrow> nat \<Rightarrow> facet option \<Rightarrow> search_response" where
  "idle_response root request limit next =
     \<lparr>sr_request_state_id = rq_request_state_id request, sr_mode = IDLE, sr_root_id = pb_root_id root,
      sr_schema_set_version = pb_schema_set_version root, sr_index_generation = pb_index_generation root,
      sr_applied_query_text = [], sr_selected_markers = [], sr_total = None, sr_returned_count = 0,
      sr_result_limit = limit, sr_limited = False, sr_items = [], sr_next_facet = next,
      sr_indexed_at = pb_indexed_at root\<rparr>"

definition results_response ::
  "published_root \<Rightarrow> search_request \<Rightarrow> nat \<Rightarrow> query \<Rightarrow> marker list \<Rightarrow> nat \<Rightarrow> search_item list \<Rightarrow> facet option \<Rightarrow> search_response" where
  "results_response root request limit q chosen matched returned next =
     \<lparr>sr_request_state_id = rq_request_state_id request, sr_mode = RESULTS, sr_root_id = pb_root_id root,
      sr_schema_set_version = pb_schema_set_version root, sr_index_generation = pb_index_generation root,
      sr_applied_query_text = qy_applied q, sr_selected_markers = chosen, sr_total = Some matched,
      sr_returned_count = length returned, sr_result_limit = limit, sr_limited = (limit < matched),
      sr_items = returned, sr_next_facet = next, sr_indexed_at = pb_indexed_at root\<rparr>"

definition has_text :: "query \<Rightarrow> bool" where
  "has_text q \<longleftrightarrow> qy_terms q \<noteq> [] \<or> qy_phrases q \<noteq> []"

text \<open>Matching by scanning the candidates.\<close>

definition scan_items :: "chars \<Rightarrow> query \<Rightarrow> search_item list \<Rightarrow> (search_item \<times> nat) list" where
  "scan_items C q candidates =
     List.map_filter (\<lambda>item. map_option (\<lambda>score. (item, score)) (matches_and_score C item q)) candidates"

definition check_prepared :: "search_item list \<Rightarrow> search_index option \<Rightarrow> exn + unit" where
  "check_prepared items prepared =
     eguard (case prepared of None \<Rightarrow> True | Some x \<Rightarrow> sx_items x = items) PyValueError"

text \<open>
  \<open>search\<close>. The common part is the query and its checks; then the two ways through the branches
  of the code on \<open>prepared\<close>, each with the idle and the result case.
\<close>

definition search_scanning ::
  "chars \<Rightarrow> published_root \<Rightarrow> search_item list \<Rightarrow> search_request \<Rightarrow> nat \<Rightarrow> query \<Rightarrow> exn + search_response" where
  "search_scanning C root items request limit q =
     (let selected = rq_selected_marker_ids request; prefix = rq_facet_prefix request;
          idle = (selected = [] \<and> \<not> has_text q) in
      ebind (selected_chain items selected) (\<lambda>candidates.
      let chosen = (if selected \<noteq> [] \<and> candidates \<noteq> []
                    then take (length selected) (it_markers (hd candidates)) else []) in
      ebind (eguard (rq_sort_field request \<noteq> RELEVANCE \<or> has_text q) (api INVALID_QUERY 400)) (\<lambda>_.
      if idle then Inr (idle_response root request limit (facet_of C candidates (length selected) prefix))
      else
        let matching = scan_items C q candidates;
            next = facet_of C (map fst matching) (length selected) prefix in
        ebind (sort_rows C matching (rq_sort_field request) (rq_sort_direction request)) (\<lambda>rows.
        Inr (results_response root request limit q chosen (length matching) (take limit rows) next)))))"

definition search_prepared ::
  "chars \<Rightarrow> published_root \<Rightarrow> search_index \<Rightarrow> search_request \<Rightarrow> nat \<Rightarrow> query \<Rightarrow> exn + search_response" where
  "search_prepared C root x request limit q =
     (let selected = rq_selected_marker_ids request; prefix = rq_facet_prefix request;
          idle = (selected = [] \<and> \<not> has_text q) in
      ebind (selected_markers x selected) (\<lambda>chosen.
      ebind (eguard (rq_sort_field request \<noteq> RELEVANCE \<or> has_text q) (api INVALID_QUERY 400)) (\<lambda>_.
      if idle then
        ebind (next_facet C x selected prefix) (\<lambda>next.
        Inr (idle_response root request limit next))
      else
        ebind (match_query x q selected) (\<lambda>matching.
        let next = facet_of C (map (\<lambda>r. sx_items x ! fst r) matching) (length selected) prefix in
        ebind (sort_limited C x matching (rq_sort_field request) (rq_sort_direction request) limit) (\<lambda>returned.
        Inr (results_response root request limit q chosen (length matching) returned next))))))"

definition search ::
  "chars \<Rightarrow> published_root \<Rightarrow> search_item list \<Rightarrow> search_request \<Rightarrow> nat \<Rightarrow> search_index option \<Rightarrow> exn + search_response" where
  "search C root items request limit prepared =
     ebind (validate_context root request) (\<lambda>_.
     ebind (check_prepared items prepared) (\<lambda>_.
     ebind (eguard (1 \<le> limit) PyValueError) (\<lambda>_.
     ebind (parse_query C (rq_query_text request)) (\<lambda>q.
     case prepared of
       None \<Rightarrow> search_scanning C root items request limit q
     | Some x \<Rightarrow> search_prepared C root x request limit q))))"

record facet_response =
  fr_request_state_id :: ustr
  fr_root_id :: ustr
  fr_schema_set_version :: ustr
  fr_index_generation :: ustr
  fr_facet :: "facet option"

definition facet_answer ::
  "chars \<Rightarrow> published_root \<Rightarrow> search_item list \<Rightarrow> search_request \<Rightarrow> search_index option \<Rightarrow> exn + facet_response" where
  "facet_answer C root items request prepared =
     ebind (validate_context root request) (\<lambda>_.
     ebind (check_prepared items prepared) (\<lambda>_.
     ebind (parse_query C (rq_query_text request)) (\<lambda>q.
     let selected = rq_selected_marker_ids request; prefix = rq_facet_prefix request in
     ebind
       (case prepared of
          Some x \<Rightarrow>
            if \<not> has_text q then next_facet C x selected prefix
            else
              ebind (match_query x q selected) (\<lambda>matching.
              Inr (facet_of C (map (\<lambda>r. sx_items x ! fst r) matching) (length selected) prefix))
        | None \<Rightarrow>
            ebind (selected_chain items selected) (\<lambda>candidates.
            Inr (facet_of C (filter (\<lambda>item. matches_and_score C item q \<noteq> None) candidates) (length selected) prefix)))
       (\<lambda>result.
     Inr \<lparr>fr_request_state_id = rq_request_state_id request, fr_root_id = pb_root_id root,
          fr_schema_set_version = pb_schema_set_version root, fr_index_generation = pb_index_generation root,
          fr_facet = result\<rparr>))))"

section \<open>The response cache\<close>

text \<open>
  \<open>search_cache.py\<close>: values are payloads with an expiry in the order of use (the \<open>OrderedDict\<close>);
  a payload is represented by the response it encodes and its length. The locks are not modelled:
  an operation is one step, and what \<open>compute\<close> returns is an argument. The request id, which a
  hit replaces in the stored response, is not part of the value.
\<close>

record 'v cache =
  ca_max_bytes :: nat
  ca_max_entries :: nat
  ca_ttl :: int
  ca_values :: "(ustr \<times> int \<times> nat \<times> 'v) list"
  ca_bytes :: nat

definition drop_key :: "ustr \<Rightarrow> (ustr \<times> 'b) list \<Rightarrow> (ustr \<times> 'b) list" where
  "drop_key k vs = filter (\<lambda>r. fst r \<noteq> k) vs"

text \<open>\<open>values.pop(key)\<close>, then back at the end if it is still alive.\<close>

definition cache_lookup :: "'v cache \<Rightarrow> ustr \<Rightarrow> int \<Rightarrow> 'v option \<times> 'v cache" where
  "cache_lookup c k now =
     (case map_of (ca_values c) k of
        None \<Rightarrow> (None, c)
      | Some (expires, len, v) \<Rightarrow>
          let c' = c\<lparr>ca_values := drop_key k (ca_values c), ca_bytes := ca_bytes c - len\<rparr> in
          if now < expires
          then (Some v, c'\<lparr>ca_values := ca_values c' @ [(k, expires, len, v)], ca_bytes := ca_bytes c' + len\<rparr>)
          else (None, c'))"

text \<open>The oldest entries make room: \<open>popitem(last=False)\<close> until the new payload fits.\<close>

fun evict :: "nat \<Rightarrow> nat \<Rightarrow> nat \<Rightarrow> (ustr \<times> int \<times> nat \<times> 'v) list \<times> nat \<Rightarrow> (ustr \<times> int \<times> nat \<times> 'v) list \<times> nat" where
  "evict max_bytes max_entries len ([], bytes) = ([], bytes)"
| "evict max_bytes max_entries len ((k, e, n, v) # vs, bytes) =
     (if bytes + len > max_bytes \<or> length ((k, e, n, v) # vs) \<ge> max_entries
      then evict max_bytes max_entries len (vs, bytes - n) else ((k, e, n, v) # vs, bytes))"

definition cache_store :: "'v cache \<Rightarrow> ustr \<Rightarrow> int \<Rightarrow> nat \<Rightarrow> 'v \<Rightarrow> 'v cache" where
  "cache_store c k now len v =
     (if len \<le> ca_max_bytes c then
        let (vs, bytes) = evict (ca_max_bytes c) (ca_max_entries c) len (ca_values c, ca_bytes c);
            bytes' = bytes + len
        in c\<lparr>ca_values := dict_set k (now + ca_ttl c, len, v) vs, ca_bytes := bytes'\<rparr>
      else c)"

text \<open>\<open>get\<close>: the value of the request and the cache afterwards; \<open>computed\<close> is the result and its size.\<close>

definition cache_get :: "'v cache \<Rightarrow> ustr \<Rightarrow> int \<Rightarrow> int \<Rightarrow> 'v \<times> nat \<Rightarrow> 'v \<times> 'v cache" where
  "cache_get c k now later computed =
     (if ca_max_bytes c = 0 then (fst computed, c)
      else
        (case cache_lookup c k now of
           (Some v, c') \<Rightarrow> (v, c')
         | (None, c') \<Rightarrow> (fst computed, cache_store c' k later (snd computed) (fst computed))))"

end
