(* ===== verification/Search_Matching.thy ===== *)
theory Search_Matching
  imports Search_Answer "HOL-Library.Multiset"
begin

text \<open>
  The prepared index against the scan: what the built index holds (\<open>loaded\<close>), that a term's
  postings contribute to a position exactly what scanning its fields would, and that matching a
  query in the index gives the rows of the scan over the selected chain, in their order.
\<close>

section \<open>Dictionaries\<close>

lemma map_of_dict_set [simp]: "map_of (dict_set k v d) j = (if j = k then Some v else map_of d j)"
  by (induction d) auto

lemma keys_dict_set: "fst ` set (dict_set k v d) = insert k (fst ` set d)"
  by (induction d) auto

lemma distinct_dict_set: "distinct (map fst d) \<Longrightarrow> distinct (map fst (dict_set k v d))"
proof (induction d)
  case (Cons r d)
  then show ?case using keys_dict_set [of k v d] by auto
qed simp

lemma get_or_dict_set [simp]: "get_or z (dict_set k v d) j = (if j = k then v else get_or z d j)"
  by (simp add: get_or_def)

lemma get_or_Nil [simp]: "get_or z [] k = z"
  by (simp add: get_or_def)

section \<open>Maxima\<close>

lemma max_of_le: "max_of xs \<le> n \<longleftrightarrow> (\<forall>x\<in>set xs. x \<le> n)"
  by (induction xs) (auto simp: max_of_def)

lemma max_of_cong: "set xs = set ys \<Longrightarrow> max_of xs = max_of ys"
  by (metis dual_order.antisym max_of_le order_refl)

lemma max_of_simps [simp]: "max_of [] = 0" "max_of (x # xs) = max x (max_of xs)"
  by (simp_all add: max_of_def)

lemma max_of_append [simp]: "max_of (xs @ ys) = max (max_of xs) (max_of ys)"
  by (induction xs) auto

section \<open>Chains and facets of the built index\<close>

definition has_chain :: "ustr list \<Rightarrow> search_item \<Rightarrow> bool" where
  "has_chain sel item \<longleftrightarrow> length sel \<le> length (it_markers item) \<and> take (length sel) (marker_ids item) = sel"

definition chain_groups :: "ustr list \<Rightarrow> search_item list \<Rightarrow> groups" where
  "chain_groups sel items = foldl (\<lambda>grouped item. if length (it_markers item) \<le> length sel then grouped
      else count_marker (it_markers item ! length sel) grouped) [] (filter (has_chain sel) items)"

text \<open>What the loop over the markers adds, seen at one chain.\<close>

lemma add_markers_chain:
  assumes "add_markers p chain ms (by_chain, facets) = (by_chain', facets')"
  shows "get_or [] by_chain' sel =
      get_or [] by_chain sel @ (if length chain < length sel \<and> length sel \<le> length chain + length ms \<and>
        sel = take (length sel) (chain @ map mk_marker_id ms) then [p] else [])"
    and "get_or [] facets' sel =
      (if length chain \<le> length sel \<and> length sel < length chain + length ms \<and>
          sel = take (length sel) (chain @ map mk_marker_id ms)
       then count_marker (ms ! (length sel - length chain)) (get_or [] facets sel) else get_or [] facets sel)"
  using assms
proof (induction p chain ms "(by_chain, facets)" arbitrary: by_chain facets rule: add_markers.induct)
  case (2 p chain m ms by_chain facets)
  let ?c = "chain @ [mk_marker_id m]" and ?f = "dict_set chain (count_marker m (get_or [] facets chain)) facets"
  {
    case 1
    from 1 have r: "add_markers p ?c ms (append_position ?c p by_chain, ?f) = (by_chain', facets')" by (simp add: Let_def)
    show ?case
    proof (cases "length sel = Suc (length chain)")
      case True
      then show ?thesis using "2.hyps"(1) [OF refl refl r] by (auto simp: append_position_def)
    next
      case False
      then have "sel \<noteq> ?c" by auto
      then show ?thesis using False "2.hyps"(1) [OF refl refl r] by (auto simp: append_position_def)
    qed
  next
    case 2
    from 2 have r: "add_markers p ?c ms (append_position ?c p by_chain, ?f) = (by_chain', facets')" by (simp add: Let_def)
    show ?case
    proof (cases "length sel \<le> length chain")
      case True
      then have "sel = take (length sel) (chain @ mk_marker_id m # map mk_marker_id ms) \<and> length chain \<le> length sel \<longleftrightarrow> sel = chain" by auto
      then show ?thesis using True "2.hyps"(2) [OF refl refl r] by auto
    next
      case False
      then have "length sel - length chain = Suc (length sel - Suc (length chain))" "sel \<noteq> chain" by auto
      then show ?thesis using False "2.hyps"(2) [OF refl refl r] by auto
    qed
  }
qed auto

section \<open>Postings of the built index\<close>

abbreviation weight_in :: "(ustr \<times> (nat \<times> nat) list) list \<Rightarrow> ustr \<Rightarrow> nat \<Rightarrow> nat option" where
  "weight_in postings tok p \<equiv> map_of (get_or [] postings tok) p"

definition stream_weights :: "(nat \<times> ustr list) list \<Rightarrow> ustr \<Rightarrow> nat list" where
  "stream_weights streams tok = map fst (filter (\<lambda>s. tok \<in> set (snd s)) streams)"

definition token_weight :: "(nat \<times> ustr list) list \<Rightarrow> ustr \<Rightarrow> nat option" where
  "token_weight streams tok = (if stream_weights streams tok = [] then None else Some (max_of (stream_weights streams tok)))"

definition postings_ok :: "(ustr \<times> (nat \<times> nat) list) list \<Rightarrow> bool" where
  "postings_ok postings \<longleftrightarrow> distinct (map fst postings) \<and> (\<forall>t\<in>set postings. snd t \<noteq> [] \<and> distinct (map fst (snd t)))"

lemma postings_ok_get: "postings_ok postings \<Longrightarrow> distinct (map fst (get_or [] postings tok))"
  by (auto simp: postings_ok_def get_or_def split: option.split dest: map_of_SomeD)

lemma set_dict_set: "set (dict_set k v d) \<subseteq> insert (k, v) (set d)"
  by (induction d) auto

lemma dict_set_nonempty [simp]: "dict_set k v d \<noteq> []"
  by (cases d) auto

lemma postings_ok_add: "postings_ok postings \<Longrightarrow> postings_ok (add_token p w t postings)"
  using postings_ok_get [of postings t] set_dict_set [of t _ postings]
  unfolding postings_ok_def add_token_def Let_def
  by (fastforce intro: distinct_dict_set)

lemma postings_ok_fields: "postings_ok postings \<Longrightarrow> postings_ok (add_fields p streams postings)"
proof -
  have inner: "postings_ok q \<Longrightarrow> postings_ok (fold (add_token p w) ts q)" for w ts q
    by (induction ts arbitrary: q) (auto intro: postings_ok_add)
  show "postings_ok postings \<Longrightarrow> postings_ok (add_fields p streams postings)"
    unfolding add_fields_def by (induction streams arbitrary: postings) (auto intro: inner)
qed

lemma weight_add_token:
  "weight_in (add_token p w t postings) tok q =
     (if tok = t \<and> q = p then Some (max w (get_or 0 (get_or [] postings t) p)) else weight_in postings tok q)"
  by (auto simp: add_token_def Let_def)

lemma weight_add_tokens:
  "weight_in (fold (add_token p w) ts postings) tok q =
     (if tok \<in> set ts \<and> q = p then Some (max w (get_or 0 (get_or [] postings tok) p)) else weight_in postings tok q)"
proof (induction ts arbitrary: postings)
  case (Cons t ts)
  show ?case
    unfolding fold.simps comp_apply Cons.IH weight_add_token by (auto simp: get_or_def [of 0] weight_add_token)
qed simp

lemma weight_add_fields:
  "weight_in (add_fields p streams postings) tok q =
     (if stream_weights streams tok \<noteq> [] \<and> q = p
      then Some (max (max_of (stream_weights streams tok)) (get_or 0 (get_or [] postings tok) p)) else weight_in postings tok q)"
proof (induction streams arbitrary: postings)
  case (Cons s streams)
  obtain w ts where s: "s = (w, ts)" by (cases s)
  have fields: "add_fields p (s # streams) postings = add_fields p streams (fold (add_token p w) ts postings)"
    by (simp add: add_fields_def s)
  show ?case
    unfolding fields Cons.IH
    by (auto simp: s stream_weights_def weight_add_tokens get_or_def [of 0] max.assoc max.left_commute max.commute)
qed (simp add: add_fields_def stream_weights_def)


section \<open>The built index\<close>

definition loaded :: "chars \<Rightarrow> search_item list \<Rightarrow> search_index \<Rightarrow> bool" where
  "loaded C xs x \<longleftrightarrow>
     (\<forall>sel. get_or [] (sx_chains x) sel = filter (\<lambda>p. has_chain sel (xs ! p)) [0..<length xs]) \<and>
     (\<forall>sel. get_or [] (sx_facets x) sel = chain_groups sel xs) \<and>
     sx_fields x = map (field_streams C) xs \<and> postings_ok (sx_postings x) \<and>
     (\<forall>tok p. weight_in (sx_postings x) tok p = (if p < length xs then token_weight (field_streams C (xs ! p)) tok else None))"

lemma take_marker_ids: "take n (marker_ids i) = take n (map mk_marker_id (it_markers i))"
  by (simp add: marker_ids_def)

lemma filter_upt_snoc:
  "filter (\<lambda>p. Q ((xs @ [i]) ! p)) [0..<Suc (length xs)] = filter (\<lambda>p. Q (xs ! p)) [0..<length xs] @ (if Q i then [length xs] else [])"
  by (auto simp: nth_append intro!: filter_cong)

lemma loaded_add:
  assumes x: "loaded C xs x"
  shows "loaded C (xs @ [i]) (add_item C (length xs, i) x)"
proof -
  let ?n = "length xs"
  obtain by_chain facets where a: "add_markers ?n [] (it_markers i) (append_position [] ?n (sx_chains x), sx_facets x) = (by_chain, facets)"
    by fastforce
  have add: "add_item C (?n, i) x = x\<lparr>sx_chains := by_chain, sx_facets := facets, sx_fields := sx_fields x @ [field_streams C i],
      sx_postings := add_fields ?n (field_streams C i) (sx_postings x)\<rparr>"
    by (simp add: add_item_def a Let_def)
  have chain: "get_or [] by_chain sel = get_or [] (sx_chains x) sel @ (if has_chain sel i then [?n] else [])" for sel
    using add_markers_chain(1) [OF a, of sel]
    by (cases "sel = []") (auto simp: append_position_def has_chain_def take_marker_ids)
  have groups: "get_or [] facets sel = (if has_chain sel i \<and> length sel < length (it_markers i)
      then count_marker (it_markers i ! length sel) (get_or [] (sx_facets x) sel) else get_or [] (sx_facets x) sel)" for sel
    using add_markers_chain(2) [OF a, of sel] by (auto simp: has_chain_def take_marker_ids)
  have "weight_in (add_fields ?n (field_streams C i) (sx_postings x)) tok p =
      (if p < Suc ?n then token_weight (field_streams C ((xs @ [i]) ! p)) tok else None)" for tok p
    using x by (auto simp: weight_add_fields loaded_def token_weight_def nth_append get_or_def [of 0] less_Suc_eq)
  moreover have "get_or [] facets sel = chain_groups sel (xs @ [i])" for sel
    using x groups [of sel] by (auto simp: loaded_def chain_groups_def)
  moreover have "get_or [] by_chain sel = filter (\<lambda>p. has_chain sel ((xs @ [i]) ! p)) [0..<Suc ?n]" for sel
    using x chain [of sel] unfolding filter_upt_snoc [of "has_chain sel"] by (simp add: loaded_def)
  ultimately show ?thesis
    using x postings_ok_fields [of "sx_postings x" ?n "field_streams C i"]
    unfolding loaded_def add by simp
qed

lemma loaded_build: "loaded C items (build_index C items)"
proof -
  let ?x = "\<lambda>its. \<lparr>sx_items = its, sx_chains = [], sx_postings = [], sx_fields = [], sx_facets = []\<rparr> :: search_index"
  have "loaded C xs (fold (add_item C) (enumerate 0 xs) (?x its))" for xs its
  proof (induction xs rule: rev_induct)
    case Nil
    show ?case by (simp add: loaded_def chain_groups_def postings_ok_def)
  next
    case (snoc i xs)
    then show ?case by (simp add: enumerate_append_eq loaded_add)
  qed
  then show ?thesis by (simp add: build_index_def)
qed

lemma build_items: "sx_items (build_index C items) = items"
proof -
  have "sx_items (add_item C pi x) = sx_items x" for pi x
    by (simp add: add_item_def Let_def split: prod.split)
  then have "sx_items (fold (add_item C) ps x) = sx_items x" for ps x
    by (induction ps arbitrary: x) auto
  then show ?thesis by (simp add: build_index_def)
qed


section \<open>Chains\<close>

definition chain_positions :: "search_item list \<Rightarrow> ustr list \<Rightarrow> nat list" where
  "chain_positions items sel = filter (\<lambda>p. has_chain sel (items ! p)) [0..<length items]"

lemma map_filter_nth: "map ((!) xs) (filter (\<lambda>p. P (xs ! p)) [0..<length xs]) = filter P xs"
proof -
  have "filter P xs = filter P (map ((!) xs) [0..<length xs])" by (simp add: map_nth)
  also have "\<dots> = map ((!) xs) (filter (\<lambda>p. P (xs ! p)) [0..<length xs])" by (simp add: filter_map comp_def)
  finally show ?thesis by simp
qed

lemma chain_positions_items: "map ((!) items) (chain_positions items sel) = filter (has_chain sel) items"
  unfolding chain_positions_def by (rule map_filter_nth)

lemma has_chain_Nil [simp]: "has_chain [] item"
  by (simp add: has_chain_def)

lemma has_chain_last: "has_chain sel item \<Longrightarrow> sel \<noteq> [] \<Longrightarrow> last sel \<in> set (marker_ids item)"
  unfolding has_chain_def by (metis in_set_takeD last_in_set)

lemma selected_chain_alt:
  "selected_chain items sel =
     (if \<not> distinct sel \<or> sel \<noteq> [] \<and> filter (has_chain sel) items = [] then Inl (api INVALID_MARKER_SELECTION 422)
      else Inr (filter (has_chain sel) items))"
proof -
  have "\<exists>item\<in>set items. last sel \<in> set (marker_ids item)" if "sel \<noteq> []" "filter (has_chain sel) items \<noteq> []"
    using that has_chain_last by (fastforce simp: filter_empty_conv)
  moreover have "filter (\<lambda>item. length sel \<le> length (it_markers item) \<and> take (length sel) (marker_ids item) = sel) items =
    filter (has_chain sel) items" by (rule filter_cong) (simp_all add: has_chain_def)
  ultimately show ?thesis
    by (auto simp: selected_chain_def eguard_def Let_def)
qed

lemma positions_alt:
  assumes "loaded C items x"
  shows "positions x sel =
     (if \<not> distinct sel \<or> sel \<noteq> [] \<and> filter (has_chain sel) items = [] then Inl (api INVALID_MARKER_SELECTION 422)
      else Inr (chain_positions items sel))"
proof -
  have "get_or [] (sx_chains x) sel = chain_positions items sel"
    using assms by (simp add: loaded_def chain_positions_def)
  moreover have "chain_positions items sel = [] \<longleftrightarrow> filter (has_chain sel) items = []"
    by (metis chain_positions_items map_is_Nil_conv)
  ultimately show ?thesis by (auto simp: positions_def eguard_def)
qed

lemma chain_positions_sorted: "sorted_wrt (<) (chain_positions items sel)"
  unfolding chain_positions_def by (intro sorted_wrt_filter) simp

lemma set_chain_positions: "p \<in> set (chain_positions items sel) \<longleftrightarrow> p < length items \<and> has_chain sel (items ! p)"
  by (auto simp: chain_positions_def)

section \<open>Bisection\<close>

lemma drop_bisect: "drop (bisect_left xs x) xs = dropWhile (\<lambda>y. y < x) xs"
  by (simp add: bisect_left_def dropWhile_eq_drop)

lemma bisect_member:
  assumes "sorted xs"
  shows "bisect_left xs x < length xs \<and> xs ! bisect_left xs x = x \<longleftrightarrow> x \<in> set xs"
proof (cases "dropWhile (\<lambda>y. y < x) xs")
  case Nil
  then have "\<forall>y\<in>set xs. y < x" by (simp add: dropWhile_eq_Nil_conv)
  moreover have "\<not> bisect_left xs x < length xs" using calculation
    by (simp add: bisect_left_def) (metis less_irrefl takeWhile_eq_all_conv)
  ultimately show ?thesis by auto
next
  case (Cons z zs)
  let ?b = "bisect_left xs x"
  have d: "drop ?b xs = z # zs" using Cons drop_bisect by metis
  then have b: "?b < length xs" "xs ! ?b = z" by (metis drop_all leI list.distinct(1), metis d nth_via_drop)
  have "\<not> z < x" using Cons by (metis hd_dropWhile list.distinct(1) list.sel(1))
  have "set xs = set (takeWhile (\<lambda>y. y < x) xs) \<union> set (z # zs)" using Cons by (metis set_append takeWhile_dropWhile_id)
  moreover have "sorted (z # zs)" using assms d by (metis sorted_wrt_drop)
  ultimately have "x \<in> set xs \<longleftrightarrow> z = x"
    using \<open>\<not> z < x\<close> by (auto dest: set_takeWhileD)
  with b show ?thesis by auto
qed

lemma allowed_positions:
  "sorted_wrt (<) ps \<Longrightarrow> allowed ps sel p \<longleftrightarrow> sel = [] \<or> p \<in> set ps"
  using bisect_member [of ps p] by (auto simp: allowed_def Let_def strict_sorted_iff)


section \<open>The postings of a term\<close>

lemma starts_with_simps [simp]: "starts_with s []" "starts_with [] (c # t) = False"
  "starts_with (a # s) (c # t) = (a = c \<and> starts_with s t)"
  by (simp_all add: starts_with_def)

lemma starts_with_le: "starts_with s t \<Longrightarrow> t \<le> (s :: ustr)"
proof (induction t arbitrary: s)
  case (Cons c t)
  then show ?case by (cases s) auto
qed simp

lemma starts_with_closed: "t \<le> s \<Longrightarrow> \<not> starts_with s t \<Longrightarrow> s \<le> u \<Longrightarrow> \<not> starts_with (u :: ustr) t"
proof (induction t arbitrary: s u)
  case (Cons c t)
  then obtain a s' b u' where "s = a # s'" "u = b # u'" by (cases s; cases u) auto
  with Cons show ?case by auto
qed simp

lemma prefix_range:
  assumes "sorted xs"
  shows "takeWhile (\<lambda>s. starts_with s t) (dropWhile (\<lambda>y. y < t) xs) = filter (\<lambda>s. starts_with s t) (xs :: ustr list)"
  using assms
proof (induction xs)
  case (Cons x xs)
  show ?case
  proof (cases "x < t")
    case True
    then have "\<not> starts_with x t" using starts_with_le [of x t] by auto
    with True Cons show ?thesis by simp
  next
    case False
    have "\<forall>y\<in>set xs. \<not> starts_with y t" if "\<not> starts_with x t"
      using starts_with_closed [of t x] False that Cons.prems by (simp add: not_less)
    moreover have "dropWhile (\<lambda>y. y < t) xs = xs"
      using False Cons.prems by (cases xs) auto
    ultimately show ?thesis using False Cons by (auto simp: filter_empty_conv)
  qed
qed simp

lemma term_postings_alt:
  "term_postings x t = map (\<lambda>tok. (if tok = t then 2 else 1, get_or [] (sx_postings x) tok))
     (filter (\<lambda>tok. starts_with tok t) (vocabulary x))"
  by (simp add: term_postings_def Let_def drop_bisect prefix_range vocabulary_def)

text \<open>The contributions of a term to one position.\<close>

definition contributions :: "(nat \<times> (nat \<times> nat) list) list \<Rightarrow> nat \<Rightarrow> nat list" where
  "contributions ms p = List.map_filter (\<lambda>(m, postings). map_option (\<lambda>w. w * m) (map_of postings p)) ms"

lemma max_of_eqI:
  assumes "\<And>n. (\<forall>x\<in>set xs. x \<le> n) \<longleftrightarrow> (\<forall>y\<in>set ys. y \<le> n)"
  shows "max_of xs = max_of ys"
  using assms by (metis dual_order.antisym max_of_le order_refl)

lemma max_times: "max_of xs * c \<le> n \<longleftrightarrow> (\<forall>x\<in>set xs. x * c \<le> n)"
  by (induction xs) (simp_all add: nat_mult_max_left)

lemma set_map_filter: "y \<in> set (List.map_filter f xs) \<longleftrightarrow> (\<exists>x\<in>set xs. f x = Some y)"
  by (induction xs) (auto split: option.splits)

lemma contributions_map:
  "y \<in> set (contributions (map (\<lambda>tok. (f tok, g tok)) V) p) \<longleftrightarrow> (\<exists>tok\<in>set V. \<exists>w. map_of (g tok) p = Some w \<and> y = w * f tok)"
  by (auto simp: contributions_def set_map_filter) 

lemma term_contributions:
  assumes x: "loaded C items x" and p: "p < length items"
  shows "contributions (term_postings x t) p = [] \<longleftrightarrow> term_weights (field_streams C (items ! p)) t = []"
    and "max_of (contributions (term_postings x t) p) = max_of (term_weights (field_streams C (items ! p)) t)"
proof -
  let ?S = "field_streams C (items ! p)"
  define f where "f tok = (if tok = t then 2 else (1 :: nat))" for tok
  have w: "weight_in (sx_postings x) tok p = token_weight ?S tok" for tok
    using x p by (simp add: loaded_def)
  have voc: "tok \<in> set (vocabulary x)" if "token_weight ?S tok = Some w" for tok w
  proof -
    have "get_or [] (sx_postings x) tok \<noteq> []" using w [of tok] that by auto
    then show ?thesis by (auto simp: vocabulary_def get_or_def split: option.splits dest: map_of_SomeD) (metis fst_conv image_eqI map_of_SomeD)
  qed
  have lhs: "set (contributions (term_postings x t) p) = {v * f tok | v tok. starts_with tok t \<and> token_weight ?S tok = Some v}"
  proof (rule set_eqI)
    fix y
    have "y \<in> set (contributions (term_postings x t) p) \<longleftrightarrow>
        (\<exists>tok. tok \<in> set (vocabulary x) \<and> starts_with tok t \<and> (\<exists>v. token_weight ?S tok = Some v \<and> y = v * f tok))"
      unfolding term_postings_alt f_def [symmetric] contributions_map w by auto
    then show "y \<in> set (contributions (term_postings x t) p) \<longleftrightarrow> y \<in> {v * f tok | v tok. starts_with tok t \<and> token_weight ?S tok = Some v}"
      using voc by blast
  qed
  have rhs: "set (term_weights ?S t) = {v * f tok | v ts tok. (v, ts) \<in> set ?S \<and> tok \<in> set ts \<and> starts_with tok t}"
  proof (rule set_eqI)
    fix y
    have "y \<in> set (term_weights ?S t) \<longleftrightarrow> (\<exists>s\<in>set ?S. \<exists>tok\<in>set (snd s). starts_with tok t \<and> y = fst s * f tok)"
      unfolding term_weights_def f_def [symmetric] by (auto simp: case_prod_beta)
    then show "y \<in> set (term_weights ?S t) \<longleftrightarrow> y \<in> {v * f tok | v ts tok. (v, ts) \<in> set ?S \<and> tok \<in> set ts \<and> starts_with tok t}"
      by force
  qed
  have tw: "token_weight ?S tok = Some v \<longleftrightarrow> stream_weights ?S tok \<noteq> [] \<and> v = max_of (stream_weights ?S tok)" for tok v
    by (auto simp: token_weight_def)
  have sw: "set (stream_weights ?S tok) = {v. \<exists>ts. (v, ts) \<in> set ?S \<and> tok \<in> set ts}" for tok
    by (force simp: stream_weights_def)
  show "contributions (term_postings x t) p = [] \<longleftrightarrow> term_weights ?S t = []"
  proof -
    have "set (contributions (term_postings x t) p) = {} \<longleftrightarrow> set (term_weights ?S t) = {}"
      unfolding lhs rhs tw using sw by (fastforce simp: set_empty [symmetric] simp del: set_empty)
    then show ?thesis by simp
  qed
  show "max_of (contributions (term_postings x t) p) = max_of (term_weights ?S t)"
  proof (rule max_of_eqI)
    fix n
    have "(\<forall>v\<in>set (stream_weights ?S tok). v * f tok \<le> n) \<longleftrightarrow> (stream_weights ?S tok \<noteq> [] \<longrightarrow> max_of (stream_weights ?S tok) * f tok \<le> n)" for tok
      using max_times [of "stream_weights ?S tok" "f tok" n] by (cases "stream_weights ?S tok = []") simp_all
    note each = this
    have "(\<forall>x\<in>set (contributions (term_postings x t) p). x \<le> n) \<longleftrightarrow>
        (\<forall>tok. starts_with tok t \<longrightarrow> stream_weights ?S tok \<noteq> [] \<longrightarrow> max_of (stream_weights ?S tok) * f tok \<le> n)"
      unfolding lhs tw by auto
    also have "\<dots> \<longleftrightarrow> (\<forall>tok. starts_with tok t \<longrightarrow> (\<forall>v\<in>set (stream_weights ?S tok). v * f tok \<le> n))"
      unfolding each ..
    also have "\<dots> \<longleftrightarrow> (\<forall>y\<in>set (term_weights ?S t). y \<le> n)"
      unfolding rhs sw by blast
    finally show "(\<forall>x\<in>set (contributions (term_postings x t) p). x \<le> n) \<longleftrightarrow> (\<forall>y\<in>set (term_weights ?S t). y \<le> n)" .
  qed
qed


section \<open>Matching the terms\<close>

lemma max_again: "max a (max a b) = max (a :: nat) b"
  by (simp add: max_def)

lemma fold_keep_max:
  "map_of (fold (\<lambda>q d. case map_of post q of None \<Rightarrow> d
      | Some w \<Rightarrow> if A q then dict_set q (max (w * m) (get_or (0 :: nat) d q)) d else d) cs d) p =
   (case map_of post p of
      Some w \<Rightarrow> if p \<in> set cs \<and> A p then Some (max (w * m) (get_or 0 d p)) else map_of d p
    | None \<Rightarrow> map_of d p)"
proof (induction cs arbitrary: d)
  case (Cons c cs)
  show ?case
    unfolding fold.simps comp_apply Cons.IH
    by (auto simp: get_or_def max_again split: option.splits)
qed (simp split: option.split)

lemma fold_keep_distinct:
  "distinct (map fst d) \<Longrightarrow> distinct (map fst (fold (\<lambda>q d. case map_of post q of None \<Rightarrow> d
      | Some w \<Rightarrow> if A q then dict_set q (f w d q) d else d) cs d))"
  by (induction cs arbitrary: d) (auto intro: distinct_dict_set split: option.split)

lemma map_of_key: "map_of d p = Some v \<Longrightarrow> p \<in> fst ` set d"
  by (metis fst_conv image_eqI map_of_SomeD)

lemma scan_postings_at:
  "map_of (scan_postings ps sel scores (m, post) d) p =
   (case map_of post p of
      Some w \<Rightarrow> if admits ps sel scores p then Some (max (w * m) (get_or 0 d p)) else map_of d p
    | None \<Rightarrow> map_of d p)"
proof -
  let ?cs = "case scores of Some s \<Rightarrow> if length s < length post then map fst s else map fst post | None \<Rightarrow> map fst post"
  have "p \<in> set ?cs" if "map_of post p = Some w" "admits ps sel scores p" for w
    using that map_of_key [OF that(1)] by (auto simp: admits_def split: option.splits)
  then show ?thesis
    unfolding scan_postings_def prod.case Let_def fold_keep_max by (auto split: option.split)
qed

lemma scan_postings_distinct: "distinct (map fst d) \<Longrightarrow> distinct (map fst (scan_postings ps sel scores mp d))"
  by (auto simp: scan_postings_def Let_def split: prod.split intro: fold_keep_distinct)

lemma contributions_Cons:
  "contributions ((m, post) # ms) p = (case map_of post p of None \<Rightarrow> contributions ms p | Some w \<Rightarrow> (w * m) # contributions ms p)"
  by (simp add: contributions_def split: option.split)

lemma contributions_Nil [simp]: "contributions [] p = []"
  by (simp add: contributions_def)

lemma scan_all_at:
  "map_of (fold (scan_postings ps sel scores) ms d) p =
   (if admits ps sel scores p \<and> contributions ms p \<noteq> []
    then Some (max (max_of (contributions ms p)) (get_or 0 d p)) else map_of d p)"
proof (induction ms arbitrary: d)
  case (Cons mp ms)
  obtain m post where mp: "mp = (m, post)" by (cases mp)
  show ?case
    unfolding fold.simps comp_apply Cons.IH mp
    by (auto simp: scan_postings_at contributions_Cons get_or_def max.assoc max.left_commute max.commute split: option.splits)
qed simp

lemma scan_all_distinct:
  "distinct (map fst d) \<Longrightarrow> distinct (map fst (fold (scan_postings ps sel scores) ms d))"
  by (induction ms arbitrary: d) (simp_all add: scan_postings_distinct)

lemma map_of_map_value: "map_of (map (\<lambda>(k, v). (k, f k v)) d) p = map_option (f p) (map_of d p)"
  by (induction d) auto

lemma match_term_at:
  "map_of (match_term ps sel ms scores) p =
   (if admits ps sel scores p \<and> contributions ms p \<noteq> []
    then Some (base_score scores p + max_of (contributions ms p)) else None)"
  unfolding match_term_def map_of_map_value scan_all_at by simp

lemma match_term_distinct: "distinct (map fst (match_term ps sel ms scores))"
  using scan_all_distinct [of "[]" ps sel scores ms]
  by (simp add: match_term_def comp_def case_prod_beta)

text \<open>What a dictionary of scores says of a position.\<close>

definition scored :: "nat list \<Rightarrow> ustr list \<Rightarrow> (nat \<times> nat) list option \<Rightarrow> nat \<Rightarrow> nat option" where
  "scored ps sel scores p =
     (case scores of None \<Rightarrow> if allowed ps sel p then Some 0 else None | Some s \<Rightarrow> map_of s p)"

lemma scored_admits: "admits ps sel scores p \<longleftrightarrow> scored ps sel scores p \<noteq> None"
  by (simp add: admits_def scored_def map_of_eq_None_iff del: not_None_eq split: option.split)

lemma scored_base: "scored ps sel scores p = Some v \<Longrightarrow> base_score scores p = v"
  by (auto simp: base_score_def scored_def get_or_def split: option.splits if_splits)

fun add_scores :: "nat option \<Rightarrow> nat list list \<Rightarrow> nat option" where
  "add_scores z [] = z"
| "add_scores z (c # cs) = add_scores (case z of None \<Rightarrow> None | Some v \<Rightarrow> if c = [] then None else Some (v + max_of c)) cs"

lemma add_scores_None [simp]: "add_scores None cs = None"
  by (induction cs) auto

lemma match_term_scored:
  "scored ps sel (Some (match_term ps sel m scores)) p = add_scores (scored ps sel scores p) [contributions m p]"
proof (cases "scored ps sel scores p")
  case None
  then show ?thesis using scored_admits [of ps sel scores p] by (simp add: scored_def match_term_at)
next
  case (Some v)
  then have "admits ps sel scores p" by (simp add: scored_admits)
  then show ?thesis using scored_base [OF Some] Some by (simp add: scored_def match_term_at)
qed

lemma match_terms_scored:
  "scored ps sel (match_terms ps sel ms scores) p = add_scores (scored ps sel scores p) (map (\<lambda>m. contributions m p) ms)"
proof (induction ms arbitrary: scores)
  case (Cons m ms)
  let ?s = "match_term ps sel m scores"
  show ?case
  proof (cases "?s = []")
    case True
    then have "add_scores (scored ps sel scores p) [contributions m p] = None"
      using match_term_scored [of ps sel m scores p] by (simp add: scored_def)
    then show ?thesis using True by (simp add: scored_def)
  next
    case False
    then show ?thesis using Cons.IH [of "Some ?s"] match_term_scored [of ps sel m scores p] by simp
  qed
qed simp

lemma match_terms_distinct:
  "(case scores of None \<Rightarrow> True | Some s \<Rightarrow> distinct (map fst s)) \<Longrightarrow>
   (case match_terms ps sel ms scores of None \<Rightarrow> True | Some s \<Rightarrow> distinct (map fst s))"
  by (induction ms arbitrary: scores) (auto simp: match_term_distinct Let_def)


lemma add_scores_perm:
  assumes "mset cs = mset ds"
  shows "add_scores z cs = add_scores z ds"
proof -
  have "add_scores z cs = (case z of None \<Rightarrow> None | Some v \<Rightarrow> if [] \<in> set cs then None else Some (v + sum_list (map max_of cs)))" for cs
    by (induction cs arbitrary: z) (auto split: option.split)
  moreover have "set cs = set ds" and "sum_list (map max_of cs) = sum_list (map max_of ds)"
    using assms by (metis mset_eq_setD, metis mset_map sum_mset_sum_list)
  ultimately show ?thesis by (cases z) simp_all
qed

lemma score_terms_add: "score_terms streams ts = add_scores (Some 0) (map (term_weights streams) ts)"
proof -
  have "add_scores (Some v) (map (term_weights streams) ts) = map_option ((+) v) (score_terms streams ts)" for v
  proof (induction ts arbitrary: v)
    case (Cons t ts)
    then show ?case by (cases "score_terms streams ts") (auto simp: add.assoc)
  qed simp
  from this [of 0] show ?thesis by (cases "score_terms streams ts") simp_all
qed

lemma add_scores_cong:
  "list_all2 (\<lambda>c d. (c = [] \<longleftrightarrow> d = []) \<and> max_of c = max_of d) cs ds \<Longrightarrow> add_scores z cs = add_scores z ds"
  by (induction cs ds arbitrary: z rule: list_all2_induct) (auto split: option.split)

text \<open>The terms in any order, seen at an item.\<close>

lemma match_terms_item:
  assumes x: "loaded C items x" and p: "p < length items" and ms: "mset ms = mset (map (term_postings x) terms)"
    and ps: "ps = chain_positions items sel"
  shows "scored ps sel (match_terms ps sel ms None) p =
    (if has_chain sel (items ! p) then score_terms (field_streams C (items ! p)) terms else None)"
proof -
  have "mset (map (\<lambda>m. contributions m p) ms) = mset (map (\<lambda>t. contributions (term_postings x t) p) terms)"
    using arg_cong [OF ms, of "image_mset (\<lambda>m. contributions m p)"] by (simp add: multiset.map_comp comp_def)
  then have "add_scores z (map (\<lambda>m. contributions m p) ms) = add_scores z (map (\<lambda>t. contributions (term_postings x t) p) terms)" for z
    by (rule add_scores_perm)
  also have "add_scores z (map (\<lambda>t. contributions (term_postings x t) p) terms) =
      add_scores z (map (term_weights (field_streams C (items ! p))) terms)" for z
    by (rule add_scores_cong) (simp add: list_all2_conv_all_nth term_contributions [OF x p])
  finally have step: "add_scores z (map (\<lambda>m. contributions m p) ms) = add_scores z (map (term_weights (field_streams C (items ! p))) terms)" for z .
  have "allowed ps sel p \<longleftrightarrow> has_chain sel (items ! p)"
    using allowed_positions [OF chain_positions_sorted] p by (auto simp: ps set_chain_positions)
  then show ?thesis
    unfolding match_terms_scored step score_terms_add by (simp add: scored_def)
qed

section \<open>Matching the phrases\<close>

lemma contains_phrase_token:
  assumes "contains_phrase stream phrase" and "tok \<in> set phrase"
  shows "tok \<in> set stream"
proof -
  from assms(1) obtain k where "take (length phrase) (drop k stream) = phrase"
    by (auto simp: contains_phrase_def)
  with assms(2) show ?thesis by (metis in_set_dropD in_set_takeD)
qed

lemma arg_min_list_in: "xs \<noteq> [] \<Longrightarrow> arg_min_list f xs \<in> set xs"
  by (induction f xs rule: arg_min_list.induct) (auto simp: Let_def)

lemma smallest_holds:
  assumes x: "loaded C items x" and p: "p < length items" and ph: "phrase \<noteq> []"
    and w: "phrase_weights (field_streams C (items ! p)) phrase \<noteq> []"
  shows "p \<in> fst ` set (smallest_postings x phrase)"
proof -
  let ?S = "field_streams C (items ! p)"
  from w obtain v ts where vts: "(v, ts) \<in> set ?S" "contains_phrase ts phrase"
    by (auto simp: phrase_weights_def filter_empty_conv)
  obtain tok where tok: "tok \<in> set phrase" "smallest_postings x phrase = get_or [] (sx_postings x) tok"
    using arg_min_list_in [of "map (get_or [] (sx_postings x)) phrase" length] ph
    by (auto simp: smallest_postings_def)
  have "tok \<in> set ts" using contains_phrase_token vts(2) tok(1) .
  then have "token_weight ?S tok \<noteq> None"
    using vts(1) by (force simp: token_weight_def stream_weights_def filter_empty_conv)
  then obtain u where "weight_in (sx_postings x) tok p = Some u" using x p by (auto simp: loaded_def)
  then show ?thesis unfolding tok(2) by (rule map_of_key)
qed

lemma fold_keep_score:
  "map_of (fold (\<lambda>q d. if R q then d else if W q = [] then d else dict_set q (f q) d) cs d) p =
   (if p \<in> set cs \<and> \<not> R p \<and> W p \<noteq> [] then Some (f p) else map_of d p)"
  by (induction cs arbitrary: d) auto

lemma fold_keep_score_distinct:
  "distinct (map fst d) \<Longrightarrow> distinct (map fst (fold (\<lambda>q d. if R q then d else if W q = [] then d else dict_set q (f q) d) cs d))"
  by (induction cs arbitrary: d) (auto intro: distinct_dict_set)

lemma match_phrase_scored:
  assumes x: "loaded C items x" and p: "p < length items" and ph: "phrase \<noteq> []"
  shows "scored ps sel (Some (match_phrase x ps sel phrase scores)) p =
    (case scored ps sel scores p of None \<Rightarrow> None
     | Some v \<Rightarrow> map_option ((+) v) (score_phrases (field_streams C (items ! p)) (path_stream C (items ! p)) [phrase]))"
proof -
  let ?S = "field_streams C (items ! p)" and ?sm = "smallest_postings x phrase"
  have path: "contains_phrase (path_stream C (items ! p)) phrase \<Longrightarrow> phrase_weights ?S phrase \<noteq> []"
  proof -
    assume c: "contains_phrase (path_stream C (items ! p)) phrase"
    then have "path_stream C (items ! p) \<noteq> []"
      using contains_phrase_token [OF c, of "hd phrase"] ph by auto
    then have "(1, path_stream C (items ! p)) \<in> set ?S" by (simp add: field_streams_def)
    with c show ?thesis by (force simp: phrase_weights_def filter_empty_conv)
  qed
  let ?cs = "case scores of Some s \<Rightarrow> if length s < length ?sm then map fst s else map fst ?sm | None \<Rightarrow> map fst ?sm"
  have f: "sx_fields x ! p = ?S" using x p by (simp add: loaded_def)
  have cs: "p \<in> set ?cs" if "p \<in> fst ` set ?sm" "admits ps sel scores p"
    using that by (auto simp: admits_def split: option.splits)
  have "map_of (match_phrase x ps sel phrase scores) p =
      (if p \<in> set ?cs \<and> \<not> (p \<notin> fst ` set ?sm \<or> \<not> admits ps sel scores p) \<and> phrase_weights ?S phrase \<noteq> []
       then Some (base_score scores p + 2 * length phrase * max_of (phrase_weights ?S phrase)) else None)"
    unfolding match_phrase_def Let_def fold_keep_score f by simp
  also have "\<dots> = (if admits ps sel scores p \<and> phrase_weights ?S phrase \<noteq> []
       then Some (base_score scores p + 2 * length phrase * max_of (phrase_weights ?S phrase)) else None)"
  proof (cases "admits ps sel scores p \<and> phrase_weights ?S phrase \<noteq> []")
    case True
    then have "p \<in> fst ` set ?sm" "p \<in> set ?cs" using smallest_holds [OF x p ph] cs by simp_all
    with True show ?thesis by simp
  qed auto
  finally have at: "map_of (match_phrase x ps sel phrase scores) p = \<dots>" .
  show ?thesis
  proof (cases "scored ps sel scores p")
    case None
    then have "\<not> admits ps sel scores p" by (simp add: scored_admits)
    then show ?thesis using None at by (simp add: scored_def)
  next
    case (Some v)
    then have "admits ps sel scores p" "base_score scores p = v" by (simp_all add: scored_admits scored_base)
    then show ?thesis using Some at path by (auto simp: scored_def Let_def)
  qed
qed


lemma score_phrases_Cons:
  "score_phrases streams path (p # ps) =
   (case score_phrases streams path [p] of None \<Rightarrow> None | Some a \<Rightarrow> map_option ((+) a) (score_phrases streams path ps))"
  by (auto simp: Let_def split: option.split)

definition plus_score :: "nat option \<Rightarrow> nat option \<Rightarrow> nat option" where
  "plus_score a b = (case a of None \<Rightarrow> None | Some v \<Rightarrow> map_option ((+) v) b)"

lemma plus_score_assoc: "plus_score (plus_score a b) c = plus_score a (plus_score b c)"
  by (cases a; cases b; cases c) (simp_all add: plus_score_def)

lemma plus_score_zero [simp]: "plus_score a (Some 0) = a" "plus_score None b = None"
  by (cases a; simp add: plus_score_def)+

lemma match_phrases_scored:
  assumes x: "loaded C items x" and p: "p < length items" and ph: "\<forall>phrase\<in>set phrases. phrase \<noteq> []"
  shows "scored ps sel (match_phrases x ps sel phrases scores) p =
    plus_score (scored ps sel scores p) (score_phrases (field_streams C (items ! p)) (path_stream C (items ! p)) phrases)"
  using ph
proof (induction phrases arbitrary: scores)
  case (Cons phrase phrases)
  let ?score = "score_phrases (field_streams C (items ! p)) (path_stream C (items ! p))"
  let ?s = "match_phrase x ps sel phrase scores"
  have one: "scored ps sel (Some ?s) p = plus_score (scored ps sel scores p) (?score [phrase])"
    using match_phrase_scored [OF x p, of phrase ps sel scores] Cons.prems by (simp add: plus_score_def del: score_phrases.simps)
  have cons: "?score (phrase # phrases) = plus_score (?score [phrase]) (?score phrases)"
    unfolding plus_score_def by (rule score_phrases_Cons)
  show ?case
  proof (cases "?s = []")
    case True
    then have "plus_score (scored ps sel scores p) (?score [phrase]) = None" using one by (simp add: scored_def)
    then show ?thesis using True unfolding cons plus_score_assoc [symmetric] by (simp add: scored_def)
  next
    case False
    then show ?thesis
      using Cons.IH [of "Some ?s"] Cons.prems one unfolding cons plus_score_assoc [symmetric] by simp
  qed
qed simp

text \<open>No position beyond the items is ever scored.\<close>

definition within :: "nat \<Rightarrow> (nat \<times> nat) list option \<Rightarrow> bool" where
  "within n scores \<longleftrightarrow> (case scores of None \<Rightarrow> True | Some s \<Rightarrow> distinct (map fst s) \<and> (\<forall>p v. map_of s p = Some v \<longrightarrow> p < n))"

lemma loaded_posting: "loaded C items x \<Longrightarrow> weight_in (sx_postings x) tok p = Some w \<Longrightarrow> p < length items"
  by (auto simp: loaded_def split: if_splits)

lemma term_postings_within:
  assumes "loaded C items x" and "m \<in> set (map (term_postings x) terms)" and "contributions m p \<noteq> []"
  shows "p < length items"
proof -
  from assms(3) obtain y where "y \<in> set (contributions m p)" by (metis list.set_sel(1))
  with assms(1,2) loaded_posting show ?thesis
    by (fastforce simp: term_postings_alt contributions_map)
qed

lemma match_terms_within:
  assumes x: "loaded C items x"
  shows "set ms \<subseteq> set (map (term_postings x) terms) \<Longrightarrow> within (length items) scores \<Longrightarrow>
    within (length items) (match_terms ps sel ms scores)"
proof (induction ms arbitrary: scores)
  case (Cons m ms)
  have "within (length items) (Some (match_term ps sel m scores))"
    using term_postings_within [OF x] Cons.prems(1)
    by (auto simp: within_def match_term_distinct match_term_at split: if_splits)
  with Cons show ?case by (auto simp: Let_def within_def)
qed simp

lemma match_phrase_within:
  assumes x: "loaded C items x" and "phrase \<noteq> []"
  shows "within n (Some (match_phrase x ps sel phrase scores)) \<or> \<not> n = length items"
proof -
  have "p < length items" if "p \<in> fst ` set (smallest_postings x phrase)" for p
  proof -
    obtain tok where "smallest_postings x phrase = get_or [] (sx_postings x) tok"
      using arg_min_list_in [of "map (get_or [] (sx_postings x)) phrase" length] assms(2)
      by (auto simp: smallest_postings_def)
    with that obtain w where "weight_in (sx_postings x) tok p = Some w"
      by (metis map_of_eq_None_iff not_None_eq)
    then show ?thesis by (rule loaded_posting [OF x])
  qed
  then show ?thesis
    unfolding within_def match_phrase_def Let_def
    by (auto simp: fold_keep_score fold_keep_score_distinct split: if_splits)
qed

lemma match_phrases_within:
  assumes x: "loaded C items x"
  shows "\<forall>phrase\<in>set phrases. phrase \<noteq> [] \<Longrightarrow> within (length items) scores \<Longrightarrow>
    within (length items) (match_phrases x ps sel phrases scores)"
proof (induction phrases arbitrary: scores)
  case (Cons phrase phrases)
  have "within (length items) (Some (match_phrase x ps sel phrase scores))"
    using match_phrase_within [OF x, of phrase "length items"] Cons.prems by simp
  with Cons show ?case by (auto simp: Let_def within_def)
qed simp

section \<open>The matching agrees\<close>

lemma match_phrases_Some: "match_phrases x ps sel phrases (Some s) \<noteq> None"
  by (induction phrases arbitrary: s) (auto simp: Let_def)

lemma match_query_agrees:
  assumes x: "loaded C items x" and ph: "\<forall>phrase\<in>set (qy_phrases q). phrase \<noteq> []"
    and sel: "positions x sel = Inr ps"
  shows "\<exists>rows. match_query x q sel = Inr rows \<and> map (\<lambda>r. (items ! fst r, snd r)) rows = scan_items C q (filter (has_chain sel) items) \<and>
    distinct (map fst rows) \<and> (\<forall>r\<in>set rows. fst r < length items)"
proof -
  have ps: "ps = chain_positions items sel" using sel positions_alt [OF x, of sel] by (simp split: if_splits)
  define ms where "ms = sort_key (\<lambda>m. sum_list (map (length \<circ> snd) m)) (map (term_postings x) (qy_terms q))"
  define ts where "ts = match_terms ps sel ms None"
  define fin where "fin = match_phrases x ps sel (qy_phrases q) ts"
  define score where "score p = matches_and_score C (items ! p) q" for p
  have mset: "mset ms = mset (map (term_postings x) (qy_terms q))" by (simp add: ms_def)
  have sets: "set ms \<subseteq> set (map (term_postings x) (qy_terms q))" by (simp add: ms_def)
  have at: "scored ps sel fin p = (if has_chain sel (items ! p) then score p else None)" if "p < length items" for p
    unfolding fin_def match_phrases_scored [OF x that ph] ts_def match_terms_item [OF x that mset ps]
    by (auto simp: score_def matches_and_score_def Let_def plus_score_def split: option.split)
  have w: "within (length items) fin"
    unfolding fin_def ts_def
    by (intro match_phrases_within [OF x ph] match_terms_within [OF x sets]) (simp add: within_def)
  have sorted: "sorted_wrt (<) ps" unfolding ps by (rule chain_positions_sorted)
  have inps: "p \<in> set ps \<longleftrightarrow> p < length items \<and> has_chain sel (items ! p)" for p
    unfolding ps by (rule set_chain_positions)
  define rows where "rows = map (\<lambda>p. (p, the (score p))) (filter (\<lambda>p. score p \<noteq> None) ps)"
  let ?out = "case fin of None \<Rightarrow> map (\<lambda>p. (p, 0)) ps | Some s \<Rightarrow> map (\<lambda>p. (p, get_or 0 s p)) (sort (map fst s))"
  have "match_query x q sel = Inr (case ts of Some [] \<Rightarrow> []
      | scores \<Rightarrow> (case match_phrases x ps sel (qy_phrases q) scores of
          None \<Rightarrow> map (\<lambda>p. (p, 0)) ps | Some s \<Rightarrow> map (\<lambda>p. (p, get_or 0 s p)) (sort (map fst s))))"
    unfolding match_query_def sel ebind_simps Let_def ts_def ms_def ..
  also have "\<dots> = Inr (if ts = Some [] then [] else ?out)"
  proof (cases ts)
    case (Some s)
    then show ?thesis by (cases s) (simp_all add: fin_def)
  qed (simp add: fin_def)
  also have "(if ts = Some [] then [] else ?out) = rows"
  proof (cases fin)
    case None
    have "score p = Some 0" if "p \<in> set ps" for p
      using at [of p] None that inps [of p] allowed_positions [OF sorted, of sel p]
      by (simp add: scored_def split: if_splits)
    then have "rows = map (\<lambda>p. (p, 0)) ps" unfolding rows_def by (simp add: filter_id_conv [THEN iffD2])
    moreover have "ts \<noteq> Some []"
      using None match_phrases_Some unfolding fin_def by metis
    ultimately show ?thesis using None by simp
  next
    case (Some s)
    have d: "distinct (map fst s)" and bound: "\<And>p v. map_of s p = Some v \<Longrightarrow> p < length items"
      using w Some by (auto simp: within_def)
    have key: "p \<in> set (map fst s) \<longleftrightarrow> p \<in> set ps \<and> score p \<noteq> None" for p
    proof -
      have "p \<in> set (map fst s) \<longleftrightarrow> map_of s p \<noteq> None" by (simp add: map_of_eq_None_iff del: not_None_eq)
      also have "\<dots> \<longleftrightarrow> p \<in> set ps \<and> score p \<noteq> None"
        using at [of p] bound [of p] Some inps [of p]
        by (cases "p < length items"; cases "map_of s p") (auto simp: scored_def split: if_splits)
      finally show ?thesis .
    qed
    have "sort (map fst s) = filter (\<lambda>p. score p \<noteq> None) ps"
      using d key sorted_wrt_filter [OF sorted, of "\<lambda>p. score p \<noteq> None"]
      by (intro sorted_distinct_set_unique) (auto simp: strict_sorted_iff)
    moreover have "get_or 0 s p = the (score p)" if "p \<in> set ps" "score p \<noteq> None" for p
      using at [of p] Some inps [of p] that by (auto simp: get_or_def scored_def)
    ultimately have "rows = map (\<lambda>p. (p, get_or 0 s p)) (sort (map fst s))"
      unfolding rows_def by simp
    moreover have "s = []" if "ts = Some []"
    proof -
      have "score p = None" if "p \<in> set ps" for p
        using match_terms_item [OF x _ mset ps, of p] that inps [of p] \<open>ts = Some []\<close>
        by (auto simp: ts_def scored_def score_def matches_and_score_def Let_def)
      then show "s = []" using key by (metis list.set_intros(1) map_is_Nil_conv neq_Nil_conv)
    qed
    ultimately show ?thesis using Some by auto
  qed
  finally have "match_query x q sel = Inr rows" .
  moreover have "map (\<lambda>r. (items ! fst r, snd r)) rows = scan_items C q (filter (has_chain sel) items)"
    unfolding scan_items_def chain_positions_items [symmetric, of sel items] ps [symmetric] rows_def List.map_filter_def
    by (auto simp: filter_map comp_def score_def)
  moreover have "distinct (map fst rows)"
    using sorted by (simp add: rows_def comp_def strict_sorted_iff)
  moreover have "\<forall>r\<in>set rows. fst r < length items" using inps by (auto simp: rows_def)
  ultimately show ?thesis by blast
qed

end
