(* ===== verification/Search_Sorting.thy ===== *)
theory Search_Sorting
  imports Search_Answer "HOL-Library.Multiset"
begin

text \<open>
  Sorting with ordinal ranks against sorting with keys: a stable pair of sorts, one sort by a pair
  with a rank, and the selection of the first rows give the same rows when the path keys are unique and
  the time stamps are written in one form.
\<close>

section \<open>Sorting by unique keys\<close>

lemma sorted_wrt_unique:
  assumes "sorted_wrt R xs" and "sorted_wrt R ys" and "set xs = set ys" and "\<And>x y. R x y \<Longrightarrow> \<not> R y x"
  shows "xs = ys"
  using assms(1-3)
proof (induction xs arbitrary: ys)
  case (Cons x xs)
  then obtain y ys' where ys: "ys = y # ys'" by (cases ys) auto
  have irr: "\<not> R z z" for z using assms(4) by blast
  have "x = y"
  proof (rule ccontr)
    assume "x \<noteq> y"
    with Cons.prems(3) ys have "x \<in> set ys'" "y \<in> set xs" by auto
    with Cons.prems(1,2) ys have "R y x" "R x y" by auto
    with assms(4) show False by blast
  qed
  moreover have "set xs = set ys'"
  proof -
    have "x \<notin> set xs" "y \<notin> set ys'" using Cons.prems ys irr by auto
    then show ?thesis using Cons.prems(3) ys \<open>x = y\<close> by auto
  qed
  ultimately show ?case using Cons ys by auto
qed simp

text \<open>Sorting in classes: a stable sort of a list whose classes are sorted.\<close>

lemma sorted_classes:
  assumes "sorted_wrt (\<lambda>x y. S (f x) (f y) \<or> f x = f y) ys" and "\<And>k. sorted_wrt R (filter (\<lambda>x. f x = k) ys)"
  shows "sorted_wrt (\<lambda>x y. S (f x) (f y) \<or> f x = f y \<and> R x y) ys"
  using assms
proof (induction ys)
  case (Cons y ys)
  have "sorted_wrt R (filter (\<lambda>x. f x = k) ys)" for k
    using Cons.prems(2) [of k] by (auto split: if_splits)
  moreover have "R y z" if "z \<in> set ys" "f z = f y" for z
    using Cons.prems(2) [of "f y"] that by auto
  ultimately show ?case using Cons by (auto; metis)
qed simp

lemma filter_sorted_desc: "filter (\<lambda>x. f x = k) (sorted_desc f xs) = filter (\<lambda>x. f x = k) xs"
proof -
  have "filter (\<lambda>x. f x = k) (sort_key f (rev xs)) = filter (\<lambda>x. f x = k) (rev xs)"
    by (rule sort_key_stable)
  then show ?thesis by (simp add: sorted_desc_def rev_filter [symmetric])
qed

definition dir_less :: "sort_direction \<Rightarrow> 'k::linorder \<Rightarrow> 'k \<Rightarrow> bool" where
  "dir_less direction a b \<longleftrightarrow> (if direction = DESC then b < a else a < b)"

lemma dir_less_trans: "dir_less d a b \<Longrightarrow> dir_less d b c \<Longrightarrow> dir_less d a c"
  by (auto simp: dir_less_def split: if_splits)

lemma sort_dir_sorted: "sorted_wrt (\<lambda>x y. dir_less d (f x) (f y) \<or> f x = f y) (sort_dir d f xs)"
proof (cases "d = DESC")
  case True
  then show ?thesis using sorted_desc_wrt [of f xs]
    by (auto simp: sort_dir_def dir_less_def sorted_wrt_map elim!: sorted_wrt_mono_rel [rotated])
next
  case False
  then show ?thesis using sorted_sort_key [of f xs]
    by (auto simp: sort_dir_def dir_less_def sorted_map elim!: sorted_wrt_mono_rel [rotated])
qed

lemma filter_sort_dir: "filter (\<lambda>x. f x = k) (sort_dir d f xs) = filter (\<lambda>x. f x = k) xs"
  by (simp add: sort_dir_def filter_sorted_desc sort_key_stable)

lemma set_sort_dir [simp]: "set (sort_dir d f xs) = set xs"
  by (simp add: sort_dir_def)

text \<open>The order of the sort by a key with ties broken by a second, injective key.\<close>

definition tie_less :: "sort_direction \<Rightarrow> ('a \<Rightarrow> 'k::linorder) \<Rightarrow> ('a \<Rightarrow> 't::linorder) \<Rightarrow> 'a \<Rightarrow> 'a \<Rightarrow> bool" where
  "tie_less d f g x y \<longleftrightarrow> dir_less d (f x) (f y) \<or> f x = f y \<and> g x < g y"

lemma tie_less_asym: "tie_less d f g x y \<Longrightarrow> \<not> tie_less d f g y x"
  by (auto simp: tie_less_def dir_less_def split: if_splits)

lemma strict_sort_key: "inj_on g (set xs) \<Longrightarrow> distinct xs \<Longrightarrow> sorted_wrt (\<lambda>x y. g x < g y) (sort_key g xs)"
  by (metis distinct_map distinct_sort set_sort sorted_sort_key sorted_wrt_map strict_sorted_iff)

lemma two_sorts:
  assumes "distinct xs" and "inj_on g (set xs)"
  shows "sorted_wrt (tie_less d f g) (sort_dir d f (sort_key g xs))"
proof -
  have "sorted_wrt (\<lambda>x y. g x < g y) (filter (\<lambda>x. f x = k) (sort_dir d f (sort_key g xs)))" for k
    unfolding filter_sort_dir using strict_sort_key [OF assms(2,1)] by (rule sorted_wrt_filter)
  from sorted_classes [OF sort_dir_sorted this] show ?thesis unfolding tie_less_def .
qed

lemma sorted_wrt_both: "sorted_wrt P xs \<Longrightarrow> sorted_wrt Q xs \<Longrightarrow> sorted_wrt (\<lambda>x y. P x y \<and> Q x y) xs"
  by (induction xs) auto

text \<open>One sort by a pair with a rank, negated when descending.\<close>

lemma pair_sort:
  assumes "distinct xs" and "inj_on g (set xs)"
  shows "sorted_wrt (tie_less d f g) (sort_dir d (\<lambda>r. (f r, if d = DESC then - int (g r) else int (g r))) xs)"
proof -
  let ?h = "\<lambda>r. (f r, if d = DESC then - int (g r) else int (g r))"
  have inj: "inj_on ?h (set xs)" using assms(2) by (auto simp: inj_on_def)
  have dist: "distinct (sort_dir d ?h xs)" using assms(1) by (simp add: sort_dir_def)
  have "sorted_wrt (\<lambda>x y. x \<noteq> y) (sort_dir d ?h xs)"
    using dist by (simp add: distinct_conv_nth sorted_wrt_iff_nth_less)
  with sort_dir_sorted have "sorted_wrt (\<lambda>x y. (dir_less d (?h x) (?h y) \<or> ?h x = ?h y) \<and> x \<noteq> y) (sort_dir d ?h xs)"
    by (rule sorted_wrt_both)
  moreover have "tie_less d f g x y" if "(dir_less d (?h x) (?h y) \<or> ?h x = ?h y) \<and> x \<noteq> y" "x \<in> set xs" "y \<in> set xs" for x y
    using that inj by (auto simp: tie_less_def dir_less_def inj_on_def split: if_splits)
  ultimately show ?thesis
    by (elim sorted_wrt_mono_rel [rotated]) simp
qed


section \<open>Ranks\<close>

definition index_in :: "'a list \<Rightarrow> 'a \<Rightarrow> nat" where
  "index_in L a = length (takeWhile (\<lambda>b. b \<noteq> a) L)"

lemma index_in_nth: "a \<in> set L \<Longrightarrow> index_in L a < length L \<and> L ! index_in L a = a"
  by (induction L) (auto simp: index_in_def)

lemma index_order:
  assumes "sorted_wrt (\<lambda>a b. k a < (k b :: 'k::linorder)) L" and "a \<in> set L" and "b \<in> set L"
  shows "index_in L a < index_in L b \<longleftrightarrow> k a < k b"
proof -
  have lt: "k c < k d" if "index_in L c < index_in L d" "c \<in> set L" "d \<in> set L" for c d
    using sorted_wrt_nth_less [OF assms(1) that(1)] index_in_nth [OF that(2)] index_in_nth [OF that(3)] by simp
  have eq: "index_in L a = index_in L b \<longleftrightarrow> a = b"
    using index_in_nth [OF assms(2)] index_in_nth [OF assms(3)] by metis
  consider "index_in L a < index_in L b" | "a = b" | "index_in L b < index_in L a" using eq by linarith
  then show ?thesis
    by cases (use lt [OF _ assms(2,3)] lt [OF _ assms(3,2)] in auto)
qed

definition rank_of :: "('a \<Rightarrow> 'k) \<Rightarrow> 'k option \<Rightarrow> int \<Rightarrow> 'a list \<Rightarrow> 'a \<Rightarrow> int" where
  "rank_of key prev n L p = get_or 0 (group_ranks key prev n L) p"

definition next_rank :: "('a \<Rightarrow> 'k) \<Rightarrow> 'k option \<Rightarrow> int \<Rightarrow> 'a \<Rightarrow> int" where
  "next_rank key prev n a = (if Some (key a) = prev then n else n + 1)"

lemma rank_of_Cons:
  "rank_of key prev n (a # L) p = (if p = a then next_rank key prev n a else rank_of key (Some (key a)) (next_rank key prev n a) L p)"
  by (simp add: rank_of_def next_rank_def get_or_def Let_def)

lemma rank_of_ge:
  assumes "sorted (map key L)" and "\<And>k p. prev = Some k \<Longrightarrow> p \<in> set L \<Longrightarrow> k \<le> (key p :: 'k::linorder)" and "p \<in> set L"
  shows "n \<le> rank_of key prev n L p \<and> (rank_of key prev n L p = n \<longleftrightarrow> prev = Some (key p))"
  using assms
proof (induction L arbitrary: prev n)
  case (Cons a L)
  show ?case
  proof (cases "p = a")
    case True
    then show ?thesis by (auto simp: rank_of_Cons next_rank_def)
  next
    case False
    have t: "next_rank key prev n a \<le> rank_of key (Some (key a)) (next_rank key prev n a) L p \<and>
        (rank_of key (Some (key a)) (next_rank key prev n a) L p = next_rank key prev n a \<longleftrightarrow> Some (key a) = Some (key p))"
      using False Cons.prems by (intro Cons.IH) auto
    have "key p = key a" if "prev = Some (key p)"
      using Cons.prems(1) Cons.prems(2) [OF that, of a] False Cons.prems(3) by auto
    with t False show ?thesis by (auto simp: rank_of_Cons next_rank_def split: if_splits)
  qed
qed simp

lemma rank_of_order:
  assumes "sorted (map key L)" and "p \<in> set L" and "q \<in> set L"
  shows "rank_of key prev n L p < rank_of key prev n L q \<longleftrightarrow> (key p :: 'k::linorder) < key q"
  using assms
proof (induction L arbitrary: prev n)
  case (Cons a L)
  let ?m = "next_rank key prev n a"
  have ge: "?m \<le> rank_of key (Some (key a)) ?m L x \<and> (rank_of key (Some (key a)) ?m L x = ?m \<longleftrightarrow> Some (key a) = Some (key x))"
    if "x \<in> set L" for x using Cons.prems(1) that by (intro rank_of_ge) auto
  have le: "key a \<le> key x" if "x \<in> set L" for x using Cons.prems(1) that by simp
  consider "p = a" "q = a" | "p = a" "q \<noteq> a" | "p \<noteq> a" "q = a" | "p \<noteq> a" "q \<noteq> a" by blast
  then show ?case
  proof cases
    case 2
    then have "q \<in> set L" using Cons.prems(3) by simp
    with 2 ge [of q] le [of q] show ?thesis by (auto simp: rank_of_Cons order_less_le)
  next
    case 3
    then have "p \<in> set L" using Cons.prems(2) by simp
    with 3 ge [of p] le [of p] show ?thesis by (auto simp: rank_of_Cons)
  next
    case 4
    then show ?thesis using Cons by (simp add: rank_of_Cons)
  qed (simp_all add: rank_of_Cons)
qed simp

text \<open>The two rank tables of an index.\<close>

lemma path_rank_order:
  assumes "sx_items x = items" and "distinct (map (path_tie C) items)" and "p < length items" and "q < length items"
  shows "path_rank C x p < path_rank C x q \<longleftrightarrow> path_tie C (items ! p) < path_tie C (items ! q)"
proof -
  let ?k = "\<lambda>p. path_tie C (items ! p)"
  have "inj_on ?k (set [0..<length items])"
    using assms(2) unfolding inj_on_def distinct_conv_nth by (metis atLeastLessThan_iff length_map nth_map set_upt)
  then have "sorted_wrt (\<lambda>a b. ?k a < ?k b) (path_order C x)"
    unfolding path_order_def assms(1) by (intro strict_sort_key) simp_all
  from index_order [OF this, of p q] show ?thesis
    using assms by (simp add: path_rank_def index_in_def path_order_def)
qed

lemma name_rank_order:
  assumes "sx_items x = items" and "p < length items" and "q < length items"
  shows "name_rank C x p < name_rank C x q \<longleftrightarrow> natural_key C (it_filename (items ! p)) < natural_key C (it_filename (items ! q))"
  unfolding name_rank_def Let_def rank_of_def [symmetric] assms(1)
  using assms by (intro rank_of_order) simp_all


section \<open>Sorting with ranks agrees with sorting by keys\<close>

definition row_of :: "search_item list \<Rightarrow> nat \<times> nat \<Rightarrow> search_item \<times> nat" where
  "row_of items r = (items ! fst r, snd r)"

definition rows_ok :: "chars \<Rightarrow> search_item list \<Rightarrow> (nat \<times> nat) list \<Rightarrow> bool" where
  "rows_ok C items rows \<longleftrightarrow> distinct (map (path_tie C) items) \<and> distinct (map fst rows) \<and> (\<forall>r\<in>set rows. fst r < length items)"

abbreviation row_tie :: "chars \<Rightarrow> search_item \<times> nat \<Rightarrow> tie" where
  "row_tie C \<equiv> path_tie C \<circ> fst"

lemma rows_inj:
  assumes "rows_ok C items rows"
  shows "inj_on (row_tie C \<circ> row_of items) (set rows)" and "inj_on (row_tie C) (set (map (row_of items) rows))"
    and "distinct (map (row_of items) rows)" and "distinct rows"
proof -
  have pos: "r = s" if "r \<in> set rows" "s \<in> set rows" "fst r = fst s" for r s
    using assms that unfolding rows_ok_def distinct_map inj_on_def by blast
  have "fst r = fst s" if "r \<in> set rows" "s \<in> set rows" "path_tie C (items ! fst r) = path_tie C (items ! fst s)" for r s
    using assms that unfolding rows_ok_def distinct_conv_nth by (metis length_map nth_map)
  then show i: "inj_on (row_tie C \<circ> row_of items) (set rows)"
    using pos by (auto simp: inj_on_def row_of_def)
  then show "inj_on (row_tie C) (set (map (row_of items) rows))" by (auto simp: inj_on_def)
  show d: "distinct rows" using assms by (auto simp: rows_ok_def distinct_map)
  have "inj_on (row_of items) (set rows)" using i by (auto simp: inj_on_def)
  then show "distinct (map (row_of items) rows)" using d by (simp add: distinct_map)
qed

lemma rank_rows:
  assumes x: "sx_items x = items" and ok: "rows_ok C items rows" and r: "r \<in> set rows" "s \<in> set rows"
  shows "path_rank C x (fst r) < path_rank C x (fst s) \<longleftrightarrow> row_tie C (row_of items r) < row_tie C (row_of items s)"
  using ok r path_rank_order [OF x, of C "fst r" "fst s"] by (simp add: rows_ok_def row_of_def)

lemma order_iff_eq:
  "(a < b \<longleftrightarrow> a' < b') \<Longrightarrow> (b < a \<longleftrightarrow> b' < a') \<Longrightarrow> (a :: 'k::linorder) = b \<longleftrightarrow> (a' :: 'l::linorder) = b'"
  by (metis less_irrefl linorder_neqE)

lemma rank_inj:
  assumes x: "sx_items x = items" and ok: "rows_ok C items rows"
  shows "inj_on (\<lambda>r. path_rank C x (fst r)) (set rows)"
proof (rule inj_onI)
  fix r s assume r: "r \<in> set rows" "s \<in> set rows" "path_rank C x (fst r) = path_rank C x (fst s)"
  then have "row_tie C (row_of items r) = row_tie C (row_of items s)"
    using order_iff_eq [OF rank_rows [OF x ok r(1,2)] rank_rows [OF x ok r(2,1)]] by simp
  then show "r = s" using rows_inj(1) [OF ok] r(1,2) by (auto simp: inj_on_def)
qed

lemma pair_select:
  assumes x: "sx_items x = items" and ok: "rows_ok C items rows"
    and f: "\<And>r s. r \<in> set rows \<Longrightarrow> s \<in> set rows \<Longrightarrow> f r < f s \<longleftrightarrow> F (row_of items r) < F (row_of items s)"
  shows "map (row_of items) (sort_dir d (\<lambda>r. (f r, if d = DESC then - int (path_rank C x (fst r)) else int (path_rank C x (fst r)))) rows) =
    sort_dir d F (sort_key (row_tie C) (map (row_of items) rows))"
proof -
  let ?g = "\<lambda>r. path_rank C x (fst r)"
  let ?ys = "sort_dir d (\<lambda>r. (f r, if d = DESC then - int (?g r) else int (?g r))) rows"
  have "sorted_wrt (tie_less d f ?g) ?ys"
    using pair_sort [OF rows_inj(4) [OF ok] rank_inj [OF x ok]] .
  moreover have "tie_less d F (row_tie C) (row_of items r) (row_of items s)"
    if "tie_less d f ?g r s" "r \<in> set rows" "s \<in> set rows" for r s
    using that f [OF that(2,3)] f [OF that(3,2)] order_iff_eq [OF f [OF that(2,3)] f [OF that(3,2)]] rank_rows [OF x ok that(2,3)]
    by (auto simp: tie_less_def dir_less_def split: if_splits)
  ultimately have "sorted_wrt (\<lambda>r s. tie_less d F (row_tie C) (row_of items r) (row_of items s)) ?ys"
    by (elim sorted_wrt_mono_rel [rotated]) simp
  then show ?thesis
    using two_sorts [OF rows_inj(3,2) [OF ok], of d F]
    by (intro sorted_wrt_unique [where R = "tie_less d F (row_tie C)"] tie_less_asym) (simp_all add: sorted_wrt_map)
qed

lemma strict_sort_dir:
  assumes "inj_on g (set xs)" and "distinct xs"
  shows "sorted_wrt (\<lambda>x y. dir_less d (g x) (g y)) (sort_dir d g xs)"
proof -
  have "distinct (sort_dir d g xs)" using assms(2) by (simp add: sort_dir_def)
  then have "sorted_wrt (\<lambda>x y. x \<noteq> y) (sort_dir d g xs)"
    by (simp add: distinct_conv_nth sorted_wrt_iff_nth_less)
  from sorted_wrt_both [OF sort_dir_sorted this] show ?thesis
    by (elim sorted_wrt_mono_rel [rotated]) (use assms(1) in \<open>auto simp: inj_on_def\<close>)
qed

lemma path_select:
  assumes x: "sx_items x = items" and ok: "rows_ok C items rows"
  shows "map (row_of items) (sort_dir d (\<lambda>r. path_rank C x (fst r)) rows) = sort_dir d (row_tie C) (map (row_of items) rows)"
proof -
  let ?g = "\<lambda>r. path_rank C x (fst r)"
  have "sorted_wrt (\<lambda>r s. dir_less d (row_tie C (row_of items r)) (row_tie C (row_of items s))) (sort_dir d ?g rows)"
    using strict_sort_dir [OF rank_inj [OF x ok] rows_inj(4) [OF ok], of d]
    by (elim sorted_wrt_mono_rel [rotated]) (use rank_rows [OF x ok] in \<open>auto simp: dir_less_def split: if_splits\<close>)
  then show ?thesis
    using strict_sort_dir [OF rows_inj(2,3) [OF ok], of d]
    by (intro sorted_wrt_unique [where R = "\<lambda>x y. dir_less d (row_tie C x) (row_tie C y)"])
      (auto simp: sorted_wrt_map dir_less_def split: if_splits)
qed

lemma relevance_sort:
  assumes "inj_on (row_tie C) (set rows)" and "distinct rows"
  shows "sort_key (\<lambda>r. (- int (snd r), path_tie C (fst r))) rows = sort_dir DESC snd (sort_key (row_tie C) rows)"
proof -
  let ?h = "\<lambda>r. (- int (snd r), path_tie C (fst r))"
  have "inj_on ?h (set rows)" using assms(1) by (auto simp: inj_on_def)
  then have "sorted_wrt (\<lambda>r s. ?h r < ?h s) (sort_key ?h rows)" using assms(2) by (rule strict_sort_key)
  then have "sorted_wrt (tie_less DESC snd (row_tie C)) (sort_key ?h rows)"
    by (elim sorted_wrt_mono_rel [rotated]) (auto simp: tie_less_def dir_less_def)
  then show ?thesis
    using two_sorts [OF assms(2,1), of DESC snd]
    by (intro sorted_wrt_unique [where R = "tie_less DESC snd (row_tie C)"] tie_less_asym) simp_all
qed


section \<open>Time stamps\<close>

definition uniform_stamps :: "chars \<Rightarrow> search_item list \<Rightarrow> bool" where
  "uniform_stamps C items \<longleftrightarrow>
     (\<forall>a\<in>set items. \<forall>b\<in>set items. \<exists>ka kb. instant_sort_key C (it_modified_at a) = Inr ka \<and>
        instant_sort_key C (it_modified_at b) = Inr kb \<and> (ka < kb \<longleftrightarrow> it_modified_at a < it_modified_at b))"

definition stamp_key :: "chars \<Rightarrow> search_item \<times> nat \<Rightarrow> ustr" where
  "stamp_key C r = projr (instant_sort_key C (it_modified_at (fst r)))"

lemma instant_keys_all:
  "\<forall>r\<in>set rows. \<exists>k. instant_sort_key C (it_modified_at (fst r)) = Inr k \<Longrightarrow>
   instant_keys C rows = Inr (map (\<lambda>r. (stamp_key C r, r)) rows)"
  by (induction rows) (auto simp: stamp_key_def)

lemma map_sort_key: "map h (sort_key (f \<circ> h) xs) = sort_key f (map h xs)"
proof -
  have "map h (insort_key (f \<circ> h) x ys) = insort_key f (h x) (map h ys)" for x ys
    by (induction ys) auto
  then show ?thesis by (induction xs) auto
qed

lemma map_sort_dir: "map h (sort_dir d (f \<circ> h) xs) = sort_dir d f (map h xs)"
  using map_sort_key [of h f xs] map_sort_key [of h f "rev xs"]
  by (simp add: sort_dir_def sorted_desc_def rev_map [symmetric])

lemma sort_by_stamp:
  "map (fst \<circ> snd) (sort_dir d fst (map (\<lambda>r. (stamp_key C r, r)) rows)) = map fst (sort_dir d (stamp_key C) rows)"
  using map_sort_dir [of "\<lambda>r. (stamp_key C r, r)" d fst rows, symmetric] by (simp add: comp_def)

section \<open>The limited sort\<close>

lemma sort_dir_pair_comp: "(\<lambda>r. (F \<circ> row_of items) r) = (\<lambda>r. F (row_of items r))"
  by (simp add: comp_def)

lemma item_of_row: "fst (row_of items r) = items ! fst r" "snd (row_of items r) = snd r"
  by (simp_all add: row_of_def)

lemma length_sort_dir [simp]: "length (sort_dir d f xs) = length xs"
  by (simp add: sort_dir_def)

lemma length_instant_keys: "instant_keys C rows = Inr ks \<Longrightarrow> length ks = length rows"
proof (induction rows arbitrary: ks)
  case (Cons r rows)
  then show ?case
    by (cases "instant_sort_key C (it_modified_at (fst r))"; cases "instant_keys C rows") auto
qed simp

lemma length_sort_rows:
  assumes "sort_rows C rows field d = Inr zs"
  shows "length zs = length rows"
proof (cases "check_sort field d")
  case (Inr u)
  then show ?thesis
    using assms length_instant_keys [of C "sort_key (path_tie C \<circ> fst) rows"]
    by (cases "instant_keys C (sort_key (path_tie C \<circ> fst) rows)") (auto simp: sort_rows_def Let_def split: sort_field.splits)
qed (use assms in \<open>simp add: sort_rows_def\<close>)

lemma sort_limited_agrees:
  assumes x: "sx_items x = items" and ok: "rows_ok C items rows" and st: "uniform_stamps C items"
  shows "sort_limited C x rows field d limit =
    ebind (sort_rows C (map (row_of items) rows) field d) (\<lambda>sorted. Inr (take limit sorted))"
proof (cases "length rows \<le> limit")
  case True
  have short: "length zs \<le> limit" if "sort_rows C (map (row_of items) rows) field d = Inr zs" for zs
    using length_sort_rows [OF that] True by simp
  have "sort_limited C x rows field d limit = sort_rows C (map (row_of items) rows) field d"
    using True x by (simp add: sort_limited_def row_of_def [abs_def])
  then show ?thesis using short
    by (cases "sort_rows C (map (row_of items) rows) field d") simp_all
next
  case False
  let ?rows = "map (row_of items) rows" and ?item = "\<lambda>r. sx_items x ! fst r"
  have it: "map ?item zs = map fst (map (row_of items) zs)" for zs by (simp add: row_of_def x)
  have pair: "map ?item (take limit (sort_dir d (\<lambda>r. (f r, if d = DESC then - int (path_rank C x (fst r)) else int (path_rank C x (fst r)))) rows)) =
      take limit (map fst (sort_dir d F (sort_key (row_tie C) ?rows)))"
    if "\<And>r s. r \<in> set rows \<Longrightarrow> s \<in> set rows \<Longrightarrow> f r < f s \<longleftrightarrow> F (row_of items r) < F (row_of items s)" for f F
    unfolding take_map [symmetric] it using pair_select [OF x ok, of f F d, OF that] by simp
  show ?thesis
  proof (cases "check_sort field d")
    case (Inl e)
    then show ?thesis using False by (simp add: sort_limited_def sort_rows_def)
  next
    case (Inr u)
    show ?thesis
    proof (cases field)
      case RELEVANCE
      then have d: "d = DESC" using Inr by (cases "d = DESC") (auto simp: check_sort_def eguard_def split: if_splits)
      have "map ?item (select_rows d limit (\<lambda>r. (snd r, if d = DESC then - int (path_rank C x (fst r)) else int (path_rank C x (fst r)))) rows) =
          take limit (map fst (sort_key (\<lambda>r. (- int (snd r), path_tie C (fst r))) ?rows))"
        using pair [of snd snd, unfolded item_of_row, OF refl] relevance_sort [OF rows_inj(2,3) [OF ok]] d
        by (simp add: select_rows_def)
      then show ?thesis
        using False Inr RELEVANCE by (simp add: sort_limited_def sort_rows_def comp_def)
    next
      case PATH
      have "map ?item (select_rows d limit (\<lambda>r. path_rank C x (fst r)) rows) = take limit (map fst (sort_dir d (row_tie C) ?rows))"
        unfolding select_rows_def take_map [symmetric] it path_select [OF x ok] ..
      then show ?thesis using False Inr PATH by (simp add: sort_limited_def sort_rows_def comp_def)
    next
      case NAME
      have "map ?item (select_rows d limit (\<lambda>r. (name_rank C x (fst r), if d = DESC then - int (path_rank C x (fst r)) else int (path_rank C x (fst r)))) rows) =
          take limit (map fst (sort_dir d (\<lambda>r. natural_key C (it_filename (fst r))) (sort_key (row_tie C) ?rows)))"
        unfolding select_rows_def
        by (rule pair) (use ok name_rank_order [OF x] in \<open>simp add: item_of_row rows_ok_def\<close>)
      then show ?thesis using False Inr NAME by (simp add: sort_limited_def sort_rows_def comp_def)
    next
      case SIZE
      have "map ?item (select_rows d limit (\<lambda>r. (it_size_bytes (?item r), if d = DESC then - int (path_rank C x (fst r)) else int (path_rank C x (fst r)))) rows) =
          take limit (map fst (sort_dir d (\<lambda>r. it_size_bytes (fst r)) (sort_key (row_tie C) ?rows)))"
        unfolding select_rows_def
        by (rule pair) (simp add: item_of_row x)
      then show ?thesis using False Inr SIZE by (simp add: sort_limited_def sort_rows_def comp_def)
    next
      case MODIFIED_AT
      have inn: "items ! fst r \<in> set items" if "r \<in> set rows" for r using ok that by (simp add: rows_ok_def)
      have keyed: "\<exists>k. instant_sort_key C (it_modified_at (items ! fst r)) = Inr k" if "r \<in> set rows" for r
        using st inn [OF that] unfolding uniform_stamps_def by blast
      have "instant_keys C (sort_key (row_tie C) ?rows) = Inr (map (\<lambda>r. (stamp_key C r, r)) (sort_key (row_tie C) ?rows))"
        by (intro instant_keys_all) (auto simp: row_of_def dest!: keyed)
      moreover have "map ?item (select_rows d limit (\<lambda>r. (it_modified_at (?item r), if d = DESC then - int (path_rank C x (fst r)) else int (path_rank C x (fst r)))) rows) =
          take limit (map fst (sort_dir d (stamp_key C) (sort_key (row_tie C) ?rows)))"
        unfolding select_rows_def
      proof (rule pair)
        fix r s assume "r \<in> set rows" "s \<in> set rows"
        with st inn show "it_modified_at (?item r) < it_modified_at (?item s) \<longleftrightarrow> stamp_key C (row_of items r) < stamp_key C (row_of items s)"
          unfolding uniform_stamps_def stamp_key_def item_of_row x by (metis sum.sel(2))
      qed
      ultimately show ?thesis
        using False Inr MODIFIED_AT by (simp add: sort_limited_def sort_rows_def comp_def sort_by_stamp [unfolded comp_def])
    next
      case Other_field
      then show ?thesis using Inr by (auto simp: check_sort_def eguard_def split: if_splits)
    qed
  qed
qed

end
