(* ===== verification/Timestamps.thy ===== *)
theory Timestamps
  imports Search
begin

text \<open>
  \<open>utc\<close> and \<open>timestamp\<close> of \<open>common.py\<close>: the text of an instant, by the rules of the proleptic
  Gregorian calendar that \<open>datetime\<close> implements, and its reading. The development keeps instants as
  counts of microseconds; the two properties at the end are the reason why comparing the texts and
  comparing the counts is the same. \<open>decimal\<close> is \<open>str\<close> of a natural number.
\<close>

section \<open>Decimal numbers\<close>

fun decimal :: "nat \<Rightarrow> ustr" where
  "decimal n = (if n < 10 then [48 + n] else decimal (n div 10) @ [48 + n mod 10])"

declare decimal.simps [simp del]

text \<open>With leading zeros to a fixed width.\<close>

primrec padded :: "nat \<Rightarrow> nat \<Rightarrow> ustr" where
  "padded 0 n = []"
| "padded (Suc k) n = padded k (n div 10) @ [48 + n mod 10]"

definition number_of :: "ustr \<Rightarrow> nat" where
  "number_of s = foldl (\<lambda>n c. 10 * n + (c - 48)) 0 s"

lemma number_of_snoc [simp]: "number_of (s @ [c]) = 10 * number_of s + (c - 48)"
  by (simp add: number_of_def)

lemma number_of_padded: "n < 10 ^ k \<Longrightarrow> number_of (padded k n) = n"
proof (induction k arbitrary: n)
  case (Suc k)
  then have "n div 10 < 10 ^ k" by (simp add: less_mult_imp_div_less mult.commute)
  with Suc.IH show ?case by simp
qed (simp add: number_of_def)

lemma number_of_decimal: "number_of (decimal n) = n"
proof (induction n rule: less_induct)
  case (less n)
  show ?case
  proof (cases "n < 10")
    case True
    then show ?thesis by (simp add: decimal.simps [of n] number_of_def)
  next
    case False
    then show ?thesis using less [of "n div 10"] by (subst decimal.simps) simp
  qed
qed

lemma length_padded [simp]: "length (padded k n) = k"
  by (induction k arbitrary: n) auto

lemma padded_digits: "c \<in> set (padded k n) \<Longrightarrow> ascii_digit c"
  by (induction k arbitrary: n) (auto simp: ascii_digit_def)

lemma less_append_same_length:
  "length u = length v \<Longrightarrow> u @ x < v @ y \<longleftrightarrow> u < v \<or> u = v \<and> x < (y :: ustr)"
  by (induction u v rule: list_induct2) auto

lemma quotient_less:
  fixes m n k :: nat
  assumes "0 < k"
  shows "m < n \<longleftrightarrow> m div k < n div k \<or> m div k = n div k \<and> m mod k < n mod k"
proof -
  have step: "k * a + b < k * c" if "a < c" "b < k" for a b c :: nat
  proof -
    have "k * a + k \<le> k * c" using that(1) mult_le_mono2 [of "Suc a" c k] by (simp add: add.commute)
    with that(2) show ?thesis by simp
  qed
  have "m = k * (m div k) + m mod k" "n = k * (n div k) + n mod k" by simp_all
  then show ?thesis
    using step [of "m div k" "n div k" "m mod k"] step [of "n div k" "m div k" "n mod k"] assms
    by (metis add_less_cancel_left linorder_neqE_nat mod_less_divisor not_less_iff_gr_or_eq trans_less_add1)
qed

lemma padded_less:
  "m < 10 ^ k \<Longrightarrow> n < 10 ^ k \<Longrightarrow> (padded k m < padded k n \<longleftrightarrow> m < n) \<and> (padded k m = padded k n \<longleftrightarrow> m = n)"
proof (induction k arbitrary: m n)
  case (Suc k)
  have "m div 10 < 10 ^ k" "n div 10 < 10 ^ k" using Suc.prems by (simp_all add: less_mult_imp_div_less mult.commute)
  note IH = Suc.IH [OF this]
  have lt: "m < n \<longleftrightarrow> m div 10 < n div 10 \<or> m div 10 = n div 10 \<and> m mod 10 < n mod 10" by (rule quotient_less) simp
  have eq: "m = n \<longleftrightarrow> m div 10 = n div 10 \<and> m mod 10 = n mod 10" by (metis div_mult_mod_eq)
  have "padded (Suc k) m < padded (Suc k) n \<longleftrightarrow> m div 10 < n div 10 \<or> m div 10 = n div 10 \<and> m mod 10 < n mod 10"
    using IH by (simp add: less_append_same_length)
  moreover have "padded (Suc k) m = padded (Suc k) n \<longleftrightarrow> m div 10 = n div 10 \<and> m mod 10 = n mod 10"
    using IH by simp
  ultimately show ?case using lt eq by argo
qed simp

section \<open>The calendar\<close>

definition year_days :: "nat \<Rightarrow> nat" where
  "year_days y = (if leap_year y then 366 else 365)"

text \<open>The year and the month of a day counted from the first of January of year 1.\<close>

function split_year :: "nat \<Rightarrow> nat \<Rightarrow> nat \<times> nat" where
  "split_year y d = (if d < year_days y then (y, d) else split_year (Suc y) (d - year_days y))"
  by pat_completeness auto
termination by (relation "measure snd") (auto simp: year_days_def)

function split_month :: "nat \<Rightarrow> nat \<Rightarrow> nat \<Rightarrow> nat \<times> nat" where
  "split_month y m d = (if 12 \<le> m \<or> d < month_days y m then (m, d) else split_month y (Suc m) (d - month_days y m))"
  by pat_completeness auto
termination by (relation "measure (\<lambda>(y, m, d). 12 - m)") auto

declare split_year.simps [simp del] split_month.simps [simp del]

primrec days_before_year :: "nat \<Rightarrow> nat" where
  "days_before_year 0 = 0"
| "days_before_year (Suc y) = days_before_year y + (if y = 0 then 0 else year_days y)"

primrec days_before_month :: "nat \<Rightarrow> nat \<Rightarrow> nat" where
  "days_before_month y 0 = 0"
| "days_before_month y (Suc m) = days_before_month y m + (if m = 0 then 0 else month_days y m)"

definition ordinal :: "nat \<Rightarrow> nat \<Rightarrow> nat \<Rightarrow> nat" where
  "ordinal y m d = days_before_year y + days_before_month y m + (d - 1)"

lemma split_year_spec:
  "1 \<le> y \<Longrightarrow> split_year y d = (z, r) \<Longrightarrow> y \<le> z \<and> r < year_days z \<and> days_before_year z + r = days_before_year y + d"
proof (induction y d rule: split_year.induct)
  case (1 y d)
  show ?case
  proof (cases "d < year_days y")
    case True
    then show ?thesis using "1.prems"(2) by (simp add: split_year.simps [of y d])
  next
    case False
    then have "split_year (Suc y) (d - year_days y) = (z, r)" using "1.prems"(2) by (simp add: split_year.simps [of y d])
    with "1.IH" [OF False] False "1.prems"(1) show ?thesis by auto
  qed
qed

lemma year_total: "days_before_month y 12 + month_days y 12 = year_days y"
  by (simp add: numeral_eq_Suc month_days_def year_days_def)

lemma split_month_spec:
  "1 \<le> m \<Longrightarrow> m \<le> 12 \<Longrightarrow> days_before_month y m + d < year_days y \<Longrightarrow> split_month y m d = (k, r) \<Longrightarrow>
   m \<le> k \<and> k \<le> 12 \<and> r < month_days y k \<and> days_before_month y k + r = days_before_month y m + d"
proof (induction y m d rule: split_month.induct)
  case (1 y m d)
  show ?case
  proof (cases "12 \<le> m \<or> d < month_days y m")
    case True
    then show ?thesis using "1.prems" year_total [of y] by (cases "d < month_days y m") (auto simp: split_month.simps [of y m d])
  next
    case False
    then have "split_month y (Suc m) (d - month_days y m) = (k, r)" using "1.prems"(4) by (simp add: split_month.simps [of y m d])
    with "1.IH" [OF False] False "1.prems" show ?thesis by auto
  qed
qed

lemma leap_count: "(Suc n) div 4 + (Suc n) div 400 + n div 100 = n div 4 + n div 400 + (Suc n) div 100 + (if leap_year (Suc n) then 1 else 0)"
proof -
  have "Suc n div k = n div k + (if k dvd Suc n then 1 else 0)" if "k > 0" for k
    using that by (simp add: div_Suc dvd_eq_mod_eq_0)
  then show ?thesis by (auto simp: leap_year_def elim: dvd_trans)
qed

lemma days_before_closed: "days_before_year (Suc n) + n div 100 = 365 * n + n div 4 + n div 400"
proof (induction n)
  case (Suc n)
  then show ?case using leap_count [of n] by (auto simp: year_days_def)
qed simp

lemma days_before_mono: "y \<le> z \<Longrightarrow> days_before_year y \<le> days_before_year z"
  by (induction z) (auto simp: le_Suc_eq)


section \<open>The text of an instant\<close>

text \<open>Microseconds from the first of January of year 1 to the epoch, and to the end of year 9999.\<close>

definition epoch_offset :: int where
  "epoch_offset = 719162 * 86400 * 1000000"

definition calendar_end :: nat where
  "calendar_end = 3652059 * 86400 * 1000000"

definition instant_text :: "nat \<Rightarrow> ustr" where
  "instant_text n =
     (let us = n mod 1000000; secs = n div 1000000; sod = secs mod 86400;
          (y, doy) = split_year 1 (secs div 86400); (m, dom) = split_month y 1 doy
      in padded 4 y @ [45] @ padded 2 m @ [45] @ padded 2 (dom + 1) @ [84] @
         padded 2 (sod div 3600) @ [58] @ padded 2 (sod div 60 mod 60) @ [58] @ padded 2 (sod mod 60) @
         [46] @ padded 6 us @ [90])"

definition utc_text :: "time \<Rightarrow> exn + ustr" where
  "utc_text t =
     (if t + epoch_offset < 0 \<or> int calendar_end \<le> t + epoch_offset then Inl PyValueError
      else Inr (instant_text (nat (t + epoch_offset))))"

text \<open>
  \<open>timestamp\<close> on the texts \<open>utc\<close> writes; other forms that \<open>fromisoformat\<close> accepts are
  left open (\<open>None\<close>).
\<close>

definition timestamp_of :: "ustr \<Rightarrow> time option" where
  "timestamp_of s =
     (let num = (\<lambda>i n. number_of (take n (drop i s))) in
      if length s \<noteq> 27 \<or> \<not> list_all (\<lambda>i. ascii_digit (s ! i)) ([0..<4] @ [5, 6, 8, 9, 11, 12, 14, 15, 17, 18] @ [20..<26])
         \<or> s ! 4 \<noteq> 45 \<or> s ! 7 \<noteq> 45 \<or> s ! 10 \<noteq> 84 \<or> s ! 13 \<noteq> 58 \<or> s ! 16 \<noteq> 58 \<or> s ! 19 \<noteq> 46 \<or> s ! 26 \<noteq> 90
      then None
      else Some (int (((ordinal (num 0 4) (num 5 2) (num 8 2) * 24 + num 11 2) * 60 + num 14 2) * 60 + num 17 2) * 1000000
             + int (num 20 6) - epoch_offset))"

text \<open>The date of a count of microseconds.\<close>

lemma instant_parts:
  assumes "n < calendar_end"
  obtains y m d where "instant_text n =
      padded 4 y @ [45] @ padded 2 m @ [45] @ padded 2 d @ [84] @
      padded 2 (n div 1000000 mod 86400 div 3600) @ [58] @ padded 2 (n div 1000000 mod 86400 div 60 mod 60) @ [58] @
      padded 2 (n div 1000000 mod 86400 mod 60) @ [46] @ padded 6 (n mod 1000000) @ [90]"
    and "1 \<le> y" "y < 10000" "1 \<le> m" "m \<le> 12" "1 \<le> d" "d \<le> month_days y m" "ordinal y m d = n div 1000000 div 86400"
    "days_before_month y m + (d - 1) < year_days y"
proof -
  let ?days = "n div 1000000 div 86400"
  obtain y doy where y: "split_year 1 ?days = (y, doy)" by fastforce
  obtain m dom where m: "split_month y 1 doy = (m, dom)" by fastforce
  have Y: "1 \<le> y \<and> doy < year_days y \<and> days_before_year y + doy = ?days"
    using split_year_spec [OF _ y] by simp
  have M: "1 \<le> m \<and> m \<le> 12 \<and> dom < month_days y m \<and> days_before_month y m + dom = doy"
    using split_month_spec [OF _ _ _ m] Y by simp
  have "?days < 3652059"
    using assms by (simp add: calendar_end_def div_mult2_eq [symmetric] less_mult_imp_div_less)
  moreover have "days_before_year 10000 = 3652059" using days_before_closed [of 9999] by simp
  ultimately have "y < 10000" using Y days_before_mono [of 10000 y] by (cases "y < 10000") auto
  with Y M show ?thesis
    by (intro that [of y m "dom + 1"]) (simp_all add: instant_text_def y [simplified] m [simplified] Let_def ordinal_def)
qed

lemma month_days_le: "month_days y m \<le> 31"
  by (simp add: month_days_def)

lemma clock_number:
  fixes d s :: nat
  shows "((d * 24 + s div 3600) * 60 + s div 60 mod 60) * 60 + s mod 60 = d * 86400 + s"
proof -
  have glue: "q = a * 60 + b \<Longrightarrow> s = q * 60 + c \<Longrightarrow> ((d * 24 + a) * 60 + b) * 60 + c = d * 86400 + s" for a b c q :: nat
    by simp
  have "s div 60 = s div 3600 * 60 + s div 60 mod 60"
    using div_mult_mod_eq [of "s div 60" 60] by (simp add: div_mult2_eq [symmetric])
  then show ?thesis by (rule glue) simp
qed

text \<open>The fields stand at fixed places.\<close>

lemma timestamp_parts:
  assumes "length a = 4" and "length b = 2" and "length c = 2" and "length h = 2" and "length m = 2"
    and "length s = 2" and "length f = 6" and d: "list_all ascii_digit (a @ b @ c @ h @ m @ s @ f)"
  shows "timestamp_of (a @ [45] @ b @ [45] @ c @ [84] @ h @ [58] @ m @ [58] @ s @ [46] @ f @ [90]) =
    Some (int (((ordinal (number_of a) (number_of b) (number_of c) * 24 + number_of h) * 60 + number_of m) * 60 + number_of s)
      * 1000000 + int (number_of f) - epoch_offset)"
proof -
  obtain a1 a2 a3 a4 where a: "a = [a1, a2, a3, a4]" using assms(1) by (auto simp: numeral_eq_Suc length_Suc_conv)
  obtain b1 b2 where b: "b = [b1, b2]" using assms(2) by (auto simp: numeral_eq_Suc length_Suc_conv)
  obtain c1 c2 where c: "c = [c1, c2]" using assms(3) by (auto simp: numeral_eq_Suc length_Suc_conv)
  obtain h1 h2 where h: "h = [h1, h2]" using assms(4) by (auto simp: numeral_eq_Suc length_Suc_conv)
  obtain m1 m2 where m: "m = [m1, m2]" using assms(5) by (auto simp: numeral_eq_Suc length_Suc_conv)
  obtain s1 s2 where s: "s = [s1, s2]" using assms(6) by (auto simp: numeral_eq_Suc length_Suc_conv)
  obtain f1 f2 f3 f4 f5 f6 where f: "f = [f1, f2, f3, f4, f5, f6]" using assms(7) by (auto simp: numeral_eq_Suc length_Suc_conv)
  show ?thesis
    using d unfolding a b c h m s f timestamp_of_def by (simp add: upt_rec Let_def)
qed

text \<open>Reading the text back gives the count.\<close>

lemma timestamp_text:
  assumes n: "n < calendar_end"
  shows "timestamp_of (instant_text n) = Some (int n - epoch_offset)"
proof -
  obtain y m d where t: "instant_text n =
      padded 4 y @ [45] @ padded 2 m @ [45] @ padded 2 d @ [84] @
      padded 2 (n div 1000000 mod 86400 div 3600) @ [58] @ padded 2 (n div 1000000 mod 86400 div 60 mod 60) @ [58] @
      padded 2 (n div 1000000 mod 86400 mod 60) @ [46] @ padded 6 (n mod 1000000) @ [90]"
    and y: "1 \<le> y" "y < 10000" and m: "1 \<le> m" "m \<le> 12" and d: "1 \<le> d" "d \<le> month_days y m"
    and o: "ordinal y m d = n div 1000000 div 86400"
    by (rule instant_parts [OF n])
  let ?s = "n div 1000000 mod 86400"
  have h: "?s div 3600 < 24" by (simp add: less_mult_imp_div_less)
  have parts: "number_of (padded 4 y) = y" "number_of (padded 2 m) = m" "number_of (padded 2 d) = d"
      "number_of (padded 2 (?s div 3600)) = ?s div 3600" "number_of (padded 2 (?s div 60 mod 60)) = ?s div 60 mod 60"
      "number_of (padded 2 (?s mod 60)) = ?s mod 60" "number_of (padded 6 (n mod 1000000)) = n mod 1000000"
    using y m d h month_days_le [of y m] by (simp_all add: number_of_padded)
  have digits: "list_all ascii_digit (padded k i)" for k i by (auto simp: list_all_iff dest: padded_digits)
  have "timestamp_of (instant_text n) = Some (int (((ordinal y m d * 24 + ?s div 3600) * 60 + ?s div 60 mod 60) * 60 + ?s mod 60) * 1000000
      + int (n mod 1000000) - epoch_offset)"
    unfolding t by (subst timestamp_parts) (simp_all only: length_padded list_all_append digits parts simp_thms)
  moreover have "((ordinal y m d * 24 + ?s div 3600) * 60 + ?s div 60 mod 60) * 60 + ?s mod 60 = n div 1000000"
    unfolding o clock_number by simp
  moreover have "int (n div 1000000) * 1000000 + int (n mod 1000000) = int n"
    by (metis div_mult_mod_eq of_nat_add of_nat_mult of_nat_numeral)
  ultimately show ?thesis by simp
qed

section \<open>Texts sort as their instants\<close>

lemma days_before_month_mono: "m \<le> k \<Longrightarrow> days_before_month y m \<le> days_before_month y k"
  by (induction k) (auto simp: le_Suc_eq)

definition date_ok :: "nat \<Rightarrow> nat \<Rightarrow> nat \<Rightarrow> bool" where
  "date_ok y m d \<longleftrightarrow> 1 \<le> y \<and> 1 \<le> m \<and> 1 \<le> d \<and> d \<le> month_days y m \<and> days_before_month y m + (d - 1) < year_days y"

lemma ordinal_strict:
  assumes "date_ok y m d" and "date_ok y' m' d'" and "y < y' \<or> y = y' \<and> (m < m' \<or> m = m' \<and> d < d')"
  shows "ordinal y m d < ordinal y' m' d'"
proof -
  consider "y < y'" | "y = y'" "m < m'" | "y = y'" "m = m'" "d < d'" using assms(3) by blast
  then show ?thesis
  proof cases
    case 1
    then have "days_before_year y + year_days y \<le> days_before_year y'" using assms(1) days_before_mono [of "Suc y" y'] by (simp add: date_ok_def)
    moreover have "days_before_month y m + (d - 1) < year_days y" using assms(1) unfolding date_ok_def by blast
    ultimately show ?thesis unfolding ordinal_def by linarith
  next
    case 2
    then have "days_before_month y m + month_days y m \<le> days_before_month y m'"
      using assms(1) days_before_month_mono [of "Suc m" m' y] by (simp add: date_ok_def)
    moreover have "d - 1 < month_days y m" using assms(1) by (auto simp: date_ok_def)
    ultimately show ?thesis unfolding ordinal_def 2(1) [symmetric] by linarith
  next
    case 3
    have "1 \<le> d" using assms(1) by (simp add: date_ok_def)
    with 3(3) have "d - 1 < d' - 1" by (simp add: diff_less_mono)
    with 3(1,2) show ?thesis by (simp add: ordinal_def)
  qed
qed

lemma ordinal_less:
  assumes "date_ok y m d" and "date_ok y' m' d'"
  shows "(ordinal y m d < ordinal y' m' d' \<longleftrightarrow> y < y' \<or> y = y' \<and> (m < m' \<or> m = m' \<and> d < d')) \<and>
    (ordinal y m d = ordinal y' m' d' \<longleftrightarrow> y = y' \<and> m = m' \<and> d = d')"
  using ordinal_strict [OF assms] ordinal_strict [OF assms(2,1)]
  by (metis linorder_neqE_nat not_less_iff_gr_or_eq)

lemma instant_less:
  assumes n: "n < calendar_end" "n' < calendar_end"
  shows "instant_text n < instant_text n' \<longleftrightarrow> n < n'"
proof -
  obtain y m d where t: "instant_text n =
      padded 4 y @ [45] @ padded 2 m @ [45] @ padded 2 d @ [84] @
      padded 2 (n div 1000000 mod 86400 div 3600) @ [58] @ padded 2 (n div 1000000 mod 86400 div 60 mod 60) @ [58] @
      padded 2 (n div 1000000 mod 86400 mod 60) @ [46] @ padded 6 (n mod 1000000) @ [90]"
    and v: "1 \<le> y" "y < 10000" "1 \<le> m" "m \<le> 12" "1 \<le> d" "d \<le> month_days y m" and o: "ordinal y m d = n div 1000000 div 86400"
      "days_before_month y m + (d - 1) < year_days y"
    by (rule instant_parts [OF n(1)])
  obtain y' m' d' where t': "instant_text n' =
      padded 4 y' @ [45] @ padded 2 m' @ [45] @ padded 2 d' @ [84] @
      padded 2 (n' div 1000000 mod 86400 div 3600) @ [58] @ padded 2 (n' div 1000000 mod 86400 div 60 mod 60) @ [58] @
      padded 2 (n' div 1000000 mod 86400 mod 60) @ [46] @ padded 6 (n' mod 1000000) @ [90]"
    and v': "1 \<le> y'" "y' < 10000" "1 \<le> m'" "m' \<le> 12" "1 \<le> d'" "d' \<le> month_days y' m'" and o': "ordinal y' m' d' = n' div 1000000 div 86400"
      "days_before_month y' m' + (d' - 1) < year_days y'"
    by (rule instant_parts [OF n(2)])
  define s s' where "s = n div 1000000 mod 86400" and "s' = n' div 1000000 mod 86400"
  have date: "date_ok y m d" "date_ok y' m' d'" using v o v' o' by (simp_all add: date_ok_def)
  have h: "s div 3600 < 24" "s' div 3600 < 24" by (simp_all add: s_def s'_def less_mult_imp_div_less)
  have p2: "(padded 2 i < padded 2 j \<longleftrightarrow> i < j) \<and> (padded 2 i = padded 2 j \<longleftrightarrow> i = j)" if "i < 60" "j < 60" for i j
    using that by (intro padded_less) simp_all
  have eqs: "(padded 4 y < padded 4 y' \<longleftrightarrow> y < y') \<and> (padded 4 y = padded 4 y' \<longleftrightarrow> y = y')"
      "(padded 6 (n mod 1000000) < padded 6 (n' mod 1000000) \<longleftrightarrow> n mod 1000000 < n' mod 1000000) \<and>
       (padded 6 (n mod 1000000) = padded 6 (n' mod 1000000) \<longleftrightarrow> n mod 1000000 = n' mod 1000000)"
    using v(2) v'(2) by (intro padded_less; simp)+
  have two: "(padded 2 m < padded 2 m' \<longleftrightarrow> m < m') \<and> (padded 2 m = padded 2 m' \<longleftrightarrow> m = m')"
      "(padded 2 d < padded 2 d' \<longleftrightarrow> d < d') \<and> (padded 2 d = padded 2 d' \<longleftrightarrow> d = d')"
      "(padded 2 (s div 3600) < padded 2 (s' div 3600) \<longleftrightarrow> s div 3600 < s' div 3600) \<and> (padded 2 (s div 3600) = padded 2 (s' div 3600) \<longleftrightarrow> s div 3600 = s' div 3600)"
      "(padded 2 (s div 60 mod 60) < padded 2 (s' div 60 mod 60) \<longleftrightarrow> s div 60 mod 60 < s' div 60 mod 60) \<and>
       (padded 2 (s div 60 mod 60) = padded 2 (s' div 60 mod 60) \<longleftrightarrow> s div 60 mod 60 = s' div 60 mod 60)"
      "(padded 2 (s mod 60) < padded 2 (s' mod 60) \<longleftrightarrow> s mod 60 < s' mod 60) \<and> (padded 2 (s mod 60) = padded 2 (s' mod 60) \<longleftrightarrow> s mod 60 = s' mod 60)"
    using v v' h month_days_le [of y m] month_days_le [of y' m'] by (intro p2; simp)+
  have lex: "instant_text n < instant_text n' \<longleftrightarrow>
      (y < y' \<or> y = y' \<and> (m < m' \<or> m = m' \<and> (d < d' \<or> d = d' \<and> (s div 3600 < s' div 3600 \<or> s div 3600 = s' div 3600 \<and>
        (s div 60 mod 60 < s' div 60 mod 60 \<or> s div 60 mod 60 = s' div 60 mod 60 \<and>
          (s mod 60 < s' mod 60 \<or> s mod 60 = s' mod 60 \<and> n mod 1000000 < n' mod 1000000))))))"
    unfolding t t' s_def [symmetric] s'_def [symmetric]
    by (simp add: less_append_same_length eqs two)
  have q3600: "s div 60 div 60 = s div 3600" "s' div 60 div 60 = s' div 3600" by (simp_all add: div_mult2_eq [symmetric])
  have s60: "s < s' \<longleftrightarrow> s div 60 < s' div 60 \<or> s div 60 = s' div 60 \<and> s mod 60 < s' mod 60"
    by (rule quotient_less) simp
  have m60: "s div 60 < s' div 60 \<longleftrightarrow> s div 3600 < s' div 3600 \<or> s div 3600 = s' div 3600 \<and> s div 60 mod 60 < s' div 60 mod 60"
    unfolding q3600 [symmetric] by (rule quotient_less) simp
  have e60: "s div 60 = s' div 60 \<longleftrightarrow> s div 3600 = s' div 3600 \<and> s div 60 mod 60 = s' div 60 mod 60"
    unfolding q3600 [symmetric] by (metis div_mult_mod_eq)
  have "s = s' \<longleftrightarrow> s div 60 = s' div 60 \<and> s mod 60 = s' mod 60" by (metis div_mult_mod_eq)
  moreover have "n < n' \<longleftrightarrow> n div 1000000 < n' div 1000000 \<or> n div 1000000 = n' div 1000000 \<and> n mod 1000000 < n' mod 1000000"
    by (rule quotient_less) simp
  moreover have "n div 1000000 < n' div 1000000 \<longleftrightarrow> ordinal y m d < ordinal y' m' d' \<or> ordinal y m d = ordinal y' m' d' \<and> s < s'"
    unfolding o o' s_def s'_def by (rule quotient_less) simp
  moreover have "n div 1000000 = n' div 1000000 \<longleftrightarrow> ordinal y m d = ordinal y' m' d' \<and> s = s'"
    unfolding o o' s_def s'_def by (metis div_mult_mod_eq)
  ultimately show ?thesis unfolding lex using ordinal_less [OF date] s60 m60 e60 by argo
qed

section \<open>The form of the texts\<close>

definition utc_stamp :: "chars \<Rightarrow> ustr \<Rightarrow> bool" where
  "utc_stamp C s \<longleftrightarrow> (\<exists>whole fraction. s = whole @ dot # fraction @ [90] \<and> length fraction = 6 \<and>
     list_all (\<lambda>c. ascii_digit c \<and> is_digit C c) fraction \<and> date_shape C whole \<and> calendar_ok C whole)"

text \<open>The Unicode table gives the ASCII digits their values.\<close>

definition ascii_table :: "chars \<Rightarrow> bool" where
  "ascii_table C \<longleftrightarrow> (\<forall>c. ascii_digit c \<longrightarrow> ch_digit C c = Some (c - 48))"

lemma digits_value_ascii: "ascii_table C \<Longrightarrow> list_all ascii_digit s \<Longrightarrow> digits_value C s = number_of s"
proof -
  assume C: "ascii_table C"
  have "list_all ascii_digit s \<Longrightarrow> foldl (\<lambda>n c. 10 * n + the (ch_digit C c)) k s = foldl (\<lambda>n c. 10 * n + (c - 48)) k s" for k
    using C by (induction s arbitrary: k) (auto simp: ascii_table_def)
  then show "list_all ascii_digit s \<Longrightarrow> digits_value C s = number_of s" by (simp add: digits_value_def number_of_def)
qed

lemma stamp_parts:
  assumes "length a = 4" and "length b = 2" and "length c = 2" and "length h = 2" and "length m = 2" and "length s = 2"
    and C: "ascii_table C" and d: "list_all ascii_digit (a @ b @ c @ h @ m @ s)"
    and v: "1 \<le> number_of a" "1 \<le> number_of b" "number_of b \<le> 12" "1 \<le> number_of c" "number_of c \<le> month_days (number_of a) (number_of b)"
      "number_of h \<le> 23" "number_of m \<le> 59" "number_of s \<le> 59"
  shows "date_shape C (a @ [45] @ b @ [45] @ c @ [84] @ h @ [58] @ m @ [58] @ s) \<and>
    calendar_ok C (a @ [45] @ b @ [45] @ c @ [84] @ h @ [58] @ m @ [58] @ s)"
proof -
  have n: "digits_value C a = number_of a" "digits_value C b = number_of b" "digits_value C c = number_of c"
      "digits_value C h = number_of h" "digits_value C m = number_of m" "digits_value C s = number_of s"
    using d by (simp_all add: digits_value_ascii [OF C])
  have ascii: "is_digit C x" if "ascii_digit x" for x using C that by (simp add: is_digit_def ascii_table_def)
  obtain a1 a2 a3 a4 where a: "a = [a1, a2, a3, a4]" using assms(1) by (auto simp: numeral_eq_Suc length_Suc_conv)
  obtain b1 b2 where b: "b = [b1, b2]" using assms(2) by (auto simp: numeral_eq_Suc length_Suc_conv)
  obtain c1 c2 where c: "c = [c1, c2]" using assms(3) by (auto simp: numeral_eq_Suc length_Suc_conv)
  obtain h1 h2 where h: "h = [h1, h2]" using assms(4) by (auto simp: numeral_eq_Suc length_Suc_conv)
  obtain m1 m2 where m: "m = [m1, m2]" using assms(5) by (auto simp: numeral_eq_Suc length_Suc_conv)
  obtain s1 s2 where s: "s = [s1, s2]" using assms(6) by (auto simp: numeral_eq_Suc length_Suc_conv)
  show ?thesis
    using d v ascii n unfolding a b c h m s date_shape_def calendar_ok_def by (simp add: Let_def)
qed

lemma instant_stamp:
  assumes C: "ascii_table C" and n: "n < calendar_end"
  shows "utc_stamp C (instant_text n)"
proof -
  obtain y m d where t: "instant_text n =
      padded 4 y @ [45] @ padded 2 m @ [45] @ padded 2 d @ [84] @
      padded 2 (n div 1000000 mod 86400 div 3600) @ [58] @ padded 2 (n div 1000000 mod 86400 div 60 mod 60) @ [58] @
      padded 2 (n div 1000000 mod 86400 mod 60) @ [46] @ padded 6 (n mod 1000000) @ [90]"
    and v: "1 \<le> y" "y < 10000" "1 \<le> m" "m \<le> 12" "1 \<le> d" "d \<le> month_days y m"
    by (rule instant_parts [OF n])
  let ?s = "n div 1000000 mod 86400"
  have h: "?s div 3600 < 24" by (simp add: less_mult_imp_div_less)
  have digits: "list_all ascii_digit (padded k i)" for k i by (auto simp: list_all_iff dest: padded_digits)
  have whole: "date_shape C (padded 4 y @ [45] @ padded 2 m @ [45] @ padded 2 d @ [84] @
        padded 2 (?s div 3600) @ [58] @ padded 2 (?s div 60 mod 60) @ [58] @ padded 2 (?s mod 60)) \<and>
      calendar_ok C (padded 4 y @ [45] @ padded 2 m @ [45] @ padded 2 d @ [84] @
        padded 2 (?s div 3600) @ [58] @ padded 2 (?s div 60 mod 60) @ [58] @ padded 2 (?s mod 60))"
    by (rule stamp_parts [OF _ _ _ _ _ _ C])
      (use v h month_days_le [of y m] in \<open>simp_all add: number_of_padded digits del: padded.simps\<close>)
  have "list_all (\<lambda>c. ascii_digit c \<and> is_digit C c) (padded 6 (n mod 1000000))"
    using C by (auto simp: list_all_iff is_digit_def ascii_table_def dest: padded_digits)
  then show ?thesis
    unfolding utc_stamp_def t using whole
    by (intro exI [where x = "padded 6 (n mod 1000000)"] exI [where x = "padded 4 y @ [45] @ padded 2 m @ [45] @ padded 2 d @ [84] @
        padded 2 (?s div 3600) @ [58] @ padded 2 (?s div 60 mod 60) @ [58] @ padded 2 (?s mod 60)"])
      (simp del: padded.simps)
qed

section \<open>Properties\<close>

text \<open>
  C39: \<open>timestamp\<close> is the inverse of \<open>utc\<close>: the text written for an instant of the years 1 to 9999 reads
  back as that instant, to the microsecond.
\<close>

theorem timestamp_utc: "utc_text t = Inr s \<Longrightarrow> timestamp_of s = Some t"
  by (auto simp: utc_text_def timestamp_text nat_less_iff split: if_splits)

lemma padded_numeral: "padded (numeral k) n = padded (pred_numeral k) (n div 10) @ [48 + n mod 10]"
  by (simp only: numeral_eq_Suc [of k] padded.simps)

lemma first_text: "utc_text (1 - epoch_offset) = Inr (lit ''0001-01-01T00:00:00.000001Z'')"
proof -
  have y: "split_year 1 0 = (1, 0)" by (subst split_year.simps) (simp add: year_days_def leap_year_def)
  have m: "split_month 1 1 0 = (1, 0)" by (subst split_month.simps) (simp add: month_days_def)
  have p: "padded 2 0 = [48, 48]" "padded 2 1 = [48, 49]" "padded 4 1 = [48, 48, 48, 49]" "padded 6 1 = [48, 48, 48, 48, 48, 49]"
    by (simp_all add: padded_numeral)
  have "instant_text 1 = padded 4 1 @ [45] @ padded 2 1 @ [45] @ padded 2 1 @ [84] @ padded 2 0 @ [58] @ padded 2 0 @ [58] @
      padded 2 0 @ [46] @ padded 6 1 @ [90]"
    using y m by (simp add: instant_text_def Let_def)
  also have "\<dots> = lit ''0001-01-01T00:00:00.000001Z''" unfolding p by code_simp
  finally show ?thesis by (simp add: utc_text_def calendar_end_def)
qed

theorem timestamp_utc_witness: "timestamp_of (lit ''0001-01-01T00:00:00.000001Z'') = Some (1 - epoch_offset)"
  by (rule timestamp_utc [OF first_text])

definition sample_chars :: chars where
  "sample_chars =
     \<lparr>ch_word = (\<lambda>c. 48 \<le> c \<and> c \<le> 57 \<or> 97 \<le> c \<and> c \<le> 122),
      ch_digit = (\<lambda>c. if 48 \<le> c \<and> c \<le> 57 then Some (c - 48) else None),
      ch_casefold = map (\<lambda>c. if 65 \<le> c \<and> c \<le> 90 then c + 32 else c), ch_sha256 = (\<lambda>s. s)\<rparr>"

end
