(* ===== verification/Search_Correct.thy ===== *)
theory Search_Correct
  imports Search_Matching Search_Sorting Timestamps
begin

text \<open>
  The answers with a prepared index equal those of the scan, on time stamps as \<open>utc\<close> writes them.
\<close>

section \<open>The answers agree\<close>

lemma keep_first_set: "set (keep_first xs) = set xs"
proof -
  have "set (foldl (\<lambda>acc x. if x \<in> set acc then acc else acc @ [x]) zs xs) = set zs \<union> set xs" for zs
    by (induction xs arbitrary: zs) auto
  then show ?thesis by (simp add: keep_first_def)
qed

lemma parse_chunks_nonempty: "parse_chunks C s = Inr cs \<Longrightarrow> c \<in> set cs \<Longrightarrow> snd c \<noteq> []"
proof (induction C s arbitrary: cs rule: parse_chunks.induct)
  case (2 C c s)
  have step: "\<exists>ds. m = Inr ds \<and> es = x # ds" if "ebind m (\<lambda>chunks. Inr (x # chunks)) = Inr es"
    for m :: "exn + (bool \<times> ustr list) list" and x es using that by (cases m) auto
  consider "is_space c" | "\<not> is_space c" "c = quote" | "\<not> is_space c" "c \<noteq> quote" by blast
  then show ?case
  proof cases
    case 1
    then show ?thesis using 2 by simp
  next
    case 2
    then show ?thesis using "2.prems" "2.IH"(2) [OF _ _ _ refl refl] by (auto simp: Let_def split: if_splits dest!: step)
  next
    case 3
    then show ?thesis using "2.prems" "2.IH"(3) [OF _ _ refl refl] by (auto simp: Let_def split: if_splits dest!: step)
  qed
qed simp

lemma parse_query_phrases: "parse_query C s = Inr q \<Longrightarrow> phrase \<in> set (qy_phrases q) \<Longrightarrow> phrase \<noteq> []"
  using parse_chunks_nonempty [of C s]
  by (cases "parse_chunks C s") (fastforce simp: parse_query_def keep_first_set)+

definition distinct_items :: "search_item list \<Rightarrow> bool" where
  "distinct_items items \<longleftrightarrow> distinct (map it_item_id items)"

lemma distinct_ties: "distinct_items items \<Longrightarrow> distinct (map (path_tie C) items)"
  by (auto simp: distinct_items_def distinct_map inj_on_def path_tie_def Let_def)

lemma facet_groups: "facet_from_groups C (chain_groups sel items) prefix = facet_of C (filter (has_chain sel) items) (length sel) prefix"
  by (simp add: facet_of_def chain_groups_def)

lemma scan_without_text: "\<not> has_text q \<Longrightarrow> matches_and_score C item q \<noteq> None"
  by (simp add: has_text_def matches_and_score_def Let_def)

lemma scan_items_fst: "map fst (scan_items C q items) = filter (\<lambda>item. matches_and_score C item q \<noteq> None) items"
  by (induction items) (auto simp: scan_items_def split: option.split)


text \<open>Both ways refuse the same chains and start from the same candidates.\<close>

lemma positions_selected:
  assumes x: "loaded C items x" and i: "sx_items x = items"
  shows "(\<exists>e. positions x sel = Inl e \<and> selected_chain items sel = Inl e) \<or>
    (\<exists>ps. positions x sel = Inr ps \<and> selected_chain items sel = Inr (filter (has_chain sel) items) \<and>
       selected_markers x sel = Inr (if sel \<noteq> [] \<and> filter (has_chain sel) items \<noteq> []
         then take (length sel) (it_markers (hd (filter (has_chain sel) items))) else []))"
proof -
  have hd: "items ! hd (chain_positions items sel) = hd (filter (has_chain sel) items)" if "filter (has_chain sel) items \<noteq> []"
    using that chain_positions_items [of items sel] by (metis hd_map list.map_disc_iff)
  show ?thesis
    using hd by (auto simp: positions_alt [OF x] selected_chain_alt selected_markers_def i)
qed

lemma prepared_agrees:
  assumes x: "loaded C items x" "sx_items x = items" and d: "distinct_items items" and st: "uniform_stamps C items"
    and q: "\<And>phrase. phrase \<in> set (qy_phrases q) \<Longrightarrow> phrase \<noteq> []"
  shows "search_prepared C root x request limit q = search_scanning C root items request limit q"
proof -
  let ?sel = "rq_selected_marker_ids request" and ?prefix = "rq_facet_prefix request"
  let ?cand = "filter (has_chain ?sel) items"
  from positions_selected [OF x, of ?sel] consider
      e where "positions x ?sel = Inl e" "selected_chain items ?sel = Inl e"
    | ps where "positions x ?sel = Inr ps" "selected_chain items ?sel = Inr ?cand"
        "selected_markers x ?sel = Inr (if ?sel \<noteq> [] \<and> ?cand \<noteq> [] then take (length ?sel) (it_markers (hd ?cand)) else [])"
    by blast
  then show ?thesis
  proof cases
    case 1
    then show ?thesis by (simp add: search_prepared_def search_scanning_def selected_markers_def)
  next
    case 2
    from x(1) have groups: "get_or [] (sx_facets x) ?sel = chain_groups ?sel items" by (simp add: loaded_def)
    obtain rows where rows: "match_query x q ?sel = Inr rows"
        "map (row_of items) rows = scan_items C q ?cand" "distinct (map fst rows)" "\<forall>r\<in>set rows. fst r < length items"
      using match_query_agrees [OF x(1) _ 2(1), of q] q by (auto simp: row_of_def [abs_def])
    then have ok: "rows_ok C items rows" using distinct_ties [OF d] by (simp add: rows_ok_def)
    have items: "map (\<lambda>r. sx_items x ! fst r) rows = map fst (scan_items C q ?cand)"
      unfolding rows(2) [symmetric] by (simp add: x(2) row_of_def)
    have len: "length rows = length (scan_items C q ?cand)" using rows(2) by (metis length_map)
    have next_facet: "next_facet C x ?sel ?prefix = Inr (facet_of C ?cand (length ?sel) ?prefix)"
      by (simp add: next_facet_def 2(1) groups facet_groups)
    show ?thesis
      unfolding search_prepared_def search_scanning_def Let_def 2(2,3) ebind_simps next_facet rows(1) items len
        sort_limited_agrees [OF x(2) ok st] rows(2)
      by (cases "sort_rows C (scan_items C q ?cand) (rq_sort_field request) (rq_sort_direction request)") simp_all
  qed
qed

lemma facets_agree:
  assumes x: "loaded C items x" "sx_items x = items" and q: "\<And>phrase. phrase \<in> set (qy_phrases q) \<Longrightarrow> phrase \<noteq> []"
  shows "(if \<not> has_text q then next_facet C x sel prefix
      else ebind (match_query x q sel) (\<lambda>matching. Inr (facet_of C (map (\<lambda>r. sx_items x ! fst r) matching) (length sel) prefix))) =
    ebind (selected_chain items sel) (\<lambda>candidates.
      Inr (facet_of C (filter (\<lambda>item. matches_and_score C item q \<noteq> None) candidates) (length sel) prefix))"
proof -
  let ?cand = "filter (has_chain sel) items"
  from positions_selected [OF x, of sel] consider
      e where "positions x sel = Inl e" "selected_chain items sel = Inl e"
    | ps where "positions x sel = Inr ps" "selected_chain items sel = Inr ?cand" by blast
  then show ?thesis
  proof cases
    case 1
    then show ?thesis by (simp add: next_facet_def match_query_def)
  next
    case 2
    from x(1) have groups: "get_or [] (sx_facets x) sel = chain_groups sel items" by (simp add: loaded_def)
    obtain rows where rows: "match_query x q sel = Inr rows" "map (row_of items) rows = scan_items C q ?cand"
      using match_query_agrees [OF x(1) _ 2(1), of q] q by (auto simp: row_of_def [abs_def])
    have items: "map (\<lambda>r. sx_items x ! fst r) rows = map fst (scan_items C q ?cand)"
      unfolding rows(2) [symmetric] by (simp add: x(2) row_of_def)
    show ?thesis
    proof (cases "has_text q")
      case True
      then show ?thesis by (simp add: rows(1) items 2 scan_items_fst)
    next
      case False
      then have "filter (\<lambda>item. matches_and_score C item q \<noteq> None) ?cand = ?cand"
        using scan_without_text by (simp add: filter_id_conv)
      then show ?thesis using False by (simp add: next_facet_def 2 groups facet_groups)
    qed
  qed
qed

section \<open>Time stamps as \<open>utc\<close> writes them\<close>

lemma rstrip_Cons: "rstrip_char c (x # xs) = (if rstrip_char c xs = [] \<and> x = c then [] else x # rstrip_char c xs)"
  by (auto simp: rstrip_char_def dropWhile_append dropWhile_eq_Nil_conv)

lemma rstrip_less:
  "length xs = length ys \<Longrightarrow> \<forall>x\<in>set xs. c \<le> x \<Longrightarrow> \<forall>y\<in>set ys. c \<le> y \<Longrightarrow>
   rstrip_char c xs < rstrip_char c ys \<longleftrightarrow> xs < (ys :: ustr)"
proof (induction xs ys rule: list_induct2)
  case Nil
  show ?case by (simp add: rstrip_char_def)
next
  case (Cons x xs y ys)
  then show ?case
    by (cases "rstrip_char c xs"; cases "rstrip_char c ys") (auto simp: rstrip_Cons)
qed

lemma utc_stamp_key:
  assumes "s = whole @ dot # fraction @ [90]" and "length fraction = 6"
    and "list_all (\<lambda>c. ascii_digit c \<and> is_digit C c) fraction" and "date_shape C whole" and "calendar_ok C whole"
  shows "instant_sort_key C s = Inr (whole @ dot # rstrip_char 48 fraction)"
proof -
  have "length whole = 19" using assms(4) by (simp add: date_shape_def)
  then have "take 19 s = whole" "drop 19 s = dot # fraction @ [90]" by (simp_all add: assms(1))
  moreover have "\<forall>c\<in>set fraction. is_digit C c" using assms(3) by (simp add: list_all_iff)
  ultimately show ?thesis using assms by (simp add: instant_sort_key_def)
qed

lemma utc_stamps_uniform:
  assumes "\<forall>item\<in>set items. utc_stamp C (it_modified_at item)"
  shows "uniform_stamps C items"
  unfolding uniform_stamps_def
proof (intro ballI)
  fix a b assume "a \<in> set items" "b \<in> set items"
  with assms have ua: "utc_stamp C (it_modified_at a)" and ub: "utc_stamp C (it_modified_at b)" by auto
  obtain wa fa where a: "it_modified_at a = wa @ dot # fa @ [90]" "length fa = 6"
      "list_all (\<lambda>c. ascii_digit c \<and> is_digit C c) fa" "date_shape C wa" "calendar_ok C wa"
    using ua unfolding utc_stamp_def by blast
  obtain wb fb where b: "it_modified_at b = wb @ dot # fb @ [90]" "length fb = 6"
      "list_all (\<lambda>c. ascii_digit c \<and> is_digit C c) fb" "date_shape C wb" "calendar_ok C wb"
    using ub unfolding utc_stamp_def by blast
  have w: "length wa = length wb" using a(4) b(4) by (simp add: date_shape_def)
  have d: "\<forall>x\<in>set fa. 48 \<le> x" "\<forall>x\<in>set fb. 48 \<le> x" using a(3) b(3) by (auto simp: list_all_iff ascii_digit_def)
  have "wa @ dot # rstrip_char 48 fa < wb @ dot # rstrip_char 48 fb \<longleftrightarrow> it_modified_at a < it_modified_at b"
    using rstrip_less [OF _ d] less_append_same_length [of fa fb "[90]" "[90]"]
    by (simp add: a(1,2) b(1,2) less_append_same_length [OF w])
  then show "\<exists>ka kb. instant_sort_key C (it_modified_at a) = Inr ka \<and>
      instant_sort_key C (it_modified_at b) = Inr kb \<and> (ka < kb \<longleftrightarrow> it_modified_at a < it_modified_at b)"
    using utc_stamp_key [OF a] utc_stamp_key [OF b] by blast
qed

text \<open>
  C11: For items with distinct identifiers whose time stamps have the form of \<open>utc()\<close>, the search and the
  facet answered from the prepared index (token postings, marker chains, facet groups, rank tables and partial
  selection) are exactly the answers, errors included, of scanning, scoring and sorting all items.
\<close>

theorem search_prepared_agrees:
  assumes "distinct_items items" and "\<forall>item\<in>set items. utc_stamp C (it_modified_at item)"
  shows "search C root items request limit (Some (build_index C items)) = search C root items request limit None \<and>
    facet_answer C root items request (Some (build_index C items)) = facet_answer C root items request None"
proof (cases "parse_query C (rq_query_text request)")
  case (Inl e)
  then show ?thesis by (simp add: search_def facet_answer_def check_prepared_def build_items)
next
  case (Inr q)
  note x = loaded_build [of C items] build_items [of C items]
  have "search_prepared C root (build_index C items) request limit q = search_scanning C root items request limit q"
    using Inr by (intro prepared_agrees [OF x assms(1) utc_stamps_uniform [OF assms(2)]]) (rule parse_query_phrases)
  moreover note facets_agree [OF x parse_query_phrases [OF Inr], where sel = "rq_selected_marker_ids request" and prefix = "rq_facet_prefix request"]
  ultimately show ?thesis
    by (simp add: search_def facet_answer_def check_prepared_def Inr build_items)
qed

definition sample_found :: "string \<Rightarrow> string \<Rightarrow> string \<Rightarrow> search_item" where
  "sample_found identity path stamp =
     \<lparr>it_item_id = lit identity, it_location = \<lparr>loc_root_id = lit ''r'', loc_relative_path = lit path, loc_display_path = lit path\<rparr>,
      it_filename = lit path, it_markers = [], it_extension = [], it_size_bytes = 1, it_modified_at = lit stamp, it_issue = None\<rparr>"

definition sample_items :: "search_item list" where
  "sample_items = [sample_found ''i1'' ''a2'' ''0001-01-02T03:04:05.000000Z'', sample_found ''i2'' ''a1'' ''0001-01-02T03:04:05.500000Z'']"

lemma utc_stampI:
  "s = whole @ dot # fraction @ [90] \<Longrightarrow> length fraction = 6 \<Longrightarrow>
   list_all (\<lambda>c. ascii_digit c \<and> is_digit C c) fraction \<Longrightarrow> date_shape C whole \<Longrightarrow> calendar_ok C whole \<Longrightarrow> utc_stamp C s"
  unfolding utc_stamp_def by blast

lemma found_stamp: "it_modified_at (sample_found identity path stamp) = lit stamp"
  by (simp add: sample_found_def)

lemma sample_items_ok: "distinct_items sample_items" "\<forall>item\<in>set sample_items. utc_stamp sample_chars (it_modified_at item)"
proof -
  show "distinct_items sample_items" by code_simp
  have ok: "date_shape sample_chars (lit ''0001-01-02T03:04:05'')" "calendar_ok sample_chars (lit ''0001-01-02T03:04:05'')"
    by code_simp+
  have a: "utc_stamp sample_chars (lit ''0001-01-02T03:04:05.000000Z'')"
    by (rule utc_stampI [OF _ _ _ ok, where fraction = "lit ''000000''"]; code_simp)
  have b: "utc_stamp sample_chars (lit ''0001-01-02T03:04:05.500000Z'')"
    by (rule utc_stampI [OF _ _ _ ok, where fraction = "lit ''500000''"]; code_simp)
  show "\<forall>item\<in>set sample_items. utc_stamp sample_chars (it_modified_at item)"
    unfolding sample_items_def list.set ball_simps found_stamp using a b by blast
qed

definition mixed_items :: "search_item list" where
  "mixed_items = [sample_found ''i1'' ''a2'' ''0001-01-02T03:04:05Z'', sample_found ''i2'' ''a1'' ''0001-01-02T03:04:05.5Z'']"

definition sample_published :: published_root where
  "sample_published = \<lparr>pb_root_id = lit ''r'', pb_schema_set_version = lit ''v'', pb_index_generation = lit ''g'', pb_indexed_at = []\<rparr>"

definition sample_request :: search_request where
  "sample_request = \<lparr>rq_request_state_id = [], rq_root_id = lit ''r'', rq_schema_set_version = lit ''v'', rq_query_text = lit ''A'',
     rq_selected_marker_ids = [], rq_facet_prefix = [], rq_sort_field = MODIFIED_AT, rq_sort_direction = DESC\<rparr>"

lemma search_prepared_agrees_witness:
  "map_sum id (map it_item_id \<circ> sr_items)
     (search sample_chars sample_published sample_items sample_request 1 (Some (build_index sample_chars sample_items))) = Inr [lit ''i2'']"
proof -
  have "map_sum id (map it_item_id \<circ> sr_items) (search sample_chars sample_published sample_items sample_request 1 None) = Inr [lit ''i2'']"
    by code_simp
  then show ?thesis using search_prepared_agrees [OF sample_items_ok, of sample_published sample_request 1] by simp
qed

section \<open>Time stamps of different precision\<close>

lemma first_of_two:
  assumes "f r < (f s :: 'k::linorder)" and "xs = [r, s] \<or> xs = [s, r]"
  shows "take 1 (sort_dir d f xs) = [if d = DESC then s else r]"
  using assms by (auto simp: sort_dir_def sorted_desc_def)

lemma sort_key_two: "xs = [r, s] \<or> xs = [s, r] \<Longrightarrow> sort_key f xs = [r, s] \<or> sort_key f xs = [s, r]"
  by (auto simp: insort_key_def)

text \<open>
  The stamp of a whole second against one with a fraction of the same second: \<open>Z\<close> is above the dot, so the
  texts and the instants are ordered the opposite way.
\<close>

lemma mixed_stamps:
  assumes "date_shape C whole" "calendar_ok C whole" and "list_all (is_digit C) fraction" "rstrip_char 48 fraction \<noteq> []"
  shows "instant_sort_key C (whole @ [90]) = Inr (whole @ [dot])"
    and "instant_sort_key C (whole @ dot # fraction @ [90]) = Inr (whole @ dot # rstrip_char 48 fraction)"
    and "whole @ dot # fraction @ [90] < whole @ [90]" and "whole @ [dot] < whole @ dot # rstrip_char 48 fraction"
proof -
  have "length whole = 19" using assms(1) by (simp add: date_shape_def)
  moreover have "fraction \<noteq> []" using assms(4) by (auto simp: rstrip_char_def)
  ultimately show "instant_sort_key C (whole @ [90]) = Inr (whole @ [dot])"
    "instant_sort_key C (whole @ dot # fraction @ [90]) = Inr (whole @ dot # rstrip_char 48 fraction)"
    using assms by (auto simp: instant_sort_key_def rstrip_char_def list_all_iff)
  show "whole @ dot # fraction @ [90] < whole @ [90]" "whole @ [dot] < whole @ dot # rstrip_char 48 fraction"
    using assms(4) by (cases "rstrip_char 48 fraction"; simp add: less_append_same_length)+
qed

lemma sort_two_stamps:
  assumes "instant_sort_key C (it_modified_at (fst r)) = Inr j" "instant_sort_key C (it_modified_at (fst s)) = Inr k" "j < k"
    and "rows = [r, s] \<or> rows = [s, r]" and "d \<noteq> Other_direction"
  obtains sorted where "sort_rows C rows MODIFIED_AT d = Inr sorted" and "take 1 sorted = [fst (if d = DESC then s else r)]"
proof -
  let ?tied = "sort_key (path_tie C \<circ> fst) rows"
  have tied: "?tied = [r, s] \<or> ?tied = [s, r]" using assms(4) by (rule sort_key_two)
  have "instant_keys C ?tied = Inr (map (\<lambda>r. (stamp_key C r, r)) ?tied)"
    by (rule instant_keys_all) (use assms(1,2,4) in auto)
  then have "sort_rows C rows MODIFIED_AT d = Inr (map fst (sort_dir d (stamp_key C) ?tied))"
    using assms(5) by (simp add: sort_rows_def check_sort_def sort_by_stamp eguard_def)
  moreover have "take 1 (map fst (sort_dir d (stamp_key C) ?tied)) = [fst (if d = DESC then s else r)]"
    using first_of_two [of "stamp_key C" r s ?tied d] assms(1-3) tied by (simp add: take_map stamp_key_def)
  ultimately show thesis by (rule that)
qed

lemma select_two_texts:
  assumes "sx_items x = items" "it_modified_at (items ! fst s) < it_modified_at (items ! fst r)"
    and "rows = [r, s] \<or> rows = [s, r]" and "d \<noteq> Other_direction"
  shows "sort_limited C x rows MODIFIED_AT d 1 = Inr [items ! fst (if d = DESC then r else s)]"
proof -
  let ?key = "\<lambda>r. (it_modified_at (items ! fst r), if d = DESC then - int (path_rank C x (fst r)) else int (path_rank C x (fst r)))"
  have "?key s < ?key r" using assms(2) by simp
  from first_of_two [of ?key, OF this, of rows d] assms(3)
  have "select_rows d 1 ?key rows = [if d = DESC then r else s]" by (auto simp: select_rows_def)
  moreover have "\<not> length rows \<le> 1" using assms(3) by auto
  ultimately show ?thesis
    using assms(1,4) by (simp add: sort_limited_def check_sort_def eguard_def Let_def)
qed

text \<open>
  C35: Without the hypothesis on time stamps the two ways differ. Whenever exactly two items match a request for the
  first item by time, one stamped with a whole second and the other with a later instant of the same second, the
  scan, which compares instants, and the prepared index, which compares the texts, answer with different items.
\<close>

theorem prepared_compares_texts:
  assumes "distinct_items items" and "{item \<in> set items. matches_and_score C item q \<noteq> None} = {a, b}"
    and "parse_query C (rq_query_text request) = Inr q" "has_text q" and "validate_context root request = Inr ()"
    and "rq_selected_marker_ids request = []" "rq_sort_field request = MODIFIED_AT" "rq_sort_direction request \<noteq> Other_direction"
    and "it_modified_at a = whole @ [90]" "it_modified_at b = whole @ dot # fraction @ [90]"
    and "date_shape C whole" "calendar_ok C whole" and "list_all (is_digit C) fraction" "rstrip_char 48 fraction \<noteq> []"
  shows "map_sum id sr_items (search C root items request 1 None) =
      Inr [if rq_sort_direction request = DESC then b else a] \<and>
    map_sum id sr_items (search C root items request 1 (Some (build_index C items))) =
      Inr [if rq_sort_direction request = DESC then a else b]"
proof -
  let ?x = "build_index C items" and ?hits = "filter (\<lambda>item. matches_and_score C item q \<noteq> None) items" and ?d = "rq_sort_direction request"
  note x = loaded_build [of C items] build_items [of C items]
  note stamps = mixed_stamps [OF assms(11-14)]
  have all: "filter (has_chain []) items = items" by (simp add: has_chain_def)
  from positions_selected [OF x, of "[]"] obtain ps where ps: "positions ?x [] = Inr ps" and "selected_markers ?x [] = Inr []"
    by (auto simp: selected_chain_def)
  obtain rows where rows: "match_query ?x q [] = Inr rows" "map (row_of items) rows = scan_items C q items"
    using match_query_agrees [OF x(1) _ ps, of q] parse_query_phrases [OF assms(3)] all by (auto simp: row_of_def [abs_def])
  have "distinct ?hits" "set ?hits = {a, b}" "a \<noteq> b"
    using assms(1,2) assms(9,10) stamps(3) by (auto simp: distinct_items_def distinct_map)
  then have "length ?hits = 2" by (metis card_2_iff distinct_card)
  moreover have fsts: "map fst (map (row_of items) rows) = ?hits" unfolding rows(2) by (rule scan_items_fst)
  ultimately have "length rows = 2" by (metis length_map)
  then obtain r1 r2 where rs: "rows = [r1, r2]" by (auto simp: length_Suc_conv numeral_2_eq_2)
  have "set (map fst (map (row_of items) rows)) = {a, b}" unfolding fsts by fact
  then have "{fst (row_of items r1), fst (row_of items r2)} = {a, b}" by (simp add: rs)
  then obtain r s where two: "rows = [r, s] \<or> rows = [s, r]" and hit: "fst (row_of items r) = a" "fst (row_of items s) = b"
    unfolding rs doubleton_eq_iff by blast
  have "map (row_of items) rows = [row_of items r, row_of items s] \<or> map (row_of items) rows = [row_of items s, row_of items r]"
    using two by auto
  from sort_two_stamps [OF _ _ stamps(4) this assms(8)] obtain sorted where
    sorted: "sort_rows C (scan_items C q items) MODIFIED_AT ?d = Inr sorted" "take 1 sorted = [if ?d = DESC then b else a]"
    using stamps(1,2) hit assms(9,10) unfolding rows(2) by (metis (mono_tags))
  have "sort_limited C ?x rows MODIFIED_AT ?d 1 = Inr [if ?d = DESC then a else b]"
    using select_two_texts [OF x(2) _ two assms(8)] hit assms(9,10) stamps(3) by (simp add: row_of_def split: if_splits)
  then show ?thesis
    using sorted assms(3-7) rows(1) \<open>selected_markers ?x [] = Inr []\<close> x(2)
    by (simp add: search_def check_prepared_def search_scanning_def search_prepared_def selected_chain_def results_response_def Let_def eguard_def)
qed

lemma prepared_compares_texts_witness:
  "map_sum id sr_items (search sample_chars sample_published mixed_items sample_request 1 None) = Inr [mixed_items ! 1] \<and>
   map_sum id sr_items (search sample_chars sample_published mixed_items sample_request 1 (Some (build_index sample_chars mixed_items))) = Inr [mixed_items ! 0]"
proof -
  let ?q = "projr (parse_query sample_chars (rq_query_text sample_request))"
  have q: "parse_query sample_chars (rq_query_text sample_request) = Inr ?q" by code_simp
  have "has_text ?q" "distinct_items mixed_items" by code_simp+
  moreover have "list_all (\<lambda>item. matches_and_score sample_chars item ?q \<noteq> None) mixed_items" by code_simp
  then have "{item \<in> set mixed_items. matches_and_score sample_chars item ?q \<noteq> None} = {mixed_items ! 0, mixed_items ! 1}"
    by (auto simp: mixed_items_def)
  moreover have "date_shape sample_chars (lit ''0001-01-02T03:04:05'')" "calendar_ok sample_chars (lit ''0001-01-02T03:04:05'')"
    "list_all (is_digit sample_chars) (lit ''5'')" "rstrip_char 48 (lit ''5'') \<noteq> []" by code_simp+
  moreover have "validate_context sample_published sample_request = Inr ()" by code_simp
  moreover have "rq_sort_direction sample_request = DESC" "rq_sort_field sample_request = MODIFIED_AT" "rq_selected_marker_ids sample_request = []"
    by (simp_all add: sample_request_def)
  moreover have "it_modified_at (mixed_items ! 0) = lit ''0001-01-02T03:04:05'' @ [90]"
    "it_modified_at (mixed_items ! 1) = lit ''0001-01-02T03:04:05'' @ dot # lit ''5'' @ [90]" by code_simp+
  ultimately show ?thesis using q prepared_compares_texts [of mixed_items sample_chars ?q "mixed_items ! 0" "mixed_items ! 1" sample_request sample_published] by simp
qed

end
