(* ===== verification/Search_Items.thy ===== *)
theory Search_Items
  imports Search_Correct "HOL-Library.Sublist"
begin

text \<open>The items of the index: the compiled schema, the markers of an item and what a match means.\<close>

section \<open>The compiled schema\<close>

lemma parse_levels_compiled:
  assumes "\<And>ps. expected' ps = map f (expected ps)" and "\<And>l. describe' (f l) = describe l"
    and "\<And>l. optional' (f l) = optional l" and "\<And>l v. allows' (f l) v = allows l v"
  shows "parse_levels C r version expected' describe' optional' allows' parsed ds =
    parse_levels C r version expected describe optional allows parsed ds"
proof (induction ds arbitrary: parsed)
  have nth: "expected' ps ! n = f (expected ps ! n)" "length (expected' ps) = length (expected ps)" if "n < length (expected ps)" for ps n
    using that by (simp_all add: assms(1))
  {
    case Nil
    show ?case
      by (cases "length parsed < length (expected parsed)") (simp_all add: Let_def nth assms(2-4), simp_all add: assms(1))
  next
    case (Cons d ds)
    then show ?case
      by (cases "length parsed < length (expected parsed)") (simp_all add: Let_def nth assms(2-4), simp_all add: assms(1))
  }
qed

lemma dict_get_map:
  "dict_get (map (\<lambda>(k, v). (g k, f v)) pairs) k = map_option f (dict_get (map (\<lambda>(k, v). (g k, v)) pairs) k)"
proof -
  have "map_of (map (\<lambda>(k, v). (g k, f v)) ps) k = map_option f (map_of (map (\<lambda>(k, v). (g k, v)) ps) k)" for ps
    by (induction ps) auto
  then show ?thesis by (simp add: dict_get_def rev_map)
qed

text \<open>
  Building an item with the compiled schema (case-folded once) gives the same item, or the same error,
  as building it with the schema itself.
\<close>

theorem build_item_compiled:
  "build_item C r d path bytes stamp s identity (Some (compile_schema C s)) = build_item C r d path bytes stamp s identity None"
proof -
  have "compiled_levels C (compile_schema C s) ps = map (compile_level C) (levels C s ps)" for ps
    by (simp add: compiled_levels_def compile_schema_def levels_def dict_get_map [where f = "map (compile_level C)"] split: option.split)
  then have "parse_levels C r (cs_version (compile_schema C s)) (compiled_levels C (compile_schema C s)) (\<lambda>l. (cl_id l, cl_name l)) cl_optional
      (\<lambda>l v. ch_casefold C v \<in> set (cl_folded l)) [] ds =
    parse_levels C r (sc_version s) (levels C s) (\<lambda>l. (lv_id l, lv_name l)) lv_optional
      (\<lambda>l v. ch_casefold C v \<in> set (map (ch_casefold C) (lv_values l))) [] ds" for ds
    unfolding compile_schema_def compiled_schema.simps
    by (intro parse_levels_compiled [where f = "compile_level C"]) (simp_all add: compile_level_def compile_schema_def)
  then show ?thesis by (simp only: build_item_def option.case Let_def)
qed

definition sample_schema :: schema where
  "sample_schema =
     \<lparr>sc_version = lit ''v'', sc_root_levels =
        [\<lparr>lv_id = lit ''a'', lv_name = lit ''A'', lv_values = [lit ''p1''], lv_optional = False\<rparr>,
         \<lparr>lv_id = lit ''b'', lv_name = lit ''B'', lv_values = [lit ''y''], lv_optional = True\<rparr>], sc_tail = []\<rparr>"

section \<open>Markers\<close>

lemma parse_levels_shape:
  "parse_levels C r version expected describe optional allows parsed ds = Inr (ms, issue) \<Longrightarrow>
   \<exists>n\<le>length ds. map mk_raw_value ms = map Some (take n ds) @ (if issue = None then [] else [None]) \<and>
     (issue = None \<longrightarrow> n = length ds) \<and> list_all (\<lambda>m. (mk_kind m = UNRECOGNIZED) = (mk_raw_value m = None)) ms"
proof (induction C r version expected describe optional allows parsed ds arbitrary: ms issue rule: parse_levels.induct)
  case (1 C r version expected describe optional allows parsed)
  then show ?case by (auto simp: Let_def marker_of_def split: if_splits)
next
  case (2 C r version expected describe optional allows parsed v rest)
  let ?ls = "expected parsed" and ?l = "expected parsed ! length parsed"
  consider "length parsed = length ?ls" | "length parsed \<noteq> length ?ls" "\<not> length ?ls < length parsed" "\<not> allows ?l v"
    | "length parsed \<noteq> length ?ls" "\<not> length ?ls < length parsed" "allows ?l v"
    using "2.prems" by (cases "length ?ls < length parsed") (auto simp: Let_def)
  then show ?case
  proof cases
    case 3
    then obtain ms' where p: "parse_levels C r version expected describe optional allows (parsed @ [v]) rest = Inr (ms', issue)"
        and ms: "ms = marker_of C r version (describe ?l) (Some v) parsed # ms'"
      using "2.prems" by (cases "parse_levels C r version expected describe optional allows (parsed @ [v]) rest") (auto simp: Let_def)
    obtain n where "n \<le> length rest" "map mk_raw_value ms' = map Some (take n rest) @ (if issue = None then [] else [None])"
        "issue = None \<longrightarrow> n = length rest" "list_all (\<lambda>m. (mk_kind m = UNRECOGNIZED) = (mk_raw_value m = None)) ms'"
      using "2.IH" [OF refl _ _ refl _ p] 3 by auto
    then show ?thesis by (intro exI [where x = "Suc n"]) (simp add: ms marker_of_def)
  qed (use "2.prems" in \<open>auto simp: Let_def marker_of_def\<close>)
qed

text \<open>
  C36: A built item has one marker per directory read: values first, in the order of the directories, and at
  most one unrecognised marker, the last, exactly when the item has a structure issue; without an issue every
  directory was read. Directories and file name are the non-empty components of its path.
\<close>

theorem build_item_shape:
  assumes "build_item C r d path bytes stamp s identity compiled = Inr item"
  shows "\<exists>ds n. ds @ [it_filename item] = filter (\<lambda>p. p \<noteq> []) (split_on slash (loc_relative_path (it_location item))) \<and>
    n \<le> length ds \<and> (it_issue item = None \<longrightarrow> n = length ds) \<and>
    map mk_raw_value (it_markers item) = map Some (take n ds) @ (if it_issue item = None then [] else [None]) \<and>
    list_all (\<lambda>m. (mk_kind m = UNRECOGNIZED) = (mk_raw_value m = None)) (it_markers item)"
proof -
  define clean where "clean = strip_char slash (replace_char backslash slash path)"
  define ps where "ps = filter (\<lambda>p. p \<noteq> []) (split_on slash clean)"
  have "ps \<noteq> []" using assms by (auto simp: build_item_def clean_def ps_def Let_def split: if_splits)
  moreover obtain parsed where item: "item = item_of r d clean (last ps) bytes stamp identity parsed"
      and "\<exists>n\<le>length (butlast ps). map mk_raw_value (fst parsed) = map Some (take n (butlast ps)) @ (if snd parsed = None then [] else [None]) \<and>
        (snd parsed = None \<longrightarrow> n = length (butlast ps)) \<and> list_all (\<lambda>m. (mk_kind m = UNRECOGNIZED) = (mk_raw_value m = None)) (fst parsed)"
    using assms \<open>ps \<noteq> []\<close> unfolding build_item_def clean_def [symmetric] Let_def ps_def [symmetric]
    by (force simp: ebind_def split: sum.splits option.splits dest: parse_levels_shape)
  ultimately show ?thesis
    by (intro exI [where x = "butlast ps"]) (auto simp: item_of_def ps_def)
qed

lemma build_item_shape_witness:
  "\<exists>item. build_item sample_chars (lit ''r'') [] (lit ''P1/x/f.txt'') 1 (lit ''z'') sample_schema (lit ''i'') None = Inr item \<and>
     it_issue item \<noteq> None \<and> map mk_raw_value (it_markers item) = [Some (lit ''P1''), None]"
proof -
  let ?r = "build_item sample_chars (lit ''r'') [] (lit ''P1/x/f.txt'') 1 (lit ''z'') sample_schema (lit ''i'') None"
  have "map_sum id (\<lambda>item. (it_issue item = None, length (it_markers item), it_filename item, loc_relative_path (it_location item))) ?r =
      Inr (False, 2, lit ''f.txt'', lit ''P1/x/f.txt'')"
    by code_simp
  then obtain item where i: "?r = Inr item" "it_issue item \<noteq> None" "length (it_markers item) = 2"
      "it_filename item = lit ''f.txt''" "loc_relative_path (it_location item) = lit ''P1/x/f.txt''"
    by (cases ?r) auto
  obtain ds n where d: "ds @ [it_filename item] = filter (\<lambda>p. p \<noteq> []) (split_on slash (loc_relative_path (it_location item)))"
      "n \<le> length ds" "map mk_raw_value (it_markers item) = map Some (take n ds) @ (if it_issue item = None then [] else [None])"
    using build_item_shape [OF i(1)] by blast
  have "filter (\<lambda>p. p \<noteq> []) (split_on slash (lit ''P1/x/f.txt'')) = [lit ''P1'', lit ''x''] @ [lit ''f.txt'']" by code_simp
  then have ds: "ds = [lit ''P1'', lit ''x'']" using d(1) by (simp add: i(4,5) del: lit_simps)
  moreover have "n = 1" using arg_cong [where f = length, OF d(3)] i(2,3) d(2) by simp
  ultimately show ?thesis using d(3) i(1,2) by (auto simp del: lit_simps)
qed

section \<open>What a match is\<close>

lemma contains_phrase_sublist: "contains_phrase stream phrase \<longleftrightarrow> sublist phrase stream"
proof
  assume "contains_phrase stream phrase"
  then obtain n where "take (length phrase) (drop n stream) = phrase" by (auto simp: contains_phrase_def)
  then show "sublist phrase stream"
    by (metis append_take_drop_id sublist_append_leftI sublist_append_rightI sublist_order.order_trans)
next
  assume "sublist phrase stream"
  then obtain ps ss where s: "stream = ps @ phrase @ ss" by (auto simp: sublist_def)
  show "contains_phrase stream phrase"
    unfolding contains_phrase_def by (rule bexI [where x = "length ps"]) (simp_all add: s)
qed

lemma score_terms_matches: "score_terms streams ts \<noteq> None \<longleftrightarrow> (\<forall>t\<in>set ts. term_weights streams t \<noteq> [])"
  by (induction ts) auto

lemma score_phrases_matches:
  "score_phrases streams path ps \<noteq> None \<longleftrightarrow> (\<forall>p\<in>set ps. phrase_weights streams p \<noteq> [] \<or> contains_phrase path p)"
  by (induction ps) (auto simp: Let_def)

text \<open>
  C37: An item matches a query exactly when every term is the beginning of a word of some field and every
  phrase is a run of adjacent words of one field or of the path.
\<close>

theorem match_exact:
  "matches_and_score C item q \<noteq> None \<longleftrightarrow>
     (\<forall>t\<in>set (qy_terms q). \<exists>field\<in>set (field_streams C item). \<exists>word\<in>set (snd field). starts_with word t) \<and>
     (\<forall>phrase\<in>set (qy_phrases q). sublist phrase (path_stream C item) \<or>
        (\<exists>field\<in>set (field_streams C item). sublist phrase (snd field)))"
proof -
  have t: "term_weights streams t \<noteq> [] \<longleftrightarrow> (\<exists>field\<in>set streams. \<exists>word\<in>set (snd field). starts_with word t)" for streams t
    by (force simp: term_weights_def filter_empty_conv)
  have p: "phrase_weights streams p \<noteq> [] \<longleftrightarrow> (\<exists>field\<in>set streams. sublist p (snd field))" for streams p
    by (auto simp: phrase_weights_def filter_empty_conv contains_phrase_sublist) (metis snd_conv)
  have "matches_and_score C item q \<noteq> None \<longleftrightarrow> score_terms (field_streams C item) (qy_terms q) \<noteq> None \<and>
      score_phrases (field_streams C item) (path_stream C item) (qy_phrases q) \<noteq> None"
    by (auto simp: matches_and_score_def Let_def split: option.split)
  then show ?thesis
    unfolding score_terms_matches score_phrases_matches t p contains_phrase_sublist by blast
qed

lemma match_exact_witness:
  "matches_and_score sample_chars (sample_found ''i1'' ''ab/cd'' ''z'') \<lparr>qy_terms = [lit ''c''], qy_phrases = [[lit ''ab'', lit ''cd'']], qy_applied = []\<rparr> \<noteq> None"
proof -
  have f: "field_streams sample_chars (sample_found ''i1'' ''ab/cd'' ''z'') = [(5, [lit ''ab'', lit ''cd'']), (1, [lit ''ab'', lit ''cd''])]"
    by code_simp
  have "starts_with (lit ''cd'') (lit ''c'')" by (simp add: starts_with_def)
  then show ?thesis by (subst match_exact) (simp add: f del: lit_simps)
qed

end
