(* ===== verification/Search_Cache.thy ===== *)
theory Search_Cache
  imports Search_Answer
begin

text \<open>The correctness of the response cache of \<open>search_cache.py\<close>.\<close>

section \<open>The response cache\<close>

text \<open>The cache between requests: accounted for exactly, within its bounds, holding only true answers.\<close>

definition cache_ok :: "(ustr \<Rightarrow> 'v \<times> nat) \<Rightarrow> 'v cache \<Rightarrow> bool" where
  "cache_ok answer c \<longleftrightarrow> distinct (map fst (ca_values c)) \<and>
     ca_bytes c = sum_list (map (\<lambda>(_, _, n, _). n) (ca_values c)) \<and>
     ca_bytes c \<le> ca_max_bytes c \<and> length (ca_values c) \<le> ca_max_entries c \<and>
     (\<forall>(k, _, n, v)\<in>set (ca_values c). answer k = (v, n))"

text \<open>A sequence of requests, each with its key and the two readings of the clock.\<close>

fun cache_run :: "(ustr \<Rightarrow> 'v \<times> nat) \<Rightarrow> 'v cache \<Rightarrow> (ustr \<times> int \<times> int) list \<Rightarrow> 'v list \<times> 'v cache" where
  "cache_run answer c [] = ([], c)"
| "cache_run answer c ((k, now, later) # rs) =
     (let (v, c1) = cache_get c k now later (answer k); (vs, c2) = cache_run answer c1 rs in (v # vs, c2))"

lemma drop_key_bytes:
  "distinct (map fst vs) \<Longrightarrow> map_of vs k = Some (e, n :: nat, v) \<Longrightarrow>
   sum_list (map (\<lambda>(_, _, n, _). n) vs) = n + sum_list (map (\<lambda>(_, _, n, _). n) (drop_key k vs))"
proof (induction vs)
  case (Cons r vs)
  have "drop_key (fst r) vs = vs" using Cons.prems(1) by (auto simp: drop_key_def filter_id_conv rev_image_eqI)
  then show ?case using Cons by (cases r) (auto simp: drop_key_def ac_simps split: if_splits)
qed simp

lemma drop_key_keys: "map fst (drop_key k vs) = filter (\<lambda>x. x \<noteq> k) (map fst vs)"
  by (simp add: drop_key_def filter_map comp_def)

lemma drop_key_shorter: "map_of vs k = Some x \<Longrightarrow> length (drop_key k vs) < length vs"
  by (induction vs) (auto simp: drop_key_def le_imp_less_Suc split: if_splits)

lemma cache_lookup_ok:
  assumes ok: "cache_ok answer c" and l: "cache_lookup c k now = (r, c')"
  shows "cache_ok answer c' \<and> ca_max_bytes c' = ca_max_bytes c \<and> ca_max_entries c' = ca_max_entries c \<and>
    (case r of None \<Rightarrow> k \<notin> fst ` set (ca_values c') | Some v \<Rightarrow> v = fst (answer k))"
proof (cases "map_of (ca_values c) k")
  case None
  then show ?thesis using ok l None [unfolded map_of_eq_None_iff] by (auto simp: cache_lookup_def None)
next
  case (Some s)
  obtain e n v where s: "s = (e, n, v)" by (cases s)
  have "(k, e, n, v) \<in> set (ca_values c)" using Some s by (auto dest: map_of_SomeD)
  then have a: "answer k = (v, n)" using ok by (auto simp: cache_ok_def)
  have b: "ca_bytes c = n + sum_list (map (\<lambda>(_, _, n, _). n) (drop_key k (ca_values c)))"
    using drop_key_bytes [of "ca_values c" k e n v] ok Some s by (simp add: cache_ok_def)
  have d: "distinct (map fst (drop_key k (ca_values c)))" using ok by (simp add: drop_key_keys cache_ok_def)
  have k: "k \<notin> fst ` set (drop_key k (ca_values c))" by (auto simp: drop_key_def)
  have sub: "set (drop_key k (ca_values c)) \<subseteq> set (ca_values c)" by (auto simp: drop_key_def)
  have len: "length (drop_key k (ca_values c)) < ca_max_entries c"
    using drop_key_shorter [OF Some] ok by (simp add: cache_ok_def)
  show ?thesis
    using l ok a b d k sub len by (auto simp: cache_lookup_def Some s cache_ok_def Let_def split: if_splits)
qed

lemma evict_ok:
  assumes "bytes = sum_list (map (\<lambda>(_, _, n, _). n) vs)" and "len \<le> mb" and "1 \<le> me" and "evict mb me len (vs, bytes) = (vs', bytes')"
  shows "(\<exists>ws. vs = ws @ vs') \<and> bytes' = sum_list (map (\<lambda>(_, _, n, _). n) vs') \<and> bytes' + len \<le> mb \<and> length vs' < me"
  using assms
proof (induction vs arbitrary: bytes)
  case (Cons r vs)
  then show ?case by (cases r) (fastforce split: if_splits)
qed auto

lemma cache_store_ok:
  assumes ok: "cache_ok answer c" and me: "1 \<le> ca_max_entries c" and k: "k \<notin> fst ` set (ca_values c)"
  shows "cache_ok answer (cache_store c k now (snd (answer k)) (fst (answer k)))"
proof (cases "snd (answer k) \<le> ca_max_bytes c")
  case True
  obtain vs bytes where e: "evict (ca_max_bytes c) (ca_max_entries c) (snd (answer k)) (ca_values c, ca_bytes c) = (vs, bytes)"
    by fastforce
  have ev: "(\<exists>ws. ca_values c = ws @ vs) \<and> bytes = sum_list (map (\<lambda>(_, _, n, _). n) vs) \<and>
      bytes + snd (answer k) \<le> ca_max_bytes c \<and> length vs < ca_max_entries c"
    using ok by (intro evict_ok [OF _ True me e]) (simp add: cache_ok_def)
  then have kv: "k \<notin> fst ` set vs" using k by auto
  then have "dict_set k x vs = vs @ [(k, x)]" for x by (induction vs) auto
  then have "cache_store c k now (snd (answer k)) (fst (answer k)) =
      c\<lparr>ca_values := vs @ [(k, now + ca_ttl c, snd (answer k), fst (answer k))], ca_bytes := bytes + snd (answer k)\<rparr>"
    by (simp add: cache_store_def True e)
  moreover have "set vs \<subseteq> set (ca_values c)" "distinct (map fst vs)" using ev ok by (auto simp: cache_ok_def)
  ultimately show ?thesis using ev kv ok by (auto simp: cache_ok_def)
qed (simp add: cache_store_def ok)

lemma cache_get_ok:
  assumes ok: "cache_ok answer c" and me: "1 \<le> ca_max_entries c" and g: "cache_get c k now later (answer k) = (v, c')"
  shows "v = fst (answer k) \<and> cache_ok answer c' \<and> ca_max_entries c' = ca_max_entries c \<and> ca_max_bytes c' = ca_max_bytes c"
proof -
  obtain r c1 where l: "cache_lookup c k now = (r, c1)" by fastforce
  note lk = cache_lookup_ok [OF ok l]
  have "ca_max_entries (cache_store c1 k later n x) = ca_max_entries c1 \<and> ca_max_bytes (cache_store c1 k later n x) = ca_max_bytes c1" for n x
    by (simp add: cache_store_def Let_def split: prod.split)
  then show ?thesis
    using g lk cache_store_ok [of answer c1 k later] me ok by (auto simp: cache_get_def l split: if_splits option.splits)
qed

text \<open>
  C13: Any sequence of requests through the response cache is answered as if every answer were computed
  afresh, and the cache ends with its bytes accounted for exactly and within both bounds: caching, expiry and
  eviction refine the plain function.
\<close>

theorem cache_refines:
  assumes "cache_ok answer c" and "1 \<le> ca_max_entries c"
  shows "fst (cache_run answer c requests) = map (\<lambda>(k, _, _). fst (answer k)) requests \<and>
    cache_ok answer (snd (cache_run answer c requests))"
  using assms
proof (induction requests arbitrary: c)
  case (Cons r requests)
  obtain k now later where r: "r = (k, now, later)" by (cases r)
  obtain v c1 where g: "cache_get c k now later (answer k) = (v, c1)" by fastforce
  note step = cache_get_ok [OF Cons.prems g]
  then show ?case using Cons.IH [of c1] Cons.prems by (simp add: r g case_prod_beta)
qed simp

lemma cache_refines_witness:
  "fst (cache_run (\<lambda>k. (length k, 40)) \<lparr>ca_max_bytes = 100, ca_max_entries = 2, ca_ttl = 30, ca_values = [], ca_bytes = 0\<rparr>
     [([1], 0, 1), ([1, 2], 2, 3), ([1], 4, 5), ([1, 2, 3], 6, 7), ([1, 2], 60, 61)]) = [1, 2, 1, 3, 2]"
  using cache_refines [of "\<lambda>k. (length k, 40)" "\<lparr>ca_max_bytes = 100, ca_max_entries = 2, ca_ttl = 30, ca_values = [], ca_bytes = 0\<rparr>"
      "[([1], 0, 1), ([1, 2], 2, 3), ([1], 4, 5), ([1, 2, 3], 6, 7), ([1, 2], 60, 61)]"]
  by (simp add: cache_ok_def)

end
