(* ===== verification/Scan.thy ===== *)
theory Scan
  imports Files
begin

text \<open>
  The recursive listing of \<open>filesystem.py\<close>: \<open>walk\<close> and the budget that bounds it. The recursion
  is on the levels left below the depth limit, which is the bound the code itself enforces, so no
  other fuel is needed. The names a directory yields are those of \<open>e_listing\<close> when it is opened;
  foreign changes may happen before every later call.
\<close>

record scan_limits =
  lim_max_entries :: nat
  lim_max_depth :: nat
  lim_max_path_bytes :: nat
  lim_max_time :: time

definition default_limits :: scan_limits where
  "default_limits =
     \<lparr>lim_max_entries = 10000, lim_max_depth = 64, lim_max_path_bytes = 8 * 1024 * 1024, lim_max_time = seconds 30\<rparr>"

record budget =
  bu_deadline :: time
  bu_entries :: nat
  bu_path_bytes :: nat

text \<open>\<open>_ScanBudget.observe\<close>\<close>

definition observe :: "env \<Rightarrow> scan_limits \<Rightarrow> ustr \<Rightarrow> nat \<Rightarrow> budget \<Rightarrow> budget act" where
  "observe E L path depth b =
     (let b' = b\<lparr>bu_entries := bu_entries b + 1, bu_path_bytes := bu_path_bytes b + e_utf8_length E path\<rparr> in
      if lim_max_entries L < bu_entries b' \<or> lim_max_depth L < depth \<or> lim_max_path_bytes L < bu_path_bytes b'
      then raise (FsError ScanLimitExceeded)
      else
        bnd (read_monotonic E) (\<lambda>now.
        if bu_deadline b' \<le> now then raise (FsError ScanLimitExceeded) else ret b'))"

text \<open>\<open>os.scandir\<close> on the descriptor; a directory that is gone has no entries.\<close>

definition list_dir :: "env \<Rightarrow> ustr list \<Rightarrow> ustr list act" where
  "list_dir E d = (\<lambda>w. fs_call E (\<lambda>t. (Inr (if t d = Some Dir then e_listing E (tick w) t d else []), t)) w)"

definition open_child :: "fs \<Rightarrow> ustr list \<Rightarrow> exn + unit" where
  "open_child t p =
     (case t p of
        None \<Rightarrow> Inl (FsError FileNotFound)
      | Some Dir \<Rightarrow> Inr ()
      | Some _ \<Rightarrow> Inl (FsError NotADirectory))"

type_synonym found = "(ustr \<times> fingerprint) list"

text \<open>
  One entry of the loop in \<open>_walk_fd\<close>; \<open>descend\<close> is the recursive call. An entry that vanished
  before its \<open>stat\<close> is skipped, links and special files are ignored but counted.
\<close>

definition walk_entry ::
  "env \<Rightarrow> scan_limits \<Rightarrow> nat \<Rightarrow> (ustr list \<Rightarrow> ustr \<Rightarrow> budget \<times> found \<Rightarrow> (budget \<times> found) act) \<Rightarrow> ustr list \<Rightarrow> ustr \<Rightarrow>
   ustr \<Rightarrow> budget \<times> found \<Rightarrow> (budget \<times> found) act" where
  "walk_entry E L depth descend d prefix name st =
     (let path = (if prefix = [] then name else prefix @ slash # name) in
      bnd (observe E L path depth (fst st)) (\<lambda>b.
      bnd (fs_read E (\<lambda>t. Inr (t (d @ [name])))) (\<lambda>entry.
      case entry of
        None \<Rightarrow> ret (b, snd st)
      | Some (File fp) \<Rightarrow> ret (b, snd st @ [(path, fp)])
      | Some Dir \<Rightarrow>
          if lim_max_depth L \<le> depth then raise (FsError ScanLimitExceeded)
          else
            bnd (fs_read E (\<lambda>t. open_child t (d @ [name]))) (\<lambda>_.
            descend (d @ [name]) path (b, snd st))
      | Some Link \<Rightarrow> ret (b, snd st)
      | Some Special \<Rightarrow> ret (b, snd st))))"

text \<open>\<open>_walk_fd\<close> with the number of levels left below it.\<close>

primrec walk_dir ::
  "env \<Rightarrow> scan_limits \<Rightarrow> nat \<Rightarrow> ustr list \<Rightarrow> ustr \<Rightarrow> budget \<times> found \<Rightarrow> (budget \<times> found) act" where
  "walk_dir E L 0 = (\<lambda>d prefix st.
     bnd (list_dir E d) (\<lambda>names.
     fold_act (walk_entry E L (lim_max_depth L) (\<lambda>_ _ _. raise (FsError ScanLimitExceeded)) d prefix) names st))"
| "walk_dir E L (Suc left) = (\<lambda>d prefix st.
     bnd (list_dir E d) (\<lambda>names.
     fold_act (walk_entry E L (lim_max_depth L - Suc left) (walk_dir E L left) d prefix) names st))"

definition walk :: "env \<Rightarrow> scan_limits \<Rightarrow> ustr \<Rightarrow> found act" where
  "walk E L relative_dir =
     (case parts True relative_dir of
        Inl e \<Rightarrow> raise e
      | Inr ps \<Rightarrow>
          bnd (fs_read E (\<lambda>t. open_directory t [] ps)) (\<lambda>d.
          bnd (read_monotonic E) (\<lambda>now.
          bnd (walk_dir E L (lim_max_depth L) d (join_with slash ps)
                 (\<lparr>bu_deadline = now + lim_max_time L, bu_entries = 0, bu_path_bytes = 0\<rparr>, [])) (\<lambda>st.
          ret (sort_key fst (snd st))))))"

end
