(* ===== verification/Incoming.thy ===== *)
theory Incoming
  imports Scan Timestamps
begin

text \<open>
  The incoming half of \<open>indexer.py\<close>: one scan of an incoming root matches the files found with the
  queue items of the root, by path or else by an unambiguous inode, and brings the items up to date.
  The lock of the indexer is left out: an overlapping scan is skipped.
\<close>

section \<open>Names\<close>

definition ends_with :: "'a list \<Rightarrow> 'a list \<Rightarrow> bool" where
  "ends_with s p \<longleftrightarrow> length p \<le> length s \<and> drop (length s - length p) s = p"

text \<open>\<open>_strip_base\<close>\<close>

definition strip_base :: "ustr \<Rightarrow> ustr \<Rightarrow> ustr" where
  "strip_base path base =
     (if base \<noteq> [] \<and> starts_with path (base @ [slash]) then drop (length base + 1) path else path)"

definition file_name :: "ustr \<Rightarrow> ustr" where
  "file_name path = last (split_on slash path)"

definition technical_name :: "ustr \<Rightarrow> bool" where
  "technical_name path \<longleftrightarrow> file_name path \<in> {lit ''.DS_Store'', lit ''Thumbs.db''}"

definition temporary_name :: "(ustr \<Rightarrow> ustr) \<Rightarrow> ustr \<Rightarrow> bool" where
  "temporary_name casefold path \<longleftrightarrow>
     (let p = casefold path in ends_with p (lit ''.part'') \<or> ends_with p (lit ''.tmp'') \<or> ends_with p (lit ''.crdownload''))"

type_synonym inode = "int \<times> int"

definition inode_of :: "fingerprint \<Rightarrow> inode" where
  "inode_of fp = (fp_dev fp, fp_ino fp)"

text \<open>\<open>str\<close> of an integer, and the identifiers built from a root and an inode.\<close>

definition int_text :: "int \<Rightarrow> ustr" where
  "int_text n = (if n < 0 then 45 # decimal (nat (- n)) else decimal (nat n))"

definition inode_id :: "string \<Rightarrow> ustr \<Rightarrow> fingerprint \<Rightarrow> ustr" where
  "inode_id prefix root_id fp = lit prefix @ 45 # root_id @ 45 # int_text (fp_dev fp) @ 45 # int_text (fp_ino fp)"

section \<open>Matching files with items\<close>

text \<open>
  The item a file continues: the last one stored for its path, unless it is taken already;
  otherwise the only untaken item of its inode whose own path is gone, if the file is the only one
  with that inode.
\<close>

definition previous_item :: "queue_item list \<Rightarrow> found \<Rightarrow> ustr list \<Rightarrow> ustr \<times> fingerprint \<Rightarrow> queue_item option" where
  "previous_item existing found assigned pm =
     (let by_path = dict_get (map (\<lambda>q. (loc_relative_path (q_source q), q)) existing) (fst pm);
          gone = filter (\<lambda>q. loc_relative_path (q_source q) \<notin> fst ` set found) existing;
          candidates = filter (\<lambda>q. inode_of (q_fingerprint q) = inode_of (snd pm) \<and> q_item_id q \<notin> set assigned) gone in
      case (case by_path of Some q \<Rightarrow> if q_item_id q \<in> set assigned then None else Some q | None \<Rightarrow> None) of
        Some q \<Rightarrow> Some q
      | None \<Rightarrow>
          if length (filter (\<lambda>f. inode_of (snd f) = inode_of (snd pm)) found) = 1 \<and> length candidates = 1
          then Some (hd candidates) else None)"

definition item_identity :: "env \<Rightarrow> root \<Rightarrow> queue_item list \<Rightarrow> ustr list \<Rightarrow> fingerprint \<Rightarrow> queue_item option \<Rightarrow> ustr act" where
  "item_identity E r existing assigned meta previous =
     (case previous of
        Some q \<Rightarrow> ret (q_item_id q)
      | None \<Rightarrow>
          let item_id = inode_id ''queue'' (rt_root_id r) meta in
          if item_id \<in> set assigned \<or> item_id \<in> q_item_id ` set existing then uid E ''queue'' else ret item_id)"

text \<open>The new state of the item: new, busy, unchanged, or changed.\<close>

definition scanned_item ::
  "env \<Rightarrow> root \<Rightarrow> time \<Rightarrow> ustr \<Rightarrow> queue_item option \<Rightarrow> ustr \<times> fingerprint \<Rightarrow> queue_item" where
  "scanned_item E r now item_id previous pm =
     (let relative = fst pm; meta = snd pm;
          source = \<lparr>loc_root_id = rt_root_id r, loc_relative_path = relative,
                    loc_display_path = rstrip_char slash (rt_display_prefix r) @ slash # relative\<rparr>;
          refreshed = (\<lambda>q. q\<lparr>q_source := source, q_filename := file_name relative, q_size_bytes := fp_size meta,
                             q_modified_at := utc_ns (fp_mtime_ns meta)\<rparr>) in
      case previous of
        None \<Rightarrow>
          \<lparr>q_item_id = item_id, q_item_revision = 1, q_company_id = the (rt_incoming_company r),
           q_incoming_source_id = rt_root_id r, q_source_name = rt_label r, q_source = source,
           q_filename = file_name relative, q_size_bytes = fp_size meta, q_modified_at = utc_ns (fp_mtime_ns meta),
           q_status = Q_WAITING_READY, q_reason_code = None, q_selectable = False, q_active_attempt_id = None,
           q_fingerprint = meta, q_observed_at = now, q_departed = False\<rparr>
      | Some q \<Rightarrow>
          if q_status q \<in> {Q_PROCESSING, Q_RECOVERY_REQUIRED} \<or> q_active_attempt_id q \<noteq> None then q
          else if q_fingerprint q = meta \<and> loc_relative_path (q_source q) = relative \<and> q_status q \<noteq> Q_MISSING then
            (if temporary_name (e_casefold E) relative then
               (refreshed q)\<lparr>q_status := Q_WAITING_READY, q_reason_code := None, q_selectable := False\<rparr>
             else if q_status q \<in> {Q_DISCOVERED, Q_WAITING_READY} \<and>
                     seconds (st_readiness_seconds (e_settings E)) \<le> now - q_observed_at q then
               (refreshed q)\<lparr>q_status := Q_READY, q_reason_code := None, q_selectable := True\<rparr>
             else refreshed q)
          else
            (refreshed q)\<lparr>q_item_revision := q_item_revision q + 1, q_status := Q_WAITING_READY, q_reason_code := None,
              q_selectable := False, q_fingerprint := meta, q_observed_at := now, q_departed := False\<rparr>)"

text \<open>The loop over the files found; the state is the list of identifiers assigned so far.\<close>

definition scan_file ::
  "env \<Rightarrow> root \<Rightarrow> time \<Rightarrow> queue_item list \<Rightarrow> found \<Rightarrow> ustr \<times> fingerprint \<Rightarrow> ustr list \<Rightarrow> ustr list act" where
  "scan_file E r now existing found pm assigned =
     (let previous = previous_item existing found assigned pm in
      bnd (item_identity E r existing assigned (snd pm) previous) (\<lambda>item_id.
      bnd (put_row db_queue_update item_id (scanned_item E r now item_id previous pm)) (\<lambda>_.
      ret (assigned @ [item_id]))))"

text \<open>An item whose file was not found; the statuses of finished outcomes do not occur in the queue.\<close>

definition miss_item :: "ustr list \<Rightarrow> queue_item \<Rightarrow> unit act" where
  "miss_item seen q =
     (if q_item_id q \<notin> set seen \<and> \<not> q_departed q \<and> q_status q \<notin> {Q_PROCESSING, Q_RECOVERY_REQUIRED} then
        put_row db_queue_update (q_item_id q)
          (if q_status q \<noteq> Q_MISSING then
             q\<lparr>q_item_revision := q_item_revision q + 1, q_status := Q_MISSING, q_reason_code := Some SOURCE_MISSING,
               q_selectable := False\<rparr>
           else q)
      else ret ())"

definition scan_body :: "env \<Rightarrow> root \<Rightarrow> time \<Rightarrow> found \<Rightarrow> unit act" where
  "scan_body E r now found =
     bnd (list_rows db_queue) (\<lambda>rows.
     let existing = filter (\<lambda>q. q_incoming_source_id q = rt_root_id r) rows in
     bnd (fold_act (scan_file E r now existing found) found []) (\<lambda>seen.
     each (miss_item seen) existing))"

section \<open>One scan\<close>

definition no_progress :: "ustr \<Rightarrow> scan_status \<Rightarrow> progress" where
  "no_progress root_id status =
     \<lparr>ip_root_id = root_id, ip_status = status, ip_count = None, ip_checkpoint = None, ip_remaining = None,
      ip_incoming = False, ip_config_digest = None, ip_run_id = None, ip_chunk_count = None, ip_legacy = None\<rparr>"

definition incoming_progress :: "env \<Rightarrow> root \<Rightarrow> scan_status \<Rightarrow> nat option \<Rightarrow> unit act" where
  "incoming_progress E r status count =
     transaction E (
       put_row db_progress_update (lit ''incoming-'' @ rt_root_id r)
         ((no_progress (rt_root_id r) status)\<lparr>ip_count := count, ip_incoming := True\<rparr>))"

definition scan_incoming_root :: "env \<Rightarrow> scan_limits \<Rightarrow> root \<Rightarrow> unit act" where
  "scan_incoming_root E L r =
     bnd (read_clock E) (\<lambda>now.
     try_else (walk E L (rt_base r))
       (\<lambda>e. if e = Killed then raise Killed else incoming_progress E r SCAN_FAILED None)
       (\<lambda>walked.
         let found = map (\<lambda>(path, meta). (strip_base path (rt_base r), meta)) walked in
         bnd (transaction E (scan_body E r now found)) (\<lambda>_.
         incoming_progress E r SCAN_COMPLETE (Some (length found)))))"

end
