(* ===== verification/Indexing.thy ===== *)
theory Indexing
  imports Incoming
begin

text \<open>
  The search half of \<open>indexer.py\<close>: the scan of a search root with its resumable checkpoints, and the
  loop over the roots. A checkpoint run is the progress row of the root, which names the run, and
  the chunk rows of that run. The lock of the indexer is left out: an overlapping scan is skipped.
  The dictionaries keyed by path or inode are the lists of their entries.
\<close>

definition checkpoint_interval :: nat where
  "checkpoint_interval = 100"

definition attempt_sum :: "exn + 'a \<Rightarrow> 'a act" where
  "attempt_sum r = (case r of Inl e \<Rightarrow> raise e | Inr x \<Rightarrow> ret x)"

section \<open>Identifiers of directory entries\<close>

text \<open>
  \<open>_entry_ids\<close>. \<open>result\<close> lists the identifiers given so far with their paths; as a dictionary the last
  entry of a path counts.
\<close>

definition entry_id_of ::
  "env \<Rightarrow> ustr \<Rightarrow> found \<Rightarrow> (ustr \<times> entry_id) list \<Rightarrow> (ustr \<times> ustr) list \<Rightarrow> ustr \<times> fingerprint \<Rightarrow> ustr act" where
  "entry_id_of E root_id found old result pm =
     (let assigned = map snd result;
          gone = filter (\<lambda>pe. fst pe \<notin> fst ` set found) old;
          candidates = filter (\<lambda>pe. (en_dev (snd pe), en_ino (snd pe)) = inode_of (snd pm) \<and>
                                   en_item_id (snd pe) \<notin> set assigned) gone;
          derived =
            (if length (filter (\<lambda>f. inode_of (snd f) = inode_of (snd pm)) found) = 1 \<and> length candidates = 1
             then ret (en_item_id (snd (hd candidates)))
             else
               (let item_id = inode_id ''file'' root_id (snd pm) in
                if item_id \<in> set assigned \<or> item_id \<in> (en_item_id \<circ> snd) ` set old then uid E ''file''
                else ret item_id)) in
      case map_of old (fst pm) of
        Some e \<Rightarrow>
          if (en_dev e, en_ino e) = inode_of (snd pm) \<and> en_item_id e \<notin> set assigned then ret (en_item_id e)
          else derived
      | None \<Rightarrow> derived)"

definition entry_ids ::
  "env \<Rightarrow> ustr \<Rightarrow> found \<Rightarrow> index_doc option \<Rightarrow> search_item list \<Rightarrow> (ustr \<times> ustr) list act" where
  "entry_ids E root_id found previous staged =
     (let old = (case previous of None \<Rightarrow> [] | Some x \<Rightarrow> xd_entry_ids x);
          kept = zip (map fst found) (map it_item_id staged) in
      fold_act (\<lambda>pm result.
          bnd (entry_id_of E root_id found old result pm) (\<lambda>item_id. ret (result @ [(fst pm, item_id)])))
        (drop (length (remdups (map fst kept))) found) kept)"

section \<open>Checkpoint chunks\<close>

text \<open>\<open>_chunk_prefix\<close>, and the key of a chunk with its sequence number in at least eight digits.\<close>

definition chunk_prefix :: "env \<Rightarrow> ustr \<Rightarrow> ustr option \<Rightarrow> ustr" where
  "chunk_prefix E root_id run_id =
     lit ''index-progress-'' @ take 24 (e_digest E (H_text root_id)) @ [45] @
     (case run_id of None \<Rightarrow> [] | Some r \<Rightarrow> r @ [45])"

definition eight_digits :: "nat \<Rightarrow> ustr" where
  "eight_digits n = replicate (8 - length (decimal n)) 48 @ decimal n"

text \<open>\<open>_clear_chunks\<close>: the prefixes hold no wildcard of \<open>LIKE\<close>.\<close>

definition clear_chunks :: "env \<Rightarrow> ustr \<Rightarrow> ustr option \<Rightarrow> unit act" where
  "clear_chunks E root_id run_id =
     modify (\<lambda>w. w\<lparr>db := db_chunk_update (filter (\<lambda>r. \<not> starts_with (fst r) (chunk_prefix E root_id run_id))) (db w)\<rparr>)"

definition put_chunk :: "env \<Rightarrow> ustr \<Rightarrow> ustr \<Rightarrow> nat \<Rightarrow> found \<Rightarrow> search_item list \<Rightarrow> unit act" where
  "put_chunk E root_id run_id sequence found items =
     put_row db_chunk_update (chunk_prefix E root_id (Some run_id) @ eight_digits sequence)
       \<lparr>ck_root_id = root_id, ck_run_id = run_id, ck_sequence = sequence, ck_found = found, ck_items = items\<rparr>"

definition chunk_ok :: "ustr \<Rightarrow> ustr \<Rightarrow> nat \<Rightarrow> chunk \<Rightarrow> bool" where
  "chunk_ok root_id run_id expected c \<longleftrightarrow>
     ck_root_id c = root_id \<and> ck_run_id c = run_id \<and> ck_sequence c = expected \<and> ck_found c \<noteq> [] \<and>
     length (ck_found c) = length (ck_items c) \<and> length (ck_found c) \<le> checkpoint_interval \<and>
     list_all2 (\<lambda>entry item. it_item_id item \<noteq> [] \<and> loc_root_id (it_location item) = root_id \<and>
                             loc_relative_path (it_location item) = fst entry) (ck_found c) (ck_items c)"

fun join_chunks ::
  "ustr \<Rightarrow> ustr \<Rightarrow> nat \<Rightarrow> chunk list \<Rightarrow> found \<times> search_item list \<Rightarrow> (found \<times> search_item list \<times> nat) option" where
  "join_chunks root_id run_id n [] (found, items) = Some (found, items, n)"
| "join_chunks root_id run_id n (c # cs) (found, items) =
     (if chunk_ok root_id run_id n c then join_chunks root_id run_id (n + 1) cs (found @ ck_found c, items @ ck_items c)
      else None)"

definition load_chunks :: "env \<Rightarrow> ustr \<Rightarrow> ustr \<Rightarrow> nat option \<Rightarrow> db \<Rightarrow> (found \<times> search_item list \<times> nat) option" where
  "load_chunks E root_id run_id count d =
     (case count of
        None \<Rightarrow> None
      | Some n \<Rightarrow>
          let rows = filter (\<lambda>r. starts_with (fst r) (chunk_prefix E root_id (Some run_id))) (db_chunk d) in
          case join_chunks root_id run_id 0 (map snd rows) ([], []) of
            None \<Rightarrow> None
          | Some (found, items, sequence) \<Rightarrow> if length items = n then Some (found, items, sequence) else None)"

section \<open>Starting and resuming a run\<close>

definition scanning_progress :: "ustr \<Rightarrow> ustr \<Rightarrow> ustr \<Rightarrow> nat \<Rightarrow> ustr option \<Rightarrow> int option \<Rightarrow> nat \<Rightarrow> progress" where
  "scanning_progress root_id config_digest run_id count checkpoint remaining chunk_count =
     (no_progress root_id SCAN_RUNNING)\<lparr>ip_count := Some count, ip_checkpoint := checkpoint, ip_remaining := remaining,
       ip_config_digest := Some config_digest, ip_run_id := Some run_id, ip_chunk_count := Some chunk_count\<rparr>"

type_synonym run = "found \<times> search_item list \<times> ustr \<times> nat"

definition reset_search_progress :: "env \<Rightarrow> root \<Rightarrow> ustr \<Rightarrow> run act" where
  "reset_search_progress E r config_digest =
     bnd (uid E ''index-run'') (\<lambda>run_id.
     bnd (transaction E (
       bnd (clear_chunks E (rt_root_id r) None) (\<lambda>_.
       put_row db_progress_update (rt_root_id r)
         (scanning_progress (rt_root_id r) config_digest run_id 0 None None 0)))) (\<lambda>_.
     ret ([], [], run_id, 0)))"

text \<open>The chunks of a run that an older version saved in one object.\<close>

fun slices :: "nat \<Rightarrow> 'a list \<Rightarrow> 'a list list" where
  "slices k xs = (if xs = [] \<or> k = 0 then [] else take k xs # slices k (drop k xs))"

declare slices.simps [simp del]

definition upgrade_legacy :: "env \<Rightarrow> ustr \<Rightarrow> found \<Rightarrow> search_item list \<Rightarrow> run act" where
  "upgrade_legacy E root_id found items =
     bnd (uid E ''index-run'') (\<lambda>run_id.
     bnd (clear_chunks E root_id None) (\<lambda>_.
     bnd (each (\<lambda>(sequence, f, i). put_chunk E root_id run_id sequence f i)
            (enumerate 0 (zip (slices checkpoint_interval found) (slices checkpoint_interval items)))) (\<lambda>_.
     ret (found, items, run_id, (length items + checkpoint_interval - 1) div checkpoint_interval))))"

definition fresh_run :: "env \<Rightarrow> ustr \<Rightarrow> run act" where
  "fresh_run E root_id =
     bnd (clear_chunks E root_id None) (\<lambda>_.
     bnd (uid E ''index-run'') (\<lambda>run_id. ret ([], [], run_id, 0)))"

text \<open>Which run a saved progress allows to resume.\<close>

definition resume_run :: "env \<Rightarrow> ustr \<Rightarrow> ustr \<Rightarrow> progress option \<Rightarrow> run act" where
  "resume_run E root_id config_digest saved =
     (case saved of
        None \<Rightarrow> fresh_run E root_id
      | Some p \<Rightarrow>
          if \<not> (ip_status p \<in> {SCAN_RUNNING, SCAN_FAILED} \<and> ip_config_digest p = Some config_digest) then fresh_run E root_id
          else
            (case ip_run_id p of
               Some run_id \<Rightarrow>
                 bnd (asks (\<lambda>w. load_chunks E root_id run_id (ip_count p) (db w))) (\<lambda>loaded.
                 case loaded of
                   Some (found, items, n) \<Rightarrow>
                     if ip_chunk_count p = Some n then ret (found, items, run_id, n) else fresh_run E root_id
                 | None \<Rightarrow> fresh_run E root_id)
             | None \<Rightarrow>
                 (case ip_legacy p of
                    Some (found, items) \<Rightarrow>
                      if length found = length items \<and> ip_count p = Some (length items)
                      then upgrade_legacy E root_id found items else fresh_run E root_id
                  | None \<Rightarrow> fresh_run E root_id)))"

definition last_path :: "found \<Rightarrow> ustr option" where
  "last_path found = (if found = [] then None else Some (fst (last found)))"

definition start_search_progress :: "env \<Rightarrow> root \<Rightarrow> ustr \<Rightarrow> run act" where
  "start_search_progress E r config_digest =
     transaction E (
       bnd (get_row db_progress (rt_root_id r)) (\<lambda>saved.
       bnd (resume_run E (rt_root_id r) config_digest saved) (\<lambda>run.
       case run of (found, items, run_id, chunk_count) \<Rightarrow>
         bnd (put_row db_progress_update (rt_root_id r)
           (scanning_progress (rt_root_id r) config_digest run_id (length items) (last_path found) None chunk_count)) (\<lambda>_.
         ret run))))"

section \<open>The files of a search root\<close>

text \<open>\<open>sorted\<close> compares the metadata of equal paths, which is an error unless they are equal.\<close>

definition walk_prefix :: "env \<Rightarrow> scan_limits \<Rightarrow> root \<Rightarrow> ustr \<Rightarrow> found act" where
  "walk_prefix E L r prefix =
     bnd (walk E L (join_with slash (filter (\<lambda>part. part \<noteq> []) [rt_base r, prefix]))) (\<lambda>walked.
     ret (map (\<lambda>(path, meta). (strip_base path (rt_base r), meta)) walked))"

definition walk_root :: "env \<Rightarrow> scan_limits \<Rightarrow> root \<Rightarrow> found act" where
  "walk_root E L r =
     bnd (collect (walk_prefix E L r) (rt_scan_prefixes r)) (\<lambda>walks.
     let found = sort_key fst (concat walks) in
     if list_all (\<lambda>(f, g). fst f = fst g \<longrightarrow> snd f = snd g) (zip found (tl found)) then ret found else raise PyTypeError)"

definition searched_files :: "found \<Rightarrow> found" where
  "searched_files walked = filter (\<lambda>f. \<not> technical_name (fst f)) walked"

section \<open>One scan of a search root\<close>

definition index_config_of :: "root \<Rightarrow> index_config" where
  "index_config_of r =
     \<lparr>ic_schema_set_version = rt_schema_set_version r, ic_schema = rt_schema r, ic_prefixes = rt_scan_prefixes r\<rparr>"

definition set_freshness :: "freshness_status \<Rightarrow> ustr \<Rightarrow> index_doc \<Rightarrow> index_doc" where
  "set_freshness status synced x =
     x\<lparr>xd_freshness := \<lparr>fs_indexed_at = xd_indexed_at x, fs_last_successful_sync_at = synced, fs_status = status\<rparr>\<rparr>"

definition complete_progress :: "ustr \<Rightarrow> nat \<Rightarrow> progress" where
  "complete_progress root_id count = (no_progress root_id SCAN_COMPLETE)\<lparr>ip_count := Some count\<rparr>"

text \<open>The document of an unchanged fingerprint is only marked as current.\<close>

definition mark_current :: "env \<Rightarrow> root \<Rightarrow> time \<Rightarrow> ustr \<Rightarrow> index_doc \<Rightarrow> nat \<Rightarrow> unit act" where
  "mark_current E r now run_id previous count =
     bnd (attempt_sum (utc_text now)) (\<lambda>synced.
     bnd (put_row db_index_update (rt_root_id r) (set_freshness CURRENT synced previous)) (\<lambda>_.
     bnd (put_row db_progress_update (rt_root_id r) (complete_progress (rt_root_id r) count)) (\<lambda>_.
     clear_chunks E (rt_root_id r) (Some run_id))))"

text \<open>\<open>round(x, 3)\<close> of a duration in microseconds given as a quotient: the nearest millisecond, ties to even.\<close>

definition round_millis :: "int \<Rightarrow> int \<Rightarrow> int" where
  "round_millis n d =
     (let m = n div (1000 * d); rest = 2 * (n mod (1000 * d)) in
      1000 * (if rest < 1000 * d \<or> (rest = 1000 * d \<and> even m) then m else m + 1))"

definition remaining_time :: "time \<Rightarrow> nat \<Rightarrow> nat \<Rightarrow> int option" where
  "remaining_time elapsed all count =
     (if elapsed \<le> 0 then None else Some (max 0 (round_millis ((int all - int count) * elapsed) (int count))))"

text \<open>\<open>_checkpoint\<close>\<close>

definition checkpoint ::
  "env \<Rightarrow> root \<Rightarrow> ustr \<Rightarrow> ustr \<Rightarrow> found \<Rightarrow> search_item list \<Rightarrow> nat \<Rightarrow> nat \<Rightarrow> nat \<Rightarrow> time \<Rightarrow> unit act" where
  "checkpoint E r config_digest run_id found items previous_count chunk_count count started =
     bnd (read_monotonic E) (\<lambda>now.
     transaction E (
       bnd (get_row db_progress (rt_root_id r)) (\<lambda>saved.
       bnd (ensure
         (case saved of
            None \<Rightarrow> False
          | Some p \<Rightarrow> ip_run_id p = Some run_id \<and> ip_count p = Some previous_count \<and> ip_chunk_count p = Some chunk_count)
         PyRuntimeError) (\<lambda>_.
       bnd (put_chunk E (rt_root_id r) run_id chunk_count
              (take (count - previous_count) (drop previous_count found))
              (take (count - previous_count) (drop previous_count items))) (\<lambda>_.
       put_row db_progress_update (rt_root_id r)
         (scanning_progress (rt_root_id r) config_digest run_id count (Some (fst (found ! (count - 1))))
            (remaining_time (now - started) (length found) count) (chunk_count + 1)))))))"

text \<open>
  The loop over the files beyond the resumed ones; its state is the items built, the number of
  them that are persisted and the number of chunks.
\<close>

type_synonym building = "search_item list \<times> nat \<times> nat"

definition index_file ::
  "env \<Rightarrow> chars \<Rightarrow> root \<Rightarrow> ustr \<Rightarrow> ustr \<Rightarrow> time \<Rightarrow> found \<Rightarrow> (ustr \<times> ustr) list \<Rightarrow> ustr \<times> fingerprint \<Rightarrow> building \<Rightarrow> building act" where
  "index_file E C r config_digest run_id started found ids pm st =
     (case st of (items, persisted_count, chunk_count) \<Rightarrow>
        bnd (attempt_sum (utc_text (utc_ns (fp_mtime_ns (snd pm))))) (\<lambda>stamp.
        bnd (attempt_sum (build_item C (rt_root_id r) (rt_display_prefix r) (fst pm) (fp_size (snd pm)) stamp
                            (rt_schema r) (the (dict_get ids (fst pm))) None)) (\<lambda>item.
        let items' = items @ [item]; count = length items' in
        if count mod checkpoint_interval = 0 \<or> count = length found then
          bnd (checkpoint E r config_digest run_id found items' persisted_count chunk_count count started) (\<lambda>_.
          ret (items', count, chunk_count + 1))
        else ret (items', persisted_count, chunk_count))))"

text \<open>What the guarded part of a scan returns: nothing when the fingerprint was the published one.\<close>

type_synonym built = "found \<times> search_item list \<times> (ustr \<times> ustr) list \<times> ustr \<times> ustr"

definition check_unchanged :: "env \<Rightarrow> root \<Rightarrow> time \<Rightarrow> ustr \<Rightarrow> ustr \<Rightarrow> index_doc option option act" where
  "check_unchanged E r now run_id fingerprint =
     transaction E (
       bnd (get_row db_index (rt_root_id r)) (\<lambda>previous.
       case previous of
         Some x \<Rightarrow>
           if xd_fingerprint_digest x = fingerprint then
             bnd (mark_current E r now run_id x (length (xd_items x))) (\<lambda>_. ret None)
           else ret (Some previous)
       | None \<Rightarrow> ret (Some previous)))"

text \<open>The resumed run is used only while its files are still the first ones.\<close>

definition verified_run :: "env \<Rightarrow> root \<Rightarrow> ustr \<Rightarrow> found \<Rightarrow> run \<Rightarrow> run act" where
  "verified_run E r config_digest found run =
     (case run of (staged_found, staged_items, _, _) \<Rightarrow>
        if take (length staged_found) found \<noteq> staged_found \<or> length staged_found \<noteq> length staged_items
        then reset_search_progress E r config_digest else ret run)"

definition build_items ::
  "env \<Rightarrow> chars \<Rightarrow> root \<Rightarrow> ustr \<Rightarrow> time \<Rightarrow> found \<Rightarrow> index_doc option \<Rightarrow> run \<Rightarrow>
   (search_item list \<times> (ustr \<times> ustr) list \<times> ustr) act" where
  "build_items E C r config_digest started found previous run =
     bnd (verified_run E r config_digest found run) (\<lambda>(_, staged, run_id, chunk_count).
     bnd (entry_ids E (rt_root_id r) found previous staged) (\<lambda>ids.
     bnd (fold_act (index_file E C r config_digest run_id started found ids)
            (drop (length staged) found) (staged, length staged, chunk_count)) (\<lambda>(items, _, _).
     ret (items, ids, run_id))))"

definition build_run :: "env \<Rightarrow> chars \<Rightarrow> scan_limits \<Rightarrow> root \<Rightarrow> ustr \<Rightarrow> time \<Rightarrow> time \<Rightarrow> run \<Rightarrow> built option act" where
  "build_run E C L r config_digest now started run =
     bnd (walk_root E L r) (\<lambda>walked.
     let found = searched_files walked;
         fingerprint = e_digest E (H_files found (index_config_of r)) in
     bnd (check_unchanged E r now (fst (snd (snd run))) fingerprint) (\<lambda>unchanged.
     case unchanged of
       None \<Rightarrow> ret None
     | Some previous \<Rightarrow>
         bnd (build_items E C r config_digest started found previous run) (\<lambda>(items, ids, run_id).
         ret (Some (found, items, ids, run_id, fingerprint)))))"

text \<open>An interrupted scan keeps its checkpoint and reports that it stopped.\<close>

definition fail_run :: "env \<Rightarrow> root \<Rightarrow> unit act" where
  "fail_run E r =
     transaction E (
       bnd (get_row db_progress (rt_root_id r)) (\<lambda>saved.
       bnd (put_row db_progress_update (rt_root_id r)
              ((case saved of None \<Rightarrow> no_progress (rt_root_id r) SCAN_FAILED | Some p \<Rightarrow> p)
                 \<lparr>ip_status := SCAN_FAILED, ip_remaining := None\<rparr>)) (\<lambda>_.
       bnd (get_row db_index (rt_root_id r)) (\<lambda>previous.
       case previous of
         None \<Rightarrow> ret ()
       | Some x \<Rightarrow>
           put_row db_index_update (rt_root_id r)
             (set_freshness STALE (fs_last_successful_sync_at (xd_freshness x)) x)))))"

definition publish_run :: "env \<Rightarrow> root \<Rightarrow> time \<Rightarrow> built \<Rightarrow> unit act" where
  "publish_run E r now built =
     (case built of (found, items, ids, run_id, fingerprint) \<Rightarrow>
        transaction E (
          bnd (get_row db_index (rt_root_id r)) (\<lambda>previous.
          case (case previous of Some x \<Rightarrow> if xd_fingerprint_digest x = fingerprint then Some x else None | None \<Rightarrow> None) of
            Some x \<Rightarrow> mark_current E r now run_id x (length items)
          | None \<Rightarrow>
              bnd (attempt_sum (utc_text now)) (\<lambda>stamp.
              bnd (put_row db_index_update (rt_root_id r)
                \<lparr>xd_root = r,
                 xd_index_generation = lit ''generation-'' @ take 24 (e_digest E (H_strings [rt_root_id r, fingerprint])),
                 xd_indexed_at = stamp, xd_items = items,
                 xd_entry_ids = map (\<lambda>(path, meta).
                   (path, \<lparr>en_item_id = the (dict_get ids path), en_dev = fp_dev meta, en_ino = fp_ino meta\<rparr>))
                   (remdups found),
                 xd_fingerprint_digest = fingerprint,
                 xd_freshness = \<lparr>fs_indexed_at = stamp, fs_last_successful_sync_at = stamp, fs_status = CURRENT\<rparr>,
                 xd_storage = None\<rparr>) (\<lambda>_.
              bnd (put_row db_progress_update (rt_root_id r) (complete_progress (rt_root_id r) (length items))) (\<lambda>_.
              clear_chunks E (rt_root_id r) (Some run_id)))))))"

definition scan_search_root :: "env \<Rightarrow> chars \<Rightarrow> scan_limits \<Rightarrow> root \<Rightarrow> unit act" where
  "scan_search_root E C L r =
     bnd (get_row db_index (rt_root_id r)) (\<lambda>stored.
     if (case stored of None \<Rightarrow> False | Some x \<Rightarrow> xd_storage x \<noteq> None) then ret ()
     else
       bnd (read_clock E) (\<lambda>now.
       bnd (read_monotonic E) (\<lambda>started.
       let config_digest = e_digest E (H_config (index_config_of r)) in
       bnd (start_search_progress E r config_digest) (\<lambda>run.
       try_else (build_run E C L r config_digest now started run)
         (\<lambda>e. if e = Killed then raise Killed else fail_run E r)
         (\<lambda>built. case built of None \<Rightarrow> ret () | Some b \<Rightarrow> publish_run E r now b)))))"

text \<open>\<open>Indexer.scan\<close>\<close>

definition index_roots :: "env \<Rightarrow> chars \<Rightarrow> scan_limits \<Rightarrow> unit act" where
  "index_roots E C L =
     bnd (transaction E (list_rows db_root)) (\<lambda>roots.
     each (\<lambda>r.
       bnd (if rt_searchable r \<and> \<not> rt_sqlite r \<and> \<not> rt_opensearch r then scan_search_root E C L r else ret ()) (\<lambda>_.
       if rt_incoming_company r \<noteq> None then scan_incoming_root E L r else ret ())) roots)"

end
