(* ===== verification/Scan_Correct.thy ===== *)
theory Scan_Correct
  imports Scan Execution_Recovery
begin

text \<open>
  The recursive listing stays within its budget on every run, and in a tree at rest it returns
  exactly the regular files below the directory.
\<close>

section \<open>The budget holds\<close>

definition within :: "env \<Rightarrow> scan_limits \<Rightarrow> budget \<times> found \<Rightarrow> bool" where
  "within E L st \<longleftrightarrow> length (snd st) \<le> bu_entries (fst st) \<and> bu_entries (fst st) \<le> lim_max_entries L \<and>
     sum_list (map (e_utf8_length E \<circ> fst) (snd st)) \<le> bu_path_bytes (fst st) \<and> bu_path_bytes (fst st) \<le> lim_max_path_bytes L"

lemma vc_read:
  "(\<And>x u. db u = db w \<Longrightarrow> Q x u) \<Longrightarrow> (\<And>e u. db u = db w \<Longrightarrow> X e u) \<Longrightarrow> wp (fs_read E f) Q X w"
  by (auto simp: fs_read_def wp_fs_call Let_def split: option.split sum.split)

lemma wp_list_dir:
  "wp (list_dir E d) Q X w = wp (fs_call E (\<lambda>t. (Inr (if t d = Some Dir then e_listing E (tick w) t d else []), t))) Q X w"
  by (simp add: wp_def list_dir_def)

lemma vc_list_dir: "(\<And>x u. db u = db w \<Longrightarrow> Q x u) \<Longrightarrow> (\<And>e u. db u = db w \<Longrightarrow> X e u) \<Longrightarrow> wp (list_dir E d) Q X w"
  by (auto simp: wp_list_dir wp_fs_call Let_def split: option.split)

lemma vc_node [vc]:
  "(n = Dir \<Longrightarrow> wp a Q X s) \<Longrightarrow> (\<And>fp. n = File fp \<Longrightarrow> wp (b fp) Q X s) \<Longrightarrow> (n = Link \<Longrightarrow> wp c Q X s) \<Longrightarrow>
   (n = Special \<Longrightarrow> wp d Q X s) \<Longrightarrow> wp (case n of Dir \<Rightarrow> a | File fp \<Rightarrow> b fp | Link \<Rightarrow> c | Special \<Rightarrow> d) Q X s"
  by (cases n) simp_all

lemma walk_entry_within:
  assumes st: "within E L st" "db w = D"
    and desc: "\<And>d p st w. within E L st \<Longrightarrow> db w = D \<Longrightarrow> wp (descend d p st) (\<lambda>st' u. within E L st' \<and> db u = D) (\<lambda>_ u. db u = D) w"
  shows "wp (walk_entry E L depth descend d prefix name st) (\<lambda>st' u. within E L st' \<and> db u = D) (\<lambda>_ u. db u = D) w"
  unfolding walk_entry_def observe_def
  by (intro vc vc_read desc) (use st in \<open>auto simp: within_def\<close>)

lemma walk_dir_within:
  "within E L st \<Longrightarrow> db w = D \<Longrightarrow> wp (walk_dir E L left d prefix st) (\<lambda>st' u. within E L st' \<and> db u = D) (\<lambda>_ u. db u = D) w"
proof (induction left arbitrary: d prefix st w)
  case 0
  show ?case
    unfolding walk_dir.simps
    by (intro vc vc_list_dir wp_fold_act [where I = "\<lambda>_ st u. within E L st \<and> db u = D"])
      (use 0 in \<open>auto intro!: walk_entry_within vc\<close>)
next
  case (Suc left)
  show ?case
    unfolding walk_dir.simps
    by (intro vc vc_list_dir wp_fold_act [where I = "\<lambda>_ st u. within E L st \<and> db u = D"])
      (use Suc in \<open>auto intro!: walk_entry_within Suc.IH\<close>)
qed

lemma sum_insort: "sum_list (map f (insort_key g x xs)) = f x + (sum_list (map f xs) :: nat)"
  by (induction xs) auto

lemma walk_wp:
  "wp (walk E L relative)
     (\<lambda>found u. length found \<le> lim_max_entries L \<and> sum_list (map (e_utf8_length E \<circ> fst) found) \<le> lim_max_path_bytes L \<and> db u = db w)
     (\<lambda>_ u. db u = db w) w"
proof (cases "parts True relative")
  case (Inl e)
  then show ?thesis by (simp add: walk_def wp_rules)
next
  case (Inr ps)
  have perm: "sum_list (map f (sort_key fst xs)) = sum_list (map f xs)" for f :: "ustr \<times> fingerprint \<Rightarrow> nat" and xs
    by (induction xs) (simp_all add: sum_insort)
  have st: "within E L st \<Longrightarrow> length (sort_key fst (snd st)) \<le> lim_max_entries L \<and>
      sum_list (map (e_utf8_length E \<circ> fst) (sort_key fst (snd st))) \<le> lim_max_path_bytes L" for st
    unfolding perm by (simp add: within_def)
  show ?thesis
    unfolding walk_def Inr sum.case
    by (intro vc vc_read wp_mono [OF walk_dir_within [where D = "db w"]])
      (use st in \<open>auto simp: within_def\<close>)
qed


section \<open>The listing is exact\<close>

text \<open>The path text of the entry \<open>q\<close> below a directory with the path text \<open>p\<close>.\<close>

definition under :: "ustr \<Rightarrow> ustr list \<Rightarrow> ustr" where
  "under p q = (if p = [] then join_with slash q else p @ slash # join_with slash q)"

definition files_below :: "fs \<Rightarrow> ustr list \<Rightarrow> ustr \<Rightarrow> ustr list \<Rightarrow> (ustr \<times> fingerprint) set" where
  "files_below t d p r = {(under p (r @ q), fp) | q fp. r @ q \<noteq> [] \<and> t (d @ r @ q) = Some (File fp)}"

text \<open>A directory yields its entries, each some time, and no entry has an empty name.\<close>

definition lists_tree :: "env \<Rightarrow> fs \<Rightarrow> bool" where
  "lists_tree E t \<longleftrightarrow> (\<forall>k d. set (e_listing E k t d) = {c. t (d @ [c]) \<noteq> None}) \<and> (\<forall>d. t (d @ [[]]) = None)"

lemma wp_list_dir_calm:
  "calm E \<Longrightarrow> wp (list_dir E d) Q X w =
     Q (if fs w d = Some Dir then e_listing E (tick w) (fs w) d else []) (w\<lparr>tick := Suc (tick w)\<rparr>)"
  by (simp add: wp_list_dir wp_fs_call calm_def quiet_def Let_def)

lemma files_below_split:
  assumes wf: "fs_wf t" and d: "t d = Some Dir"
  shows "files_below t d p [] = (\<Union>name\<in>{c. t (d @ [c]) \<noteq> None}. files_below t d p [name])"
proof (intro equalityI subsetI)
  fix r assume "r \<in> files_below t d p []"
  then obtain q fp where r: "r = (under p q, fp)" "q \<noteq> []" "t (d @ q) = Some (File fp)" by (auto simp: files_below_def)
  then obtain c q' where q: "q = c # q'" by (cases q) auto
  have "t (d @ [c]) \<noteq> None"
    using r(3) q fs_wf_above [OF wf, of "d @ [c]" q'] by (cases "q' = []") auto
  then show "r \<in> (\<Union>name\<in>{c. t (d @ [c]) \<noteq> None}. files_below t d p [name])"
    using r q by (force simp: files_below_def)
next
  fix r assume "r \<in> (\<Union>name\<in>{c. t (d @ [c]) \<noteq> None}. files_below t d p [name])"
  then show "r \<in> files_below t d p []" by (fastforce simp: files_below_def)
qed

lemma under_name: "p \<noteq> [] \<or> name \<noteq> [] \<Longrightarrow> (if p = [] then name else p @ slash # name) = under p [name] \<and> under p [name] \<noteq> []"
  by (auto simp: under_def)

lemma under_under: "name \<noteq> [] \<Longrightarrow> q \<noteq> [] \<Longrightarrow> under (under p [name]) q = under p (name # q)"
  by (cases q) (auto simp: under_def)

lemma files_below_leaf:
  assumes "fs_wf t" and "t (d @ [name]) \<noteq> Some Dir"
  shows "files_below t d p [name] = (case t (d @ [name]) of Some (File fp) \<Rightarrow> {(under p [name], fp)} | _ \<Rightarrow> {})"
proof -
  have leaf: "q = []" if "t (d @ name # q) = Some (File fp)" for q fp
    using fs_wf_above [OF assms(1), of "d @ [name]" q] assms(2) that by (cases "q = []") auto
  have "files_below t d p [name] = {(under p [name], fp) | fp. t (d @ [name]) = Some (File fp)}"
  proof (rule set_eqI)
    fix r show "r \<in> files_below t d p [name] \<longleftrightarrow> r \<in> {(under p [name], fp) | fp. t (d @ [name]) = Some (File fp)}"
      unfolding files_below_def mem_Collect_eq append_Cons append_Nil using leaf by (metis list.distinct(1))
  qed
  then show ?thesis by (simp split: option.split node.split)
qed

lemma files_below_dir:
  assumes "t (d @ [name]) = Some Dir" and "name \<noteq> []"
  shows "files_below t d p [name] = files_below t (d @ [name]) (under p [name]) []"
proof -
  have "t (d @ name # q) = Some (File fp) \<longleftrightarrow> q \<noteq> [] \<and> t (d @ name # q) = Some (File fp)" for q fp
    using assms(1) by auto
  then have "files_below t d p [name] = {(under p (name # q), fp) | q fp. q \<noteq> [] \<and> t (d @ name # q) = Some (File fp)}"
    unfolding files_below_def by simp
  also have "\<dots> = {(under (under p [name]) q, fp) | q fp. q \<noteq> [] \<and> t (d @ name # q) = Some (File fp)}"
    using under_under [OF assms(2), of _ p] by metis
  finally show ?thesis by (simp add: files_below_def)
qed

lemma observe_calm:
  assumes "\<And>b' u. fs (u :: world) = fs w \<Longrightarrow> Q b' u" and "\<And>u. fs u = fs w \<Longrightarrow> X (FsError ScanLimitExceeded) u"
  shows "wp (observe E L path depth b) Q X w"
  unfolding observe_def by (intro vc) (use assms in auto)

lemma walk_entry_exact:
  assumes c: "calm E" and t: "fs w = t" and wf: "fs_wf t" and name: "t (d @ [name]) \<noteq> None" "name \<noteq> []"
    and desc: "\<And>d p st w. fs w = t \<Longrightarrow> t d = Some Dir \<Longrightarrow> p \<noteq> [] \<Longrightarrow>
      wp (descend d p st) (\<lambda>st' u. fs u = t \<and> set (snd st') = set (snd st) \<union> files_below t d p [])
        (\<lambda>e u. fs u = t \<and> e = FsError ScanLimitExceeded) w"
  shows "wp (walk_entry E L depth descend d p name st)
    (\<lambda>st' u. fs u = t \<and> set (snd st') = set (snd st) \<union> files_below t d p [name]) (\<lambda>e u. fs u = t \<and> e = FsError ScanLimitExceeded) w"
proof -
  have path: "(if p = [] then name else p @ slash # name) = under p [name]" "under p [name] \<noteq> []"
    using under_name [of p name] name(2) by blast+
  show ?thesis
    unfolding walk_entry_def path(1) Let_def
  proof (rule vc_bnd, rule observe_calm)
    fix b and u :: world assume u: "fs u = fs w"
    let ?Q = "\<lambda>st' u. fs u = t \<and> set (snd st') = set (snd st) \<union> files_below t d p [name]"
    let ?X = "\<lambda>e u. fs u = t \<and> e = FsError ScanLimitExceeded"
    show "wp (bnd (fs_read E (\<lambda>t. Inr (t (d @ [name])))) (\<lambda>entry. case entry of
        None \<Rightarrow> ret (b, snd st)
      | Some (File fp) \<Rightarrow> ret (b, snd st @ [(under p [name], fp)])
      | Some Dir \<Rightarrow>
          if lim_max_depth L \<le> depth then raise (FsError ScanLimitExceeded)
          else bnd (fs_read E (\<lambda>t. open_child t (d @ [name]))) (\<lambda>_. descend (d @ [name]) (under p [name]) (b, snd st))
      | Some Link \<Rightarrow> ret (b, snd st) | Some Special \<Rightarrow> ret (b, snd st))) ?Q ?X u"
    proof (cases "t (d @ [name])")
      case (Some n)
      show ?thesis
      proof (cases "n = Dir")
        case True
        have "wp (descend (d @ [name]) (under p [name]) (b, snd st)) ?Q ?X v" if "fs v = t" for v
          using desc [OF that _ path(2), of "d @ [name]" "(b, snd st)"] Some True files_below_dir [OF _ name(2), of t d p] by simp
        then show ?thesis
          using t u Some True by (simp add: wp_bnd wp_read_calm [OF c] wp_if wp_raise open_child_def)
      next
        case False
        then have "files_below t d p [name] = (case n of File fp \<Rightarrow> {(under p [name], fp)} | _ \<Rightarrow> {})"
          using files_below_leaf [OF wf, of d name p] Some by simp
        then show ?thesis using t u Some False by (cases n) (simp_all add: wp_bnd wp_read_calm [OF c] wp_ret)
      qed
    qed (use name in simp)
  qed (use t in simp)
qed

lemma walk_level_exact:
  assumes c: "calm E" and l: "lists_tree E t" and wf: "fs_wf t" and t: "fs w = t" and d: "t d = Some Dir"
    and desc: "\<And>d p st w. fs w = t \<Longrightarrow> t d = Some Dir \<Longrightarrow> p \<noteq> [] \<Longrightarrow>
      wp (descend d p st) (\<lambda>st' u. fs u = t \<and> set (snd st') = set (snd st) \<union> files_below t d p [])
        (\<lambda>e u. fs u = t \<and> e = FsError ScanLimitExceeded) w"
  shows "wp (bnd (list_dir E d) (\<lambda>names. fold_act (walk_entry E L depth descend d p) names st))
    (\<lambda>st' u. fs u = t \<and> set (snd st') = set (snd st) \<union> files_below t d p []) (\<lambda>e u. fs u = t \<and> e = FsError ScanLimitExceeded) w"
proof -
  let ?names = "e_listing E (tick w) t d"
  let ?I = "\<lambda>ys (st' :: budget \<times> found) u. fs u = t \<and> set (snd st') = set (snd st) \<union> (\<Union>name\<in>set ys. files_below t d p [name])"
  have names: "set ?names = {c. t (d @ [c]) \<noteq> None}" and no_empty: "t (d @ [[]]) = None"
    using l by (auto simp: lists_tree_def)
  have "wp (fold_act (walk_entry E L depth descend d p) ?names st) (?I ?names) (\<lambda>e u. fs u = t \<and> e = FsError ScanLimitExceeded) (w\<lparr>tick := Suc (tick w)\<rparr>)"
  proof (rule wp_fold_act [where I = ?I])
    fix ys name zs and st1 :: "budget \<times> found" and v :: world
    assume split: "?names = ys @ name # zs" and I: "?I ys st1 v"
    have "t (d @ [name]) \<noteq> None" using names split by auto
    moreover from this have "name \<noteq> []" using no_empty by auto
    ultimately have "wp (walk_entry E L depth descend d p name st1)
        (\<lambda>st' u. fs u = t \<and> set (snd st') = set (snd st1) \<union> files_below t d p [name]) (\<lambda>e u. fs u = t \<and> e = FsError ScanLimitExceeded) v"
      using I by (intro walk_entry_exact [OF c _ wf _ _ desc]) auto
    then show "wp (walk_entry E L depth descend d p name st1) (?I (ys @ [name])) (\<lambda>e u. fs u = t \<and> e = FsError ScanLimitExceeded) v"
      by (rule wp_mono) (use I in auto)
  qed (use t in simp)
  then have "wp (fold_act (walk_entry E L depth descend d p) ?names st)
      (\<lambda>st' u. fs u = t \<and> set (snd st') = set (snd st) \<union> files_below t d p []) (\<lambda>e u. fs u = t \<and> e = FsError ScanLimitExceeded)
      (w\<lparr>tick := Suc (tick w)\<rparr>)"
    unfolding files_below_split [OF wf d] names .
  then show ?thesis unfolding wp_bnd wp_list_dir_calm [OF c] t if_P [OF d] .
qed

lemma walk_dir_exact:
  assumes c: "calm E" and l: "lists_tree E t" and wf: "fs_wf t" and "fs w = t" and "t d = Some Dir"
  shows "wp (walk_dir E L left d p st) (\<lambda>st' u. fs u = t \<and> set (snd st') = set (snd st) \<union> files_below t d p [])
    (\<lambda>e u. fs u = t \<and> e = FsError ScanLimitExceeded) w"
  using assms(4,5)
proof (induction left arbitrary: d p st w)
  case 0
  show ?case
    unfolding walk_dir.simps
    by (rule walk_level_exact [OF c l wf 0]) (simp add: wp_raise)
next
  case (Suc left)
  show ?case
    unfolding walk_dir.simps
    by (rule walk_level_exact [OF c l wf Suc.prems]) (rule Suc.IH)
qed

lemma walk_exact:
  assumes c: "calm E" and l: "lists_tree E (fs w)" and wf: "fs_wf (fs w)" and p: "parts True relative = Inr ps" and d: "fs w ps = Some Dir"
  shows "wp (walk E L relative)
    (\<lambda>found u. set found = files_below (fs w) ps relative [] \<and> sorted (map fst found)) (\<lambda>e u. e = FsError ScanLimitExceeded) w"
proof -
  have o: "open_directory (fs w) [] ps = Inr ps" using open_directory_wf [OF wf, of "[]" ps] d by simp
  have j: "join_with slash ps = relative"
  proof (cases "relative = []")
    case True
    then show ?thesis using p by (simp add: parts_def)
  next
    case False
    then have "parts True relative = parts False relative" by (simp only: parts_def simp_thms if_False)
    then have "parts False relative = Inr ps" using p by simp
    then show ?thesis by (simp add: parts_exact)
  qed
  show ?thesis
    unfolding walk_def p sum.case wp_bnd wp_read_calm [OF c] o wp_read_monotonic j
    by (rule wp_mono [OF walk_dir_exact [OF c l wf _ d]]) (auto simp: wp_ret)
qed
section \<open>Properties\<close>

text \<open>
  The recursive listing of a directory never returns more than the entries and path bytes of its budget,
  whatever fails or changes meanwhile, and it leaves the database alone. The budget is the reason why scanning ends.
\<close>

theorem walk_bounded:
  assumes "walk E L relative w = (Inr found, u)"
  shows "length found \<le> lim_max_entries L \<and> sum_list (map (e_utf8_length E \<circ> fst) found) \<le> lim_max_path_bytes L \<and> db u = db w"
  by (rule wp_run_Inr [OF walk_wp assms])

text \<open>
  C38: In a tree at rest the recursive listing either gives up because its budget is exceeded or returns exactly
  the regular files below the directory, each with its identity and its path, sorted by path; links are not followed.
\<close>

theorem walk_complete:
  assumes "calm E" and "lists_tree E (fs w)" and "fs_wf (fs w)" and "parts True relative = Inr ps" and "fs w ps = Some Dir"
  shows "case fst (walk E L relative w) of
      Inl e \<Rightarrow> e = FsError ScanLimitExceeded
    | Inr found \<Rightarrow> sorted (map fst found) \<and>
        set found = {(under relative q, fp) | q fp. q \<noteq> [] \<and> fs w (ps @ q) = Some (File fp)}"
  using wp_run [OF walk_exact [OF assms, where L = L] prod.collapse [symmetric]]
  by (auto simp: files_below_def split: sum.splits)

definition scan_env :: env where
  "scan_env = sample_env\<lparr>e_monotonic := int\<rparr>"

definition small_limits :: scan_limits where
  "small_limits = \<lparr>lim_max_entries = 9, lim_max_depth = 3, lim_max_path_bytes = 99, lim_max_time = 50\<rparr>"

lemma scan_env_calm: "calm scan_env"
  by (simp add: scan_env_def calm_def quiet_def sample_env_def)

lemma sample_lists: "lists_tree scan_env sample_fs"
proof -
  have dom: "p \<in> {[], [lit ''in''], [lit ''out''], [lit ''quar''], [lit ''man''], [lit ''in'', lit ''x'']}" if "sample_fs p \<noteq> None" for p
    using that unfolding sample_fs_def by (simp del: lit_simps split: if_split_asm)
  have "last p \<in> {lit ''in'', lit ''out'', lit ''quar'', lit ''man'', lit ''x''}" if "sample_fs p \<noteq> None" "p \<noteq> []" for p
    using dom [OF that(1)] that(2) by (elim insertE) (simp_all del: lit_simps)
  then have known: "c \<in> {lit ''in'', lit ''out'', lit ''quar'', lit ''man'', lit ''x''}" if "sample_fs (d @ [c]) \<noteq> None" for d c
    using that by (metis last_snoc snoc_eq_iff_butlast)
  have "sample_fs (d @ [[]]) = None" for d using known [of d "[]"] by (cases "sample_fs (d @ [[]])") auto
  moreover have "set (e_listing scan_env k sample_fs d) =
      {c \<in> {lit ''in'', lit ''out'', lit ''quar'', lit ''man'', lit ''x'', lit ''y''}. sample_fs (d @ [c]) \<noteq> None}" for k d
    by (auto simp: scan_env_def sample_env_def simp del: lit_simps)
  moreover have "{c \<in> {lit ''in'', lit ''out'', lit ''quar'', lit ''man'', lit ''x'', lit ''y''}. sample_fs (d @ [c]) \<noteq> None} =
      {c. sample_fs (d @ [c]) \<noteq> None}" for d
    using known by blast
  ultimately show ?thesis unfolding lists_tree_def by (metis (no_types, lifting))
qed

lemma sample_walk: "fst (walk scan_env small_limits (lit ''in'') sample_world) = Inr [(lit ''in/x'', sample_fp)]"
  by code_simp

theorem walk_bounded_witness: "length [(lit ''in/x'', sample_fp)] \<le> lim_max_entries small_limits"
  using walk_bounded [of scan_env small_limits "lit ''in''" sample_world] sample_walk
  by (metis prod.collapse)

theorem walk_complete_witness: "{(lit ''in/x'', sample_fp)} = {(under (lit ''in'') q, fp) | q fp. q \<noteq> [] \<and> sample_fs (lit ''in'' # q) = Some (File fp)}"
proof -
  have p: "parts True (lit ''in'') = Inr [lit ''in'']" by code_simp
  have d: "fs sample_world [lit ''in''] = Some Dir" by (simp add: sample_world_def sample_fs_def)
  have "lists_tree scan_env (fs sample_world)" "fs_wf (fs sample_world)"
    using sample_lists sample_fs_wf by (simp_all add: sample_world_def)
  from walk_complete [OF scan_env_calm this p d, of small_limits]
  show ?thesis unfolding sample_walk by (simp add: sample_world_def del: lit_simps)
qed

end
