(* ===== verification/Incoming_Correct.thy ===== *)
theory Incoming_Correct
  imports Incoming Scan_Correct
begin

text \<open>
  What a scan of an incoming root does to the queue. \<open>scanned\<close> describes the new queue item by item:
  every file is recorded in an item of its own, all other items of the root are missed, the rest is
  untouched. The properties are read off it: busy items are spared, an item becomes selectable only
  after its readiness period, and a finished scan accounts for every file.
\<close>

section \<open>Identifiers\<close>

text \<open>New identifiers are never repeated, contain no hyphen after the prefix and are not in use.\<close>

definition fresh_queue_ids :: "env \<Rightarrow> (ustr \<Rightarrow> queue_item option) \<Rightarrow> bool" where
  "fresh_queue_ids E Q \<longleftrightarrow> inj (e_uid E) \<and> (\<forall>j. 45 \<notin> set (e_uid E j) \<and> Q (lit ''queue'' @ 45 # e_uid E j) = None)"

lemma inode_id_not_fresh: "fresh_queue_ids E Q \<Longrightarrow> inode_id ''queue'' root_id fp \<noteq> lit ''queue'' @ 45 # e_uid E j"
proof
  assume "fresh_queue_ids E Q" and "inode_id ''queue'' root_id fp = lit ''queue'' @ 45 # e_uid E j"
  then have "root_id @ 45 # int_text (fp_dev fp) @ 45 # int_text (fp_ino fp) = e_uid E j" and "45 \<notin> set (e_uid E j)"
    by (simp_all add: inode_id_def fresh_queue_ids_def)
  then show False by (metis in_set_conv_decomp)
qed

lemma previous_item_in:
  assumes "previous_item existing found assigned pm = Some q"
  shows "q \<in> set existing \<and> q_item_id q \<notin> set assigned"
proof -
  let ?gone = "filter (\<lambda>q. loc_relative_path (q_source q) \<notin> fst ` set found) existing"
  let ?cs = "filter (\<lambda>q. inode_of (q_fingerprint q) = inode_of (snd pm) \<and> q_item_id q \<notin> set assigned) ?gone"
  have "q \<in> set existing" if "dict_get (map (\<lambda>q. (loc_relative_path (q_source q), q)) existing) p = Some q" for p
    using that by (auto simp: dict_get_def dest!: map_of_SomeD)
  moreover have "hd ?cs \<in> set ?cs" if "length ?cs = 1" using that by (cases ?cs) auto
  ultimately show ?thesis
    using assms by (auto simp: previous_item_def Let_def split: option.splits if_splits)
qed

section \<open>What a scan does to the queue\<close>

definition of_root :: "root \<Rightarrow> queue_item \<Rightarrow> bool" where
  "of_root r q \<longleftrightarrow> q_incoming_source_id q = rt_root_id r"

definition missed :: "root \<Rightarrow> queue_item \<Rightarrow> queue_item" where
  "missed r q =
     (if of_root r q \<and> \<not> q_departed q \<and> q_status q \<notin> {Q_PROCESSING, Q_RECOVERY_REQUIRED, Q_MISSING}
      then q\<lparr>q_item_revision := q_item_revision q + 1, q_status := Q_MISSING, q_reason_code := Some SOURCE_MISSING,
             q_selectable := False\<rparr>
      else q)"

text \<open>The item a file is recorded in: the one it continues, or a new one.\<close>

definition continues :: "env \<Rightarrow> root \<Rightarrow> (ustr \<Rightarrow> queue_item option) \<Rightarrow> ustr \<Rightarrow> queue_item option \<Rightarrow> bool" where
  "continues E r Q k previous \<longleftrightarrow>
     (case previous of
        Some q \<Rightarrow> Q k = Some q \<and> of_root r q
      | None \<Rightarrow> \<not> (\<exists>q. Q k = Some q \<and> of_root r q) \<and>
          ((\<exists>fp. k = inode_id ''queue'' (rt_root_id r) fp) \<or> (\<exists>j. k = lit ''queue'' @ 45 # e_uid E j)))"

definition recorded ::
  "env \<Rightarrow> root \<Rightarrow> time \<Rightarrow> (ustr \<Rightarrow> queue_item option) \<Rightarrow> found \<Rightarrow> ustr list \<Rightarrow> (ustr \<Rightarrow> queue_item option) \<Rightarrow> bool" where
  "recorded E r now Q files ids Q' \<longleftrightarrow> distinct ids \<and> length ids = length files \<and>
     (\<forall>i<length files. \<exists>previous. Q' (ids ! i) = Some (scanned_item E r now (ids ! i) previous (files ! i)) \<and> continues E r Q (ids ! i) previous)"

definition root_items :: "root \<Rightarrow> db \<Rightarrow> queue_item list" where
  "root_items r d = filter (of_root r) (tbl_rows (db_queue d))"

lemma root_items_get:
  assumes "tbl_ok (db_queue d)" and "queue_ids (tbl_get (db_queue d))"
  shows "q \<in> set (root_items r d) \<longleftrightarrow> tbl_get (db_queue d) (q_item_id q) = Some q \<and> of_root r q"
    and "distinct (map q_item_id (root_items r d))"
proof -
  have ids: "\<forall>x\<in>set (db_queue d). q_item_id (snd x) = fst x"
    using assms tbl_get_in [OF assms(1)] unfolding queue_ids_def by (metis prod.collapse)
  have "tbl_get (db_queue d) k = Some q \<Longrightarrow> k = q_item_id q" for k q using assms(2) by (auto simp: queue_ids_def)
  then show "q \<in> set (root_items r d) \<longleftrightarrow> tbl_get (db_queue d) (q_item_id q) = Some q \<and> of_root r q"
    using tbl_rows_get [OF assms(1), of q] by (auto simp: root_items_def)
  have "map q_item_id (tbl_rows (db_queue d)) = map fst (db_queue d)"
    unfolding tbl_rows_def map_map using ids by simp
  then have "distinct (map q_item_id (tbl_rows (db_queue d)))" using tbl_ok_distinct [OF assms(1)] by simp
  then show "distinct (map q_item_id (root_items r d))"
    unfolding root_items_def by (rule distinct_map_filter)
qed

lemma scan_files_wp:
  fixes d :: db
  defines "Q \<equiv> tbl_get (db_queue d)"
  assumes ok: "tbl_ok (db_queue d)" "queue_ids Q" and fresh: "fresh_queue_ids E Q" and w: "db w = d"
  shows "wp (fold_act (scan_file E r now (root_items r d) found) found [])
    (\<lambda>ids u. recorded E r now Q found ids (tbl_get (db_queue (db u))) \<and> (\<forall>k. k \<notin> set ids \<longrightarrow> tbl_get (db_queue (db u)) k = Q k)) X w"
proof -
  have get: "q \<in> set (root_items r d) \<longleftrightarrow> Q (q_item_id q) = Some q \<and> of_root r q" for q
    using root_items_get(1) [of d q r] ok unfolding Q_def by blast
  let ?I = "\<lambda>ys ids u. recorded E r now Q ys ids (tbl_get (db_queue (db u))) \<and>
    (\<forall>k. k \<notin> set ids \<longrightarrow> tbl_get (db_queue (db u)) k = Q k) \<and> (\<forall>j\<ge>tick u. lit ''queue'' @ 45 # e_uid E j \<notin> set ids)"
  have "wp (fold_act (scan_file E r now (root_items r d) found) found []) (\<lambda>ids u. ?I found ids u) X w"
  proof (rule wp_fold_act [where I = ?I])
    show "?I [] [] w" using w by (simp add: recorded_def Q_def)
  next
    fix ys x zs ids and u :: world
    assume I: "?I ys ids u"
    let ?p = "previous_item (root_items r d) found ids x"
    have step: "?I (ys @ [x]) (ids @ [k]) (v\<lparr>db := db_queue_update (tbl_put k (scanned_item E r now k ?p x)) (db v)\<rparr>)"
      if k: "k \<notin> set ids" "continues E r Q k ?p" and v: "db v = db u" "tick u \<le> tick v" "\<forall>j\<ge>tick v. lit ''queue'' @ 45 # e_uid E j \<noteq> k" for k v
    proof -
      have "recorded E r now Q (ys @ [x]) (ids @ [k]) (tbl_get (db_queue (db_queue_update (tbl_put k (scanned_item E r now k ?p x)) (db v))))"
        unfolding recorded_def
      proof (intro conjI allI impI)
        show "distinct (ids @ [k])" "length (ids @ [k]) = length (ys @ [x])" using I k by (simp_all add: recorded_def)
        fix i assume i: "i < length (ys @ [x])"
        show "\<exists>previous. tbl_get (db_queue (db_queue_update (tbl_put k (scanned_item E r now k ?p x)) (db v))) ((ids @ [k]) ! i) =
            Some (scanned_item E r now ((ids @ [k]) ! i) previous ((ys @ [x]) ! i)) \<and> continues E r Q ((ids @ [k]) ! i) previous"
        proof (cases "i = length ys")
          case True
          then show ?thesis using I k(2) by (intro exI [where x = ?p]) (simp add: recorded_def nth_append)
        next
          case False
          then have "i < length ys" "i < length ids" using i I by (simp_all add: recorded_def)
          moreover from this have "ids ! i \<noteq> k" using k(1) nth_mem by metis
          ultimately show ?thesis using I v(1) by (auto simp: recorded_def nth_append)
        qed
      qed
      then show ?thesis using I v by (auto simp: le_less_trans)
    qed
    show "wp (scan_file E r now (root_items r d) found x ids) (\<lambda>ids u. ?I (ys @ [x]) ids u) X u"
    proof (cases ?p)
      case (Some q)
      from previous_item_in [OF this] have q: "q \<in> set (root_items r d)" "q_item_id q \<notin> set ids" by simp_all
      moreover have "continues E r Q (q_item_id q) ?p" using q(1) get by (simp add: continues_def Some)
      moreover have "lit ''queue'' @ 45 # e_uid E j \<noteq> q_item_id q" for j
        using q(1) get fresh unfolding fresh_queue_ids_def by (metis option.distinct(1))
      ultimately show ?thesis
        using step [of "q_item_id q" u]
        by (simp add: scan_file_def item_identity_def Let_def wp_rules Some)
    next
      case None
      let ?k = "inode_id ''queue'' (rt_root_id r) (snd x)"
      have known: "q_item_id ` set (root_items r d) = {k. \<exists>q. Q k = Some q \<and> of_root r q}"
        using get ok(2) by (force simp: queue_ids_def)
      have new_inode: "continues E r Q (inode_id ''queue'' (rt_root_id r) fp) ?p"
        if "inode_id ''queue'' (rt_root_id r) fp \<notin> q_item_id ` set (root_items r d)" for fp
        using that unfolding known None continues_def by auto
      have new_uid: "continues E r Q (lit ''queue'' @ 45 # e_uid E j) ?p" for j
        using fresh unfolding None continues_def fresh_queue_ids_def by auto
      show ?thesis
      proof (cases "?k \<in> set ids \<or> ?k \<in> q_item_id ` set (root_items r d)")
        case True
        let ?n = "lit ''queue'' @ 45 # e_uid E (tick u)"
        have "?n \<notin> set ids" using I by simp
        moreover have "?n \<notin> q_item_id ` set (root_items r d)" unfolding known using fresh by (simp add: fresh_queue_ids_def)
        moreover have "\<forall>j\<ge>Suc (tick u). lit ''queue'' @ 45 # e_uid E j \<noteq> ?n"
          using fresh by (auto simp: fresh_queue_ids_def dest: injD)
        ultimately show ?thesis
          using step [of ?n "u\<lparr>tick := Suc (tick u)\<rparr>"] new_uid [of "tick u"] True
          by (simp add: scan_file_def item_identity_def Let_def wp_rules None)
      next
        case False
        then show ?thesis
          using step [of ?k u] new_inode [of "snd x"] inode_id_not_fresh [OF fresh, of "rt_root_id r" "snd x"]
          by (simp add: scan_file_def item_identity_def Let_def wp_rules None) metis
      qed
    qed
  qed
  then show ?thesis by (rule wp_mono) auto
qed


definition scanned :: "env \<Rightarrow> root \<Rightarrow> time \<Rightarrow> (ustr \<Rightarrow> queue_item option) \<Rightarrow> found \<Rightarrow> (ustr \<Rightarrow> queue_item option) \<Rightarrow> bool" where
  "scanned E r now Q found Q' \<longleftrightarrow>
     (\<exists>ids. recorded E r now Q found ids Q' \<and> (\<forall>k. k \<notin> set ids \<longrightarrow> Q' k = map_option (missed r) (Q k)))"

lemma miss_items_wp:
  assumes ok: "tbl_ok (db_queue d)" "queue_ids (tbl_get (db_queue d))"
    and start: "\<forall>k. k \<notin> set ids \<longrightarrow> tbl_get (db_queue (db w)) k = tbl_get (db_queue d) k"
  shows "wp (each (miss_item ids) (root_items r d))
    (\<lambda>_ u. \<forall>k. tbl_get (db_queue (db u)) k =
       (if k \<in> set ids then tbl_get (db_queue (db w)) k else map_option (missed r) (tbl_get (db_queue d) k))) X w"
proof -
  let ?I = "\<lambda>ys (u :: world). \<forall>k. tbl_get (db_queue (db u)) k =
     (if k \<in> set ids \<or> k \<notin> q_item_id ` set ys then tbl_get (db_queue (db w)) k else map_option (missed r) (tbl_get (db_queue d) k))"
  have "wp (each (miss_item ids) (root_items r d)) (\<lambda>_ u. ?I (root_items r d) u) X w"
  proof (rule wp_each [where I = ?I])
    fix ys x zs and u :: world
    assume split: "root_items r d = ys @ x # zs" and I: "?I ys u"
    then have x: "tbl_get (db_queue d) (q_item_id x) = Some x" "of_root r x"
      using root_items_get(1) [OF ok, of x r] by simp_all
    have new: "q_item_id x \<notin> q_item_id ` set ys"
      using root_items_get(2) [OF ok, of r] by (simp add: split)
    show "wp (miss_item ids x) (\<lambda>_ u. ?I (ys @ [x]) u) X u"
      using x new I start by (simp add: miss_item_def wp_rules missed_def)
  qed simp
  then show ?thesis
  proof (rule wp_mono)
    fix u :: world assume I: "?I (root_items r d) u"
    show "\<forall>k. tbl_get (db_queue (db u)) k =
       (if k \<in> set ids then tbl_get (db_queue (db w)) k else map_option (missed r) (tbl_get (db_queue d) k))"
    proof
      fix k
      have "k \<in> q_item_id ` set (root_items r d) \<longleftrightarrow> (\<exists>q. tbl_get (db_queue d) k = Some q \<and> of_root r q)"
        using root_items_get(1) [OF ok] ok(2) unfolding queue_ids_def by (metis (no_types, lifting) imageE imageI)
      then show "tbl_get (db_queue (db u)) k =
         (if k \<in> set ids then tbl_get (db_queue (db w)) k else map_option (missed r) (tbl_get (db_queue d) k))"
        using I start by (cases "tbl_get (db_queue d) k") (auto simp: missed_def)
    qed
  qed auto
qed

lemma scan_body_wp:
  assumes ok: "tbl_ok (db_queue (db w))" "queue_ids (tbl_get (db_queue (db w)))"
    and fresh: "fresh_queue_ids E (tbl_get (db_queue (db w)))"
  shows "wp (scan_body E r now found) (\<lambda>_ u. scanned E r now (tbl_get (db_queue (db w))) found (tbl_get (db_queue (db u)))) X w"
  unfolding scan_body_def wp_rules Let_def of_root_def [symmetric] root_items_def [symmetric]
  apply (rule wp_mono [OF scan_files_wp [OF ok fresh refl]])
   apply (rule wp_mono [OF miss_items_wp [OF ok]])
     apply (auto simp: scanned_def recorded_def)
  done


lemma recordedE:
  assumes "recorded E r now Q files ids Q'" and "i < length files"
  obtains previous where "Q' (ids ! i) = Some (scanned_item E r now (ids ! i) previous (files ! i))"
    and "continues E r Q (ids ! i) previous"
  using assms unfolding recorded_def by blast

section \<open>A whole scan\<close>

definition relative_found :: "root \<Rightarrow> found \<Rightarrow> found" where
  "relative_found r walked = map (\<lambda>(path, meta). (strip_base path (rt_base r), meta)) walked"

text \<open>A scan whose listing or transaction fails leaves the queue alone; otherwise the queue is scanned.\<close>

definition scan_result :: "env \<Rightarrow> scan_limits \<Rightarrow> root \<Rightarrow> world \<Rightarrow> nat \<Rightarrow> db \<Rightarrow> bool" where
  "scan_result E L r w n d \<longleftrightarrow>
     (\<exists>walked v. walk E L (rt_base r) (w\<lparr>tick := Suc (tick w)\<rparr>) = (Inr walked, v) \<and> n = length walked \<and>
        scanned E r (e_clock E (tick w)) (tbl_get (db_queue (db w))) (relative_found r walked) (tbl_get (db_queue d)))"

lemma incoming_progress_wp:
  assumes "\<And>u. db u = db_progress_update (tbl_put (lit ''incoming-'' @ rt_root_id r)
       ((no_progress (rt_root_id r) status)\<lparr>ip_count := count, ip_incoming := True\<rparr>)) (db w) \<Longrightarrow> Q () u"
    and "\<And>e u. db u = db w \<Longrightarrow> X e u"
  shows "wp (incoming_progress E r status count) Q X w"
  using assms by (simp add: incoming_progress_def wp_rules split: option.split)

lemma scan_incoming_wp:
  assumes ok: "tbl_ok (db_queue (db w))" "queue_ids (tbl_get (db_queue (db w)))"
    and fresh: "fresh_queue_ids E (tbl_get (db_queue (db w)))"
  shows "wp (scan_incoming_root E L r)
    (\<lambda>_ u. \<exists>p. tbl_get (db_progress (db u)) (lit ''incoming-'' @ rt_root_id r) = Some p \<and>
       (ip_status p = SCAN_FAILED \<and> db_queue (db u) = db_queue (db w) \<or>
        ip_status p = SCAN_COMPLETE \<and> (\<exists>n. ip_count p = Some n \<and> scan_result E L r w n (db u))))
    (\<lambda>_ u. db_queue (db u) = db_queue (db w) \<or> (\<exists>n. scan_result E L r w n (db u))) w"
    (is "wp _ ?Q ?X w")
proof -
  let ?w = "w\<lparr>tick := Suc (tick w)\<rparr>"
  have "wp (walk E L (rt_base r)) (\<lambda>walked v. walk E L (rt_base r) ?w = (Inr walked, v) \<and> db v = db w) (\<lambda>_ v. db v = db w) ?w"
    by (rule wpI) (use walk_wp [of E L "rt_base r" ?w] in \<open>simp_all add: wp_def\<close>)
  then show ?thesis
    unfolding scan_incoming_root_def wp_bnd wp_read_clock wp_try_else
  proof (rule wp_mono)
    fix walked and v :: world
    assume v: "walk E L (rt_base r) ?w = (Inr walked, v) \<and> db v = db w"
    let ?found = "relative_found r walked"
    have "wp (scan_body E r (e_clock E (tick w)) ?found)
       (\<lambda>_ u. scanned E r (e_clock E (tick w)) (tbl_get (db_queue (db w))) ?found (tbl_get (db_queue (db u)))) (\<lambda>_ _. True) v"
      using scan_body_wp [of v E r] ok fresh v by simp
    then have "wp (transaction E (scan_body E r (e_clock E (tick w)) ?found))
       (\<lambda>_ u. scan_result E L r w (length walked) (db u)) (\<lambda>_ u. db u = db w) v"
      unfolding wp_transaction
      by (rule wp_mono) (use v in \<open>auto simp: scan_result_def split: option.split\<close>)
    then show "wp (let found = map (\<lambda>(path, meta). (strip_base path (rt_base r), meta)) walked in
        bnd (transaction E (scan_body E r (e_clock E (tick w)) found)) (\<lambda>_. incoming_progress E r SCAN_COMPLETE (Some (length found)))) ?Q ?X v"
      unfolding Let_def relative_found_def [symmetric] wp_bnd
    proof (rule wp_mono)
      fix u :: world assume "scan_result E L r w (length walked) (db u)"
      then show "wp (incoming_progress E r SCAN_COMPLETE (Some (length ?found))) ?Q ?X u"
        by (intro incoming_progress_wp)
          (auto simp: scan_result_def relative_found_def no_progress_def)
    qed simp
  next
    fix e and v :: world assume "db v = db w"
    then show "wp (if e = Killed then raise Killed else incoming_progress E r SCAN_FAILED None) ?Q ?X v"
      unfolding wp_if wp_raise by (auto intro!: incoming_progress_wp simp: no_progress_def)
  qed
qed

section \<open>Reading a scanned queue\<close>

definition busy :: "queue_item \<Rightarrow> bool" where
  "busy q \<longleftrightarrow> q_status q \<in> {Q_PROCESSING, Q_RECOVERY_REQUIRED} \<or> q_active_attempt_id q \<noteq> None"

lemma scanned_item_busy: "busy q \<Longrightarrow> scanned_item E r now k (Some q) pm = q"
  by (auto simp: busy_def scanned_item_def Let_def)

lemma scanned_item_tracks:
  assumes "\<not> busy q"
  shows "loc_relative_path (q_source (scanned_item E r now k (Some q) pm)) = fst pm \<and>
    q_fingerprint (scanned_item E r now k (Some q) pm) = snd pm \<and> q_size_bytes (scanned_item E r now k (Some q) pm) = fp_size (snd pm) \<and>
    q_status (scanned_item E r now k (Some q) pm) \<noteq> Q_MISSING"
  using assms by (simp add: scanned_item_def Let_def busy_def)

lemma scanned_item_ready:
  assumes "\<not> busy q" and "q_selectable (scanned_item E r now k (Some q) pm)" and "\<not> q_selectable q"
  shows "q_status (scanned_item E r now k (Some q) pm) = Q_READY \<and> q_fingerprint q = snd pm \<and>
    loc_relative_path (q_source q) = fst pm \<and> \<not> temporary_name (e_casefold E) (fst pm) \<and>
    seconds (st_readiness_seconds (e_settings E)) \<le> now - q_observed_at q"
  using assms by (auto simp: scanned_item_def Let_def busy_def split: if_splits)

lemma missed_selectable: "q_selectable (missed r q) \<Longrightarrow> q_selectable q"
  by (simp add: missed_def split: if_splits)


text \<open>Identifiers made from an inode of this root belong to this root.\<close>

definition own_ids :: "root \<Rightarrow> (ustr \<Rightarrow> queue_item option) \<Rightarrow> bool" where
  "own_ids r Q \<longleftrightarrow> (\<forall>k q fp. Q k = Some q \<longrightarrow> \<not> of_root r q \<longrightarrow> k \<noteq> inode_id ''queue'' (rt_root_id r) fp)"

lemma continues_other:
  assumes "continues E r Q k previous" and "own_ids r Q" and "fresh_queue_ids E Q" and "Q k = Some q" and "\<not> of_root r q"
  shows False
  using assms unfolding continues_def own_ids_def fresh_queue_ids_def
  by (auto split: option.splits)

lemma scanned_spares:
  assumes s: "scanned E r now Q found Q'" and o: "own_ids r Q" "fresh_queue_ids E Q" and q: "Q k = Some q" "q_status q \<in> {Q_PROCESSING, Q_RECOVERY_REQUIRED} \<or> \<not> of_root r q"
  shows "Q' k = Some q"
proof -
  from s obtain ids where rec: "recorded E r now Q found ids Q'" and rest: "\<forall>k. k \<notin> set ids \<longrightarrow> Q' k = map_option (missed r) (Q k)"
    by (auto simp: scanned_def)
  show ?thesis
  proof (cases "k \<in> set ids")
    case True
    then obtain i where i: "i < length found" "k = ids ! i" using rec by (auto simp: in_set_conv_nth recorded_def)
    obtain previous where p: "Q' k = Some (scanned_item E r now k previous (found ! i))" "continues E r Q k previous"
      using recordedE [OF rec i(1)] i(2) by blast
    have "of_root r q" using continues_other [OF p(2) o q(1)] by blast
    moreover from this have "previous = Some q" using p(2) q(1) by (auto simp: continues_def split: option.splits)
    ultimately show ?thesis using p(1) q(2) scanned_item_busy [of q] by (auto simp: busy_def)
  next
    case False
    then show ?thesis using rest q by (auto simp: missed_def busy_def)
  qed
qed


lemma scanned_ready:
  assumes s: "scanned E r now Q found Q'" and q: "Q' k = Some q'" "of_root r q'" "q_selectable q'"
    and before: "\<And>q. Q k = Some q \<Longrightarrow> \<not> q_selectable q \<and> \<not> busy q"
  shows "\<exists>q. Q k = Some q \<and> (loc_relative_path (q_source q), q_fingerprint q) \<in> set found \<and>
    \<not> temporary_name (e_casefold E) (loc_relative_path (q_source q)) \<and>
    seconds (st_readiness_seconds (e_settings E)) \<le> now - q_observed_at q"
proof -
  from s obtain ids where rec: "recorded E r now Q found ids Q'" and rest: "\<forall>k. k \<notin> set ids \<longrightarrow> Q' k = map_option (missed r) (Q k)"
    by (auto simp: scanned_def)
  have "k \<in> set ids"
  proof (rule ccontr)
    assume "k \<notin> set ids"
    then obtain q where "Q k = Some q" "q' = missed r q" using rest q(1) by auto
    then show False using before [of q] q(3) missed_selectable by blast
  qed
  then obtain i where i: "i < length found" "k = ids ! i" using rec by (auto simp: in_set_conv_nth recorded_def)
  obtain previous where p: "q' = scanned_item E r now k previous (found ! i)" "continues E r Q k previous"
    using recordedE [OF rec i(1)] i(2) q(1) by (metis option.inject)
  show ?thesis
  proof (cases previous)
    case None
    then show ?thesis using p(1) q(3) by (simp add: scanned_item_def Let_def)
  next
    case (Some q)
    then have "Q k = Some q" using p(2) by (simp add: continues_def)
    moreover from this have "\<not> busy q" "\<not> q_selectable q" using before by blast+
    ultimately show ?thesis using scanned_item_ready [of q E r now k "found ! i"] p(1) q(3) Some i(1) nth_mem [OF i(1)] by auto
  qed
qed

text \<open>What a finished scan leaves for the files found and for the items without a file.\<close>

definition tracks :: "root \<Rightarrow> ustr \<times> fingerprint \<Rightarrow> queue_item \<Rightarrow> bool" where
  "tracks r pm q \<longleftrightarrow> loc_relative_path (q_source q) = fst pm \<and> q_fingerprint q = snd pm \<and>
     q_size_bytes q = fp_size (snd pm) \<and> q_status q \<noteq> Q_MISSING"

definition reconciled :: "root \<Rightarrow> (ustr \<Rightarrow> queue_item option) \<Rightarrow> found \<Rightarrow> (ustr \<Rightarrow> queue_item option) \<Rightarrow> bool" where
  "reconciled r Q files Q' \<longleftrightarrow>
     (\<exists>ids. distinct ids \<and> length ids = length files \<and>
        (\<forall>i<length files. \<exists>q. Q' (ids ! i) = Some q \<and> (tracks r (files ! i) q \<or> busy q \<and> Q (ids ! i) = Some q)) \<and>
        (\<forall>k q. k \<notin> set ids \<and> Q k = Some q \<and> of_root r q \<and> \<not> q_departed q \<and>
           q_status q \<notin> {Q_PROCESSING, Q_RECOVERY_REQUIRED} \<longrightarrow> map_option q_status (Q' k) = Some Q_MISSING))"

lemma scanned_reconciled:
  assumes "scanned E r now Q found Q'"
  shows "reconciled r Q found Q'"
proof -
  from assms obtain ids where rec: "recorded E r now Q found ids Q'" and rest: "\<forall>k. k \<notin> set ids \<longrightarrow> Q' k = map_option (missed r) (Q k)"
    by (auto simp: scanned_def)
  have "\<exists>q. Q' (ids ! i) = Some q \<and> (tracks r (found ! i) q \<or> busy q \<and> Q (ids ! i) = Some q)" if "i < length found" for i
  proof -
    obtain previous where p: "Q' (ids ! i) = Some (scanned_item E r now (ids ! i) previous (found ! i))" "continues E r Q (ids ! i) previous"
      using recordedE [OF rec \<open>i < length found\<close>] by blast
    show ?thesis
    proof (cases previous)
      case None
      then show ?thesis using p(1) by (simp add: scanned_item_def Let_def tracks_def)
    next
      case (Some q)
      then have "Q (ids ! i) = Some q" using p(2) by (simp add: continues_def)
      then show ?thesis using p(1) Some scanned_item_busy [of q] scanned_item_tracks [of q]
        by (cases "busy q") (auto simp: tracks_def)
    qed
  qed
  moreover have "map_option q_status (Q' k) = Some Q_MISSING"
    if "k \<notin> set ids" "Q k = Some q" "of_root r q" "\<not> q_departed q" "q_status q \<notin> {Q_PROCESSING, Q_RECOVERY_REQUIRED}" for k q
    using rest that by (simp add: missed_def)
  ultimately show ?thesis using rec unfolding recorded_def reconciled_def by (intro exI [where x = ids]) blast
qed

section \<open>Properties\<close>

definition queue_sane :: "env \<Rightarrow> root \<Rightarrow> db \<Rightarrow> bool" where
  "queue_sane E r d \<longleftrightarrow> tbl_ok (db_queue d) \<and> queue_ids (tbl_get (db_queue d)) \<and>
     fresh_queue_ids E (tbl_get (db_queue d)) \<and> own_ids r (tbl_get (db_queue d))"

lemma scan_incoming_cases:
  assumes "scan_incoming_root E L r w = (res, u)" and "queue_sane E r (db w)"
  shows "db_queue (db u) = db_queue (db w) \<or> (\<exists>n. scan_result E L r w n (db u))"
  using wp_run [OF scan_incoming_wp assms(1)] assms(2)
  by (fastforce simp: queue_sane_def split: sum.splits)

text \<open>
  C14: A scan of an incoming root, however it ends, leaves every queue item that is being processed or recovered as it
  is, and every item of another root.
\<close>

theorem scan_spares_busy:
  assumes "scan_incoming_root E L r w = (res, u)" and "queue_sane E r (db w)"
    and "tbl_get (db_queue (db w)) k = Some q"
    and "q_status q \<in> {Q_PROCESSING, Q_RECOVERY_REQUIRED} \<or> q_incoming_source_id q \<noteq> rt_root_id r"
  shows "tbl_get (db_queue (db u)) k = Some q"
  using scan_incoming_cases [OF assms(1,2)]
proof
  assume "\<exists>n. scan_result E L r w n (db u)"
  then show ?thesis
    using scanned_spares assms(2-4) unfolding scan_result_def queue_sane_def of_root_def by blast
qed (use assms in simp)

text \<open>
  C15: An item becomes selectable by a scan only if it was known before, its file is found again at the same path with
  the same fingerprint, its name is not that of an unfinished download, and the readiness period has passed since it
  was first observed in that form.
\<close>

theorem ready_only_after_wait:
  assumes "scan_incoming_root E L r w = (res, u)" and "queue_sane E r (db w)"
    and "tbl_get (db_queue (db u)) k = Some q'" and "q_incoming_source_id q' = rt_root_id r" and "q_selectable q'"
    and "\<And>q. tbl_get (db_queue (db w)) k = Some q \<Longrightarrow> \<not> q_selectable q \<and> \<not> busy q"
  shows "\<exists>q walked v. tbl_get (db_queue (db w)) k = Some q \<and>
    walk E L (rt_base r) (w\<lparr>tick := Suc (tick w)\<rparr>) = (Inr walked, v) \<and>
    (loc_relative_path (q_source q), q_fingerprint q) \<in> set (relative_found r walked) \<and>
    \<not> temporary_name (e_casefold E) (loc_relative_path (q_source q)) \<and>
    seconds (st_readiness_seconds (e_settings E)) \<le> e_clock E (tick w) - q_observed_at q"
  using scan_incoming_cases [OF assms(1,2)]
proof
  assume "\<exists>n. scan_result E L r w n (db u)"
  then obtain walked v where "walk E L (rt_base r) (w\<lparr>tick := Suc (tick w)\<rparr>) = (Inr walked, v)"
    and s: "scanned E r (e_clock E (tick w)) (tbl_get (db_queue (db w))) (relative_found r walked) (tbl_get (db_queue (db u)))"
    unfolding scan_result_def by blast
  then show ?thesis using scanned_ready [OF s assms(3) _ assms(5,6)] assms(4) by (auto simp: of_root_def)
qed (use assms in auto)

text \<open>
  C16: A scan that reports \<open>COMPLETE\<close> records every file it found in an item of its own, which names the file's path,
  fingerprint and size and is not missing, unless an attempt holds the item; it counts the files, and every other
  item of the root that is not departed or being worked on is now missing.
\<close>

theorem scan_tracks_files:
  assumes "scan_incoming_root E L r w = (Inr (), u)" and "queue_sane E r (db w)"
  shows "\<exists>p. tbl_get (db_progress (db u)) (lit ''incoming-'' @ rt_root_id r) = Some p \<and>
    (ip_status p = SCAN_FAILED \<and> db_queue (db u) = db_queue (db w) \<or>
     ip_status p = SCAN_COMPLETE \<and>
     (\<exists>walked v. walk E L (rt_base r) (w\<lparr>tick := Suc (tick w)\<rparr>) = (Inr walked, v) \<and> ip_count p = Some (length walked) \<and>
        reconciled r (tbl_get (db_queue (db w))) (relative_found r walked) (tbl_get (db_queue (db u)))))"
  using wp_run_Inr [OF scan_incoming_wp assms(1)] assms(2) scanned_reconciled
  unfolding queue_sane_def scan_result_def by (metis (no_types, lifting))


section \<open>Witnesses\<close>

definition incoming_env :: env where
  "incoming_env = scan_env\<lparr>e_uid := (\<lambda>k. [k + 100])\<rparr>"

definition incoming_root :: root where
  "incoming_root = (snd (sample_root ''in-root'' ''in''))\<lparr>rt_incoming_company := Some (lit ''c1'')\<rparr>"

definition incoming_world :: "queue_item \<Rightarrow> world" where
  "incoming_world q = \<lparr>db = empty_db\<lparr>db_queue := [(lit ''i1'', q)]\<rparr>, fs = sample_fs, tick = 100\<rparr>"

definition waiting_item :: queue_item where
  "waiting_item = sample_item\<lparr>q_status := Q_WAITING_READY, q_selectable := False\<rparr>"

definition working_item :: queue_item where
  "working_item = waiting_item\<lparr>q_status := Q_PROCESSING, q_active_attempt_id := Some (lit ''a1'')\<rparr>"

definition scanned_world :: "queue_item \<Rightarrow> world" where
  "scanned_world q = snd (scan_incoming_root incoming_env small_limits incoming_root (incoming_world q))"

lemma incoming_run:
  "scan_incoming_root incoming_env small_limits incoming_root (incoming_world waiting_item) = (Inr (), scanned_world waiting_item)"
  "scan_incoming_root incoming_env small_limits incoming_root (incoming_world working_item) = (Inr (), scanned_world working_item)"
  unfolding scanned_world_def by (rule prod_eqI, code_simp, simp)+

lemma incoming_sane_if: "q_item_id q = lit ''i1'' \<Longrightarrow> q_incoming_source_id q = rt_root_id incoming_root \<Longrightarrow> queue_sane incoming_env incoming_root (db (incoming_world q))"
  by (auto simp: queue_sane_def incoming_world_def tbl_ok_def queue_ids_def fresh_queue_ids_def own_ids_def of_root_def
      incoming_env_def inj_def split: if_splits)

lemma incoming_sane:
  "queue_sane incoming_env incoming_root (db (incoming_world waiting_item))"
  "queue_sane incoming_env incoming_root (db (incoming_world working_item))"
  by (rule incoming_sane_if; simp add: waiting_item_def working_item_def sample_item_def incoming_root_def sample_root_def)+

theorem scan_spares_busy_witness: "tbl_get (db_queue (db (scanned_world working_item))) (lit ''i1'') = Some working_item"
  by (rule scan_spares_busy [OF incoming_run(2) incoming_sane(2)])
    (simp_all add: incoming_world_def working_item_def)

lemma incoming_ready: "map_option q_selectable (tbl_get (db_queue (db (scanned_world waiting_item))) (lit ''i1'')) = Some True"
  by code_simp

lemma incoming_ready_root: "map_option q_incoming_source_id (tbl_get (db_queue (db (scanned_world waiting_item))) (lit ''i1'')) = Some (rt_root_id incoming_root)"
  by code_simp

theorem ready_only_after_wait_witness: "seconds (st_readiness_seconds (e_settings incoming_env)) \<le> e_clock incoming_env 100 - q_observed_at waiting_item"
proof -
  obtain q' where q': "tbl_get (db_queue (db (scanned_world waiting_item))) (lit ''i1'') = Some q'" "q_incoming_source_id q' = rt_root_id incoming_root" "q_selectable q'"
    using incoming_ready incoming_ready_root by auto
  have "q = waiting_item" if "tbl_get (db_queue (db (incoming_world waiting_item))) (lit ''i1'') = Some q" for q
    using that by (simp add: incoming_world_def)
  moreover have "\<not> q_selectable waiting_item \<and> \<not> busy waiting_item"
    by (simp add: waiting_item_def sample_item_def busy_def)
  moreover have "tick (incoming_world waiting_item) = 100" by (simp add: incoming_world_def)
  ultimately show ?thesis
    using ready_only_after_wait [OF incoming_run(1) incoming_sane(1) q'] by metis
qed

lemma incoming_complete: "map_option ip_status (tbl_get (db_progress (db (scanned_world waiting_item))) (lit ''incoming-in-root'')) = Some SCAN_COMPLETE"
  by code_simp

theorem scan_tracks_files_witness:
  "\<exists>p walked v. tbl_get (db_progress (db (scanned_world waiting_item))) (lit ''incoming-in-root'') = Some p \<and> ip_status p = SCAN_COMPLETE \<and>
     walk incoming_env small_limits (rt_base incoming_root) ((incoming_world waiting_item)\<lparr>tick := 101\<rparr>) = (Inr walked, v) \<and>
     ip_count p = Some (length walked) \<and>
     reconciled incoming_root (tbl_get (db_queue (db (incoming_world waiting_item)))) (relative_found incoming_root walked)
       (tbl_get (db_queue (db (scanned_world waiting_item))))"
proof -
  have root: "lit ''incoming-'' @ rt_root_id incoming_root = lit ''incoming-in-root''"
    by (simp add: incoming_root_def sample_root_def)
  have "Suc (tick (incoming_world waiting_item)) = 101" by (simp add: incoming_world_def)
  then show ?thesis
    using scan_tracks_files [OF incoming_run(1) incoming_sane(1), unfolded root] incoming_complete by auto
qed

end
