(* ===== verification/Indexing_Correct.thy ===== *)
theory Indexing_Correct
  imports Indexing Incoming_Correct
begin

text \<open>
  What a scan of a search root publishes. The invariant \<open>checkpoints_ok\<close> says that the chunks of a
  run hold the items its configuration gives for their files; it is kept on every exit, crashes
  included, and it is the reason why a resumed scan publishes the same items as a fresh one.
\<close>

section \<open>Checkpoints hold built items\<close>

definition built_from :: "chars \<Rightarrow> root \<Rightarrow> schema \<Rightarrow> ustr \<times> fingerprint \<Rightarrow> search_item \<Rightarrow> bool" where
  "built_from C r s pm item \<longleftrightarrow>
     (\<exists>stamp. utc_text (utc_ns (fp_mtime_ns (snd pm))) = Inr stamp \<and>
        build_item C (rt_root_id r) (rt_display_prefix r) (fst pm) (fp_size (snd pm)) stamp s (it_item_id item) None = Inr item)"

definition keyed_chunks :: "env \<Rightarrow> ustr \<Rightarrow> chunk table \<Rightarrow> bool" where
  "keyed_chunks E root_id t \<longleftrightarrow> (\<forall>(k, c)\<in>set t. ck_root_id c = root_id \<longrightarrow> starts_with k (chunk_prefix E root_id None))"

definition run_built :: "chars \<Rightarrow> root \<Rightarrow> schema \<Rightarrow> ustr \<Rightarrow> chunk table \<Rightarrow> bool" where
  "run_built C r s run t \<longleftrightarrow>
     (\<forall>(k, c)\<in>set t. ck_root_id c = rt_root_id r \<longrightarrow> ck_run_id c = run \<longrightarrow> list_all2 (built_from C r s) (ck_found c) (ck_items c))"

definition progress_built :: "env \<Rightarrow> chars \<Rightarrow> root \<Rightarrow> chunk table \<Rightarrow> progress \<Rightarrow> bool" where
  "progress_built E C r t p \<longleftrightarrow>
     (\<forall>cfg. ip_config_digest p = Some (e_digest E (H_config cfg)) \<longrightarrow>
        (case ip_run_id p of
           Some run \<Rightarrow> run_built C r (ic_schema cfg) run t
         | None \<Rightarrow> (\<forall>found items. ip_legacy p = Some (found, items) \<longrightarrow> list_all2 (built_from C r (ic_schema cfg)) found items)))"

definition checkpoints_ok :: "env \<Rightarrow> chars \<Rightarrow> root \<Rightarrow> db \<Rightarrow> bool" where
  "checkpoints_ok E C r d \<longleftrightarrow> keyed_chunks E (rt_root_id r) (db_chunk d) \<and>
     (\<forall>p. tbl_get (db_progress d) (rt_root_id r) = Some p \<longrightarrow> progress_built E C r (db_chunk d) p)"

text \<open>No other schema has the digest of the root's configuration.\<close>

definition config_digests :: "env \<Rightarrow> root \<Rightarrow> bool" where
  "config_digests E r \<longleftrightarrow>
     (\<forall>c. e_digest E (H_config (index_config_of r)) = e_digest E (H_config c) \<longrightarrow> ic_schema c = rt_schema r)"

lemma index_config_schema [simp]: "ic_schema (index_config_of r) = rt_schema r"
  by (simp add: index_config_of_def)

lemma tbl_put_subset: "set (tbl_put k v t) \<subseteq> insert (k, v) (set t)"
  by (induction t) auto

lemma chunk_prefix_run: "chunk_prefix E i (Some run) = chunk_prefix E i None @ run @ [45]"
  by (simp add: chunk_prefix_def)

lemma run_built_subset: "set t' \<subseteq> set t \<Longrightarrow> run_built C r s run t \<Longrightarrow> run_built C r s run t'"
  by (fastforce simp: run_built_def)

lemma keyed_subset: "set t' \<subseteq> set t \<Longrightarrow> keyed_chunks E i t \<Longrightarrow> keyed_chunks E i t'"
  by (fastforce simp: keyed_chunks_def)

lemma run_built_put:
  assumes "run_built C r s run t"
    and "ck_root_id c = rt_root_id r \<Longrightarrow> ck_run_id c = run \<Longrightarrow> list_all2 (built_from C r s) (ck_found c) (ck_items c)"
  shows "run_built C r s run (tbl_put k c t)"
  using assms tbl_put_subset [of k c t] unfolding run_built_def by fastforce

lemma keyed_put:
  assumes "keyed_chunks E i t" and "ck_root_id c = i \<Longrightarrow> starts_with k (chunk_prefix E i None)"
  shows "keyed_chunks E i (tbl_put k c t)"
  using assms tbl_put_subset [of k c t] unfolding keyed_chunks_def by fastforce

text \<open>After the chunks of a root are cleared it has none.\<close>

lemma run_built_cleared:
  "keyed_chunks E (rt_root_id r) t \<Longrightarrow>
   run_built C r s run (filter (\<lambda>x. \<not> starts_with (fst x) (chunk_prefix E (rt_root_id r) None)) t)"
  by (fastforce simp: run_built_def keyed_chunks_def)

lemma wp_clear_chunks [wp_rules]:
  "wp (clear_chunks E i run) Q X w =
   Q () (w\<lparr>db := db_chunk_update (filter (\<lambda>r. \<not> starts_with (fst r) (chunk_prefix E i run))) (db w)\<rparr>)"
  by (simp add: clear_chunks_def wp_rules)

lemma wp_put_chunk [wp_rules]:
  "wp (put_chunk E i run n f xs) Q X w =
   Q () (w\<lparr>db := db_chunk_update (tbl_put (chunk_prefix E i (Some run) @ eight_digits n)
     \<lparr>ck_root_id = i, ck_run_id = run, ck_sequence = n, ck_found = f, ck_items = xs\<rparr>) (db w)\<rparr>)"
  by (simp add: put_chunk_def wp_rules)

section \<open>Loading a run\<close>

lemma join_chunks_built:
  assumes "join_chunks i run n cs (f, xs) = Some (found, items, m)" and "list_all2 P f xs"
    and "\<forall>c\<in>set cs. ck_root_id c = i \<longrightarrow> ck_run_id c = run \<longrightarrow> list_all2 P (ck_found c) (ck_items c)"
  shows "list_all2 P found items"
  using assms
proof (induction cs arbitrary: n f xs)
  case (Cons c cs)
  from Cons.prems(1) have ok: "chunk_ok i run n c"
    and rest: "join_chunks i run (n + 1) cs (f @ ck_found c, xs @ ck_items c) = Some (found, items, m)"
    by (simp_all split: if_splits)
  have "list_all2 P (ck_found c) (ck_items c)" using ok Cons.prems(3) by (simp add: chunk_ok_def)
  then have "list_all2 P (f @ ck_found c) (xs @ ck_items c)" using Cons.prems(2) by (simp only: list_all2_appendI)
  then show ?case using Cons.IH [OF rest] Cons.prems(3) by simp
qed simp

lemma load_chunks_built:
  assumes "load_chunks E (rt_root_id r) run count d = Some (found, items, n)" and "run_built C r s run (db_chunk d)"
  shows "list_all2 (built_from C r s) found items"
proof -
  let ?cs = "map snd (filter (\<lambda>x. starts_with (fst x) (chunk_prefix E (rt_root_id r) (Some run))) (db_chunk d))"
  have joined: "join_chunks (rt_root_id r) run 0 ?cs ([], []) = Some (found, items, n)"
    using assms(1) by (auto simp: load_chunks_def Let_def split: option.splits if_splits)
  have chunks: "\<forall>c\<in>set ?cs. ck_root_id c = rt_root_id r \<longrightarrow> ck_run_id c = run \<longrightarrow> list_all2 (built_from C r s) (ck_found c) (ck_items c)"
    using assms(2) by (fastforce simp: run_built_def)
  show ?thesis by (rule join_chunks_built [OF joined _ chunks]) simp
qed

section \<open>Starting a run\<close>

definition run_ready :: "env \<Rightarrow> chars \<Rightarrow> root \<Rightarrow> run \<Rightarrow> chunk table \<Rightarrow> bool" where
  "run_ready E C r run t \<longleftrightarrow>
     (case run of (found, items, run_id, n) \<Rightarrow>
        keyed_chunks E (rt_root_id r) t \<and> run_built C r (rt_schema r) run_id t \<and>
        list_all2 (built_from C r (rt_schema r)) found items)"

lemma fresh_run_wp:
  assumes "keyed_chunks E (rt_root_id r) (db_chunk (db w))"
    and "\<And>run u. run_ready E C r run (db_chunk (db u)) \<Longrightarrow> db_index (db u) = db_index (db w) \<Longrightarrow> Q run u"
  shows "wp (fresh_run E (rt_root_id r)) Q X w"
  using assms(1) unfolding fresh_run_def wp_rules
  by (intro assms(2)) (auto simp: run_ready_def run_built_cleared intro: keyed_subset [OF filter_is_subset])


lemma slices_all2: "list_all2 P xs ys \<Longrightarrow> (f, g) \<in> set (zip (slices k xs) (slices k ys)) \<Longrightarrow> list_all2 P f g"
proof (induction k xs arbitrary: ys rule: slices.induct)
  case (1 k xs)
  note s = slices.simps [of k xs] slices.simps [of k ys]
  show ?case
  proof (cases "xs = [] \<or> k = 0")
    case True
    then show ?thesis using 1(3) by (simp add: s)
  next
    case False
    then have "ys \<noteq> []" using 1(2) by auto
    with False 1(3) have "(f, g) = (take k xs, take k ys) \<or> (f, g) \<in> set (zip (slices k (drop k xs)) (slices k (drop k ys)))"
      by (simp add: s)
    then show ?thesis
      using 1(1) [OF False, of "drop k ys"] list_all2_takeI [OF 1(2), of k] list_all2_dropI [OF 1(2), of k] by blast
  qed
qed

lemma upgrade_legacy_wp:
  assumes k: "keyed_chunks E (rt_root_id r) (db_chunk (db w))" and l: "list_all2 (built_from C r (rt_schema r)) found items"
    and q: "\<And>run u. run_ready E C r run (db_chunk (db u)) \<Longrightarrow> db_index (db u) = db_index (db w) \<Longrightarrow> Q run u"
  shows "wp (upgrade_legacy E (rt_root_id r) found items) Q X w"
proof -
  let ?run = "lit ''index-run'' @ 45 # e_uid E (tick w)"
  let ?I = "\<lambda>_ (u :: world). keyed_chunks E (rt_root_id r) (db_chunk (db u)) \<and> run_built C r (rt_schema r) ?run (db_chunk (db u)) \<and>
     db_index (db u) = db_index (db w)"
  show ?thesis
    unfolding upgrade_legacy_def wp_bnd wp_uid wp_clear_chunks
  proof (rule wp_mono [OF wp_each [where I = ?I]])
    show "?I [] (w\<lparr>tick := Suc (tick w), db := db_chunk_update (filter (\<lambda>x. \<not> starts_with (fst x) (chunk_prefix E (rt_root_id r) None)))
        (db (w\<lparr>tick := Suc (tick w)\<rparr>))\<rparr>)"
      using k by (auto simp: run_built_cleared intro: keyed_subset [OF filter_is_subset])
  next
    fix ys x zs and u :: world
    assume split: "enumerate 0 (zip (slices checkpoint_interval found) (slices checkpoint_interval items)) = ys @ x # zs" and I: "?I ys u"
    obtain n f g where x: "x = (n, f, g)" by (cases x)
    have "x \<in> set (enumerate 0 (zip (slices checkpoint_interval found) (slices checkpoint_interval items)))" by (simp add: split)
    then have "(f, g) \<in> set (zip (slices checkpoint_interval found) (slices checkpoint_interval items))"
      unfolding x enumerate_eq_zip by (rule set_zip_rightD)
    then have "list_all2 (built_from C r (rt_schema r)) f g" by (rule slices_all2 [OF l])
    then show "wp (case x of (sequence, f, i) \<Rightarrow> put_chunk E (rt_root_id r) ?run sequence f i) (\<lambda>_. ?I (ys @ [x])) X u"
      using I by (auto simp: x wp_rules chunk_prefix_run intro!: run_built_put keyed_put)
  qed (use l in \<open>auto simp: wp_ret run_ready_def intro!: q\<close>)
qed

lemma resume_run_wp:
  assumes ok: "checkpoints_ok E C r (db w)" and saved: "saved = tbl_get (db_progress (db w)) (rt_root_id r)"
    and q: "\<And>run u. run_ready E C r run (db_chunk (db u)) \<Longrightarrow> db_index (db u) = db_index (db w) \<Longrightarrow> Q run u"
  shows "wp (resume_run E (rt_root_id r) (e_digest E (H_config (index_config_of r))) saved) Q X w"
proof -
  have keyed: "keyed_chunks E (rt_root_id r) (db_chunk (db w))" using ok by (simp add: checkpoints_ok_def)
  note fresh = fresh_run_wp [OF keyed q]
  show ?thesis
  proof (cases saved)
    case None
    then show ?thesis by (simp add: resume_run_def fresh)
  next
    case (Some p)
    have built: "progress_built E C r (db_chunk (db w)) p" using ok saved Some by (simp add: checkpoints_ok_def)
    show ?thesis
    proof (cases "ip_status p \<in> {SCAN_RUNNING, SCAN_FAILED} \<and> ip_config_digest p = Some (e_digest E (H_config (index_config_of r)))")
      case False
      show ?thesis unfolding resume_run_def Some option.case if_P [OF False] by (rule fresh)
    next
      case True
      have b: "case ip_run_id p of Some run \<Rightarrow> run_built C r (rt_schema r) run (db_chunk (db w))
         | None \<Rightarrow> (\<forall>found items. ip_legacy p = Some (found, items) \<longrightarrow> list_all2 (built_from C r (rt_schema r)) found items)"
        using built [unfolded progress_built_def, rule_format, of "index_config_of r"] True by (simp split: option.splits)
      show ?thesis
      proof (cases "ip_run_id p")
        case None
        with True Some b show ?thesis
          by (auto simp: resume_run_def wp_rules fresh split: option.split intro!: upgrade_legacy_wp [OF keyed _ q])
      next
        case (Some run_id)
        have loaded: "Q (found, items, run_id, n) w" if "load_chunks E (rt_root_id r) run_id (ip_count p) (db w) = Some (found, items, n)" for found items n
          using b load_chunks_built [OF that] keyed unfolding Some by (intro q) (simp_all add: run_ready_def)
        show ?thesis
          using True \<open>saved = Some p\<close> Some by (auto simp: resume_run_def wp_rules fresh loaded split: option.split)
      qed
    qed
  qed
qed

definition running :: "env \<Rightarrow> chars \<Rightarrow> root \<Rightarrow> ustr \<Rightarrow> db \<Rightarrow> bool" where
  "running E C r run_id d \<longleftrightarrow> keyed_chunks E (rt_root_id r) (db_chunk d) \<and> run_built C r (rt_schema r) run_id (db_chunk d) \<and>
     (\<exists>p. tbl_get (db_progress d) (rt_root_id r) = Some p \<and> ip_run_id p = Some run_id \<and>
        ip_config_digest p = Some (e_digest E (H_config (index_config_of r))))"

lemma running_ok: "config_digests E r \<Longrightarrow> running E C r run_id d \<Longrightarrow> checkpoints_ok E C r d"
proof -
  assume d: "config_digests E r" and run: "running E C r run_id d"
  then obtain p where p: "tbl_get (db_progress d) (rt_root_id r) = Some p" "ip_run_id p = Some run_id"
    "ip_config_digest p = Some (e_digest E (H_config (index_config_of r)))"
    by (auto simp: running_def)
  have "ic_schema cfg = rt_schema r" if "e_digest E (H_config (index_config_of r)) = e_digest E (H_config cfg)" for cfg
    using d that unfolding config_digests_def by blast
  then have "progress_built E C r (db_chunk d) p"
    using p run by (simp add: progress_built_def running_def)
  then show ?thesis using p run by (simp add: checkpoints_ok_def running_def)
qed

lemma scanning_progress_simps [simp]:
  "ip_run_id (scanning_progress i cd run n c m k) = Some run" "ip_config_digest (scanning_progress i cd run n c m k) = Some cd"
  by (simp_all add: scanning_progress_def)

lemma start_search_progress_wp:
  assumes "checkpoints_ok E C r (db w)"
    and q: "\<And>found items run_id n u. running E C r run_id (db u) \<Longrightarrow> list_all2 (built_from C r (rt_schema r)) found items \<Longrightarrow>
      db_index (db u) = db_index (db w) \<Longrightarrow> Q (found, items, run_id, n) u"
    and x: "\<And>e u. db u = db w \<Longrightarrow> X e u"
  shows "wp (start_search_progress E r (e_digest E (H_config (index_config_of r)))) Q X w"
  unfolding start_search_progress_def wp_transaction wp_bnd wp_get_row
proof (rule resume_run_wp [OF assms(1) refl])
  fix run and u :: world
  assume ready: "run_ready E C r run (db_chunk (db u))" "db_index (db u) = db_index (db w)"
  obtain found items run_id n where run: "run = (found, items, run_id, n)" by (cases run)
  show "wp (case run of (found, items, run_id, chunk_count) \<Rightarrow>
      bnd (put_row db_progress_update (rt_root_id r)
         (scanning_progress (rt_root_id r) (e_digest E (H_config (index_config_of r))) run_id (length items) (last_path found) None chunk_count))
       (\<lambda>_. ret run))
     (\<lambda>x u. case e_fault E (tick u) of None \<Rightarrow> Q x (u\<lparr>tick := Suc (tick u)\<rparr>)
        | Some f \<Rightarrow> X (fault_exn f PyRuntimeError) (u\<lparr>db := db w, tick := Suc (tick u)\<rparr>))
     (\<lambda>e u. X e (u\<lparr>db := db w\<rparr>)) u"
    using ready by (auto simp: run wp_rules run_ready_def running_def split: option.split intro!: q x)
qed


section \<open>Building and checkpointing\<close>

lemma wp_attempt_sum [wp_rules]:
  "wp (attempt_sum x) Q X w = (case x of Inl e \<Rightarrow> X e w | Inr y \<Rightarrow> Q y w)"
  by (simp add: attempt_sum_def wp_rules split: sum.split)

lemma keeps_walk_root: "keeps (on_db ((=) d)) (walk_root E L r)"
proof -
  have "keeps (on_db ((=) d)) (walk E L x)" for x
    unfolding keeps_wp by (intro allI impI wp_mono [OF walk_wp]) auto
  then show ?thesis unfolding walk_root_def walk_prefix_def by (intro keeps_rules)
qed

lemma running_scanned:
  assumes "running E C r run_id d" and "list_all2 (built_from C r (rt_schema r)) f xs"
  shows "running E C r run_id (db_progress_update (tbl_put (rt_root_id r)
      (scanning_progress (rt_root_id r) (e_digest E (H_config (index_config_of r))) run_id n c m k))
    (db_chunk_update (tbl_put (chunk_prefix E (rt_root_id r) (Some run_id) @ eight_digits q)
      \<lparr>ck_root_id = rt_root_id r, ck_run_id = run_id, ck_sequence = q, ck_found = f, ck_items = xs\<rparr>) d))"
  using assms unfolding running_def by (auto simp: chunk_prefix_run intro!: run_built_put keyed_put)

lemma checkpoint_wp:
  assumes run: "running E C r run_id (db w)"
    and built: "list_all2 (built_from C r (rt_schema r)) (take (count - prev) (drop prev found)) (take (count - prev) (drop prev items))"
    and q: "\<And>u. running E C r run_id (db u) \<Longrightarrow> db_index (db u) = db_index (db w) \<Longrightarrow> Q () u"
    and x: "\<And>e u. db u = db w \<Longrightarrow> X e u"
  shows "wp (checkpoint E r (e_digest E (H_config (index_config_of r))) run_id found items prev n count started) Q X w"
  unfolding checkpoint_def
  by (intro vc) (auto simp: wp_transaction wp_rules split: option.split intro!: q x running_scanned run built)

definition building_ok :: "chars \<Rightarrow> root \<Rightarrow> found \<Rightarrow> nat \<Rightarrow> building \<Rightarrow> bool" where
  "building_ok C r found m st \<longleftrightarrow>
     (case st of (items, persisted, n) \<Rightarrow>
        length items = m \<and> m \<le> length found \<and> persisted \<le> m \<and> list_all2 (built_from C r (rt_schema r)) (take m found) items)"

lemma build_item_identity: "build_item C i dp p n stamp s k cs = Inr item \<Longrightarrow> it_item_id item = k"
  by (auto simp: build_item_def ebind_def item_of_def Let_def split: sum.splits prod.splits if_splits)

lemma index_file_wp:
  assumes run: "running E C r run_id (db w)" and st: "building_ok C r found m st"
    and m: "m < length found" "found ! m = pm"
    and q: "\<And>st u. building_ok C r found (Suc m) st \<Longrightarrow> running E C r run_id (db u) \<Longrightarrow> db_index (db u) = db_index (db w) \<Longrightarrow> Q st u"
    and x: "\<And>e u. running E C r run_id (db u) \<Longrightarrow> db_index (db u) = db_index (db w) \<Longrightarrow> X e u"
  shows "wp (index_file E C r (e_digest E (H_config (index_config_of r))) run_id started found ids pm st) Q X w"
proof -
  obtain items persisted n where st_eq: "st = (items, persisted, n)" by (cases st)
  let ?I = "\<lambda>item. items @ [item]"
  have len: "length items = m" "persisted \<le> m" and all: "list_all2 (built_from C r (rt_schema r)) (take m found) items"
    using st by (simp_all add: st_eq building_ok_def)
  show ?thesis
  proof (cases "utc_text (utc_ns (fp_mtime_ns (snd pm)))")
    case (Inl e)
    then show ?thesis using run by (simp add: index_file_def st_eq wp_rules x)
  next
    case (Inr stamp)
    show ?thesis
    proof (cases "build_item C (rt_root_id r) (rt_display_prefix r) (fst pm) (fp_size (snd pm)) stamp (rt_schema r) (the (dict_get ids (fst pm))) None")
      case (Inl e)
      then show ?thesis using run Inr by (simp add: index_file_def st_eq wp_rules x)
    next
      case item: (Inr item)
      have "built_from C r (rt_schema r) pm item"
        using item Inr build_item_identity [OF item] by (simp add: built_from_def)
      then have all': "list_all2 (built_from C r (rt_schema r)) (take (Suc m) found) (?I item)"
        using all m by (simp add: take_Suc_conv_app_nth list_all2_appendI)
      have ok: "building_ok C r found (Suc m) (?I item, k, n')" if "k \<le> Suc m" for k n'
        using that all' len m(1) by (simp add: building_ok_def)
      have slice: "list_all2 (built_from C r (rt_schema r)) (take (Suc m - persisted) (drop persisted found)) (take (Suc m - persisted) (drop persisted (?I item)))"
        using list_all2_dropI [OF all', of persisted] len by (simp add: drop_take)
      have count: "length (?I item) = Suc m" using len by simp
      have saved: "wp (checkpoint E r (e_digest E (H_config (index_config_of r))) run_id found (?I item) persisted n (Suc m) started)
          (\<lambda>_. Q (?I item, Suc m, n + 1)) X w"
        by (rule checkpoint_wp [OF run slice]) (use run in \<open>auto intro!: q x ok\<close>)
      have unsaved: "Q (?I item, persisted, n) w" using len run by (intro q ok) simp_all
      show ?thesis
        unfolding index_file_def st_eq prod.case wp_bnd wp_attempt_sum Inr item sum.case Let_def count wp_if wp_ret
        using saved unsaved by simp
    qed
  qed
qed


lemma index_files_wp:
  assumes run: "running E C r run_id (db w)" and m: "length staged \<le> length found"
    and staged: "list_all2 (built_from C r (rt_schema r)) (take (length staged) found) staged"
    and q: "\<And>items p n u. list_all2 (built_from C r (rt_schema r)) found items \<Longrightarrow> running E C r run_id (db u) \<Longrightarrow>
      db_index (db u) = db_index (db w) \<Longrightarrow> Q (items, p, n) u"
    and x: "\<And>e u. running E C r run_id (db u) \<Longrightarrow> db_index (db u) = db_index (db w) \<Longrightarrow> X e u"
  shows "wp (fold_act (index_file E C r (e_digest E (H_config (index_config_of r))) run_id started found ids)
      (drop (length staged) found) (staged, length staged, n)) Q X w"
proof -
  let ?I = "\<lambda>ys st (u :: world). building_ok C r found (length staged + length ys) st \<and> running E C r run_id (db u) \<and> db_index (db u) = db_index (db w)"
  show ?thesis
  proof (rule wp_mono [OF wp_fold_act [where I = ?I]])
    show "?I [] (staged, length staged, n) w" using assms by (simp add: building_ok_def)
  next
    fix ys pm zs st and u :: world
    assume split: "drop (length staged) found = ys @ pm # zs" and I: "?I ys st u"
    have len: "length staged + length ys < length found" using arg_cong [OF split, of length] by simp
    have at: "found ! (length staged + length ys) = pm"
      using nth_drop [OF m, of "length ys"] split by simp
    show "wp (index_file E C r (e_digest E (H_config (index_config_of r))) run_id started found ids pm st) (?I (ys @ [pm])) X u"
      by (rule index_file_wp [OF _ _ len at]) (use I x in auto)
  next
    fix st and u :: world
    assume I: "?I (drop (length staged) found) st u"
    then show "Q st u" using m by (cases st) (auto simp: building_ok_def intro!: q)
  qed
qed

lemma reset_wp:
  assumes run: "running E C r old (db w)"
    and q: "\<And>run_id u. running E C r run_id (db u) \<Longrightarrow> db_index (db u) = db_index (db w) \<Longrightarrow> Q ([], [], run_id, 0) u"
    and x: "\<And>e u. db u = db w \<Longrightarrow> X e u"
  shows "wp (reset_search_progress E r (e_digest E (H_config (index_config_of r)))) Q X w"
  using run unfolding reset_search_progress_def
  by (auto simp: wp_rules running_def run_built_cleared intro!: q x keyed_subset [OF filter_is_subset] split: option.split)


lemma fs_keeps_put_chunk [fs_rules]:
  "keeps (on_fs K) (put_chunk E i run n f xs)" "keeps (on_fs K) (clear_chunks E i run')"
  by (simp_all add: keeps_wp wp_rules)

lemma fs_keeps_start_search [fs_rules]: "keeps (on_fs K) (start_search_progress E r cd)"
  unfolding start_search_progress_def resume_run_def upgrade_legacy_def fresh_run_def by (intro keeps_rules fs_rules)

lemma wp_and: "wp m Q X s \<Longrightarrow> keeps I m \<Longrightarrow> I s \<Longrightarrow> wp m (\<lambda>x u. Q x u \<and> I u) (\<lambda>e u. X e u \<and> I u) s"
  using keepsD [of I m s] by (auto simp: wp_def split: prod.splits sum.splits)

section \<open>The outcome of a scan\<close>

definition published ::
  "env \<Rightarrow> chars \<Rightarrow> root \<Rightarrow> found \<Rightarrow> db \<Rightarrow> db \<Rightarrow> bool" where
  "published E C r files before after \<longleftrightarrow>
     (\<exists>x p. tbl_get (db_index after) (rt_root_id r) = Some x \<and> tbl_get (db_progress after) (rt_root_id r) = Some p \<and>
        ip_status p = SCAN_COMPLETE \<and> fs_status (xd_freshness x) = CURRENT \<and>
        xd_fingerprint_digest x = e_digest E (H_files files (index_config_of r)) \<and>
        ((\<exists>y. tbl_get (db_index before) (rt_root_id r) = Some y \<and> xd_fingerprint_digest y = xd_fingerprint_digest x \<and>
            xd_items x = xd_items y \<and> xd_entry_ids x = xd_entry_ids y) \<or>
         (list_all2 (built_from C r (rt_schema r)) files (xd_items x) \<and> ip_count p = Some (length files))))"

definition stopped :: "root \<Rightarrow> db \<Rightarrow> db \<Rightarrow> bool" where
  "stopped r before after \<longleftrightarrow>
     map_option ip_status (tbl_get (db_progress after) (rt_root_id r)) = Some SCAN_FAILED \<and>
     tbl_get (db_index after) (rt_root_id r) =
       map_option (\<lambda>x. set_freshness STALE (fs_last_successful_sync_at (xd_freshness x)) x) (tbl_get (db_index before) (rt_root_id r))"

lemma set_freshness_simps [simp]:
  "xd_items (set_freshness s t x) = xd_items x" "xd_entry_ids (set_freshness s t x) = xd_entry_ids x"
  "xd_fingerprint_digest (set_freshness s t x) = xd_fingerprint_digest x" "fs_status (xd_freshness (set_freshness s t x)) = s"
  by (simp_all add: set_freshness_def)

lemma complete_progress_simps [simp]:
  "ip_status (complete_progress i n) = SCAN_COMPLETE" "ip_count (complete_progress i n) = Some n"
  "progress_built E C r t (complete_progress i n)"
  by (simp_all add: complete_progress_def no_progress_def progress_built_def)

lemma mark_current_wp:
  assumes keyed: "keyed_chunks E (rt_root_id r) (db_chunk (db w))"
    and y: "tbl_get (db_index b) (rt_root_id r) = Some x" "xd_fingerprint_digest x = e_digest E (H_files files (index_config_of r))"
    and q: "\<And>u. checkpoints_ok E C r (db u) \<Longrightarrow> published E C r files b (db u) \<Longrightarrow> Q () u"
    and e: "\<And>e. X e w"
  shows "wp (mark_current E r now run_id x n) Q X w"
  using keyed y unfolding mark_current_def wp_rules
  by (auto simp: checkpoints_ok_def published_def split: sum.split intro!: q e keyed_subset [OF filter_is_subset])

lemma check_unchanged_wp:
  assumes keyed: "keyed_chunks E (rt_root_id r) (db_chunk (db w))"
    and some: "\<And>previous u. db u = db w \<Longrightarrow> Q (Some previous) u"
    and none: "\<And>u. checkpoints_ok E C r (db u) \<Longrightarrow> published E C r files (db w) (db u) \<Longrightarrow> Q None u"
    and x: "\<And>e u. db u = db w \<Longrightarrow> X e u"
  shows "wp (check_unchanged E r now run_id (e_digest E (H_files files (index_config_of r)))) Q X w"
  unfolding check_unchanged_def
  by (auto simp: wp_transaction wp_rules split: option.split intro!: mark_current_wp [OF keyed] x some none)

lemma build_items_wp:
  assumes run: "running E C r run_id (db w)" and staged: "list_all2 (built_from C r (rt_schema r)) sf si"
    and q: "\<And>items ids k u. list_all2 (built_from C r (rt_schema r)) files items \<Longrightarrow> running E C r k (db u) \<Longrightarrow>
      db_index (db u) = db_index (db w) \<Longrightarrow> Q (items, ids, k) u"
    and x: "\<And>e u k. running E C r k (db u) \<Longrightarrow> db_index (db u) = db_index (db w) \<Longrightarrow> X e u"
  shows "wp (build_items E C r (e_digest E (H_config (index_config_of r))) started files previous (sf, si, run_id, n)) Q X w"
proof -
  let ?cd = "e_digest E (H_config (index_config_of r))"
  have ids_keep: "keeps (on_db ((=) d)) (entry_ids E (rt_root_id r) files previous si')" for d si'
    unfolding entry_ids_def entry_id_of_def Let_def by (intro keeps_rules)
  have rest: "wp (bnd (entry_ids E (rt_root_id r) files previous si') (\<lambda>ids.
      bnd (fold_act (index_file E C r ?cd k started files ids) (drop (length si') files) (si', length si', m))
        (\<lambda>(items, _, _). ret (items, ids, k)))) Q X u"
    if u: "running E C r k (db u)" "db_index (db u) = db_index (db w)"
      and si': "length si' \<le> length files" "list_all2 (built_from C r (rt_schema r)) (take (length si') files) si'" for si' k m and u :: world
    unfolding wp_bnd
  proof (rule wp_reading [OF ids_keep])
    fix ids and v :: world assume "db v = db u"
    then show "wp (fold_act (index_file E C r ?cd k started files ids) (drop (length si') files) (si', length si', m))
        (\<lambda>xa. wp (case xa of (items, _, _) \<Rightarrow> ret (items, ids, k)) Q X) X v"
      using u by (intro index_files_wp si') (auto simp: wp_ret intro!: q x)
  qed (use u x in auto)
  show ?thesis
    unfolding build_items_def wp_bnd [of "verified_run _ _ _ _ _"]
  proof (cases "take (length sf) files \<noteq> sf \<or> length sf \<noteq> length si")
    case True
    have "wp (reset_search_progress E r ?cd) (\<lambda>(_, si', k, m). wp (bnd (entry_ids E (rt_root_id r) files previous si') (\<lambda>ids.
      bnd (fold_act (index_file E C r ?cd k started files ids) (drop (length si') files) (si', length si', m))
        (\<lambda>(items, _, _). ret (items, ids, k)))) Q X) X w"
      by (rule reset_wp [OF run]) (use run x rest [where si' = "[]"] in auto)
    then show "wp (verified_run E r ?cd files (sf, si, run_id, n)) (\<lambda>xa. wp (case xa of (_, si', k, m) \<Rightarrow>
      bnd (entry_ids E (rt_root_id r) files previous si') (\<lambda>ids.
      bnd (fold_act (index_file E C r ?cd k started files ids) (drop (length si') files) (si', length si', m))
        (\<lambda>(items, _, _). ret (items, ids, k)))) Q X) X w"
      unfolding verified_run_def prod.case if_P [OF True] by (rule wp_mono) auto
  next
    case False
    then have "take (length si) files = sf" "length si \<le> length files" by (auto simp: min_def split: if_splits)
    with False show "wp (verified_run E r ?cd files (sf, si, run_id, n)) (\<lambda>xa. wp (case xa of (_, si', k, m) \<Rightarrow>
      bnd (entry_ids E (rt_root_id r) files previous si') (\<lambda>ids.
      bnd (fold_act (index_file E C r ?cd k started files ids) (drop (length si') files) (si', length si', m))
        (\<lambda>(items, _, _). ret (items, ids, k)))) Q X) X w"
      using staged run unfolding verified_run_def prod.case if_not_P [OF False] wp_ret by (intro rest) auto
  qed
qed

lemma build_run_wp:
  assumes run: "running E C r run_id (db w)" and staged: "list_all2 (built_from C r (rt_schema r)) sf si"
    and q: "\<And>walked v items ids k u. walk_root E L r w = (Inr walked, v) \<Longrightarrow>
      list_all2 (built_from C r (rt_schema r)) (searched_files walked) items \<Longrightarrow> running E C r k (db u) \<Longrightarrow> db_index (db u) = db_index (db w) \<Longrightarrow>
      Q (Some (searched_files walked, items, ids, k, e_digest E (H_files (searched_files walked) (index_config_of r)))) u"
    and none: "\<And>walked v u. walk_root E L r w = (Inr walked, v) \<Longrightarrow> checkpoints_ok E C r (db u) \<Longrightarrow>
      published E C r (searched_files walked) (db w) (db u) \<Longrightarrow> Q None u"
    and x: "\<And>e u k. running E C r k (db u) \<Longrightarrow> db_index (db u) = db_index (db w) \<Longrightarrow> X e u"
  shows "wp (build_run E C L r (e_digest E (H_config (index_config_of r))) now started (sf, si, run_id, n)) Q X w"
proof -
  have walked: "wp (walk_root E L r) (\<lambda>walked v. walk_root E L r w = (Inr walked, v) \<and> db v = db w) (\<lambda>_ v. db v = db w) w"
    using keepsD [OF keeps_walk_root [of "db w"] refl] by (intro wpI) auto
  show ?thesis
    unfolding build_run_def wp_bnd [of "walk_root _ _ _"]
  proof (rule wp_mono [OF walked])
    fix walked and v :: world
    assume v: "walk_root E L r w = (Inr walked, v) \<and> db v = db w"
    then have keyed: "keyed_chunks E (rt_root_id r) (db_chunk (db v))" using run by (simp add: running_def)
    show "wp (let found = searched_files walked; fingerprint = e_digest E (H_files found (index_config_of r)) in
        bnd (check_unchanged E r now (fst (snd (snd (sf, si, run_id, n)))) fingerprint) (\<lambda>unchanged.
        case unchanged of
          None \<Rightarrow> ret None
        | Some previous \<Rightarrow>
            bnd (build_items E C r (e_digest E (H_config (index_config_of r))) started found previous (sf, si, run_id, n)) (\<lambda>(items, ids, run_id).
            ret (Some (found, items, ids, run_id, fingerprint))))) Q X v"
      unfolding Let_def wp_bnd [of "check_unchanged _ _ _ _ _"]
      by (rule check_unchanged_wp [OF keyed])
        (use v run staged none x in \<open>auto simp: wp_rules intro!: build_items_wp q\<close>)
  qed (use x run in auto)
qed


lemma fail_run_wp:
  assumes ok: "checkpoints_ok E C r (db w)"
    and q: "\<And>u. checkpoints_ok E C r (db u) \<Longrightarrow> stopped r (db w) (db u) \<Longrightarrow> Q () u"
    and x: "\<And>e u. db u = db w \<Longrightarrow> X e u"
  shows "wp (fail_run E r) Q X w"
proof -
  let ?p = "(case tbl_get (db_progress (db w)) (rt_root_id r) of None \<Rightarrow> no_progress (rt_root_id r) SCAN_FAILED | Some p \<Rightarrow> p)
    \<lparr>ip_status := SCAN_FAILED, ip_remaining := None\<rparr>"
  have "progress_built E C r (db_chunk (db w)) ?p"
    using ok by (auto simp: checkpoints_ok_def progress_built_def no_progress_def split: option.split)
  then have put: "checkpoints_ok E C r (db_progress_update (tbl_put (rt_root_id r) ?p) (db w))"
    using ok by (simp add: checkpoints_ok_def)
  show ?thesis
    using put unfolding fail_run_def
    by (auto simp: wp_rules stopped_def checkpoints_ok_def split: option.split intro!: q x)
qed

lemma publish_run_wp:
  assumes run: "running E C r k (db w)" and items: "list_all2 (built_from C r (rt_schema r)) files items"
    and b: "db_index (db w) = db_index b"
    and q: "\<And>u. checkpoints_ok E C r (db u) \<Longrightarrow> published E C r files b (db u) \<Longrightarrow> Q () u"
    and x: "\<And>e u. db u = db w \<Longrightarrow> X e u"
  shows "wp (publish_run E r now (files, items, ids, k, e_digest E (H_files files (index_config_of r)))) Q X w"
proof -
  let ?fp = "e_digest E (H_files files (index_config_of r))"
  have keyed: "keyed_chunks E (rt_root_id r) (db_chunk (db w))" using run by (simp add: running_def)
  show ?thesis
  proof (cases "\<exists>y. tbl_get (db_index (db w)) (rt_root_id r) = Some y \<and> xd_fingerprint_digest y = ?fp")
    case True
    then obtain y where "tbl_get (db_index (db w)) (rt_root_id r) = Some y" "xd_fingerprint_digest y = ?fp" by blast
    then show ?thesis
      using b by (auto simp: publish_run_def wp_transaction wp_bnd wp_get_row split: option.split intro!: mark_current_wp [OF keyed, where b = b] q x)
  next
    case False
    then have none: "(case tbl_get (db_index (db w)) (rt_root_id r) of Some y \<Rightarrow> if xd_fingerprint_digest y = ?fp then Some y else None | None \<Rightarrow> None) = None"
      by (auto split: option.split)
    have len: "length items = length files" using items by (simp add: list_all2_lengthD)
    show ?thesis
      unfolding publish_run_def prod.case wp_transaction wp_bnd [of "get_row _ _"] wp_get_row none option.case
      using keyed items len
      by (auto simp: wp_rules checkpoints_ok_def published_def split: option.split sum.split
          intro!: q x keyed_subset [OF filter_is_subset])
  qed
qed

text \<open>The whole scan of a search root.\<close>

definition search_outcome :: "env \<Rightarrow> chars \<Rightarrow> scan_limits \<Rightarrow> root \<Rightarrow> world \<Rightarrow> world \<Rightarrow> bool" where
  "search_outcome E C L r w u \<longleftrightarrow>
     ((\<exists>x. tbl_get (db_index (db w)) (rt_root_id r) = Some x \<and> xd_storage x \<noteq> None) \<and> db u = db w) \<or>
     stopped r (db w) (db u) \<or>
     (\<exists>v walked v'. fs v = fs w \<and> walk_root E L r v = (Inr walked, v') \<and> published E C r (searched_files walked) (db w) (db u))"

lemma same_index:
  "db_index a = db_index b \<Longrightarrow> stopped r a d = stopped r b d"
  "db_index a = db_index b \<Longrightarrow> published E C r f a d = published E C r f b d"
  by (simp_all add: stopped_def published_def)

lemma scan_search_root_wp:
  assumes d: "config_digests E r" and ok: "checkpoints_ok E C r (db w)"
  shows "wp (scan_search_root E C L r) (\<lambda>_ u. checkpoints_ok E C r (db u) \<and> search_outcome E C L r w u)
    (\<lambda>_ u. checkpoints_ok E C r (db u) \<and> db_index (db u) = db_index (db w)) w"
    (is "wp _ ?Q ?X w")
proof -
  let ?w = "w\<lparr>tick := Suc (Suc (tick w))\<rparr>"
  let ?cd = "e_digest E (H_config (index_config_of r))"
  have guarded: "wp (try_else (build_run E C L r ?cd now started (found, items, k, n))
       (\<lambda>e. if e = Killed then raise Killed else fail_run E r)
       (\<lambda>built. case built of None \<Rightarrow> ret () | Some b \<Rightarrow> publish_run E r now b)) ?Q ?X v"
    if v: "running E C r k (db v)" "list_all2 (built_from C r (rt_schema r)) found items" "db_index (db v) = db_index (db w)" "fs v = fs w"
    for found items k n now started and v :: world
    unfolding wp_try_else
  proof (rule build_run_wp [OF v(1,2)])
    fix walked v' its ids j and u :: world
    assume walked: "walk_root E L r v = (Inr walked, v')" and u: "list_all2 (built_from C r (rt_schema r)) (searched_files walked) its"
      "running E C r j (db u)" "db_index (db u) = db_index (db v)"
    have "wp (publish_run E r now (searched_files walked, its, ids, j, e_digest E (H_files (searched_files walked) (index_config_of r)))) ?Q ?X u"
      by (rule publish_run_wp [OF u(2,1), where b = "db w"])
        (use u v walked running_ok [OF d] in \<open>auto simp: search_outcome_def\<close>)
    then show "wp (case Some (searched_files walked, its, ids, j, e_digest E (H_files (searched_files walked) (index_config_of r))) of
        None \<Rightarrow> ret () | Some b \<Rightarrow> publish_run E r now b) ?Q ?X u" by simp
  next
    fix walked v' and u :: world
    assume "walk_root E L r v = (Inr walked, v')" "checkpoints_ok E C r (db u)" "published E C r (searched_files walked) (db v) (db u)"
    then show "wp (case None of None \<Rightarrow> ret () | Some b \<Rightarrow> publish_run E r now b) ?Q ?X u"
      using v same_index(2) [OF v(3)] by (auto simp: wp_ret search_outcome_def)
  next
    fix e j and u :: world
    assume u: "running E C r j (db u)" "db_index (db u) = db_index (db v)"
    have fail: "wp (fail_run E r) ?Q ?X u"
      by (rule fail_run_wp [OF running_ok [OF d u(1)]])
        (use u v running_ok [OF d u(1)] same_index(1) [of "db u" "db w" r] in \<open>auto simp: search_outcome_def\<close>)
    then show "wp (if e = Killed then raise Killed else fail_run E r) ?Q ?X u"
      using u v running_ok [OF d u(1)] by (simp add: wp_rules)
  qed
  have started: "wp (start_search_progress E r ?cd)
      (\<lambda>run v. (case run of (found, items, k, n) \<Rightarrow> running E C r k (db v) \<and> list_all2 (built_from C r (rt_schema r)) found items \<and>
         db_index (db v) = db_index (db w)) \<and> fs w = fs v)
      (\<lambda>_ v. db v = db w \<and> fs w = fs v) ?w"
    by (rule wp_and [OF _ fs_keeps_start_search [of "(=) (fs w)"]], rule start_search_progress_wp) (use ok in auto)
  show ?thesis
  proof (cases "case tbl_get (db_index (db w)) (rt_root_id r) of None \<Rightarrow> False | Some x \<Rightarrow> xd_storage x \<noteq> None")
    case True
    then show ?thesis using ok by (auto simp: scan_search_root_def wp_rules search_outcome_def split: option.splits)
  next
    case False
    show ?thesis
      unfolding scan_search_root_def wp_bnd wp_get_row if_not_P [OF False] wp_read_clock wp_read_monotonic Let_def
      by (rule wp_mono, use started in simp) (use ok in \<open>auto intro!: guarded\<close>)
  qed
qed

section \<open>Properties\<close>

text \<open>
  C17: A scan of a search root that returns either has nothing to do (the index of the root is kept elsewhere), or
  reports itself as stopped and marks the published document stale, or it has listed the root and publishes under
  the fingerprint of that listing, with the status current: the document of that fingerprint that was there already,
  or one item per listed file, built from this file and the schema, although a part of them may come from the
  checkpoints of an earlier, interrupted scan.
\<close>

theorem search_scan_publishes:
  assumes "scan_search_root E C L r w = (Inr (), u)" and "config_digests E r" and "checkpoints_ok E C r (db w)"
  shows "(\<exists>x. tbl_get (db_index (db w)) (rt_root_id r) = Some x \<and> xd_storage x \<noteq> None) \<and> db u = db w \<or>
    stopped r (db w) (db u) \<or>
    (\<exists>v walked v'. fs v = fs w \<and> walk_root E L r v = (Inr walked, v') \<and> published E C r (searched_files walked) (db w) (db u))"
  using wp_run_Inr [OF scan_search_root_wp [OF assms(2,3)] assms(1)] unfolding search_outcome_def by blast

lemma progress_built_put:
  "ck_root_id c \<noteq> rt_root_id r \<Longrightarrow> progress_built E C r t p \<Longrightarrow> progress_built E C r (tbl_put k c t) p"
  unfolding progress_built_def by (auto split: option.splits intro!: run_built_put)

lemma progress_built_filter:
  "progress_built E C r t p \<Longrightarrow> progress_built E C r (filter P t) p"
  unfolding progress_built_def by (auto split: option.splits intro: run_built_subset [OF filter_is_subset])

text \<open>The scan of another root does not touch the checkpoints of this one.\<close>

lemma keeps_put_chunk_other:
  "i \<noteq> rt_root_id r \<Longrightarrow> keeps (on_db (checkpoints_ok E C r)) (put_chunk E i run n f xs)"
  unfolding put_chunk_def by (rule keeps_put_row) (auto simp: checkpoints_ok_def intro!: keyed_put progress_built_put)

lemma keeps_clear_chunks: "keeps (on_db (checkpoints_ok E C r)) (clear_chunks E i run)"
  by (auto simp: keeps_wp wp_rules checkpoints_ok_def intro: keyed_subset [OF filter_is_subset] progress_built_filter)

lemma keeps_progress_other:
  "i \<noteq> rt_root_id r \<Longrightarrow> keeps (on_db (checkpoints_ok E C r)) (put_row db_progress_update i p)"
  by (rule keeps_put_row) (simp add: checkpoints_ok_def)

lemma keeps_index_row: "keeps (on_db (checkpoints_ok E C r)) (put_row db_index_update i x)"
  by (rule keeps_put_row) (simp add: checkpoints_ok_def)

lemma keeps_attempt_sum [keeps_rules]: "keeps I (attempt_sum x)"
  by (cases x) (simp_all add: attempt_sum_def keeps_rules)

lemma keeps_walk: "keeps (on_db I) (walk E L p)"
  unfolding keeps_wp by (intro allI impI wp_mono [OF walk_wp]) auto

lemma keeps_scan_other:
  assumes "rt_root_id r' \<noteq> rt_root_id r"
  shows "keeps (on_db (checkpoints_ok E C r)) (scan_search_root E C L r')"
  unfolding scan_search_root_def start_search_progress_def resume_run_def upgrade_legacy_def fresh_run_def build_run_def walk_root_def
    walk_prefix_def check_unchanged_def mark_current_def build_items_def verified_run_def reset_search_progress_def entry_ids_def
    entry_id_of_def index_file_def checkpoint_def fail_run_def publish_run_def Let_def
  by (intro keeps_rules keeps_walk keeps_put_chunk_other [OF assms] keeps_clear_chunks keeps_progress_other [OF assms] keeps_index_row)

text \<open>
  C18: The checkpoints of a search root always hold, for every file of the run, the item that the configuration of the
  run gives for it: the scans of this root and of the other roots keep this on every exit, so also when the process
  is killed anywhere, and a scan that fails outright leaves every published document alone.
\<close>

theorem checkpoints_kept:
  assumes "scan_search_root E C L r' w = (res, u)" and "r' = r \<or> rt_root_id r' \<noteq> rt_root_id r"
    and "config_digests E r" and "checkpoints_ok E C r (db w)"
  shows "checkpoints_ok E C r (db u) \<and> (r' = r \<and> isl res \<longrightarrow> db_index (db u) = db_index (db w))"
proof (cases "r' = r")
  case True
  then show ?thesis
    using wp_run [OF scan_search_root_wp [OF assms(3,4), of L]] assms(1) by (fastforce split: sum.splits)
next
  case False
  then show ?thesis
    using keepsD [OF keeps_scan_other [of r' r E C L] assms(4,1)] assms(2) by simp
qed


section \<open>Witnesses\<close>

definition index_root :: root where
  "index_root = snd (sample_root ''in-root'' ''in'')"

text \<open>A clock and a file that stand at the first microsecond of the calendar, whose text evaluates at once.\<close>

lemma utc_text_first [code]:
  "utc_text t =
     (if t = 1 - epoch_offset then Inr (lit ''0001-01-01T00:00:00.000001Z'')
      else if t + epoch_offset < 0 \<or> int calendar_end \<le> t + epoch_offset then Inl PyValueError
      else Inr (instant_text (nat (t + epoch_offset))))"
proof (cases "t = 1 - epoch_offset")
  case True
  then show ?thesis using first_text by simp
next
  case False
  then show ?thesis by (simp only: if_False utc_text_def)
qed

definition index_env :: env where
  "index_env = incoming_env\<lparr>e_clock := (\<lambda>k. 1 - epoch_offset),
     e_digest := (\<lambda>h. case h of H_config c \<Rightarrow> if ic_schema c = rt_schema index_root then [49] else [50] | _ \<Rightarrow> [48])\<rparr>"

definition index_fp :: fingerprint where
  "index_fp = sample_fp\<lparr>fp_mtime_ns := 1000 * (1 - epoch_offset)\<rparr>"

definition index_fs :: fs where
  "index_fs = map_of [([], Dir), ([lit ''in''], Dir), ([lit ''in'', lit ''x''], File index_fp)]"

definition index_world :: world where
  "index_world = \<lparr>db = empty_db, fs = index_fs, tick = 0\<rparr>"

definition indexed_world :: world where
  "indexed_world = snd (scan_search_root index_env sample_chars small_limits index_root index_world)"

lemma index_run: "scan_search_root index_env sample_chars small_limits index_root index_world = (Inr (), indexed_world)"
  unfolding indexed_world_def by (rule prod_eqI, code_simp, simp)

lemma index_published: "map_option (map it_item_id \<circ> xd_items) (tbl_get (db_index (db indexed_world)) (lit ''in-root'')) = Some [lit ''file-in-root-1-7'']"
  by code_simp

lemma index_start: "config_digests index_env index_root" "checkpoints_ok E C r (db index_world)"
  by (simp_all add: config_digests_def index_env_def index_config_of_def checkpoints_ok_def keyed_chunks_def index_world_def empty_db_def split: if_splits)


theorem search_scan_publishes_witness:
  "stopped index_root (db index_world) (db indexed_world) \<or>
   (\<exists>v walked v'. fs v = fs index_world \<and> walk_root index_env small_limits index_root v = (Inr walked, v') \<and>
      published index_env sample_chars index_root (searched_files walked) (db index_world) (db indexed_world))"
  using search_scan_publishes [OF index_run index_start] by (simp add: index_world_def empty_db_def)

theorem checkpoints_kept_witness: "checkpoints_ok index_env sample_chars index_root (db indexed_world)"
  using checkpoints_kept [OF index_run _ index_start] by blast

end
