(* ===== verification/Indexing_Ids.thy ===== *)
theory Indexing_Ids
  imports Indexing_Correct
begin

text \<open>The identifiers of directory entries: distinct, kept by a resumed run and kept for unchanged entries.\<close>

section \<open>Stable identifiers\<close>

definition fresh_file_ids :: "env \<Rightarrow> ustr set \<Rightarrow> bool" where
  "fresh_file_ids E taken \<longleftrightarrow> inj (e_uid E) \<and> (\<forall>j. 45 \<notin> set (e_uid E j) \<and> lit ''file'' @ 45 # e_uid E j \<notin> taken)"

lemma inode_id_not_uid: "45 \<notin> set (e_uid E j) \<Longrightarrow> inode_id p root_id fp \<noteq> lit p @ 45 # e_uid E j"
proof
  assume "45 \<notin> set (e_uid E j)" and "inode_id p root_id fp = lit p @ 45 # e_uid E j"
  then have "root_id @ 45 # int_text (fp_dev fp) @ 45 # int_text (fp_ino fp) = e_uid E j" by (simp add: inode_id_def)
  with \<open>45 \<notin> set (e_uid E j)\<close> show False by (metis in_set_conv_decomp)
qed

definition old_entries :: "index_doc option \<Rightarrow> (ustr \<times> entry_id) list" where
  "old_entries previous = (case previous of None \<Rightarrow> [] | Some x \<Rightarrow> xd_entry_ids x)"

definition old_ids :: "(ustr \<times> entry_id) list \<Rightarrow> ustr set" where
  "old_ids old = (en_item_id \<circ> snd) ` set old"

text \<open>
  Where an identifier may come from: it is new, or that of a vanished entry with the same inode, or
  that of the entry itself.
\<close>

definition origin :: "found \<Rightarrow> (ustr \<times> entry_id) list \<Rightarrow> ustr \<times> fingerprint \<Rightarrow> ustr \<Rightarrow> bool" where
  "origin files old pm i \<longleftrightarrow> i \<notin> old_ids old \<or>
     (\<exists>p e. (p, e) \<in> set old \<and> en_item_id e = i \<and> (en_dev e, en_ino e) = inode_of (snd pm) \<and> (p \<notin> fst ` set files \<or> p = fst pm))"

lemma entry_id_of_wp:
  assumes fresh: "fresh_file_ids E taken" "old_ids old \<subseteq> taken"
    and later: "\<forall>j\<ge>tick w. lit ''file'' @ 45 # e_uid E j \<notin> set (map snd result)"
    and q: "\<And>i u. i \<notin> set (map snd result) \<Longrightarrow> origin files old pm i \<Longrightarrow>
      (\<And>e. map_of old (fst pm) = Some e \<Longrightarrow> (en_dev e, en_ino e) = inode_of (snd pm) \<Longrightarrow> en_item_id e \<notin> set (map snd result) \<Longrightarrow> i = en_item_id e) \<Longrightarrow>
      tick w \<le> tick u \<Longrightarrow> (\<forall>j\<ge>tick u. lit ''file'' @ 45 # e_uid E j \<noteq> i) \<Longrightarrow> Q i u"
  shows "wp (entry_id_of E root_id files old result pm) Q X w"
proof -
  let ?assigned = "map snd result"
  let ?gone = "filter (\<lambda>pe. fst pe \<notin> fst ` set files) old"
  let ?cs = "filter (\<lambda>pe. (en_dev (snd pe), en_ino (snd pe)) = inode_of (snd pm) \<and> en_item_id (snd pe) \<notin> set ?assigned) ?gone"
  let ?k = "inode_id ''file'' root_id (snd pm)"
  have not_uid: "lit ''file'' @ 45 # e_uid E j \<notin> old_ids old" "lit ''file'' @ 45 # e_uid E j \<noteq> ?k" for j
    using fresh inode_id_not_uid [of E j "''file''" root_id "snd pm"] unfolding fresh_file_ids_def by (blast, metis)
  have old_not_uid: "i \<in> old_ids old \<Longrightarrow> lit ''file'' @ 45 # e_uid E j \<noteq> i" for i j
    using not_uid(1) by blast
  have derived: "wp (if length (filter (\<lambda>f. inode_of (snd f) = inode_of (snd pm)) files) = 1 \<and> length ?cs = 1
      then ret (en_item_id (snd (hd ?cs)))
      else if ?k \<in> set ?assigned \<or> ?k \<in> (en_item_id \<circ> snd) ` set old then uid E ''file'' else ret ?k) Q X w"
    if none: "\<And>e. map_of old (fst pm) = Some e \<Longrightarrow> (en_dev e, en_ino e) = inode_of (snd pm) \<Longrightarrow> en_item_id e \<in> set ?assigned"
    unfolding wp_if wp_ret wp_uid if_split [where P = "\<lambda>x. x"]
  proof (intro conjI impI)
    assume "length (filter (\<lambda>f. inode_of (snd f) = inode_of (snd pm)) files) = 1 \<and> length ?cs = 1"
    then have "length ?cs = 1" by blast
    then have "?cs \<noteq> []" by force
    then have "hd ?cs \<in> set ?cs" by (rule hd_in_set)
    moreover obtain p e where pe: "hd ?cs = (p, e)" by (cases "hd ?cs")
    ultimately have "(p, e) \<in> set ?cs" "en_item_id (snd (hd ?cs)) = en_item_id e" by (simp_all only: snd_conv)
    then have e: "(p, e) \<in> set old" "(en_dev e, en_ino e) = inode_of (snd pm)" "p \<notin> fst ` set files" "en_item_id e \<notin> set ?assigned"
      and i: "en_item_id (snd (hd ?cs)) = en_item_id e"
      by auto
    have "origin files old pm (en_item_id e)" using e unfolding origin_def by blast
    moreover have "en_item_id e \<in> old_ids old" using e(1) by (force simp: old_ids_def)
    ultimately show "Q (en_item_id (snd (hd ?cs))) w"
      unfolding i using e(4) none old_not_uid by (intro q) blast+
  next
    show "Q (lit ''file'' @ 45 # e_uid E (tick w)) (w\<lparr>tick := Suc (tick w)\<rparr>)"
    proof (rule q)
      show "lit ''file'' @ 45 # e_uid E (tick w) \<notin> set ?assigned" using later by blast
      show "origin files old pm (lit ''file'' @ 45 # e_uid E (tick w))" using not_uid(1) unfolding origin_def by blast
      show "\<forall>j\<ge>tick (w\<lparr>tick := Suc (tick w)\<rparr>). lit ''file'' @ 45 # e_uid E j \<noteq> lit ''file'' @ 45 # e_uid E (tick w)"
        using fresh(1) by (auto simp: fresh_file_ids_def dest: injD)
    qed (use none in auto)
  next
    assume "\<not> (?k \<in> set ?assigned \<or> ?k \<in> (en_item_id \<circ> snd) ` set old)"
    then have new: "?k \<notin> set ?assigned" "?k \<notin> old_ids old" unfolding old_ids_def by blast+
    show "Q ?k w"
    proof (rule q)
      show "origin files old pm ?k" using new(2) unfolding origin_def by blast
      show "\<forall>j\<ge>tick w. lit ''file'' @ 45 # e_uid E j \<noteq> ?k" using not_uid(2) by blast
    qed (use new(1) none in auto)
  qed
  show ?thesis
  proof (cases "map_of old (fst pm)")
    case None
    then show ?thesis using derived by (simp only: entry_id_of_def Let_def option.case option.simps simp_thms)
  next
    case (Some e)
    then have e: "(fst pm, e) \<in> set old" by (rule map_of_SomeD)
    show ?thesis
    proof (cases "(en_dev e, en_ino e) = inode_of (snd pm) \<and> en_item_id e \<notin> set ?assigned")
      case True
      have "origin files old pm (en_item_id e)" using e True unfolding origin_def by blast
      moreover have "en_item_id e \<in> old_ids old" using e by (force simp: old_ids_def)
      ultimately have "Q (en_item_id e) w"
        using True Some old_not_uid by (intro q) auto
      then show ?thesis unfolding entry_id_of_def Let_def Some option.case if_P [OF True] wp_ret .
    next
      case False
      then show ?thesis using derived Some unfolding entry_id_of_def Let_def Some option.case if_not_P [OF False] by blast
    qed
  qed
qed


text \<open>What the code relies on: a listing without repeated paths, a document without repeated identifiers.\<close>

definition stable_start :: "env \<Rightarrow> found \<Rightarrow> index_doc option \<Rightarrow> search_item list \<Rightarrow> bool" where
  "stable_start E files previous staged \<longleftrightarrow>
     distinct (map fst files) \<and> length staged \<le> length files \<and> distinct (map it_item_id staged) \<and>
     distinct (map fst (old_entries previous)) \<and> distinct (map (en_item_id \<circ> snd) (old_entries previous)) \<and>
     fresh_file_ids E (old_ids (old_entries previous) \<union> it_item_id ` set staged)"

lemma same_old_entry:
  assumes "distinct (map (en_item_id \<circ> snd) old)" and "(p, e) \<in> set old" and "(p', e') \<in> set old" and "en_item_id e = en_item_id e'"
  shows "p = p' \<and> e = e'"
proof -
  have "inj_on (en_item_id \<circ> snd) (set old)" using assms(1) by (simp add: distinct_map)
  then show ?thesis using assms(2-4) by (auto dest!: inj_onD [of _ _ "(p, e)" "(p', e')"])
qed

lemma entry_ids_wp:
  assumes s: "stable_start E files previous staged"
  shows "wp (entry_ids E root_id files previous staged)
    (\<lambda>ids _. map fst ids = map fst files \<and> distinct (map snd ids) \<and> take (length staged) (map snd ids) = map it_item_id staged \<and>
       (staged = [] \<longrightarrow> (\<forall>(path, meta)\<in>set files. \<forall>e. (path, e) \<in> set (old_entries previous) \<longrightarrow>
          (en_dev e, en_ino e) = inode_of meta \<longrightarrow> (path, en_item_id e) \<in> set ids))) X w"
proof -
  let ?old = "old_entries previous"
  let ?kept = "zip (map fst files) (map it_item_id staged)"
  let ?rest = "drop (length staged) files"
  let ?taken = "old_ids ?old \<union> it_item_id ` set staged"
  have paths: "distinct (map fst files)" and len: "length staged \<le> length files" and staged: "distinct (map it_item_id staged)"
    and old: "distinct (map fst ?old)" "distinct (map (en_item_id \<circ> snd) ?old)" and fresh: "fresh_file_ids E ?taken"
    using s by (simp_all add: stable_start_def)
  have kept: "map fst ?kept = take (length staged) (map fst files)" "map snd ?kept = map it_item_id staged"
    using len by (simp_all add: map_fst_zip_take map_snd_zip_take min_def)
  have dropped: "drop (length (remdups (map fst ?kept))) files = ?rest"
    using paths len by (simp add: kept(1) distinct_remdups_id)
  let ?I = "\<lambda>ys ids (u :: world). map fst ids = map fst (take (length staged + length ys) files) \<and> distinct (map snd ids) \<and>
     take (length staged) (map snd ids) = map it_item_id staged \<and> length ids = length staged + length ys \<and>
     (\<forall>j\<ge>tick u. lit ''file'' @ 45 # e_uid E j \<notin> set (map snd ids)) \<and>
     (staged = [] \<longrightarrow> (\<forall>i<length ys. origin files ?old (files ! i) (snd (ids ! i)) \<and>
        (\<forall>e. (fst (files ! i), e) \<in> set ?old \<longrightarrow> (en_dev e, en_ino e) = inode_of (snd (files ! i)) \<longrightarrow> snd (ids ! i) = en_item_id e)))"
  have "wp (fold_act (\<lambda>pm result. bnd (entry_id_of E root_id files ?old result pm) (\<lambda>i. ret (result @ [(fst pm, i)]))) ?rest ?kept) (\<lambda>ids u. ?I ?rest ids u) X w"
  proof (rule wp_fold_act [where I = ?I])
    show "?I [] ?kept w"
      using kept staged fresh len by (auto simp: take_map fresh_file_ids_def min_def)
  next
    fix ys pm zs ids and u :: world
    assume split: "?rest = ys @ pm # zs" and I: "?I ys ids u"
    let ?m = "length staged + length ys"
    have m: "?m < length files" using arg_cong [OF split, of length] by simp
    have pm: "files ! ?m = pm" using nth_drop [OF len, of "length ys"] split by simp
    show "wp (bnd (entry_id_of E root_id files ?old ids pm) (\<lambda>i. ret (ids @ [(fst pm, i)]))) (?I (ys @ [pm])) X u"
      unfolding wp_bnd wp_ret
    proof (rule entry_id_of_wp [OF fresh])
      show "old_ids ?old \<subseteq> ?taken" by simp
      show "\<forall>j\<ge>tick u. lit ''file'' @ 45 # e_uid E j \<notin> set (map snd ids)" using I by blast
    next
      fix i and v :: world
      assume new: "i \<notin> set (map snd ids)" and o: "origin files ?old pm i"
        and exact: "\<And>e. map_of ?old (fst pm) = Some e \<Longrightarrow> (en_dev e, en_ino e) = inode_of (snd pm) \<Longrightarrow> en_item_id e \<notin> set (map snd ids) \<Longrightarrow> i = en_item_id e"
        and t: "tick u \<le> tick v" "\<forall>j\<ge>tick v. lit ''file'' @ 45 # e_uid E j \<noteq> i"
      have stable: "snd ((ids @ [(fst pm, i)]) ! k) = en_item_id e"
        if "staged = []" "k < length (ys @ [pm])" "(fst (files ! k), e) \<in> set ?old" "(en_dev e, en_ino e) = inode_of (snd (files ! k))" for k e
      proof (cases "k < length ys")
        case True
        then show ?thesis using I that by (simp add: nth_append)
      next
        case False
        then have "k = length ys" using that(2) by simp
        moreover from this have "files ! k = pm" using pm that(1) by simp
        ultimately have k: "k = length ys" "files ! k = pm" by blast+
        have at: "(fst pm, e) \<in> set ?old" using that(3) k(2) by simp
        have apart: "en_item_id e \<noteq> snd (ids ! j)" if j: "j < length ys" for j
        proof
          assume same: "en_item_id e = snd (ids ! j)"
          have "origin files ?old (files ! j) (snd (ids ! j))" using I j \<open>staged = []\<close> by blast
          moreover have "snd (ids ! j) \<in> old_ids ?old" unfolding same [symmetric] old_ids_def using at by force
          ultimately obtain p e' where "(p, e') \<in> set ?old" "en_item_id e' = snd (ids ! j)" "p \<notin> fst ` set files \<or> p = fst (files ! j)"
            by (auto simp: origin_def)
          moreover from this same at have "p = fst pm" using same_old_entry [OF old(2) at, of p e'] by simp
          moreover have "fst pm \<in> fst ` set files" using m \<open>staged = []\<close> pm nth_mem by fastforce
          ultimately have "map fst files ! j = map fst files ! length ys" using m j k that(1) \<open>staged = []\<close> by simp
          then show False using paths m j \<open>staged = []\<close> by (simp only: nth_eq_iff_index_eq length_map)
        qed
        have "length ids = length ys" using I \<open>staged = []\<close> by simp
        then have "map snd ids ! j \<noteq> en_item_id e" if "j < length (map snd ids)" for j using apart [of j] that by simp
        then have "en_item_id e \<notin> set (map snd ids)" by (metis in_set_conv_nth)
        then have "i = en_item_id e" using exact at that(4) k(2) old(1) by simp
        then show ?thesis using I \<open>staged = []\<close> k(1) by (simp add: nth_append)
      qed
      have "origin files ?old (files ! k) (snd ((ids @ [(fst pm, i)]) ! k))" if "staged = []" "k < length (ys @ [pm])" for k
        using I o pm that by (cases "k < length ys") (simp_all add: nth_append less_Suc_eq)
      moreover have "take (length staged + length (ys @ [pm])) files = take ?m files @ [pm]"
        using m pm by (simp add: take_Suc_conv_app_nth)
      ultimately show "?I (ys @ [pm]) (ids @ [(fst pm, i)]) v"
        using I new t stable by simp
    qed
  qed
  then show ?thesis
    unfolding entry_ids_def Let_def old_entries_def [symmetric] dropped
  proof (rule wp_mono)
    fix ids and u :: world
    assume I: "?I ?rest ids u"
    then have len': "length ids = length files" and fst: "map fst ids = map fst files" using len by simp_all
    have "(path, en_item_id e) \<in> set ids"
      if "staged = []" "(path, meta) \<in> set files" "(path, e) \<in> set ?old" "(en_dev e, en_ino e) = inode_of meta" for path meta e
    proof -
      obtain k where k: "k < length files" "files ! k = (path, meta)" using \<open>(path, meta) \<in> set files\<close> by (auto simp: in_set_conv_nth)
      then have "snd (ids ! k) = en_item_id e" using I that by simp
      moreover have "fst (ids ! k) = path" using k fst len' by (metis fst_conv nth_map)
      ultimately show ?thesis using k(1) len' by (metis nth_mem prod.collapse)
    qed
    then show "map fst ids = map fst files \<and> distinct (map snd ids) \<and> take (length staged) (map snd ids) = map it_item_id staged \<and>
       (staged = [] \<longrightarrow> (\<forall>(path, meta)\<in>set files. \<forall>e. (path, e) \<in> set ?old \<longrightarrow>
          (en_dev e, en_ino e) = inode_of meta \<longrightarrow> (path, en_item_id e) \<in> set ids))"
      using I fst by auto
  qed
qed


text \<open>
  C40: The identifiers of a listing without repeated paths are distinct, a resumed run keeps the ones it gave, and in a
  scan from the start an entry with the path and the inode it was published with keeps its identifier.
\<close>

theorem entry_ids_stable:
  assumes "entry_ids E root_id files previous staged w = (Inr ids, u)" and "stable_start E files previous staged"
  shows "map fst ids = map fst files \<and> distinct (map snd ids) \<and> take (length staged) (map snd ids) = map it_item_id staged \<and>
    (staged = [] \<longrightarrow> (\<forall>(path, meta)\<in>set files. \<forall>e. (path, e) \<in> set (old_entries previous) \<longrightarrow>
       (en_dev e, en_ino e) = inode_of meta \<longrightarrow> (path, en_item_id e) \<in> set ids))"
  by (rule wp_run_Inr [OF entry_ids_wp [OF assms(2)] assms(1)])

definition index_document :: "index_doc option" where
  "index_document = tbl_get (db_index (db indexed_world)) (lit ''in-root'')"

definition moved_files :: found where
  "moved_files = [(lit ''w'', index_fp\<lparr>fp_ino := 8\<rparr>), (lit ''x'', index_fp)]"

lemma index_entries: "old_entries index_document = [(lit ''x'', \<lparr>en_item_id = lit ''file-in-root-1-7'', en_dev = 1, en_ino = 7\<rparr>)]"
  by code_simp

lemma moved_start: "stable_start index_env moved_files index_document []"
  unfolding stable_start_def index_entries
  by (auto simp: moved_files_def fresh_file_ids_def old_ids_def index_env_def incoming_env_def inj_def)

theorem entry_ids_stable_witness:
  "\<exists>ids u. entry_ids index_env (lit ''in-root'') moved_files index_document [] indexed_world = (Inr ids, u) \<and>
     (lit ''x'', lit ''file-in-root-1-7'') \<in> set ids"
proof -
  have "isl (fst (entry_ids index_env (lit ''in-root'') moved_files index_document [] indexed_world)) = False" by code_simp
  then obtain ids u where run: "entry_ids index_env (lit ''in-root'') moved_files index_document [] indexed_world = (Inr ids, u)"
    by (metis isl_def prod.collapse sum.exhaust)
  have "(lit ''x'', index_fp) \<in> set moved_files" by (simp add: moved_files_def)
  moreover have "inode_of index_fp = (1, 7)" by (simp add: inode_of_def index_fp_def sample_fp_def)
  ultimately show ?thesis
    using entry_ids_stable [OF run moved_start] run unfolding index_entries by (fastforce simp del: lit_simps)
qed

end
