(* ===== verification/Indexing_Resume.thy ===== *)
theory Indexing_Resume
  imports Indexing_Ids
begin

text \<open>
  Saving and loading checkpoints are inverse: the chunk keys list the chunks in the order of their
  sequence numbers, so that the next scan resumes exactly what was committed.
\<close>

section \<open>Resuming from a checkpoint\<close>

lemma decimal_padded: "n < 10 ^ k \<Longrightarrow> 0 < k \<Longrightarrow> padded k n = replicate (k - length (decimal n)) 48 @ decimal n"
proof (induction k arbitrary: n)
  case (Suc k)
  have zero: "padded j 0 = replicate j 48" for j
    by (induction j) (simp_all add: replicate_append_same)
  show ?case
  proof (cases "n < 10")
    case True
    then show ?thesis by (simp add: decimal.simps [of n] zero)
  next
    case False
    then have "0 < k" using Suc.prems(1) by (cases k) auto
    moreover have "n div 10 < 10 ^ k" using Suc.prems(1) by (simp add: less_mult_imp_div_less mult.commute)
    ultimately show ?thesis using Suc.IH [of "n div 10"] False by (simp add: decimal.simps [of n])
  qed
qed simp

lemma eight_digits_padded: "n < 10 ^ 8 \<Longrightarrow> eight_digits n = padded 8 n"
  using decimal_padded [of n 8] by (simp add: eight_digits_def)

lemma less_append_left: "p @ a < p @ b \<longleftrightarrow> a < (b :: ustr)"
  by (induction p) auto

lemma filter_put_last:
  "tbl_ok t \<Longrightarrow> P k \<Longrightarrow> (\<And>j. j \<in> fst ` set t \<Longrightarrow> P j \<Longrightarrow> j < k) \<Longrightarrow>
   filter (\<lambda>r. P (fst r)) (tbl_put k v t) = filter (\<lambda>r. P (fst r)) t @ [(k, v)]"
proof (induction t)
  case (Cons r t)
  show ?case
  proof (cases "fst r < k")
    case True
    then show ?thesis using Cons by (simp add: tbl_ok_Cons)
  next
    case False
    then have "\<not> P (fst r)" using Cons.prems(3) [of "fst r"] by auto
    moreover have "\<not> P (fst x)" if "x \<in> set t" for x
    proof
      assume "P (fst x)"
      then have "fst x < k" using Cons.prems(3) [of "fst x"] that by auto
      moreover have "fst r < fst x" using Cons.prems(1) that by (simp add: tbl_ok_Cons)
      ultimately show False using False by simp
    qed
    ultimately show ?thesis using False Cons.prems(2) by (auto simp: filter_empty_conv)
  qed
qed simp

lemma join_chunks_snoc:
  "join_chunks i run m (cs @ [c]) (f, xs) =
   (case join_chunks i run m cs (f, xs) of
      None \<Rightarrow> None
    | Some (f', xs', n) \<Rightarrow> if chunk_ok i run n c then Some (f' @ ck_found c, xs' @ ck_items c, n + 1) else None)"
  by (induction cs arbitrary: m f xs) auto

definition run_chunks :: "env \<Rightarrow> ustr \<Rightarrow> ustr \<Rightarrow> chunk table \<Rightarrow> chunk list" where
  "run_chunks E root_id run_id t = map snd (filter (\<lambda>r. starts_with (fst r) (chunk_prefix E root_id (Some run_id))) t)"

text \<open>The chunks of a run hold the first files and items of a scan, and their keys are its sequence numbers.\<close>

definition saved_run :: "env \<Rightarrow> root \<Rightarrow> ustr \<Rightarrow> found \<Rightarrow> search_item list \<Rightarrow> nat \<Rightarrow> nat \<Rightarrow> db \<Rightarrow> bool" where
  "saved_run E r run_id files items count n d \<longleftrightarrow>
     tbl_ok (db_chunk d) \<and> n \<le> 10 ^ 8 \<and> count \<le> length files \<and> count \<le> length items \<and>
     join_chunks (rt_root_id r) run_id 0 (run_chunks E (rt_root_id r) run_id (db_chunk d)) ([], []) = Some (take count files, take count items, n) \<and>
     (\<forall>k\<in>fst ` set (db_chunk d). starts_with k (chunk_prefix E (rt_root_id r) (Some run_id)) \<longrightarrow>
        (\<exists>j<n. k = chunk_prefix E (rt_root_id r) (Some run_id) @ eight_digits j))"

lemma saved_run_load:
  "saved_run E r run_id files items count n d \<Longrightarrow>
   load_chunks E (rt_root_id r) run_id (Some count) d = Some (take count files, take count items, n)"
  by (simp add: saved_run_def load_chunks_def run_chunks_def min_def)

definition entry_matches :: "ustr \<Rightarrow> ustr \<times> fingerprint \<Rightarrow> search_item \<Rightarrow> bool" where
  "entry_matches root_id pm item \<longleftrightarrow>
     it_item_id item \<noteq> [] \<and> loc_root_id (it_location item) = root_id \<and> loc_relative_path (it_location item) = fst pm"

lemma saved_run_put:
  assumes s: "saved_run E r run_id files items prev n d" and n: "n < 10 ^ 8"
    and count: "prev < count" "count \<le> length files" "count \<le> length items" "count - prev \<le> checkpoint_interval"
    and m: "list_all2 (entry_matches (rt_root_id r)) (take count files) (take count items)"
  shows "saved_run E r run_id files items count (n + 1) (db_chunk_update (tbl_put (chunk_prefix E (rt_root_id r) (Some run_id) @ eight_digits n)
     \<lparr>ck_root_id = rt_root_id r, ck_run_id = run_id, ck_sequence = n, ck_found = take (count - prev) (drop prev files),
      ck_items = take (count - prev) (drop prev items)\<rparr>) d)"
proof -
  let ?p = "chunk_prefix E (rt_root_id r) (Some run_id)"
  let ?c = "\<lparr>ck_root_id = rt_root_id r, ck_run_id = run_id, ck_sequence = n, ck_found = take (count - prev) (drop prev files),
      ck_items = take (count - prev) (drop prev items)\<rparr>"
  have keys: "\<exists>j<n. k = ?p @ eight_digits j" if "k \<in> fst ` set (db_chunk d)" "starts_with k ?p" for k
    using s that unfolding saved_run_def by blast
  have last: "k < ?p @ eight_digits n" if "k \<in> fst ` set (db_chunk d)" "starts_with k ?p" for k
    using keys [OF that] n padded_less [of _ 8 n] by (auto simp: eight_digits_padded less_append_left)
  have chunks: "run_chunks E (rt_root_id r) run_id (tbl_put (?p @ eight_digits n) ?c (db_chunk d)) =
      run_chunks E (rt_root_id r) run_id (db_chunk d) @ [?c]"
    unfolding run_chunks_def
    by (subst filter_put_last [where P = "\<lambda>k. starts_with k ?p"]) (use s last in \<open>auto simp: saved_run_def\<close>)
  have "list_all2 (entry_matches (rt_root_id r)) (take (count - prev) (drop prev files)) (take (count - prev) (drop prev items))"
    using list_all2_dropI [OF m, of prev] by (simp add: drop_take)
  then have ok: "chunk_ok (rt_root_id r) run_id n ?c"
    using count by (auto simp: chunk_ok_def entry_matches_def [abs_def])
  have split: "take count xs = take prev xs @ take (count - prev) (drop prev xs)" for xs :: "'a list"
    using count(1) by (metis less_imp_le_nat le_add_diff_inverse take_add)
  have "join_chunks (rt_root_id r) run_id 0 (run_chunks E (rt_root_id r) run_id (db_chunk d) @ [?c]) ([], []) =
      Some (take count files, take count items, n + 1)"
    using s ok unfolding saved_run_def join_chunks_snoc by (simp add: split [of files] split [of items])
  moreover have "\<exists>j<n + 1. k = ?p @ eight_digits j"
    if "k \<in> fst ` set (tbl_put (?p @ eight_digits n) ?c (db_chunk d))" "starts_with k ?p" for k
  proof -
    have "k = ?p @ eight_digits n \<or> k \<in> fst ` set (db_chunk d)"
      using that(1) tbl_put_subset [of "?p @ eight_digits n" ?c "db_chunk d"] by fastforce
    then show ?thesis
    proof
      assume "k \<in> fst ` set (db_chunk d)"
      then obtain j where "j < n" "k = ?p @ eight_digits j" using keys \<open>starts_with k ?p\<close> by blast
      then show ?thesis by (intro exI [of _ j]) simp
    qed auto
  qed
  ultimately show ?thesis
    using s n count by (simp add: saved_run_def chunks tbl_ok_put)
qed


lemma saved_run_chunks: "db_chunk d' = db_chunk d \<Longrightarrow> saved_run E r run_id files items count n d' = saved_run E r run_id files items count n d"
  by (simp add: saved_run_def)

lemma checkpoint_run:
  assumes "checkpoint E r cd run_id files items prev n count started w = (Inr (), u)"
  shows "\<exists>remaining. db_chunk (db u) = db_chunk (db_chunk_update (tbl_put (chunk_prefix E (rt_root_id r) (Some run_id) @ eight_digits n)
     \<lparr>ck_root_id = rt_root_id r, ck_run_id = run_id, ck_sequence = n, ck_found = take (count - prev) (drop prev files),
      ck_items = take (count - prev) (drop prev items)\<rparr>) (db w)) \<and>
    tbl_get (db_progress (db u)) (rt_root_id r) =
      Some (scanning_progress (rt_root_id r) cd run_id count (Some (fst (files ! (count - 1)))) remaining (n + 1))"
proof -
  have "wp (checkpoint E r cd run_id files items prev n count started) (\<lambda>_ u. \<exists>remaining.
      db_chunk (db u) = db_chunk (db_chunk_update (tbl_put (chunk_prefix E (rt_root_id r) (Some run_id) @ eight_digits n)
       \<lparr>ck_root_id = rt_root_id r, ck_run_id = run_id, ck_sequence = n, ck_found = take (count - prev) (drop prev files),
        ck_items = take (count - prev) (drop prev items)\<rparr>) (db w)) \<and>
      tbl_get (db_progress (db u)) (rt_root_id r) =
        Some (scanning_progress (rt_root_id r) cd run_id count (Some (fst (files ! (count - 1)))) remaining (n + 1))) (\<lambda>_ _. True) w"
    unfolding checkpoint_def by (intro vc) (auto simp: wp_transaction wp_rules split: option.split)
  from wp_run_Inr [OF this assms] show ?thesis .
qed

lemma resume_run_saved:
  assumes "saved_run E r run_id files items count n (db v)"
    and "ip_status p \<in> {SCAN_RUNNING, SCAN_FAILED}" and "ip_config_digest p = Some cd"
    and "ip_run_id p = Some run_id" and "ip_count p = Some count" and "ip_chunk_count p = Some n"
    and "Q (take count files, take count items, run_id, n) v"
  shows "wp (resume_run E (rt_root_id r) cd (Some p)) Q X v"
  unfolding resume_run_def option.case assms(3-6) wp_if wp_bnd wp_asks saved_run_load [OF assms(1)]
  using assms(2,7) by (simp add: wp_ret)

text \<open>
  C19: A scan loses none of its checkpoints: after a checkpoint was committed, whether the process then dies or reports
  the scan as stopped, starting the next scan of the root under the same configuration resumes the same run with
  exactly the first files and items that were checkpointed, and the run can be continued from there.
\<close>

theorem checkpoint_resumes:
  assumes "checkpoint E r cd run_id files items prev n count started w = (Inr (), u)"
    and "saved_run E r run_id files items prev n (db w)" and "n < 10 ^ 8"
    and "prev < count" and "count \<le> length files" and "count \<le> length items" and "count - prev \<le> checkpoint_interval"
    and "list_all2 (entry_matches (rt_root_id r)) (take count files) (take count items)"
    and "db_chunk (db v) = db_chunk (db u)" and "status \<in> {SCAN_RUNNING, SCAN_FAILED}"
    and "tbl_get (db_progress (db v)) (rt_root_id r) =
      map_option (\<lambda>p. p\<lparr>ip_status := status, ip_remaining := left\<rparr>) (tbl_get (db_progress (db u)) (rt_root_id r))"
    and "start_search_progress E r cd v = (Inr run, z)"
  shows "run = (take count files, take count items, run_id, n + 1) \<and> saved_run E r run_id files items count (n + 1) (db z)"
proof -
  obtain remaining where u: "db_chunk (db u) = db_chunk (db_chunk_update (tbl_put (chunk_prefix E (rt_root_id r) (Some run_id) @ eight_digits n)
       \<lparr>ck_root_id = rt_root_id r, ck_run_id = run_id, ck_sequence = n, ck_found = take (count - prev) (drop prev files),
        ck_items = take (count - prev) (drop prev items)\<rparr>) (db w))"
    and p: "tbl_get (db_progress (db u)) (rt_root_id r) =
      Some (scanning_progress (rt_root_id r) cd run_id count (Some (fst (files ! (count - 1)))) remaining (n + 1))"
    using checkpoint_run [OF assms(1)] by blast
  have saved: "saved_run E r run_id files items count (n + 1) (db v)"
    using saved_run_put [OF assms(2-8)] saved_run_chunks [OF trans [OF assms(9) u]] by simp
  let ?run = "(take count files, take count items, run_id, n + 1)"
  let ?p = "(scanning_progress (rt_root_id r) cd run_id count (Some (fst (files ! (count - 1)))) remaining (n + 1))\<lparr>ip_status := status, ip_remaining := left\<rparr>"
  have row: "tbl_get (db_progress (db v)) (rt_root_id r) = Some ?p" using assms(11) p by simp
  have "wp (start_search_progress E r cd) (\<lambda>run z. run = ?run \<and> db_chunk (db z) = db_chunk (db v)) (\<lambda>_ _. True) v"
    unfolding start_search_progress_def wp_transaction wp_bnd wp_get_row row
    by (rule resume_run_saved [OF saved]) (use assms(10) in \<open>auto simp: scanning_progress_def wp_rules split: option.split\<close>)
  from wp_run_Inr [OF this assms(12)] have run: "run = ?run" and same: "db_chunk (db z) = db_chunk (db v)" by simp_all
  show ?thesis using saved unfolding run saved_run_chunks [OF same] by simp
qed


section \<open>A run of one checkpoint\<close>

definition resumed_files :: found where
  "resumed_files = [(lit ''x'', index_fp), (lit ''y'', index_fp)]"

definition resumed_items :: "search_item list" where
  "resumed_items =
     [\<lparr>it_item_id = lit ''f1'', it_location = \<lparr>loc_root_id = lit ''in-root'', loc_relative_path = lit ''x'', loc_display_path = lit ''in-root/x''\<rparr>,
       it_filename = lit ''x'', it_markers = [], it_extension = [], it_size_bytes = 10, it_modified_at = [], it_issue = None\<rparr>]"

definition resumed_world :: world where
  "resumed_world = index_world\<lparr>db := empty_db\<lparr>db_progress := [(lit ''in-root'', scanning_progress (lit ''in-root'') [49] (lit ''run'') 0 None None 0)]\<rparr>\<rparr>"

definition resumed_checkpoint :: world where
  "resumed_checkpoint = snd (checkpoint index_env index_root [49] (lit ''run'') resumed_files resumed_items 0 0 1 0 resumed_world)"

definition resumed_start :: world where
  "resumed_start = snd (start_search_progress index_env index_root [49] resumed_checkpoint)"

theorem checkpoint_resumes_witness:
  "saved_run index_env index_root (lit ''run'') resumed_files resumed_items 1 1 (db resumed_start)"
proof -
  have c: "checkpoint index_env index_root [49] (lit ''run'') resumed_files resumed_items 0 0 1 0 resumed_world = (Inr (), resumed_checkpoint)"
    unfolding resumed_checkpoint_def by (rule prod_eqI, code_simp, simp)
  have "isl (fst (start_search_progress index_env index_root [49] resumed_checkpoint)) = False" by code_simp
  then obtain run where st: "start_search_progress index_env index_root [49] resumed_checkpoint = (Inr run, resumed_start)"
    unfolding resumed_start_def by (metis isl_def prod.collapse sum.exhaust)
  have start: "saved_run index_env index_root (lit ''run'') resumed_files resumed_items 0 0 (db resumed_world)"
    by (simp add: saved_run_def resumed_world_def empty_db_def run_chunks_def tbl_ok_def)
  have m: "list_all2 (entry_matches (rt_root_id index_root)) (take 1 resumed_files) (take 1 resumed_items)"
    by (simp add: entry_matches_def resumed_files_def resumed_items_def index_root_def sample_root_def)
  have row: "map_option ip_status (tbl_get (db_progress (db resumed_checkpoint)) (rt_root_id index_root)) = Some SCAN_RUNNING"
    by code_simp
  obtain p where p: "tbl_get (db_progress (db resumed_checkpoint)) (rt_root_id index_root) = Some p" "ip_status p = SCAN_RUNNING"
    using row by auto
  show ?thesis
    using checkpoint_resumes [OF c start _ _ _ _ _ m refl _ _ st, of SCAN_RUNNING "ip_remaining p"] p
    by (simp add: resumed_files_def resumed_items_def checkpoint_interval_def)
qed

end
