(* ===== verification/Sql_Text.thy ===== *)
theory Sql_Text
  imports Search_Items Indexing_Resume
begin

text \<open>
  The encodings of \<open>sqlite_search.py\<close>: text as UTF-8, tokens as words of hexadecimal digits, and
  natural keys as blobs. SQLite compares blobs and binary texts byte by byte; the contract
  \<open>order_code\<close> is what makes an encoding of list elements preserve their order and prefixes.
\<close>

section \<open>Codes that preserve the order\<close>

locale order_code =
  fixes code :: "'a::linorder \<Rightarrow> nat list" and valid :: "'a \<Rightarrow> bool"
  assumes before: "valid a \<Longrightarrow> valid b \<Longrightarrow> a < b \<Longrightarrow> code a @ x < code b @ y"
    and nonempty: "valid a \<Longrightarrow> code a \<noteq> []"
begin

lemma code_cancel:
  assumes "valid a" "valid b" and "code a @ x = code b @ y"
  shows "a = b \<and> x = y"
proof -
  have "\<not> a < b" "\<not> b < a" using assms before [of a b x y] before [of b a y x] by auto
  then show ?thesis using assms(3) by simp
qed

lemma code_less:
  "\<forall>a\<in>set s. valid a \<Longrightarrow> \<forall>a\<in>set t. valid a \<Longrightarrow> concat (map code s) < concat (map code t) \<longleftrightarrow> s < t"
proof (induction s arbitrary: t)
  case Nil
  have "[] < u \<longleftrightarrow> u \<noteq> []" for u :: "nat list" by (cases u) auto
  with Nil show ?case using nonempty by (cases t) auto
next
  case (Cons a s)
  show ?case
  proof (cases t)
    case (Cons b t')
    consider "a < b" | "b < a" | "a = b" by (meson less_linear)
    then show ?thesis
    proof cases
      case 1
      then show ?thesis using before [of a b] Cons Cons.prems by auto
    next
      case 2
      then have "concat (map code t) < concat (map code (a # s))" using before [of b a] Cons Cons.prems by auto
      then have "\<not> concat (map code (a # s)) < concat (map code t)" by (rule less_not_sym)
      then show ?thesis using 2 Cons by auto
    next
      case 3
      then show ?thesis using Cons.IH [of t'] Cons.prems Cons less_append_left by simp
    qed
  qed simp
qed

lemma code_inject:
  assumes "\<forall>a\<in>set s. valid a" "\<forall>a\<in>set t. valid a"
  shows "concat (map code s) = concat (map code t) \<longleftrightarrow> s = t"
  using code_less [OF assms] code_less [OF assms(2,1)] by (metis less_linear order_less_irrefl)

lemma code_prefix:
  "\<forall>a\<in>set s. valid a \<Longrightarrow> \<forall>a\<in>set t. valid a \<Longrightarrow> starts_with (concat (map code t)) (concat (map code s)) \<longleftrightarrow> starts_with t s"
proof (induction s arbitrary: t)
  case (Cons a s)
  show ?case
  proof (cases t)
    case Nil
    then show ?thesis using nonempty [of a] Cons.prems by (simp add: starts_with_def)
  next
    case (Cons b t')
    have "starts_with (concat (map code t)) (concat (map code (a # s))) \<longleftrightarrow>
        (\<exists>x. code b @ concat (map code t') = code a @ concat (map code s) @ x)"
      using Cons by (simp add: starts_with_iff)
    also have "\<dots> \<longleftrightarrow> a = b \<and> (\<exists>x. concat (map code t') = concat (map code s) @ x)"
      using code_cancel [of b a] Cons Cons.prems by auto
    also have "\<dots> \<longleftrightarrow> starts_with t (a # s)"
      using Cons.IH [of t'] Cons Cons.prems by (auto simp: starts_with_iff)
    finally show ?thesis .
  qed
qed (simp add: starts_with_def)

end

text \<open>With a terminator below every code, a whole list becomes one element of a larger code.\<close>

locale terminated_code = order_code +
  fixes stop :: "nat list"
  assumes stop_before: "valid a \<Longrightarrow> stop @ x < code a @ y"
begin

lemma closed_less:
  "\<forall>a\<in>set s. valid a \<Longrightarrow> \<forall>a\<in>set t. valid a \<Longrightarrow> s < t \<Longrightarrow>
   concat (map code s) @ stop @ x < concat (map code t) @ stop @ y"
proof (induction s arbitrary: t)
  case Nil
  then show ?case using stop_before by (cases t) auto
next
  case (Cons a s)
  then obtain b t' where t: "t = b # t'" by (cases t) auto
  show ?case
  proof (cases "a = b")
    case True
    then show ?thesis using Cons t less_append_left by simp
  next
    case False
    then show ?thesis using before [of a b] Cons.prems t by simp
  qed
qed

end

section \<open>UTF-8\<close>

text \<open>\<open>str.encode\<close>, for the code points of a text without surrogates.\<close>

definition utf8_char :: "nat \<Rightarrow> nat list" where
  "utf8_char c =
     (if c < 128 then [c]
      else if c < 2048 then [192 + c div 64, 128 + c mod 64]
      else if c < 65536 then [224 + c div 4096, 128 + c div 64 mod 64, 128 + c mod 64]
      else [240 + c div 262144, 128 + c div 4096 mod 64, 128 + c div 64 mod 64, 128 + c mod 64])"

definition utf8 :: "ustr \<Rightarrow> nat list" where
  "utf8 s = concat (map utf8_char s)"

definition code_point :: "nat \<Rightarrow> bool" where
  "code_point c \<longleftrightarrow> c < 1114112 \<and> \<not> (55296 \<le> c \<and> c \<le> 57343)"

lemma quotient_step:
  fixes a b k :: nat
  assumes "0 < k" and "a < b"
  shows "a div k < b div k \<or> a div k = b div k \<and> a mod k < b mod k"
  using quotient_less [OF assms(1), of a b] assms(2) by simp

lemma utf8_char_cases:
  "c < 128 \<Longrightarrow> utf8_char c = [c]"
  "128 \<le> c \<Longrightarrow> c < 2048 \<Longrightarrow> utf8_char c = [192 + c div 64, 128 + c mod 64]"
  "2048 \<le> c \<Longrightarrow> c < 65536 \<Longrightarrow> utf8_char c = [224 + c div 64 div 64, 128 + c div 64 mod 64, 128 + c mod 64]"
  "65536 \<le> c \<Longrightarrow> utf8_char c = [240 + c div 64 div 64 div 64, 128 + c div 64 div 64 mod 64, 128 + c div 64 mod 64, 128 + c mod 64]"
  by (simp_all add: utf8_char_def div_mult2_eq [symmetric])

lemma utf8_lead: "c < 2048 \<Longrightarrow> c div 64 < 32" "c < 65536 \<Longrightarrow> c div 64 div 64 < 16" for c :: nat
  by (simp_all add: div_mult2_eq [symmetric] less_mult_imp_div_less)

lemma lex_bytes:
  fixes a1 a2 a3 a4 b1 b2 b3 b4 i j :: nat
  shows "a1 < b1 \<or> a1 = b1 \<and> a2 < b2 \<Longrightarrow> [i + a1, j + a2] @ x < [i + b1, j + b2] @ y"
    and "a1 < b1 \<or> a1 = b1 \<and> (a2 < b2 \<or> a2 = b2 \<and> a3 < b3) \<Longrightarrow> [i + a1, j + a2, j + a3] @ x < [i + b1, j + b2, j + b3] @ y"
    and "a1 < b1 \<or> a1 = b1 \<and> (a2 < b2 \<or> a2 = b2 \<and> (a3 < b3 \<or> a3 = b3 \<and> a4 < b4)) \<Longrightarrow>
      [i + a1, j + a2, j + a3, j + a4] @ x < [i + b1, j + b2, j + b3, j + b4] @ y"
  by auto

lemma utf8_char_before:
  assumes "a < b"
  shows "utf8_char a @ x < utf8_char b @ y"
proof -
  have q: "m div 64 < n div 64 \<or> m div 64 = n div 64 \<and> m mod 64 < n mod 64" if "m < n" for m n :: nat
    using quotient_step [of 64 m n] that by simp
  consider "a < 128" | "128 \<le> a" "a < 2048" | "2048 \<le> a" "a < 65536" | "65536 \<le> a" by linarith
  then show ?thesis
  proof cases
    case 1
    consider "b < 128" | "128 \<le> b" "b < 2048" | "2048 \<le> b" "b < 65536" | "65536 \<le> b" by linarith
    then show ?thesis using 1 assms by cases (simp_all add: utf8_char_cases)
  next
    case 2
    consider "b < 2048" | "2048 \<le> b" "b < 65536" | "65536 \<le> b" by linarith
    then show ?thesis
    proof cases
      case 1
      moreover have "128 \<le> b" using 2 assms by simp
      ultimately show ?thesis using 2 q [OF assms] by (simp only: utf8_char_cases) (rule lex_bytes(1))
    qed (use 2 utf8_lead(1) [of a] in \<open>simp_all add: utf8_char_cases\<close>)
  next
    case 3
    consider "b < 65536" | "65536 \<le> b" by linarith
    then show ?thesis
    proof cases
      case 1
      have "a div 64 div 64 < b div 64 div 64 \<or> a div 64 div 64 = b div 64 div 64 \<and>
          (a div 64 mod 64 < b div 64 mod 64 \<or> a div 64 mod 64 = b div 64 mod 64 \<and> a mod 64 < b mod 64)"
        using q [OF assms] q [of "a div 64" "b div 64"] by metis
      moreover have "2048 \<le> b" using 3 assms by simp
      ultimately show ?thesis using 1 3 by (simp only: utf8_char_cases) (rule lex_bytes(2))
    qed (use 3 utf8_lead(2) [of a] in \<open>simp add: utf8_char_cases\<close>)
  next
    case 4
    have "a div 64 div 64 div 64 < b div 64 div 64 div 64 \<or> a div 64 div 64 div 64 = b div 64 div 64 div 64 \<and>
        (a div 64 div 64 mod 64 < b div 64 div 64 mod 64 \<or> a div 64 div 64 mod 64 = b div 64 div 64 mod 64 \<and>
        (a div 64 mod 64 < b div 64 mod 64 \<or> a div 64 mod 64 = b div 64 mod 64 \<and> a mod 64 < b mod 64))"
      using q [OF assms] q [of "a div 64" "b div 64"] q [of "a div 64 div 64" "b div 64 div 64"] by metis
    moreover have "65536 \<le> b" using 4 assms by simp
    ultimately show ?thesis using 4 by (simp only: utf8_char_cases) (rule lex_bytes(3))
  qed
qed

interpretation utf8: order_code utf8_char "\<lambda>c. True"
proof
  show "utf8_char a @ x < utf8_char b @ y" if "a < b" for a b x y using that by (rule utf8_char_before)
  show "utf8_char a \<noteq> []" for a by (simp add: utf8_char_def)
qed

lemma utf8_less: "utf8 s < utf8 t \<longleftrightarrow> s < t"
  unfolding utf8_def by (rule utf8.code_less) simp_all

lemma utf8_prefix: "starts_with (utf8 t) (utf8 s) \<longleftrightarrow> starts_with t s"
  unfolding utf8_def by (rule utf8.code_prefix) simp_all


section \<open>Tokens as words of hexadecimal digits\<close>

definition hex_digit :: "nat \<Rightarrow> nat" where
  "hex_digit n = (if n < 10 then 48 + n else 87 + n)"

definition hex_byte :: "nat \<Rightarrow> nat list" where
  "hex_byte b = [hex_digit (b div 16), hex_digit (b mod 16)]"

text \<open>\<open>_encoded_token\<close>, \<open>_encoded_stream\<close>\<close>

definition encoded_token :: "ustr \<Rightarrow> ustr" where
  "encoded_token token = 120 # concat (map hex_byte (utf8 token))"

definition encoded_stream :: "ustr list \<Rightarrow> ustr" where
  "encoded_stream ts = join_with 32 (map encoded_token ts)"

definition text_ok :: "ustr \<Rightarrow> bool" where
  "text_ok s \<longleftrightarrow> (\<forall>c\<in>set s. code_point c)"

lemma hex_digit_less: "m < n \<Longrightarrow> hex_digit m < hex_digit n"
  by (simp add: hex_digit_def)

interpretation hex: order_code hex_byte "\<lambda>b. b < 256"
proof
  show "hex_byte a @ x < hex_byte b @ y" if "a < b" for a b x y
    using quotient_step [of 16 a b] that hex_digit_less by (auto simp: hex_byte_def)
  show "hex_byte a \<noteq> []" for a by (simp add: hex_byte_def)
qed

lemma utf8_bytes: "text_ok s \<Longrightarrow> b \<in> set (utf8 s) \<Longrightarrow> b < 245"
proof -
  have "b < 245" if "c < 1114112" "b \<in> set (utf8_char c)" for c
  proof -
    have "c div 262144 < 5" using that(1) by (simp add: less_mult_imp_div_less)
    moreover have "c div 64 < 32" if "c < 2048" using that by (simp add: less_mult_imp_div_less)
    moreover have "c div 4096 < 16" if "c < 65536" using that by (simp add: less_mult_imp_div_less)
    moreover have "n mod 64 < 64" for n :: nat by simp
    ultimately show ?thesis using that(2) unfolding utf8_char_def
      by (auto split: if_splits)
  qed
  then show "text_ok s \<Longrightarrow> b \<in> set (utf8 s) \<Longrightarrow> b < 245"
    by (auto simp: text_ok_def code_point_def utf8_def)
qed

lemma utf8_byte: "text_ok s \<Longrightarrow> \<forall>b\<in>set (utf8 s). b < 256"
  using utf8_bytes by fastforce

lemma encoded_token_prefix:
  "text_ok s \<Longrightarrow> text_ok t \<Longrightarrow> starts_with (encoded_token t) (encoded_token s) \<longleftrightarrow> starts_with t s"
  using hex.code_prefix [of "utf8 s" "utf8 t"] utf8_byte utf8_prefix
  by (simp add: encoded_token_def starts_with_iff)

lemma encoded_token_inject: "text_ok s \<Longrightarrow> text_ok t \<Longrightarrow> encoded_token s = encoded_token t \<longleftrightarrow> s = t"
  using hex.code_inject [of "utf8 s" "utf8 t"] utf8_byte utf8.code_inject [of s t]
  by (simp add: encoded_token_def utf8_def)

section \<open>Prefix ranges\<close>

text \<open>\<open>_bytes_successor\<close>\<close>

definition bytes_successor :: "nat list \<Rightarrow> nat list" where
  "bytes_successor p =
     (case dropWhile (\<lambda>b. b = 255) (rev p) of [] \<Rightarrow> p @ [0] | b # before \<Rightarrow> rev before @ [b + 1])"

lemma successor_shape:
  assumes "\<exists>b\<in>set p. b \<noteq> 255"
  obtains q b k where "p = q @ b # replicate k 255" and "bytes_successor p = q @ [b + 1]"
proof -
  let ?d = "dropWhile (\<lambda>b. b = 255) (rev p)"
  have "?d \<noteq> []" using assms by auto
  then obtain b r where d: "?d = b # r" by (cases ?d) auto
  have "rev p = takeWhile (\<lambda>b. b = 255) (rev p) @ b # r" unfolding d [symmetric] by simp
  moreover have "takeWhile (\<lambda>b. b = 255) (rev p) = replicate (length (takeWhile (\<lambda>b. b = 255) (rev p))) 255"
    by (rule replicate_eqI) (auto dest: set_takeWhileD)
  ultimately obtain k where "rev p = replicate k 255 @ b # r" by metis
  then have "p = rev r @ b # replicate k 255" by (metis rev.simps(2) rev_append rev_replicate rev_rev_ident append_Cons append_assoc append_Nil)
  moreover have "bytes_successor p = rev r @ [b + 1]" by (simp add: bytes_successor_def d)
  ultimately show ?thesis by (rule that)
qed


text \<open>The half-open range of the successor holds exactly the blobs that begin with the prefix.\<close>

lemma successor_range:
  assumes "\<exists>b\<in>set p. b \<noteq> 255" and "\<forall>b\<in>set s. b \<le> 255"
  shows "p \<le> s \<and> s < bytes_successor p \<longleftrightarrow> starts_with s p"
proof
  obtain q b k where p: "p = q @ b # replicate k 255" and n: "bytes_successor p = q @ [b + 1]"
    using successor_shape [OF assms(1)] .
  show "p \<le> s \<and> s < bytes_successor p" if "starts_with s p"
  proof -
    obtain x where s: "s = p @ x" using \<open>starts_with s p\<close> by (auto simp: starts_with_iff)
    have "p \<le> p @ x" by (induction p) auto
    moreover have "q @ (b # replicate k 255 @ x) < q @ [b + 1]" by (induction q) auto
    ultimately show ?thesis by (simp add: s n) (simp add: p)
  qed
  have tail: "starts_with t (replicate k 255)" if "\<forall>c\<in>set t. c \<le> 255" "replicate k 255 \<le> t" for t :: "nat list" and k
    using that
  proof (induction k arbitrary: t)
    case (Suc k)
    then show ?case by (cases t) (auto simp: starts_with_def)
  qed (simp add: starts_with_def)
  have "starts_with s (q @ b # replicate k 255)"
    if "q @ b # replicate k 255 \<le> s" "s < q @ [b + 1]" "\<forall>c\<in>set s. c \<le> 255" for s
    using that
  proof (induction q arbitrary: s)
    case Nil
    then obtain t where "s = b # t" by (cases s) auto
    then show ?case using Nil tail [of t k] by (auto simp: starts_with_def)
  next
    case (Cons a q)
    then obtain t where "s = a # t" by (cases s) auto
    then show ?case using Cons by (auto simp: starts_with_def)
  qed
  then show "starts_with s p" if "p \<le> s \<and> s < bytes_successor p" using that assms(2) by (simp add: n) (simp add: p)
qed

lemma successor_prefix:
  assumes "text_ok s" "text_ok p" "p \<noteq> []"
  shows "utf8 p \<le> utf8 s \<and> utf8 s < bytes_successor (utf8 p) \<longleftrightarrow> starts_with s p"
proof -
  have "utf8 p \<noteq> []" using assms(3) utf8.nonempty by (cases p) (auto simp: utf8_def)
  then have "\<exists>b\<in>set (utf8 p). b \<noteq> 255" using utf8_bytes [OF assms(2)] by (cases "utf8 p") fastforce+
  moreover have "\<forall>b\<in>set (utf8 s). b \<le> 255" using utf8_bytes [OF assms(1)] by fastforce
  ultimately show ?thesis using successor_range utf8_prefix by blast
qed

section \<open>Natural keys as blobs\<close>

definition be4 :: "nat \<Rightarrow> nat list" where
  "be4 n = [n div 16777216 mod 256, n div 65536 mod 256, n div 256 mod 256, n mod 256]"

definition nul_escape :: "nat \<Rightarrow> nat list" where
  "nul_escape b = (if b = 0 then [0, 255] else [b])"

text \<open>
  The chunks are those of \<open>natural_key\<close>: the code splits with the same expression, takes the same value of
  a run of digits and folds the same texts.
\<close>

definition blob_chunk :: "nat_chunk \<Rightarrow> nat list" where
  "blob_chunk c =
     (case c of
        NK_num n \<Rightarrow> 1 # be4 (length (decimal n)) @ decimal n @ [0, 0]
      | NK_text t \<Rightarrow> 2 # concat (map nul_escape (utf8 t)) @ [0, 0])"

text \<open>\<open>_natural_blob\<close>\<close>

definition natural_blob :: "chars \<Rightarrow> ustr \<Rightarrow> nat list" where
  "natural_blob C value = concat (map blob_chunk (natural_key C value))"

lemma be4_before:
  assumes "m < n" "n < 4294967296"
  shows "be4 m @ x < be4 n @ y"
proof -
  have q: "i div 256 < j div 256 \<or> i div 256 = j div 256 \<and> i mod 256 < j mod 256" if "i < j" for i j :: nat
    using quotient_step [of 256 i j] that by simp
  have s: "be4 k = [k div 256 div 256 div 256, k div 256 div 256 mod 256, k div 256 mod 256, k mod 256]" if "k < 4294967296" for k
    using that by (simp add: be4_def div_mult2_eq [symmetric] less_mult_imp_div_less)
  have "m < 4294967296" using assms by simp
  moreover have "m div 256 div 256 div 256 < n div 256 div 256 div 256 \<or> m div 256 div 256 div 256 = n div 256 div 256 div 256 \<and>
      (m div 256 div 256 mod 256 < n div 256 div 256 mod 256 \<or> m div 256 div 256 mod 256 = n div 256 div 256 mod 256 \<and>
      (m div 256 mod 256 < n div 256 mod 256 \<or> m div 256 mod 256 = n div 256 mod 256 \<and> m mod 256 < n mod 256))"
    using q [OF assms(1)] q [of "m div 256" "n div 256"] q [of "m div 256 div 256" "n div 256 div 256"] by metis
  ultimately show ?thesis using assms(2) by (simp only: s) auto
qed

lemma decimal_bound: "n < 10 ^ length (decimal n)"
proof (induction n rule: decimal.induct)
  case (1 n)
  show ?case
  proof (cases "n < 10")
    case False
    then have "n div 10 < 10 ^ length (decimal (n div 10))" by (rule 1)
    then show ?thesis using False by (simp add: decimal.simps [of n] div_less_iff_less_mult mult.commute)
  qed (simp add: decimal.simps [of n])
qed

lemma decimal_shortest: "n < 10 ^ k \<Longrightarrow> 0 < k \<Longrightarrow> length (decimal n) \<le> k"
  using decimal_padded [of n k] by (metis le_add2 length_append length_padded)

lemma decimal_nonempty: "decimal n \<noteq> []"
  by (simp add: decimal.simps [of n])

lemma decimal_before:
  assumes "m < n"
  shows "length (decimal m) < length (decimal n) \<or> length (decimal m) = length (decimal n) \<and> decimal m < decimal n"
proof -
  let ?k = "length (decimal n)"
  have b: "m < 10 ^ ?k" "n < 10 ^ ?k" "0 < ?k" using assms decimal_bound [of n] decimal_nonempty [of n] by auto
  then have "length (decimal m) \<le> ?k" by (intro decimal_shortest)
  moreover have "decimal m < decimal n" if "length (decimal m) = ?k"
    using padded_less [OF b(1,2)] decimal_padded [OF b(1,3)] decimal_padded [OF b(2,3)] assms that by simp
  ultimately show ?thesis by auto
qed

interpretation escape: terminated_code nul_escape "\<lambda>b. True" "[0, 0]"
proof
  show "nul_escape a @ x < nul_escape b @ y" if "a < b" for a b x y using that by (simp add: nul_escape_def)
  show "nul_escape a \<noteq> []" for a by (simp add: nul_escape_def)
  show "[0, 0] @ x < nul_escape a @ y" for a x y by (simp add: nul_escape_def)
qed

definition short_number :: "nat_chunk \<Rightarrow> bool" where
  "short_number c \<longleftrightarrow> (case c of NK_num n \<Rightarrow> length (decimal n) < 4294967296 | NK_text _ \<Rightarrow> True)"

lemma same_length_less: "s < t \<Longrightarrow> length s = length t \<Longrightarrow> s @ x < t @ y" for s t :: "nat list"
proof (induction s arbitrary: t)
  case (Cons a s)
  then show ?case by (cases t) auto
qed simp

lemma nat_chunk_less [simp]:
  "NK_num m < NK_num n \<longleftrightarrow> m < n" "NK_num m < NK_text t" "\<not> NK_text t < NK_num m" "NK_text s < NK_text t \<longleftrightarrow> s < t"
  by (auto simp: less_nat_chunk_def less_eq_nat_chunk_def)

interpretation blob: order_code blob_chunk short_number
proof
  fix a b :: nat_chunk and x y
  assume v: "short_number a" "short_number b" and l: "a < b"
  show "blob_chunk a @ x < blob_chunk b @ y"
  proof (cases a)
    case (NK_num m)
    show ?thesis
    proof (cases b)
      case b: (NK_num n)
      then have "m < n" using l NK_num by simp
      then show ?thesis
        using decimal_before [of m n] be4_before [of "length (decimal m)" "length (decimal n)"] v NK_num b less_append_left
          same_length_less [of "decimal m" "decimal n"]
        by (auto simp: blob_chunk_def short_number_def)
    qed (simp add: blob_chunk_def NK_num)
  next
    case a: (NK_text s)
    then obtain t where b: "b = NK_text t" using l by (cases b) auto
    then have "utf8 s < utf8 t" using l a utf8_less by simp
    then show ?thesis using escape.closed_less [of "utf8 s" "utf8 t" x y] a b by (simp add: blob_chunk_def)
  qed
qed (simp add: blob_chunk_def split: nat_chunk.split)

lemma digits_value_bound:
  assumes "\<forall>c d. ch_digit C c = Some d \<longrightarrow> d < 10" and "\<forall>c\<in>set s. is_digit C c"
  shows "digits_value C s < 10 ^ length s"
  using assms(2)
proof (induction s rule: rev_induct)
  case (snoc c s)
  then have "the (ch_digit C c) < 10" using assms(1) by (auto simp: is_digit_def)
  then show ?case using snoc by (auto simp: digits_value_def)
qed (simp add: digits_value_def)

lemma natural_key_short:
  "\<forall>c d. ch_digit C c = Some d \<longrightarrow> d < 10 \<Longrightarrow> length s < 4294967296 \<Longrightarrow> \<forall>k\<in>set (natural_key C s). short_number k"
proof (induction C s rule: natural_key.induct)
  case (2 C c s)
  have "short_number (NK_num (digits_value C (takeWhile (is_digit C) (c # s))))" if "is_digit C c"
  proof -
    let ?run = "takeWhile (is_digit C) (c # s)"
    have "length (decimal (digits_value C ?run)) \<le> length ?run"
      using that digits_value_bound [OF "2.prems"(1), of ?run] by (intro decimal_shortest) (auto dest: set_takeWhileD)
    also have "\<dots> < 4294967296" using "2.prems"(2) length_takeWhile_le [of "is_digit C" "c # s"] by linarith
    finally show ?thesis by (simp add: short_number_def)
  qed
  moreover have "length (dropWhile P s) < 4294967296" for P using "2.prems"(2) length_dropWhile_le [of P s] by simp
  moreover have "short_number (NK_text t)" for t by (simp add: short_number_def)
  ultimately show ?case using "2.IH" "2.prems"(1) by simp
qed simp

text \<open>
  C22: Binary comparison of the blobs that \<open>_natural_blob\<close> writes is the natural order of \<open>_natural_key\<close>, and two
  texts have the same blob exactly when they have the same key: numbers by their value, whatever their length, texts
  by their case-folded code points, zero characters included. Texts are shorter than 2^32 characters and the digits
  of the Unicode table are below ten.
\<close>

theorem natural_blob_order:
  assumes "length s < 4294967296" "length t < 4294967296" and "\<forall>c d. ch_digit C c = Some d \<longrightarrow> d < 10"
  shows "(natural_blob C s < natural_blob C t \<longleftrightarrow> natural_key C s < natural_key C t) \<and>
    (natural_blob C s = natural_blob C t \<longleftrightarrow> natural_key C s = natural_key C t)"
proof -
  note k = natural_key_short [OF assms(3,1)] natural_key_short [OF assms(3,2)]
  show ?thesis unfolding natural_blob_def using blob.code_less [OF k] blob.code_inject [OF k] by simp
qed

lemma natural_blob_order_witness:
  "natural_blob sample_chars (lit ''a10'') < natural_blob sample_chars (lit ''a9'') \<longleftrightarrow>
     natural_key sample_chars (lit ''a10'') < natural_key sample_chars (lit ''a9'')"
  by (rule natural_blob_order [THEN conjunct1]) (auto simp: lit_def sample_chars_def)

end
