(* ===== verification/Sql_Index.thy ===== *)
theory Sql_Index
  imports Sql_Text Search_Answer
begin

text \<open>
  The persistent search index of \<open>sqlite_search.py\<close>: its tables, the operations that build, activate and
  delete a generation, and the SQL queries of \<open>SqlSearchIndex\<close>. A table is the list of its rows, an
  ordinary \<open>SELECT\<close> a comprehension over it. The engine FTS5 is the parameter \<open>F\<close>, which says
  whether a row matches a query of its language; what the code relies on is the hypothesis \<open>fts5\<close>. JSON texts
  stand for the records they encode. An operation that raises leaves the transaction's changes behind, so its
  result is the exception alone. The deadline of a request is not modelled.
\<close>

section \<open>Tables\<close>

datatype generation_state = BUILDING | READY | ACTIVE | FAILED

record sql_generation =
  sg_generation_id :: ustr
  sg_root_id :: ustr
  sg_state :: generation_state
  sg_created_at :: ustr

record sql_item =
  si_row_id :: nat
  si_generation_id :: ustr
  si_item_no :: nat
  si_item_id :: ustr
  si_body :: search_item
  si_filename_key :: "nat list"
  si_path_key :: "nat list"
  si_relative_path :: ustr
  si_modified_at :: ustr
  si_modified_key :: ustr
  si_size_bytes :: int

record sql_item_marker =
  im_generation_id :: ustr
  im_row_id :: nat
  im_depth :: nat
  im_marker_id :: ustr

record sql_marker =
  sm_generation_id :: ustr
  sm_marker_id :: ustr
  sm_parent_marker_id :: "ustr option"
  sm_depth :: nat
  sm_marker_json :: marker
  sm_unrecognized :: bool
  sm_display_folded :: "nat list"
  sm_display_key :: "nat list"
  sm_raw_value :: ustr

datatype fts_column = Generation | Filename | Project | Company | Markers | Path_text

record fts_row =
  ft_row_id :: nat
  ft_text :: "fts_column \<Rightarrow> ustr"

text \<open>\<open>sq_pointed\<close> holds the \<open>_generation\<close> of the stored \<open>index\<close> objects, written elsewhere.\<close>

record sql_db =
  sq_generations :: "sql_generation list"
  sq_items :: "sql_item list"
  sq_item_markers :: "sql_item_marker list"
  sq_markers :: "sql_marker list"
  sq_fts :: "fts_row list"
  sq_pointed :: "ustr list"

definition empty_sql :: sql_db where
  "empty_sql = \<lparr>sq_generations = [], sq_items = [], sq_item_markers = [], sq_markers = [], sq_fts = [], sq_pointed = []\<rparr>"

section \<open>The columns of a row\<close>

fun join_text :: "ustr \<Rightarrow> ustr list \<Rightarrow> ustr" where
  "join_text sep [] = []"
| "join_text sep [p] = p"
| "join_text sep (p # ps) = p @ sep @ join_text sep ps"

definition sentinel :: ustr where
  "sentinel = [115]"

definition generation_token :: "chars \<Rightarrow> ustr \<Rightarrow> ustr" where
  "generation_token C generation_id = 103 # ch_sha256 C generation_id"

definition marker_target :: "ustr \<Rightarrow> fts_column" where
  "marker_target level_id =
     (if level_id = lit ''level-project'' then Project else if level_id = lit ''level-company'' then Company else Markers)"

definition marker_streams :: "chars \<Rightarrow> search_item \<Rightarrow> fts_column \<Rightarrow> ustr list" where
  "marker_streams C item target =
     filter (\<lambda>stream. stream \<noteq> [])
       (map (\<lambda>m. encoded_stream (tokens C (the (mk_raw_value m))))
         (filter (\<lambda>m. mk_kind m = VALUE \<and> marker_target (mk_level_id m) = target) (it_markers item)))"

text \<open>\<open>_columns\<close>, with the generation token as the first column\<close>

definition columns_of :: "chars \<Rightarrow> ustr \<Rightarrow> search_item \<Rightarrow> fts_column \<Rightarrow> ustr" where
  "columns_of C generation_id item column =
     (case column of
        Generation \<Rightarrow> generation_token C generation_id
      | Filename \<Rightarrow> encoded_stream (tokens C (it_filename item))
      | Path_text \<Rightarrow> encoded_stream (tokens C (loc_relative_path (it_location item)))
      | _ \<Rightarrow> join_text (32 # sentinel @ [32]) (marker_streams C item column))"

section \<open>Building a generation\<close>

definition generation_row :: "sql_db \<Rightarrow> ustr \<Rightarrow> sql_generation option" where
  "generation_row d generation_id = find (\<lambda>g. sg_generation_id g = generation_id) (sq_generations d)"

definition create_generation :: "ustr \<Rightarrow> ustr \<Rightarrow> ustr \<Rightarrow> sql_db \<Rightarrow> exn + sql_db" where
  "create_generation now root_id generation_id d =
     (if generation_row d generation_id \<noteq> None then Inl IntegrityError
      else Inr (d\<lparr>sq_generations := sq_generations d @
        [\<lparr>sg_generation_id = generation_id, sg_root_id = root_id, sg_state = BUILDING, sg_created_at = now\<rparr>]\<rparr>))"

text \<open>The row id of a new row of an \<open>INTEGER PRIMARY KEY\<close> table: one more than the largest.\<close>

definition next_row_id :: "sql_db \<Rightarrow> nat" where
  "next_row_id d = Suc (max_of (map si_row_id (sq_items d)))"

definition item_row :: "chars \<Rightarrow> ustr \<Rightarrow> nat \<Rightarrow> nat \<Rightarrow> ustr \<Rightarrow> search_item \<Rightarrow> sql_item" where
  "item_row C generation_id row_id item_no modified_key item =
     \<lparr>si_row_id = row_id, si_generation_id = generation_id, si_item_no = item_no, si_item_id = it_item_id item, si_body = item,
      si_filename_key = natural_blob C (it_filename item),
      si_path_key = natural_blob C (loc_relative_path (it_location item)),
      si_relative_path = loc_relative_path (it_location item), si_modified_at = it_modified_at item,
      si_modified_key = modified_key, si_size_bytes = it_size_bytes item\<rparr>"

definition marker_row :: "chars \<Rightarrow> ustr \<Rightarrow> ustr option \<Rightarrow> nat \<Rightarrow> marker \<Rightarrow> sql_marker" where
  "marker_row C generation_id parent depth m =
     \<lparr>sm_generation_id = generation_id, sm_marker_id = mk_marker_id m, sm_parent_marker_id = parent, sm_depth = depth,
      sm_marker_json = m, sm_unrecognized = (mk_kind m = UNRECOGNIZED),
      sm_display_folded = utf8 (ch_casefold C (mk_display_value m)),
      sm_display_key = natural_blob C (mk_display_value m),
      sm_raw_value = (case mk_raw_value m of None \<Rightarrow> [] | Some v \<Rightarrow> v)\<rparr>"

text \<open>\<open>INSERT OR IGNORE\<close>: a row of the same generation and marker is kept.\<close>

definition insert_marker :: "sql_marker \<Rightarrow> sql_marker list \<Rightarrow> sql_marker list" where
  "insert_marker row rows =
     (if \<exists>r\<in>set rows. sm_generation_id r = sm_generation_id row \<and> sm_marker_id r = sm_marker_id row then rows
      else rows @ [row])"

text \<open>The loop over the markers of an item, with the depth and the parent so far.\<close>

primrec add_item_markers :: "chars \<Rightarrow> ustr \<Rightarrow> nat \<Rightarrow> nat \<Rightarrow> ustr option \<Rightarrow> marker list \<Rightarrow> sql_db \<Rightarrow> sql_db" where
  "add_item_markers C generation_id row_id depth parent [] d = d"
| "add_item_markers C generation_id row_id depth parent (m # ms) d =
     add_item_markers C generation_id row_id (Suc depth) (Some (mk_marker_id m)) ms
       (d\<lparr>sq_item_markers := sq_item_markers d @
            [\<lparr>im_generation_id = generation_id, im_row_id = row_id, im_depth = depth, im_marker_id = mk_marker_id m\<rparr>],
          sq_markers := insert_marker (marker_row C generation_id parent depth m) (sq_markers d)\<rparr>)"

definition insert_item :: "chars \<Rightarrow> ustr \<Rightarrow> nat \<Rightarrow> search_item \<Rightarrow> sql_db \<Rightarrow> exn + sql_db" where
  "insert_item C generation_id item_no item d =
     ebind (instant_sort_key C (it_modified_at item)) (\<lambda>modified_key.
     let row_id = next_row_id d in
     if \<exists>r\<in>set (sq_items d). si_generation_id r = generation_id \<and> (si_item_id r = it_item_id item \<or> si_item_no r = item_no)
     then Inl IntegrityError
     else
       let d = d\<lparr>sq_items := sq_items d @ [item_row C generation_id row_id item_no modified_key item]\<rparr>;
           d = add_item_markers C generation_id row_id 0 None (it_markers item) d in
       Inr (d\<lparr>sq_fts := sq_fts d @ [\<lparr>ft_row_id = row_id, ft_text = columns_of C generation_id item\<rparr>]\<rparr>))"

fun add_rows :: "chars \<Rightarrow> ustr \<Rightarrow> nat \<Rightarrow> search_item list \<Rightarrow> sql_db \<Rightarrow> exn + sql_db" where
  "add_rows C generation_id next_no [] d = Inr d"
| "add_rows C generation_id next_no (item # rows) d =
     ebind (insert_item C generation_id next_no item d) (add_rows C generation_id (Suc next_no) rows)"

text \<open>\<open>COALESCE(MAX(item_no) + 1, 0)\<close>\<close>

definition next_item_no :: "ustr \<Rightarrow> sql_db \<Rightarrow> nat" where
  "next_item_no generation_id d =
     (case filter (\<lambda>r. si_generation_id r = generation_id) (sq_items d) of
        [] \<Rightarrow> 0 | rows \<Rightarrow> Suc (max_of (map si_item_no rows)))"

text \<open>\<open>add_items\<close>; its result is the number of rows added.\<close>

definition add_items :: "chars \<Rightarrow> ustr \<Rightarrow> search_item list \<Rightarrow> sql_db \<Rightarrow> exn + nat \<times> sql_db" where
  "add_items C generation_id rows d =
     (case generation_row d generation_id of
        None \<Rightarrow> Inl PyValueError
      | Some g \<Rightarrow>
          if sg_state g \<noteq> BUILDING then Inl PyValueError
          else ebind (add_rows C generation_id (next_item_no generation_id d) rows d) (\<lambda>d'. Inr (length rows, d')))"

section \<open>States of a generation\<close>

definition set_states :: "(sql_generation \<Rightarrow> bool) \<Rightarrow> generation_state \<Rightarrow> sql_db \<Rightarrow> sql_db" where
  "set_states P state d =
     d\<lparr>sq_generations := map (\<lambda>g. if P g then g\<lparr>sg_state := state\<rparr> else g) (sq_generations d)\<rparr>"

definition finish_generation :: "ustr \<Rightarrow> sql_db \<Rightarrow> exn + sql_db" where
  "finish_generation generation_id d =
     (let P = (\<lambda>g. sg_generation_id g = generation_id \<and> sg_state g = BUILDING) in
      if length (filter P (sq_generations d)) \<noteq> 1 then Inl PyValueError else Inr (set_states P READY d))"

definition activate_generation :: "ustr \<Rightarrow> sql_db \<Rightarrow> exn + sql_db" where
  "activate_generation generation_id d =
     (case generation_row d generation_id of
        None \<Rightarrow> Inl PyValueError
      | Some row \<Rightarrow>
          if sg_state row \<noteq> READY then Inl PyValueError
          else Inr (set_states (\<lambda>g. sg_generation_id g = generation_id) ACTIVE
                 (set_states (\<lambda>g. sg_root_id g = sg_root_id row \<and> sg_state g = ACTIVE) READY d)))"

text \<open>
  \<open>delete_generation\<close>. Rows are in the order of their ids; the foreign keys delete the rows of
  \<open>search_item_markers\<close> with an item, and everything that is left with a generation. The \<open>'delete'\<close>
  command of FTS5 removes the row whose columns it repeats.
\<close>

definition delete_items :: "chars \<Rightarrow> ustr \<Rightarrow> sql_item list \<Rightarrow> sql_db \<Rightarrow> sql_db" where
  "delete_items C generation_id rows d =
     d\<lparr>sq_items := filter (\<lambda>r. si_row_id r \<notin> set (map si_row_id rows)) (sq_items d),
       sq_item_markers := filter (\<lambda>m. im_row_id m \<notin> set (map si_row_id rows)) (sq_item_markers d),
       sq_fts := filter (\<lambda>f. ft_row_id f \<notin> set (map si_row_id rows)) (sq_fts d)\<rparr>"

definition drop_generation :: "ustr \<Rightarrow> sql_db \<Rightarrow> sql_db" where
  "drop_generation generation_id d =
     d\<lparr>sq_generations := filter (\<lambda>g. sg_generation_id g \<noteq> generation_id) (sq_generations d),
       sq_items := filter (\<lambda>r. si_generation_id r \<noteq> generation_id) (sq_items d),
       sq_item_markers := filter (\<lambda>m. im_generation_id m \<noteq> generation_id) (sq_item_markers d),
       sq_markers := filter (\<lambda>m. sm_generation_id m \<noteq> generation_id) (sq_markers d)\<rparr>"

definition delete_generation :: "chars \<Rightarrow> ustr \<Rightarrow> nat \<Rightarrow> sql_db \<Rightarrow> exn + bool \<times> sql_db" where
  "delete_generation C generation_id batch_size d =
     (if batch_size < 1 then Inl PyValueError
      else
        case generation_row d generation_id of
          None \<Rightarrow> Inr (True, d)
        | Some row \<Rightarrow>
            if sg_state row = ACTIVE then Inl PyValueError
            else if generation_id \<in> set (sq_pointed d) then Inl PyValueError
            else
              let rows = take batch_size (sort_key si_row_id (filter (\<lambda>r. si_generation_id r = generation_id) (sq_items d))) in
              if rows \<noteq> [] then Inr (False, delete_items C generation_id rows d)
              else Inr (True, drop_generation generation_id d))"

text \<open>\<open>garbage_collect\<close>: one deletion step for every stale generation, and the number completed.\<close>

fun collect_stale :: "chars \<Rightarrow> ustr list \<Rightarrow> sql_db \<Rightarrow> exn + nat \<times> sql_db" where
  "collect_stale C [] d = Inr (0, d)"
| "collect_stale C (g # gs) d =
     ebind (delete_generation C g 1000 d) (\<lambda>(finished, d).
     ebind (collect_stale C gs d) (\<lambda>(completed, d).
     Inr (of_bool finished + completed, d)))"

definition garbage_collect :: "chars \<Rightarrow> ustr \<Rightarrow> ustr \<Rightarrow> sql_db \<Rightarrow> exn + nat \<times> sql_db" where
  "garbage_collect C root_id keep d =
     collect_stale C
       (map sg_generation_id (filter (\<lambda>g. sg_root_id g = root_id \<and> sg_generation_id g \<noteq> keep \<and> sg_state g \<noteq> ACTIVE) (sq_generations d))) d"

end
