(* ===== verification/Sql_Query.thy ===== *)
theory Sql_Query
  imports Sql_Index
begin

text \<open>
  The queries of \<open>SqlSearchIndex\<close> over one generation: the language of FTS5 that they use, the
  candidates with their scores, the order of the rows, the facets, and the two answers \<open>search\<close> and
  \<open>facet\<close>.
\<close>

section \<open>FTS5\<close>

datatype fts_query =
    Fts_phrase "ustr list"
  | Fts_prefix ustr
  | Fts_col fts_column fts_query
  | Fts_and fts_query fts_query
  | Fts_not fts_query fts_query

type_synonym fts_engine = "fts_row \<Rightarrow> fts_query \<Rightarrow> bool"

text \<open>
  The documented meaning over the words of a row: a phrase is a run of words of one column, a prefix
  the beginning of a word, a column filter restricts what is below it.
\<close>

fun fts_holds :: "(fts_column \<Rightarrow> ustr list) \<Rightarrow> fts_column list \<Rightarrow> fts_query \<Rightarrow> bool" where
  "fts_holds doc columns (Fts_phrase ws) = (\<exists>c\<in>set columns. contains_phrase (doc c) ws)"
| "fts_holds doc columns (Fts_prefix w) = (\<exists>c\<in>set columns. \<exists>t\<in>set (doc c). starts_with t w)"
| "fts_holds doc columns (Fts_col c q) = fts_holds doc (filter (\<lambda>x. x = c) columns) q"
| "fts_holds doc columns (Fts_and p q) = (fts_holds doc columns p \<and> fts_holds doc columns q)"
| "fts_holds doc columns (Fts_not p q) = (fts_holds doc columns p \<and> \<not> fts_holds doc columns q)"

definition fts_columns :: "fts_column list" where
  "fts_columns = [Generation, Filename, Project, Company, Markers, Path_text]"

definition words :: "ustr \<Rightarrow> ustr list" where
  "words text = filter (\<lambda>w. w \<noteq> []) (split_on 32 text)"

text \<open>
  Lower-case ASCII letters and digits are token characters of the tokenizer \<open>unicode61\<close> and not
  changed by it; a space separates tokens.
\<close>

definition plain_char :: "nat \<Rightarrow> bool" where
  "plain_char c \<longleftrightarrow> 48 \<le> c \<and> c \<le> 57 \<or> 97 \<le> c \<and> c \<le> 122"

definition plain_word :: "ustr \<Rightarrow> bool" where
  "plain_word w \<longleftrightarrow> w \<noteq> [] \<and> list_all plain_char w"

primrec plain_query :: "fts_query \<Rightarrow> bool" where
  "plain_query (Fts_phrase ws) = (ws \<noteq> [] \<and> list_all plain_word ws)"
| "plain_query (Fts_prefix w) = plain_word w"
| "plain_query (Fts_col c q) = plain_query q"
| "plain_query (Fts_and p q) = (plain_query p \<and> plain_query q)"
| "plain_query (Fts_not p q) = (plain_query p \<and> plain_query q)"

definition plain_row :: "fts_row \<Rightarrow> bool" where
  "plain_row row \<longleftrightarrow> (\<forall>c\<in>set fts_columns. list_all (\<lambda>x. x = 32 \<or> plain_char x) (ft_text row c))"

definition fts5 :: "fts_engine \<Rightarrow> bool" where
  "fts5 F \<longleftrightarrow> (\<forall>row q. plain_row row \<longrightarrow> plain_query q \<longrightarrow> F row q = fts_holds (\<lambda>c. words (ft_text row c)) fts_columns q)"

section \<open>Candidates\<close>

definition readable :: "ustr \<Rightarrow> sql_db \<Rightarrow> exn + ustr" where
  "readable generation_id d =
     (case generation_row d generation_id of
        None \<Rightarrow> Inl PyValueError
      | Some g \<Rightarrow> if sg_state g \<in> {READY, ACTIVE} then Inr (sg_root_id g) else Inl PyValueError)"

text \<open>\<open>_selected\<close>\<close>

fun selected_rows :: "sql_db \<Rightarrow> ustr \<Rightarrow> nat \<Rightarrow> ustr option \<Rightarrow> ustr list \<Rightarrow> exn + marker list" where
  "selected_rows d generation_id depth parent [] = Inr []"
| "selected_rows d generation_id depth parent (marker_id # rest) =
     (case find (\<lambda>m. sm_generation_id m = generation_id \<and> sm_marker_id m = marker_id \<and> sm_depth m = depth) (sq_markers d) of
        None \<Rightarrow> Inl (api INVALID_MARKER_SELECTION 422)
      | Some row \<Rightarrow>
          if sm_parent_marker_id row \<noteq> parent then Inl (api INVALID_MARKER_SELECTION 422)
          else
            ebind (selected_rows d generation_id (Suc depth) (Some marker_id) rest) (\<lambda>ms.
            Inr (sm_marker_json row # ms)))"

definition sql_selected :: "sql_db \<Rightarrow> ustr \<Rightarrow> ustr list \<Rightarrow> exn + marker list" where
  "sql_selected d generation_id selected =
     (if \<not> distinct selected then Inl (api INVALID_MARKER_SELECTION 422)
      else selected_rows d generation_id 0 None selected)"

text \<open>\<open>_filter_sql\<close>: the condition on a row of \<open>search_items\<close>\<close>

definition filter_sql :: "sql_db \<Rightarrow> ustr \<Rightarrow> ustr list \<Rightarrow> sql_item \<Rightarrow> bool" where
  "filter_sql d generation_id selected row \<longleftrightarrow>
     list_all (\<lambda>(depth, marker_id).
       \<exists>m\<in>set (sq_item_markers d). im_generation_id m = generation_id \<and> im_depth m = depth \<and> im_marker_id m = marker_id \<and>
         im_row_id m = si_row_id row) (enumerate 0 selected)"

definition weighted_columns :: "(fts_column \<times> nat) list" where
  "weighted_columns = [(Filename, 5), (Project, 4), (Company, 3), (Markers, 1), (Path_text, 1)]"

definition match_sql :: "chars \<Rightarrow> ustr \<Rightarrow> fts_column \<Rightarrow> fts_query \<Rightarrow> fts_query" where
  "match_sql C generation_id column q =
     Fts_and (Fts_col Generation (Fts_phrase [generation_token C generation_id])) (Fts_col column q)"

text \<open>\<open>_prefix_without_exact\<close>\<close>

definition prefix_without_exact :: "ustr \<Rightarrow> fts_query" where
  "prefix_without_exact encoded = Fts_not (Fts_prefix encoded) (Fts_phrase [encoded])"

definition fts_select :: "fts_engine \<Rightarrow> sql_db \<Rightarrow> fts_query \<Rightarrow> nat list" where
  "fts_select F d q = map ft_row_id (filter (\<lambda>row. F row q) (sq_fts d))"

text \<open>\<open>SELECT rowid,MAX(score) ... GROUP BY rowid\<close>\<close>

type_synonym scores = "(nat \<times> nat) list"

definition scores_of :: "scores \<Rightarrow> nat \<Rightarrow> nat list" where
  "scores_of rows row_id = map snd (filter (\<lambda>r. fst r = row_id) rows)"

definition group_max :: "scores \<Rightarrow> scores" where
  "group_max rows = map (\<lambda>row_id. (row_id, max_of (scores_of rows row_id))) (remdups (map fst rows))"

definition term_cte :: "chars \<Rightarrow> fts_engine \<Rightarrow> sql_db \<Rightarrow> ustr \<Rightarrow> ustr \<Rightarrow> scores" where
  "term_cte C F d generation_id term =
     (let encoded = encoded_token term in
      group_max (concat (map (\<lambda>(column, weight).
        map (\<lambda>row_id. (row_id, weight * 2)) (fts_select F d (match_sql C generation_id column (Fts_phrase [encoded]))) @
        map (\<lambda>row_id. (row_id, weight)) (fts_select F d (match_sql C generation_id column (prefix_without_exact encoded))))
        weighted_columns)))"

definition phrase_cte :: "chars \<Rightarrow> fts_engine \<Rightarrow> sql_db \<Rightarrow> ustr \<Rightarrow> ustr list \<Rightarrow> scores" where
  "phrase_cte C F d generation_id phrase =
     group_max (concat (map (\<lambda>(column, weight).
       map (\<lambda>row_id. (row_id, 2 * length phrase * weight))
         (fts_select F d (match_sql C generation_id column (Fts_phrase (map encoded_token phrase)))))
       weighted_columns))"

text \<open>\<open>JOIN name USING(rowid)\<close>, adding the scores\<close>

definition join_scores :: "scores \<Rightarrow> scores \<Rightarrow> scores" where
  "join_scores xs ys = concat (map (\<lambda>(i, a). map (\<lambda>(j, b). (i, a + b)) (filter (\<lambda>r. fst r = i) ys)) xs)"

text \<open>\<open>SUM(score) ... GROUP BY rowid HAVING COUNT(*)=n\<close>\<close>

definition group_sum :: "nat \<Rightarrow> scores \<Rightarrow> scores" where
  "group_sum n rows =
     map (\<lambda>row_id. (row_id, sum_list (scores_of rows row_id)))
       (filter (\<lambda>row_id. length (scores_of rows row_id) = n) (remdups (map fst rows)))"

definition joined_clause_limit :: nat where
  "joined_clause_limit = 16"

text \<open>
  \<open>_candidates\<close>, stored by \<open>_materialized_candidates\<close> in a table whose key is the row id.
\<close>

definition item_candidates :: "sql_db \<Rightarrow> ustr \<Rightarrow> ustr list \<Rightarrow> scores \<Rightarrow> scores" where
  "item_candidates d generation_id selected source =
     concat (map (\<lambda>(row_id, score).
       map (\<lambda>i. (si_row_id i, score))
         (filter (\<lambda>i. si_row_id i = row_id \<and> si_generation_id i = generation_id \<and> filter_sql d generation_id selected i) (sq_items d)))
       source)"

definition candidates :: "chars \<Rightarrow> fts_engine \<Rightarrow> sql_db \<Rightarrow> ustr \<Rightarrow> query \<Rightarrow> ustr list \<Rightarrow> scores" where
  "candidates C F d generation_id q selected =
     (case map (term_cte C F d generation_id) (qy_terms q) @ map (phrase_cte C F d generation_id) (qy_phrases q) of
        [] \<Rightarrow>
          map (\<lambda>i. (si_row_id i, 0))
            (filter (\<lambda>i. si_generation_id i = generation_id \<and> filter_sql d generation_id selected i) (sq_items d))
      | first # rest \<Rightarrow>
          item_candidates d generation_id selected
            (if length (first # rest) \<le> joined_clause_limit then foldl join_scores first rest
             else group_sum (length (first # rest)) (concat (first # rest))))"

definition materialized_candidates :: "chars \<Rightarrow> fts_engine \<Rightarrow> sql_db \<Rightarrow> ustr \<Rightarrow> query \<Rightarrow> ustr list \<Rightarrow> scores" where
  "materialized_candidates C F d generation_id q selected = sort_key fst (candidates C F d generation_id q selected)"

section \<open>The order of the rows\<close>

datatype sql_column = Score | Filename_key | Path_key | Modified_key | Size_bytes | Relative_path | Item_id

text \<open>
  Blobs and texts with the collation \<open>BINARY\<close> are compared as bytes; \<open>modified_key\<close> has that collation by
  default.
\<close>

definition column_less :: "sql_column \<Rightarrow> nat \<times> sql_item \<Rightarrow> nat \<times> sql_item \<Rightarrow> bool" where
  "column_less column a b =
     (case column of
        Score \<Rightarrow> fst a < fst b
      | Filename_key \<Rightarrow> si_filename_key (snd a) < si_filename_key (snd b)
      | Path_key \<Rightarrow> si_path_key (snd a) < si_path_key (snd b)
      | Modified_key \<Rightarrow> utf8 (si_modified_key (snd a)) < utf8 (si_modified_key (snd b))
      | Size_bytes \<Rightarrow> si_size_bytes (snd a) < si_size_bytes (snd b)
      | Relative_path \<Rightarrow> utf8 (si_relative_path (snd a)) < utf8 (si_relative_path (snd b))
      | Item_id \<Rightarrow> utf8 (si_item_id (snd a)) < utf8 (si_item_id (snd b)))"

definition tie_columns :: "sort_direction \<Rightarrow> (sql_column \<times> sort_direction) list" where
  "tie_columns direction = [(Path_key, direction), (Relative_path, direction), (Item_id, direction)]"

text \<open>\<open>_order\<close>\<close>

definition order_columns :: "sort_field \<Rightarrow> sort_direction \<Rightarrow> exn + (sql_column \<times> sort_direction) list" where
  "order_columns field direction =
     (if direction = Other_direction then Inl (api INVALID_QUERY 400)
      else
        case field of
          RELEVANCE \<Rightarrow>
            if direction \<noteq> DESC then Inl (api INVALID_QUERY 400) else Inr ((Score, DESC) # tie_columns ASC)
        | PATH \<Rightarrow> Inr (tie_columns direction)
        | NAME \<Rightarrow> Inr ((Filename_key, direction) # tie_columns ASC)
        | MODIFIED_AT \<Rightarrow> Inr ((Modified_key, direction) # tie_columns ASC)
        | SIZE \<Rightarrow> Inr ((Size_bytes, direction) # tie_columns ASC)
        | Other_field \<Rightarrow> Inl (api INVALID_QUERY 400))"

fun before :: "(sql_column \<times> sort_direction) list \<Rightarrow> nat \<times> sql_item \<Rightarrow> nat \<times> sql_item \<Rightarrow> bool" where
  "before [] a b = False"
| "before ((column, direction) # keys) a b =
     (if direction = DESC then column_less column b a \<or> \<not> column_less column a b \<and> before keys a b
      else column_less column a b \<or> \<not> column_less column b a \<and> before keys a b)"

text \<open>\<open>ORDER BY\<close>, by insertion\<close>

fun place_row :: "('r \<Rightarrow> 'r \<Rightarrow> bool) \<Rightarrow> 'r \<Rightarrow> 'r list \<Rightarrow> 'r list" where
  "place_row R x [] = [x]"
| "place_row R x (y # ys) = (if R y x then y # place_row R x ys else x # y # ys)"

definition order_by :: "('r \<Rightarrow> 'r \<Rightarrow> bool) \<Rightarrow> 'r list \<Rightarrow> 'r list" where
  "order_by R rows = foldr (place_row R) rows []"

text \<open>\<open>_top_ids\<close>\<close>

definition top_ids :: "sql_db \<Rightarrow> scores \<Rightarrow> sort_field \<Rightarrow> sort_direction \<Rightarrow> nat \<Rightarrow> exn + nat list" where
  "top_ids d table field direction limit =
     ebind (order_columns field direction) (\<lambda>keys.
     Inr (map (\<lambda>r. si_row_id (snd r)) (take limit (order_by (before keys)
       (concat (map (\<lambda>(row_id, score). map (Pair score) (filter (\<lambda>i. si_row_id i = row_id) (sq_items d))) table))))))"

text \<open>\<open>_read_bodies\<close>: the rows fetched in any order, then looked up in the order of the ids\<close>

fun read_bodies :: "sql_db \<Rightarrow> nat list \<Rightarrow> exn + search_item list" where
  "read_bodies d [] = Inr []"
| "read_bodies d (row_id # ids) =
     (case find (\<lambda>i. si_row_id i = row_id) (sq_items d) of
        None \<Rightarrow> Inl PyKeyError
      | Some i \<Rightarrow> ebind (read_bodies d ids) (\<lambda>bodies. Inr (si_body i # bodies)))"

section \<open>Facets\<close>

definition prefix_sql :: "chars \<Rightarrow> ustr \<Rightarrow> sql_marker \<Rightarrow> bool" where
  "prefix_sql C pre m \<longleftrightarrow>
     (let folded = utf8 (ch_casefold C pre) in
      folded = [] \<or> folded \<le> sm_display_folded m \<and> sm_display_folded m < bytes_successor folded)"

definition facet_key :: "sql_marker \<Rightarrow> bool \<times> nat list \<times> nat list \<times> nat list" where
  "facet_key m = (sm_unrecognized m, sm_display_key m, utf8 (sm_raw_value m), utf8 (sm_marker_id m))"

text \<open>
  \<open>SELECT marker_json,COUNT(*) ... GROUP BY marker_id ORDER BY ...\<close> over the joined rows, with the level of the
  first marker
\<close>

definition facet_rows :: "sql_marker list \<Rightarrow> (marker \<times> nat) list" where
  "facet_rows rows =
     map (\<lambda>m. (sm_marker_json m, length (filter (\<lambda>r. sm_marker_id r = sm_marker_id m) rows)))
       (sort_key facet_key (map (\<lambda>marker_id. the (find (\<lambda>r. sm_marker_id r = marker_id) rows)) (remdups (map sm_marker_id rows))))"

definition sql_facet :: "marker option \<Rightarrow> sql_marker list \<Rightarrow> facet option" where
  "sql_facet first rows =
     (case first of
        None \<Rightarrow> None
      | Some m \<Rightarrow> Some \<lparr>fc_level_id = mk_level_id m, fc_level_name = mk_level_name m, fc_options = facet_rows rows\<rparr>)"

text \<open>The markers joined to a row of \<open>search_item_markers\<close>\<close>

definition marker_rows :: "sql_db \<Rightarrow> sql_item_marker list \<Rightarrow> sql_marker list" where
  "marker_rows d rows =
     concat (map (\<lambda>im. filter (\<lambda>m. sm_generation_id m = im_generation_id im \<and> sm_marker_id m = im_marker_id im) (sq_markers d)) rows)"

definition first_of :: "'a list \<Rightarrow> 'a option" where
  "first_of xs = (case xs of [] \<Rightarrow> None | x # _ \<Rightarrow> Some x)"

definition facet_table :: "chars \<Rightarrow> sql_db \<Rightarrow> ustr \<Rightarrow> scores \<Rightarrow> ustr list \<Rightarrow> ustr \<Rightarrow> facet option" where
  "facet_table C d generation_id table selected pre =
     (let rows = marker_rows d (concat (map (\<lambda>(row_id, _).
            filter (\<lambda>im. im_generation_id im = generation_id \<and> im_row_id im = row_id \<and> im_depth im = length selected)
              (sq_item_markers d)) table)) in
      sql_facet (map_option sm_marker_json (first_of rows)) (filter (prefix_sql C pre) rows))"

definition root_facet :: "chars \<Rightarrow> sql_db \<Rightarrow> ustr \<Rightarrow> ustr \<Rightarrow> facet option" where
  "root_facet C d generation_id pre =
     sql_facet
       (map_option sm_marker_json (first_of (sort_key (\<lambda>m. utf8 (sm_marker_id m))
         (filter (\<lambda>m. sm_generation_id m = generation_id \<and> sm_depth m = 0 \<and> sm_parent_marker_id m = None) (sq_markers d)))))
       (filter (prefix_sql C pre)
         (marker_rows d (filter (\<lambda>im. im_generation_id im = generation_id \<and> im_depth im = 0) (sq_item_markers d))))"

definition selected_idle_facet :: "chars \<Rightarrow> sql_db \<Rightarrow> ustr \<Rightarrow> ustr list \<Rightarrow> ustr \<Rightarrow> facet option" where
  "selected_idle_facet C d generation_id selected pre =
     sql_facet
       (map_option sm_marker_json (first_of (sort_key (\<lambda>m. utf8 (sm_marker_id m))
         (filter (\<lambda>m. sm_generation_id m = generation_id \<and> sm_parent_marker_id m = Some (last selected) \<and>
            sm_depth m = length selected) (sq_markers d)))))
       (filter (prefix_sql C pre)
         (filter (\<lambda>m. sm_parent_marker_id m = Some (last selected))
           (marker_rows d (filter (\<lambda>im. im_generation_id im = generation_id \<and> im_depth im = length selected) (sq_item_markers d)))))"

section \<open>Answers\<close>

text \<open>\<open>_search\<close>, over the root that the reader was opened for\<close>

definition sql_search ::
  "chars \<Rightarrow> fts_engine \<Rightarrow> sql_db \<Rightarrow> ustr \<Rightarrow> published_root \<Rightarrow> search_request \<Rightarrow> nat \<Rightarrow> exn + search_response" where
  "sql_search C F d generation_id root request limit =
     ebind (readable generation_id d) (\<lambda>root_id.
     ebind (eguard (pb_root_id root = root_id) PyValueError) (\<lambda>_.
     ebind (validate_context root request) (\<lambda>_.
     ebind (eguard (1 \<le> limit) PyValueError) (\<lambda>_.
     ebind (parse_query C (rq_query_text request)) (\<lambda>q.
     let selected = rq_selected_marker_ids request; pre = rq_facet_prefix request in
     ebind (sql_selected d generation_id selected) (\<lambda>chosen.
     ebind (eguard (rq_sort_field request \<noteq> RELEVANCE \<or> has_text q) (api INVALID_QUERY 400)) (\<lambda>_.
     if selected = [] \<and> \<not> has_text q then
       Inr (idle_response root request limit (root_facet C d generation_id pre))
     else
       let table = materialized_candidates C F d generation_id q selected;
           next = (if \<not> has_text q then selected_idle_facet C d generation_id selected pre
                   else facet_table C d generation_id table selected pre) in
       ebind (top_ids d table (rq_sort_field request) (rq_sort_direction request) limit) (\<lambda>ids.
       ebind (read_bodies d ids) (\<lambda>items.
       Inr (results_response root request limit q chosen (length table) items next))))))))))"

text \<open>\<open>_public_facet\<close>\<close>

definition sql_facet_answer ::
  "chars \<Rightarrow> fts_engine \<Rightarrow> sql_db \<Rightarrow> ustr \<Rightarrow> published_root \<Rightarrow> search_request \<Rightarrow> exn + facet_response" where
  "sql_facet_answer C F d generation_id root request =
     ebind (readable generation_id d) (\<lambda>root_id.
     ebind (eguard (pb_root_id root = root_id) PyValueError) (\<lambda>_.
     ebind (validate_context root request) (\<lambda>_.
     ebind (parse_query C (rq_query_text request)) (\<lambda>q.
     let selected = rq_selected_marker_ids request; pre = rq_facet_prefix request in
     ebind (sql_selected d generation_id selected) (\<lambda>_.
     let result =
           (if \<not> has_text q then
              (if selected \<noteq> [] then selected_idle_facet C d generation_id selected pre
               else root_facet C d generation_id pre)
            else facet_table C d generation_id (materialized_candidates C F d generation_id q selected) selected pre) in
     Inr \<lparr>fr_request_state_id = rq_request_state_id request, fr_root_id = pb_root_id root,
          fr_schema_set_version = pb_schema_set_version root, fr_index_generation = pb_index_generation root,
          fr_facet = result\<rparr>)))))"

end
