(* ===== verification/Sql_Generations.thy ===== *)
theory Sql_Generations
  imports Sql_Query
begin

text \<open>
  The tables as a state machine: the operations in any order, a failed one leaving the tables as they were.
  The invariant \<open>sql_ok\<close> ties the derived tables to the rows of \<open>search_items\<close>; \<open>holds_items\<close> says which items a
  generation stands for. What is shown: one active generation per root, the isolation of a generation
  from the operations on others, and the end of a deletion in batches.
\<close>

section \<open>Sequences of operations\<close>

datatype sql_op =
    Create_op ustr ustr ustr
  | Add_op ustr "search_item list"
  | Finish_op ustr
  | Activate_op ustr
  | Delete_op ustr nat
  | Collect_op ustr ustr
  | Point_op "ustr list"

text \<open>\<open>Point_op\<close> stands for the code that stores the objects of kind \<open>index\<close>.\<close>

definition apply_op :: "chars \<Rightarrow> sql_op \<Rightarrow> sql_db \<Rightarrow> exn + sql_db" where
  "apply_op C op d =
     (case op of
        Create_op now root_id g \<Rightarrow> create_generation now root_id g d
      | Add_op g rows \<Rightarrow> map_sum id snd (add_items C g rows d)
      | Finish_op g \<Rightarrow> finish_generation g d
      | Activate_op g \<Rightarrow> activate_generation g d
      | Delete_op g n \<Rightarrow> map_sum id snd (delete_generation C g n d)
      | Collect_op root_id keep \<Rightarrow> map_sum id snd (garbage_collect C root_id keep d)
      | Point_op gs \<Rightarrow> Inr (d\<lparr>sq_pointed := gs\<rparr>))"

fun apply_ops :: "chars \<Rightarrow> sql_op list \<Rightarrow> sql_db \<Rightarrow> exn + sql_db" where
  "apply_ops C [] d = Inr d"
| "apply_ops C (op # ops) d = ebind (apply_op C op d) (apply_ops C ops)"

definition try_op :: "chars \<Rightarrow> sql_op \<Rightarrow> sql_db \<Rightarrow> sql_db" where
  "try_op C op d = (case apply_op C op d of Inl e \<Rightarrow> d | Inr d' \<Rightarrow> d')"

definition try_ops :: "chars \<Rightarrow> sql_op list \<Rightarrow> sql_db \<Rightarrow> sql_db" where
  "try_ops C ops d = foldl (\<lambda>d op. try_op C op d) d ops"

lemma ebind_Inr: "ebind m f = Inr y \<longleftrightarrow> (\<exists>x. m = Inr x \<and> f x = Inr y)"
  by (cases m) auto

lemma map_sum_Inr: "map_sum id f m = Inr y \<longleftrightarrow> (\<exists>x. m = Inr x \<and> y = f x)"
  by (cases m) auto

section \<open>The derived tables\<close>

definition item_markers_of :: "sql_item \<Rightarrow> sql_item_marker list" where
  "item_markers_of row =
     map (\<lambda>(depth, m). \<lparr>im_generation_id = si_generation_id row, im_row_id = si_row_id row, im_depth = depth, im_marker_id = mk_marker_id m\<rparr>)
       (enumerate 0 (it_markers (si_body row)))"

definition fts_of :: "chars \<Rightarrow> sql_item \<Rightarrow> fts_row" where
  "fts_of C row = \<lparr>ft_row_id = si_row_id row, ft_text = columns_of C (si_generation_id row) (si_body row)\<rparr>"

definition row_ok :: "chars \<Rightarrow> sql_item \<Rightarrow> bool" where
  "row_ok C row \<longleftrightarrow>
     (\<exists>k. instant_sort_key C (it_modified_at (si_body row)) = Inr k \<and>
        row = item_row C (si_generation_id row) (si_row_id row) (si_item_no row) k (si_body row))"

definition generation_items :: "ustr \<Rightarrow> sql_db \<Rightarrow> sql_item list" where
  "generation_items g d = filter (\<lambda>r. si_generation_id r = g) (sq_items d)"

definition sql_ok :: "chars \<Rightarrow> sql_db \<Rightarrow> bool" where
  "sql_ok C d \<longleftrightarrow>
     sorted_wrt (<) (map si_row_id (sq_items d)) \<and> list_all (row_ok C) (sq_items d) \<and>
     sq_item_markers d = concat (map item_markers_of (sq_items d)) \<and>
     sq_fts d = map (fts_of C) (sq_items d) \<and>
     distinct (map sg_generation_id (sq_generations d)) \<and>
     (\<forall>g. distinct (map si_item_id (generation_items g d))) \<and>
     si_generation_id ` set (sq_items d) \<subseteq> sg_generation_id ` set (sq_generations d) \<and>
     sm_generation_id ` set (sq_markers d) \<subseteq> sg_generation_id ` set (sq_generations d)"

text \<open>The marker rows an item offers, and the table of the first row for every marker.\<close>

fun offered_markers :: "chars \<Rightarrow> ustr \<Rightarrow> nat \<Rightarrow> ustr option \<Rightarrow> marker list \<Rightarrow> sql_marker list" where
  "offered_markers C g depth parent [] = []"
| "offered_markers C g depth parent (m # ms) =
     marker_row C g parent depth m # offered_markers C g (Suc depth) (Some (mk_marker_id m)) ms"

definition marker_table :: "chars \<Rightarrow> ustr \<Rightarrow> search_item list \<Rightarrow> sql_marker list" where
  "marker_table C g items = fold insert_marker (concat (map (\<lambda>item. offered_markers C g 0 None (it_markers item)) items)) []"

definition holds_items :: "chars \<Rightarrow> ustr \<Rightarrow> search_item list \<Rightarrow> sql_db \<Rightarrow> bool" where
  "holds_items C g items d \<longleftrightarrow>
     map si_body (generation_items g d) = items \<and>
     filter (\<lambda>m. sm_generation_id m = g) (sq_markers d) = marker_table C g items"

section \<open>Adding items\<close>

lemma add_item_markers_effect:
  "add_item_markers C g row_id depth parent ms d =
   d\<lparr>sq_item_markers := sq_item_markers d @ map (\<lambda>(i, m). \<lparr>im_generation_id = g, im_row_id = row_id, im_depth = i, im_marker_id = mk_marker_id m\<rparr>) (enumerate depth ms),
     sq_markers := fold insert_marker (offered_markers C g depth parent ms) (sq_markers d)\<rparr>"
  by (induction ms arbitrary: depth parent d) simp_all

lemma offered_generation: "m \<in> set (offered_markers C g depth parent ms) \<Longrightarrow> sm_generation_id m = g"
  by (induction ms arbitrary: depth parent) (auto simp: marker_row_def)

lemma insert_marker_filter:
  "filter (\<lambda>r. sm_generation_id r = g) (insert_marker row rows) =
   (if sm_generation_id row = g then insert_marker row (filter (\<lambda>r. sm_generation_id r = g) rows)
    else filter (\<lambda>r. sm_generation_id r = g) rows)"
  by (auto simp: insert_marker_def)

lemma insert_markers_filter:
  "\<forall>row\<in>set new. sm_generation_id row = h \<Longrightarrow>
   filter (\<lambda>r. sm_generation_id r = g) (fold insert_marker new rows) =
   (if h = g then fold insert_marker new (filter (\<lambda>r. sm_generation_id r = g) rows) else filter (\<lambda>r. sm_generation_id r = g) rows)"
  by (induction new arbitrary: rows) (auto simp: insert_marker_filter)

lemma insert_markers_generations:
  "sm_generation_id ` set (fold insert_marker new rows) \<subseteq> sm_generation_id ` set rows \<union> sm_generation_id ` set new"
proof (induction new arbitrary: rows)
  case (Cons row new)
  have "sm_generation_id ` set (insert_marker row rows) \<subseteq> insert (sm_generation_id row) (sm_generation_id ` set rows)"
    by (auto simp: insert_marker_def)
  then show ?case using Cons [of "insert_marker row rows"] by simp blast
qed simp

lemma marker_table_snoc:
  "marker_table C g (items @ [item]) = fold insert_marker (offered_markers C g 0 None (it_markers item)) (marker_table C g items)"
  by (simp add: marker_table_def)

lemma max_of_upper: "x \<in> set xs \<Longrightarrow> x \<le> max_of xs"
  by (induction xs) (auto simp: max_of_def)

lemma insert_item_keeps:
  assumes add: "insert_item C g item_no item d = Inr d'" and ok: "sql_ok C d"
    and exists: "g \<in> sg_generation_id ` set (sq_generations d)"
  shows "sql_ok C d'" and "sq_generations d' = sq_generations d" and "sq_pointed d' = sq_pointed d"
    and "holds_items C h items d \<Longrightarrow> holds_items C h (if h = g then items @ [item] else items) d'"
proof -
  obtain k where k: "instant_sort_key C (it_modified_at item) = Inr k" using add by (auto simp: insert_item_def ebind_Inr)
  let ?row = "item_row C g (next_row_id d) item_no k item"
  let ?new = "offered_markers C g 0 None (it_markers item)"
  have fresh: "\<not> (\<exists>r\<in>set (sq_items d). si_generation_id r = g \<and> si_item_id r = it_item_id item)"
    and d': "d' = d\<lparr>sq_items := sq_items d @ [?row], sq_item_markers := sq_item_markers d @ item_markers_of ?row,
      sq_markers := fold insert_marker ?new (sq_markers d), sq_fts := sq_fts d @ [fts_of C ?row]\<rparr>"
    using add k by (auto simp: insert_item_def Let_def add_item_markers_effect item_markers_of_def fts_of_def item_row_def split: if_splits)
  have "si_row_id r < next_row_id d" if "r \<in> set (sq_items d)" for r
    using that max_of_upper [of "si_row_id r" "map si_row_id (sq_items d)"] by (auto simp: next_row_id_def)
  moreover have "row_ok C ?row" using k by (simp add: row_ok_def item_row_def)
  moreover have "distinct (map si_item_id (generation_items h d'))" for h
    using ok fresh by (auto simp: sql_ok_def d' generation_items_def item_row_def)
  moreover have "sm_generation_id ` set (fold insert_marker ?new (sq_markers d)) \<subseteq> sg_generation_id ` set (sq_generations d)"
  proof -
    have "sm_generation_id ` set ?new \<subseteq> {g}" using offered_generation by blast
    moreover have "sm_generation_id ` set (sq_markers d) \<subseteq> sg_generation_id ` set (sq_generations d)" using ok by (simp add: sql_ok_def)
    ultimately have "sm_generation_id ` set (sq_markers d) \<union> sm_generation_id ` set ?new \<subseteq> sg_generation_id ` set (sq_generations d)"
      using exists by (meson Un_least empty_subsetI insert_subset subset_trans)
    with insert_markers_generations show ?thesis by (rule subset_trans)
  qed
  ultimately show "sql_ok C d'"
    using ok exists unfolding sql_ok_def by (simp add: d' sorted_wrt_append) (simp add: item_row_def)
  show "sq_generations d' = sq_generations d" "sq_pointed d' = sq_pointed d" by (simp_all add: d')
  have "filter (\<lambda>m. sm_generation_id m = h) (sq_markers d') =
      (if g = h then fold insert_marker ?new (filter (\<lambda>m. sm_generation_id m = h) (sq_markers d))
       else filter (\<lambda>m. sm_generation_id m = h) (sq_markers d))"
    using insert_markers_filter [of ?new g h "sq_markers d"] offered_generation by (simp add: d')
  then show "holds_items C h items d \<Longrightarrow> holds_items C h (if h = g then items @ [item] else items) d'"
    by (auto simp: holds_items_def marker_table_snoc generation_items_def d' item_row_def)
qed

lemma add_rows_keeps:
  assumes "add_rows C g n rows d = Inr d'" and "sql_ok C d" and "g \<in> sg_generation_id ` set (sq_generations d)"
  shows "sql_ok C d' \<and> sq_generations d' = sq_generations d \<and> sq_pointed d' = sq_pointed d \<and>
    (holds_items C h items d \<longrightarrow> holds_items C h (if h = g then items @ rows else items) d')"
  using assms
proof (induction rows arbitrary: n d items)
  case (Cons item rows)
  then obtain d1 where add: "insert_item C g n item d = Inr d1" and rest: "add_rows C g (Suc n) rows d1 = Inr d'"
    by (auto simp: ebind_Inr)
  note kept = insert_item_keeps [OF add Cons.prems(2,3)]
  show ?case
    using Cons.IH [OF rest kept(1), of "if h = g then items @ [item] else items"] Cons.prems(3) kept(2,3) kept(4) [of h items]
    by (auto split: if_splits)
qed auto

section \<open>States and deletions\<close>

lemma generation_row_set:
  "generation_row (set_states P state d) g = map_option (\<lambda>r. if P r then r\<lparr>sg_state := state\<rparr> else r) (generation_row d g)"
proof -
  have "find (\<lambda>r. sg_generation_id r = g) (map (\<lambda>r. if P r then r\<lparr>sg_state := state\<rparr> else r) gs) =
      map_option (\<lambda>r. if P r then r\<lparr>sg_state := state\<rparr> else r) (find (\<lambda>r. sg_generation_id r = g) gs)" for gs
    by (induction gs) auto
  then show ?thesis by (simp add: generation_row_def set_states_def)
qed

lemma generation_row_find: "generation_row d g = Some row \<Longrightarrow> row \<in> set (sq_generations d) \<and> sg_generation_id row = g"
  by (auto simp: generation_row_def find_Some_iff)

lemma generation_row_None: "generation_row d g = None \<longleftrightarrow> g \<notin> sg_generation_id ` set (sq_generations d)"
  by (auto simp: generation_row_def find_None_iff)

lemma generation_row_unique:
  "distinct (map sg_generation_id (sq_generations d)) \<Longrightarrow> row \<in> set (sq_generations d) \<Longrightarrow> generation_row d (sg_generation_id row) = Some row"
proof -
  have "distinct (map sg_generation_id gs) \<Longrightarrow> row \<in> set gs \<Longrightarrow> find (\<lambda>r. sg_generation_id r = sg_generation_id row) gs = Some row" for gs
    by (induction gs) force+
  then show "distinct (map sg_generation_id (sq_generations d)) \<Longrightarrow> row \<in> set (sq_generations d) \<Longrightarrow> generation_row d (sg_generation_id row) = Some row"
    by (simp add: generation_row_def)
qed

lemma set_states_keeps:
  "sql_ok C (set_states P state d) = sql_ok C d" "holds_items C g items (set_states P state d) = holds_items C g items d"
  "sq_pointed (set_states P state d) = sq_pointed d"
proof -
  have "map sg_generation_id (sq_generations (set_states P state d)) = map sg_generation_id (sq_generations d)"
    by (simp add: set_states_def comp_def)
  moreover from this have "sg_generation_id ` set (sq_generations (set_states P state d)) = sg_generation_id ` set (sq_generations d)"
    by (metis list.set_map)
  moreover have "sq_items (set_states P state d) = sq_items d" "sq_item_markers (set_states P state d) = sq_item_markers d"
      "sq_markers (set_states P state d) = sq_markers d" "sq_fts (set_states P state d) = sq_fts d"
    by (simp_all add: set_states_def)
  ultimately show "sql_ok C (set_states P state d) = sql_ok C d" "holds_items C g items (set_states P state d) = holds_items C g items d"
    by (simp_all add: sql_ok_def holds_items_def generation_items_def)
qed (simp add: set_states_def)

lemma create_keeps:
  assumes "create_generation now r g d = Inr d'" and ok: "sql_ok C d"
  shows "sql_ok C d'" and "holds_items C g [] d'" and "holds_items C h items d \<Longrightarrow> holds_items C h items d'"
    and "sq_pointed d' = sq_pointed d"
    and "generation_row d' h = (if h = g then Some \<lparr>sg_generation_id = g, sg_root_id = r, sg_state = BUILDING, sg_created_at = now\<rparr> else generation_row d h)"
proof -
  have new: "g \<notin> sg_generation_id ` set (sq_generations d)"
    and d': "d' = d\<lparr>sq_generations := sq_generations d @ [\<lparr>sg_generation_id = g, sg_root_id = r, sg_state = BUILDING, sg_created_at = now\<rparr>]\<rparr>"
    using assms(1) by (auto simp: create_generation_def generation_row_None split: if_splits)
  show "sql_ok C d'" using ok new unfolding sql_ok_def by (auto simp: d' generation_items_def)
  have "si_generation_id row \<noteq> g" if "row \<in> set (sq_items d)" for row using ok new that by (auto simp: sql_ok_def)
  moreover have "sm_generation_id m \<noteq> g" if "m \<in> set (sq_markers d)" for m using ok new that by (auto simp: sql_ok_def)
  ultimately show "holds_items C g [] d'" by (simp add: holds_items_def generation_items_def marker_table_def d' filter_empty_conv)
  show "holds_items C h items d \<Longrightarrow> holds_items C h items d'" "sq_pointed d' = sq_pointed d"
    by (simp_all add: holds_items_def generation_items_def d')
  have "find P (xs @ [x]) = (case find P xs of None \<Rightarrow> if P x then Some x else None | Some y \<Rightarrow> Some y)" for P :: "sql_generation \<Rightarrow> bool" and xs x
    by (induction xs) auto
  then show "generation_row d' h = (if h = g then Some \<lparr>sg_generation_id = g, sg_root_id = r, sg_state = BUILDING, sg_created_at = now\<rparr> else generation_row d h)"
    using generation_row_None [of d g] new by (cases "generation_row d h") (auto simp: generation_row_def d')
qed

lemma filter_concat_map:
  "\<forall>r. \<forall>x\<in>set (f r). P x = Q r \<Longrightarrow> filter P (concat (map f rs)) = concat (map f (filter Q rs))"
proof (induction rs)
  case (Cons r rs)
  then have "filter P (f r) = (if Q r then f r else [])" by (auto simp: filter_id_conv filter_empty_conv)
  with Cons show ?case by simp
qed simp

lemma sorted_filter_ids: "sorted_wrt (<) (map f xs) \<Longrightarrow> sorted_wrt (<) (map f (filter P xs))" for f :: "'a \<Rightarrow> nat"
  by (simp add: sorted_wrt_map sorted_wrt_filter)

text \<open>Removing the rows of one generation with everything derived from them.\<close>

lemma remove_rows:
  assumes ok: "sql_ok C d" and d': "sq_items d' = filter Q (sq_items d)"
    "sq_item_markers d' = filter M (sq_item_markers d)" "sq_fts d' = filter T (sq_fts d)"
    and M: "\<forall>row\<in>set (sq_items d). \<forall>m\<in>set (item_markers_of row). M m = Q row"
    and T: "\<forall>row\<in>set (sq_items d). T (fts_of C row) = Q row"
    and gens: "distinct (map sg_generation_id (sq_generations d'))"
      "si_generation_id ` set (filter Q (sq_items d)) \<subseteq> sg_generation_id ` set (sq_generations d')"
      "sm_generation_id ` set (sq_markers d') \<subseteq> sg_generation_id ` set (sq_generations d')"
  shows "sql_ok C d'"
proof -
  have "filter M (concat (map item_markers_of rows)) = concat (map item_markers_of (filter Q rows))" if "set rows \<subseteq> set (sq_items d)" for rows
    using that
  proof (induction rows)
    case (Cons r rows)
    then have "filter M (item_markers_of r) = (if Q r then item_markers_of r else [])" using M by (auto simp: filter_id_conv filter_empty_conv)
    with Cons show ?case by simp
  qed simp
  moreover have "filter T (map (fts_of C) rows) = map (fts_of C) (filter Q rows)" if "set rows \<subseteq> set (sq_items d)" for rows
    using that T by (induction rows) auto
  moreover have "distinct (map si_item_id (generation_items g d'))" for g
  proof -
    have "distinct (map si_item_id (generation_items g d))" using ok by (simp add: sql_ok_def)
    moreover have "generation_items g d' = filter Q (generation_items g d)" by (simp add: generation_items_def d' conj_commute)
    ultimately show ?thesis by (simp add: distinct_map_filter)
  qed
  ultimately show ?thesis using ok gens unfolding sql_ok_def by (auto simp: d' sorted_filter_ids list_all_iff)
qed

lemma delete_items_keeps:
  assumes ok: "sql_ok C d" and rows: "set rows \<subseteq> set (generation_items g d)"
  shows "sql_ok C (delete_items C g rows d)" and "h \<noteq> g \<Longrightarrow> holds_items C h items (delete_items C g rows d) = holds_items C h items d"
    and "generation_items g (delete_items C g rows d) = filter (\<lambda>r. r \<notin> set rows) (generation_items g d)"
proof -
  let ?d = "delete_items C g rows d" and ?R = "set (map si_row_id rows)"
  have inj: "a = b" if "a \<in> set (sq_items d)" "b \<in> set (sq_items d)" "si_row_id a = si_row_id b" for a b
    using ok that by (meson distinct_map inj_onD sql_ok_def strict_sorted_iff)
  have members: "r \<in> set (sq_items d) \<and> si_generation_id r = g" if "r \<in> set rows" for r
    using rows that by (auto simp: generation_items_def)
  show "sql_ok C ?d"
    by (rule remove_rows [OF ok, where Q = "\<lambda>r. si_row_id r \<notin> ?R"])
      (use ok in \<open>auto simp: delete_items_def item_markers_of_def fts_of_def sql_ok_def\<close>)
  have same: "generation_items h ?d = generation_items h d" if "h \<noteq> g" for h
  proof -
    have "si_row_id r \<notin> ?R" if "r \<in> set (sq_items d)" "si_generation_id r = h" for r
      using that \<open>h \<noteq> g\<close> inj members by (metis (no_types, lifting) image_iff list.set_map)
    then show ?thesis unfolding generation_items_def delete_items_def by (auto intro: filter_cong)
  qed
  show "h \<noteq> g \<Longrightarrow> holds_items C h items ?d = holds_items C h items d" unfolding holds_items_def same by (simp add: delete_items_def)
  have "si_row_id r \<notin> ?R \<longleftrightarrow> r \<notin> set rows" if "r \<in> set (sq_items d)" for r using that inj members by auto
  then show "generation_items g ?d = filter (\<lambda>r. r \<notin> set rows) (generation_items g d)"
    unfolding generation_items_def delete_items_def by (auto intro: filter_cong)
qed

lemma filter_other: "h \<noteq> g \<Longrightarrow> filter (\<lambda>x. f x \<noteq> g \<and> f x = h) xs = filter (\<lambda>x. f x = h) xs"
  by (auto intro: filter_cong)

lemma drop_keeps:
  assumes ok: "sql_ok C d" and none: "generation_items g d = []"
  shows "sql_ok C (drop_generation g d)" and "h \<noteq> g \<Longrightarrow> holds_items C h items (drop_generation g d) = holds_items C h items d"
    and "h \<noteq> g \<Longrightarrow> generation_row (drop_generation g d) h = generation_row d h" and "generation_row (drop_generation g d) g = None"
proof -
  have empty: "si_generation_id r \<noteq> g" if "r \<in> set (sq_items d)" for r using none that by (auto simp: generation_items_def filter_empty_conv)
  have fts: "sq_fts (drop_generation g d) = filter (\<lambda>f. True) (sq_fts d)" by (simp add: drop_generation_def)
  have ids: "sg_generation_id ` set (sq_generations (drop_generation g d)) = sg_generation_id ` set (sq_generations d) - {g}"
    by (auto simp: drop_generation_def)
  have "si_generation_id ` set (sq_items d) \<subseteq> sg_generation_id ` set (sq_generations d) - {g}"
      "sm_generation_id ` set (sq_markers (drop_generation g d)) \<subseteq> sg_generation_id ` set (sq_generations d) - {g}"
    using ok empty by (auto simp: sql_ok_def drop_generation_def)
  with ids show "sql_ok C (drop_generation g d)"
    by (intro remove_rows [OF ok _ _ fts, where Q = "\<lambda>r. si_generation_id r \<noteq> g" and M = "\<lambda>m. im_generation_id m \<noteq> g"])
      (use ok empty in \<open>auto simp: drop_generation_def item_markers_of_def sql_ok_def distinct_map_filter\<close>)
  show "h \<noteq> g \<Longrightarrow> holds_items C h items (drop_generation g d) = holds_items C h items d"
    by (simp add: holds_items_def generation_items_def drop_generation_def filter_other)
  have "h \<noteq> g \<Longrightarrow> find (\<lambda>r. sg_generation_id r = h) (filter (\<lambda>r. sg_generation_id r \<noteq> g) gs) = find (\<lambda>r. sg_generation_id r = h) gs" for gs
    by (induction gs) auto
  then show "h \<noteq> g \<Longrightarrow> generation_row (drop_generation g d) h = generation_row d h" by (simp add: generation_row_def drop_generation_def)
  show "generation_row (drop_generation g d) g = None" by (auto simp: generation_row_None drop_generation_def)
qed

lemma sort_key_empty: "sort_key f xs = [] \<longleftrightarrow> xs = []"
  by (metis length_0_conv length_sort)

text \<open>The three ways a deletion step succeeds.\<close>

lemma delete_generation_cases:
  assumes "delete_generation C g n d = Inr (finished, d')"
  obtains "0 < n" "generation_row d g = None" "finished" "d' = d"
    | row where "0 < n" "generation_row d g = Some row" "sg_state row \<noteq> ACTIVE" "g \<notin> set (sq_pointed d)" "generation_items g d \<noteq> []" "\<not> finished"
        "d' = delete_items C g (take n (sort_key si_row_id (generation_items g d))) d"
    | row where "0 < n" "generation_row d g = Some row" "sg_state row \<noteq> ACTIVE" "g \<notin> set (sq_pointed d)" "generation_items g d = []" "finished"
        "d' = drop_generation g d"
  using assms unfolding delete_generation_def generation_items_def [symmetric] Let_def
  by (auto simp: sort_key_empty split: option.splits if_splits)

lemma delete_generation_keeps:
  assumes del: "delete_generation C g n d = Inr (finished, d')" and ok: "sql_ok C d"
  shows "sql_ok C d'" and "sq_pointed d' = sq_pointed d"
    and "h \<noteq> g \<Longrightarrow> holds_items C h items d' = holds_items C h items d"
    and "h \<noteq> g \<Longrightarrow> generation_row d' h = generation_row d h"
    and "set (sq_generations d') \<subseteq> set (sq_generations d)"
proof -
  have sub: "set (take n (sort_key si_row_id (generation_items g d))) \<subseteq> set (generation_items g d)" by (metis set_sort set_take_subset)
  from del show "sql_ok C d'"
    by (cases rule: delete_generation_cases) (use ok drop_keeps(1) [OF ok] delete_items_keeps(1) [OF ok sub] in simp_all)
  from del show "sq_pointed d' = sq_pointed d"
    by (cases rule: delete_generation_cases) (simp_all add: delete_items_def drop_generation_def)
  from del show "h \<noteq> g \<Longrightarrow> holds_items C h items d' = holds_items C h items d"
    by (cases rule: delete_generation_cases) (use drop_keeps(2) [OF ok] delete_items_keeps(2) [OF ok sub] in simp_all)
  from del show "h \<noteq> g \<Longrightarrow> generation_row d' h = generation_row d h"
    by (cases rule: delete_generation_cases) (use drop_keeps(3) [OF ok] in \<open>simp_all add: delete_items_def generation_row_def\<close>)
  from del show "set (sq_generations d') \<subseteq> set (sq_generations d)"
    by (cases rule: delete_generation_cases) (auto simp: delete_items_def drop_generation_def)
qed

lemma collect_stale_keeps:
  "collect_stale C gs d = Inr (n, d') \<Longrightarrow> sql_ok C d \<Longrightarrow>
   sql_ok C d' \<and> sq_pointed d' = sq_pointed d \<and> set (sq_generations d') \<subseteq> set (sq_generations d) \<and>
   (h \<notin> set gs \<longrightarrow> holds_items C h items d' = holds_items C h items d \<and> generation_row d' h = generation_row d h)"
proof (induction gs arbitrary: d n)
  case (Cons g gs)
  then obtain finished d1 m where del: "delete_generation C g 1000 d = Inr (finished, d1)" and rest: "collect_stale C gs d1 = Inr (m, d')"
    by (auto simp: ebind_Inr)
  note kept = delete_generation_keeps [OF del Cons.prems(2)]
  show ?case using Cons.IH [OF rest kept(1)] kept(2,5) kept(3,4) [of h] by auto
qed auto

section \<open>Every operation\<close>

definition one_active :: "sql_db \<Rightarrow> bool" where
  "one_active d \<longleftrightarrow>
     (\<forall>a\<in>set (sq_generations d). \<forall>b\<in>set (sq_generations d).
        sg_state a = ACTIVE \<longrightarrow> sg_state b = ACTIVE \<longrightarrow> sg_root_id a = sg_root_id b \<longrightarrow> a = b)"

lemma one_active_subset: "set (sq_generations d') \<subseteq> set (sq_generations d) \<Longrightarrow> one_active d \<Longrightarrow> one_active d'"
  unfolding one_active_def by blast

lemma set_states_rows: "set (sq_generations (set_states P state d)) = (\<lambda>g. if P g then g\<lparr>sg_state := state\<rparr> else g) ` set (sq_generations d)"
  by (simp add: set_states_def)

lemma activate_rows:
  assumes act: "activate_generation g d = Inr d'" and ok: "distinct (map sg_generation_id (sq_generations d))"
  obtains row where "generation_row d g = Some row" "sg_state row = READY"
    "set (sq_generations d') = (\<lambda>a. if a = row then a\<lparr>sg_state := ACTIVE\<rparr>
       else if sg_root_id a = sg_root_id row \<and> sg_state a = ACTIVE then a\<lparr>sg_state := READY\<rparr> else a) ` set (sq_generations d)"
proof -
  obtain row where row: "generation_row d g = Some row" "sg_state row = READY"
    and d': "d' = set_states (\<lambda>a. sg_generation_id a = g) ACTIVE (set_states (\<lambda>a. sg_root_id a = sg_root_id row \<and> sg_state a = ACTIVE) READY d)"
    using act by (auto simp: activate_generation_def split: option.splits if_splits)
  have "sg_generation_id a = g \<longleftrightarrow> a = row" if "a \<in> set (sq_generations d)" for a
    using generation_row_unique [OF ok that] generation_row_find [OF row(1)] row(1) by (metis option.inject)
  then have "set (sq_generations d') = (\<lambda>a. if a = row then a\<lparr>sg_state := ACTIVE\<rparr>
       else if sg_root_id a = sg_root_id row \<and> sg_state a = ACTIVE then a\<lparr>sg_state := READY\<rparr> else a) ` set (sq_generations d)"
    unfolding d' set_states_rows image_image using row(2) by (intro image_cong) auto
  with row show ?thesis by (rule that)
qed

lemma activate_one:
  assumes act: "activate_generation g d = Inr d'" and ok: "distinct (map sg_generation_id (sq_generations d))" and one: "one_active d"
  shows "one_active d'"
proof -
  obtain row where row: "generation_row d g = Some row"
    and rows: "set (sq_generations d') = (\<lambda>a. if a = row then a\<lparr>sg_state := ACTIVE\<rparr>
       else if sg_root_id a = sg_root_id row \<and> sg_state a = ACTIVE then a\<lparr>sg_state := READY\<rparr> else a) ` set (sq_generations d)"
    using activate_rows [OF act ok] .
  show ?thesis unfolding one_active_def rows ball_simps
    using one by (auto simp: one_active_def)
qed

lemma apply_op_keeps:
  assumes op: "apply_op C op d = Inr d'" and ok: "sql_ok C d"
  shows "sql_ok C d'" and "one_active d \<Longrightarrow> one_active d'"
proof -
  have "sql_ok C d' \<and> (one_active d \<longrightarrow> one_active d')"
  proof (cases op)
    case (Create_op now r g)
    then have c: "create_generation now r g d = Inr d'" using op by (simp add: apply_op_def)
    then have "sq_generations d' = sq_generations d @ [\<lparr>sg_generation_id = g, sg_root_id = r, sg_state = BUILDING, sg_created_at = now\<rparr>]"
      by (auto simp: create_generation_def split: if_splits)
    then show ?thesis using create_keeps(1) [OF c ok] by (auto simp: one_active_def)
  next
    case (Add_op g rows)
    then obtain row where "generation_row d g = Some row" and add: "add_rows C g (next_item_no g d) rows d = Inr d'"
      using op by (auto simp: apply_op_def add_items_def map_sum_Inr ebind_Inr split: option.splits if_splits)
    then have "g \<in> sg_generation_id ` set (sq_generations d)" using generation_row_None [of d g] by auto
    from add_rows_keeps [OF add ok this] show ?thesis by (auto simp: one_active_def)
  next
    case (Finish_op g)
    then have d': "d' = set_states (\<lambda>a. sg_generation_id a = g \<and> sg_state a = BUILDING) READY d"
      using op by (auto simp: apply_op_def finish_generation_def Let_def split: if_splits)
    have "one_active d \<longrightarrow> one_active d'" unfolding d' one_active_def set_states_rows ball_simps by (auto split: if_splits)
    then show ?thesis using ok by (simp add: d' set_states_keeps)
  next
    case (Activate_op g)
    then have act: "activate_generation g d = Inr d'" using op by (simp add: apply_op_def)
    then have "sql_ok C d'" using ok by (auto simp: activate_generation_def set_states_keeps split: option.splits if_splits)
    moreover have "distinct (map sg_generation_id (sq_generations d))" using ok by (simp add: sql_ok_def)
    ultimately show ?thesis using activate_one [OF act] by simp
  next
    case (Delete_op g n)
    then obtain finished where "delete_generation C g n d = Inr (finished, d')"
      using op by (auto simp: apply_op_def map_sum_Inr)
    from delete_generation_keeps(1,5) [OF this ok] show ?thesis using one_active_subset by blast
  next
    case (Collect_op r keep)
    then obtain n where "garbage_collect C r keep d = Inr (n, d')" using op by (auto simp: apply_op_def map_sum_Inr)
    then have "sql_ok C d' \<and> set (sq_generations d') \<subseteq> set (sq_generations d)"
      unfolding garbage_collect_def using collect_stale_keeps ok by blast
    then show ?thesis using one_active_subset by blast
  next
    case (Point_op gs)
    then have "d' = d\<lparr>sq_pointed := gs\<rparr>" using op by (simp add: apply_op_def)
    then show ?thesis using ok by (simp add: sql_ok_def one_active_def generation_items_def)
  qed
  then show "sql_ok C d'" "one_active d \<Longrightarrow> one_active d'" by simp_all
qed

lemma empty_sql_ok: "sql_ok C empty_sql" "one_active empty_sql"
  by (simp_all add: empty_sql_def sql_ok_def one_active_def generation_items_def)

lemma try_ops_keeps: "sql_ok C d \<Longrightarrow> sql_ok C (try_ops C ops d) \<and> (one_active d \<longrightarrow> one_active (try_ops C ops d))"
proof (induction ops arbitrary: d)
  case (Cons op ops)
  have "sql_ok C (try_op C op d) \<and> (one_active d \<longrightarrow> one_active (try_op C op d))"
    using apply_op_keeps [of C op d] Cons.prems by (simp add: try_op_def split: sum.split)
  then show ?case using Cons.IH [of "try_op C op d"] by (simp add: try_ops_def)
qed (simp add: try_ops_def)

lemma filter_image_one: "(\<And>a. P (f a) \<longleftrightarrow> a = x) \<Longrightarrow> x \<in> S \<Longrightarrow> {b \<in> f ` S. P b} = {f x}"
  by auto

lemma filter_image_same: "(\<And>a. r (f a) = r a) \<Longrightarrow> (\<And>a. r a \<noteq> k \<Longrightarrow> f a = a) \<Longrightarrow> {b \<in> f ` S. r b \<noteq> k} = {a \<in> S. r a \<noteq> k}"
  by (auto simp: image_iff) metis

text \<open>
  C21: After any sequence of operations, those that fail included, a root has at most one active
  generation; a further activation that succeeds makes the generation the active one of its root, every other
  generation of the root inactive, and leaves the other roots as they were.
\<close>

theorem one_active_generation:
  assumes "d = try_ops C ops empty_sql"
  shows "one_active d \<and>
    (\<forall>g d'. activate_generation g d = Inr d' \<longrightarrow>
       (\<exists>row\<in>set (sq_generations d). sg_generation_id row = g \<and> sg_state row = READY \<and>
          {a \<in> set (sq_generations d'). sg_state a = ACTIVE \<and> sg_root_id a = sg_root_id row} = {row\<lparr>sg_state := ACTIVE\<rparr>} \<and>
          {a \<in> set (sq_generations d'). sg_root_id a \<noteq> sg_root_id row} = {a \<in> set (sq_generations d). sg_root_id a \<noteq> sg_root_id row}))"
proof (intro conjI allI impI)
  have d: "sql_ok C d" "one_active d" using try_ops_keeps [of C empty_sql ops] empty_sql_ok assms by simp_all
  show "one_active d" by (rule d)
  fix g d'
  assume act: "activate_generation g d = Inr d'"
  from d(1) have "distinct (map sg_generation_id (sq_generations d))" by (simp add: sql_ok_def)
  then obtain row where row: "generation_row d g = Some row" "sg_state row = READY"
    and rows: "set (sq_generations d') = (\<lambda>a. if a = row then a\<lparr>sg_state := ACTIVE\<rparr>
       else if sg_root_id a = sg_root_id row \<and> sg_state a = ACTIVE then a\<lparr>sg_state := READY\<rparr> else a) ` set (sq_generations d)"
    using activate_rows [OF act] by blast
  let ?f = "\<lambda>a. if a = row then a\<lparr>sg_state := ACTIVE\<rparr>
       else if sg_root_id a = sg_root_id row \<and> sg_state a = ACTIVE then a\<lparr>sg_state := READY\<rparr> else a"
  have mem: "row \<in> set (sq_generations d)" "sg_generation_id row = g" using generation_row_find [OF row(1)] by simp_all
  have active: "sg_state (?f a) = ACTIVE \<and> sg_root_id (?f a) = sg_root_id row \<longleftrightarrow> a = row" for a by auto
  have other: "?f a = a" if "sg_root_id a \<noteq> sg_root_id row" for a using that by auto
  have root: "sg_root_id (?f a) = sg_root_id a" for a by simp
  have "{a \<in> set (sq_generations d'). sg_state a = ACTIVE \<and> sg_root_id a = sg_root_id row} = {?f row}"
    unfolding rows by (rule filter_image_one [where f = ?f and P = "\<lambda>a. sg_state a = ACTIVE \<and> sg_root_id a = sg_root_id row", OF active mem(1)])
  moreover have "{a \<in> set (sq_generations d'). sg_root_id a \<noteq> sg_root_id row} = {a \<in> set (sq_generations d). sg_root_id a \<noteq> sg_root_id row}"
    unfolding rows by (rule filter_image_same [where f = ?f and r = sg_root_id and k = "sg_root_id row", OF root other])
  ultimately show "\<exists>row\<in>set (sq_generations d). sg_generation_id row = g \<and> sg_state row = READY \<and>
          {a \<in> set (sq_generations d'). sg_state a = ACTIVE \<and> sg_root_id a = sg_root_id row} = {row\<lparr>sg_state := ACTIVE\<rparr>} \<and>
          {a \<in> set (sq_generations d'). sg_root_id a \<noteq> sg_root_id row} = {a \<in> set (sq_generations d). sg_root_id a \<noteq> sg_root_id row}"
    using mem row(2) by auto
qed

definition two_generations :: "sql_op list" where
  "two_generations = [Create_op [] (lit ''r'') (lit ''a''), Finish_op (lit ''a''), Activate_op (lit ''a''),
     Create_op [] (lit ''r'') (lit ''b''), Activate_op (lit ''b''), Finish_op (lit ''b'')]"

lemma one_active_generation_witness:
  "\<exists>d. activate_generation (lit ''b'') (try_ops sample_chars two_generations empty_sql) = Inr d \<and>
     map sg_state (sq_generations (try_ops sample_chars two_generations empty_sql)) = [ACTIVE, READY] \<and>
     (\<exists>row. sg_generation_id row = lit ''b'' \<and>
        {a \<in> set (sq_generations d). sg_state a = ACTIVE \<and> sg_root_id a = sg_root_id row} = {row\<lparr>sg_state := ACTIVE\<rparr>})"
proof -
  let ?d = "try_ops sample_chars two_generations empty_sql"
  have states: "map sg_state (sq_generations ?d) = [ACTIVE, READY]" by code_simp
  have "(case activate_generation (lit ''b'') ?d of Inl e \<Rightarrow> False | Inr d \<Rightarrow> True)" by code_simp
  then obtain d where act: "activate_generation (lit ''b'') ?d = Inr d" by (cases "activate_generation (lit ''b'') ?d") auto
  from act one_active_generation [OF refl, of sample_chars two_generations]
  obtain row where "sg_generation_id row = lit ''b''"
    and "{a \<in> set (sq_generations d). sg_state a = ACTIVE \<and> sg_root_id a = sg_root_id row} = {row\<lparr>sg_state := ACTIVE\<rparr>}" by blast
  with act states show ?thesis by (intro exI conjI)
qed

section \<open>A generation that is kept\<close>

definition spares :: "ustr \<Rightarrow> sql_op \<Rightarrow> bool" where
  "spares g op \<longleftrightarrow> (case op of Delete_op h _ \<Rightarrow> h \<noteq> g | Collect_op _ keep \<Rightarrow> keep = g | _ \<Rightarrow> True)"

definition open_generation :: "chars \<Rightarrow> ustr \<Rightarrow> ustr \<Rightarrow> search_item list \<Rightarrow> sql_db \<Rightarrow> bool" where
  "open_generation C g r items d \<longleftrightarrow>
     sql_ok C d \<and> holds_items C g items d \<and>
     (\<exists>row. generation_row d g = Some row \<and> sg_root_id row = r \<and> sg_state row \<in> {READY, ACTIVE})"

lemma open_generation_op:
  assumes op: "apply_op C op d = Inr d'" and "spares g op" and opened: "open_generation C g r items d"
  shows "open_generation C g r items d'"
proof -
  from opened obtain row where ok: "sql_ok C d" and holds: "holds_items C g items d"
    and row: "generation_row d g = Some row" "sg_root_id row = r" "sg_state row \<in> {READY, ACTIVE}"
    by (auto simp: open_generation_def)
  have ok': "sql_ok C d'" by (rule apply_op_keeps(1) [OF op ok])
  have "holds_items C g items d' \<and> (\<exists>row. generation_row d' g = Some row \<and> sg_root_id row = r \<and> sg_state row \<in> {READY, ACTIVE})"
  proof (cases op)
    case (Create_op now root h)
    then have c: "create_generation now root h d = Inr d'" using op by (simp add: apply_op_def)
    then have "h \<noteq> g" using row(1) by (auto simp: create_generation_def)
    then show ?thesis using create_keeps(3) [OF c ok holds] create_keeps(5) [OF c ok, of g] row by simp
  next
    case (Add_op h rows)
    then obtain hrow where h: "generation_row d h = Some hrow" "sg_state hrow = BUILDING"
        and add: "add_rows C h (next_item_no h d) rows d = Inr d'"
      using op by (auto simp: apply_op_def add_items_def map_sum_Inr ebind_Inr split: option.splits if_splits)
    then have "h \<in> sg_generation_id ` set (sq_generations d)" "g \<noteq> h" using generation_row_None [of d h] row by auto
    with add_rows_keeps [OF add ok, of g items] show ?thesis using holds row by (simp add: generation_row_def)
  next
    case (Finish_op h)
    then have "d' = set_states (\<lambda>a. sg_generation_id a = h \<and> sg_state a = BUILDING) READY d"
      using op by (auto simp: apply_op_def finish_generation_def Let_def split: if_splits)
    then show ?thesis using holds row by (auto simp: set_states_keeps generation_row_set)
  next
    case (Activate_op h)
    then show ?thesis using op holds row
      by (auto simp: apply_op_def activate_generation_def set_states_keeps generation_row_set split: option.splits if_splits)
  next
    case (Delete_op h n)
    then obtain finished where del: "delete_generation C h n d = Inr (finished, d')" and "g \<noteq> h"
      using op assms(2) by (auto simp: apply_op_def map_sum_Inr spares_def)
    then show ?thesis using delete_generation_keeps(3,4) [OF del ok] holds row by simp
  next
    case (Collect_op root keep)
    then obtain n where "garbage_collect C root g d = Inr (n, d')" using op assms(2) by (auto simp: apply_op_def map_sum_Inr spares_def)
    then show ?thesis unfolding garbage_collect_def using collect_stale_keeps [OF _ ok, of _ n d' g items] holds row by fastforce
  next
    case (Point_op gs)
    then show ?thesis using op holds row by (auto simp: apply_op_def holds_items_def generation_items_def generation_row_def)
  qed
  with ok' show ?thesis by (simp add: open_generation_def)
qed

lemma open_generation_ops:
  "list_all (spares g) ops \<Longrightarrow> open_generation C g r items d \<Longrightarrow> open_generation C g r items (try_ops C ops d)"
proof (induction ops arbitrary: d)
  case (Cons op ops)
  then have "open_generation C g r items (try_op C op d)" using open_generation_op by (auto simp: try_op_def split: sum.split)
  then show ?case using Cons by (simp add: try_ops_def)
qed (simp add: try_ops_def)

text \<open>Creating a generation, adding batches and finishing it.\<close>

definition build_ops :: "ustr \<Rightarrow> ustr \<Rightarrow> ustr \<Rightarrow> search_item list list \<Rightarrow> sql_op list" where
  "build_ops now r g batches = Create_op now r g # map (Add_op g) batches @ [Finish_op g]"

lemma apply_ops_append: "apply_ops C (xs @ ys) d = ebind (apply_ops C xs d) (apply_ops C ys)"
  by (induction xs arbitrary: d) (auto simp: ebind_def split: sum.split)

lemma add_batches:
  "apply_ops C (map (Add_op g) batches) d = Inr d' \<Longrightarrow> sql_ok C d \<Longrightarrow> holds_items C g items d \<Longrightarrow>
   sql_ok C d' \<and> holds_items C g (items @ concat batches) d' \<and> sq_generations d' = sq_generations d"
proof (induction batches arbitrary: d items)
  case (Cons rows batches)
  then obtain d1 where one: "apply_op C (Add_op g rows) d = Inr d1" and rest: "apply_ops C (map (Add_op g) batches) d1 = Inr d'"
    by (auto simp: ebind_Inr)
  then obtain row where "generation_row d g = Some row" and add: "add_rows C g (next_item_no g d) rows d = Inr d1"
    by (auto simp: apply_op_def add_items_def map_sum_Inr ebind_Inr split: option.splits if_splits)
  then have "g \<in> sg_generation_id ` set (sq_generations d)" using generation_row_None [of d g] by auto
  from add_rows_keeps [OF add Cons.prems(2) this, of g items] Cons.prems(3)
  show ?case using Cons.IH [OF rest, of "items @ rows"] by simp
qed simp

lemma build_opens:
  assumes "apply_ops C (build_ops now r g batches) d = Inr d'" and ok: "sql_ok C d"
  shows "open_generation C g r (concat batches) d'"
proof -
  from assms obtain d1 d2 where create: "create_generation now r g d = Inr d1"
      and batches: "apply_ops C (map (Add_op g) batches) d1 = Inr d2" and finish: "finish_generation g d2 = Inr d'"
    by (auto simp: build_ops_def ebind_Inr apply_ops_append apply_op_def)
  note c = create_keeps [OF create ok]
  have b: "sql_ok C d2" "holds_items C g (concat batches) d2" "generation_row d2 g = generation_row d1 g"
    using add_batches [OF batches c(1,2)] by (simp_all add: generation_row_def)
  have d': "d' = set_states (\<lambda>a. sg_generation_id a = g \<and> sg_state a = BUILDING) READY d2"
    using finish by (auto simp: finish_generation_def Let_def split: if_splits)
  show ?thesis using b c(5) [of g] by (simp add: open_generation_def d' set_states_keeps generation_row_set)
qed

end
