(* ===== verification/Sql_Match.thy ===== *)
theory Sql_Match
  imports Sql_Generations
begin

text \<open>
  The scores of the full-text queries are those of \<open>_matches_and_score\<close>: the words of a stored row are the
  encoded tokens of the item's fields, a sentinel between the markers of one column.
\<close>

section \<open>Tables of scores\<close>

text \<open>A table with one row for a row id, read as a function.\<close>

definition score_at :: "scores \<Rightarrow> nat \<Rightarrow> nat option" where
  "score_at rows i = (case scores_of rows i of [] \<Rightarrow> None | s # _ \<Rightarrow> Some s)"

lemma scores_of_simps [simp]:
  "scores_of [] i = []" "scores_of (r # rows) i = (if fst r = i then snd r # scores_of rows i else scores_of rows i)"
  "scores_of (xs @ ys) i = scores_of xs i @ scores_of ys i"
  by (simp_all add: scores_of_def)

lemma scores_of_empty: "scores_of rows i = [] \<longleftrightarrow> i \<notin> fst ` set rows"
  by (induction rows) auto

lemma scores_of_keys: "distinct ks \<Longrightarrow> scores_of (map (\<lambda>k. (k, f k)) ks) i = (if i \<in> set ks then [f i] else [])"
  by (induction ks) auto

lemma distinct_scores: "distinct (map fst rows) \<Longrightarrow> scores_of rows i = (case score_at rows i of None \<Rightarrow> [] | Some s \<Rightarrow> [s])"
proof (induction rows)
  case (Cons r rows)
  then show ?case by (cases "fst r = i") (auto simp: score_at_def scores_of_empty)
qed (simp add: score_at_def)

lemma group_max_distinct: "distinct (map fst (group_max rows))"
  by (simp add: group_max_def comp_def)

lemma group_max_at: "score_at (group_max rows) i = (if scores_of rows i = [] then None else Some (max_of (scores_of rows i)))"
  unfolding group_max_def score_at_def by (subst scores_of_keys) (auto simp: scores_of_empty)

definition add_options :: "nat option \<Rightarrow> nat option \<Rightarrow> nat option" where
  "add_options a b = (case a of None \<Rightarrow> None | Some x \<Rightarrow> map_option ((+) x) b)"

lemma scores_of_join:
  "scores_of (join_scores xs ys) i = concat (map (\<lambda>a. map ((+) a) (scores_of ys i)) (scores_of xs i))"
proof (induction xs)
  case (Cons x xs)
  obtain j a where x: "x = (j, a)" by (cases x)
  have "scores_of (map (\<lambda>r. (j, a + snd r)) (filter (\<lambda>r. fst r = j) ys)) i = (if j = i then map ((+) a) (scores_of ys i) else [])"
    by (induction ys) auto
  moreover have "join_scores (x # xs) ys = map (\<lambda>r. (j, a + snd r)) (filter (\<lambda>r. fst r = j) ys) @ join_scores xs ys"
    by (simp add: join_scores_def x case_prod_beta)
  ultimately show ?case using Cons x by simp
qed (simp add: join_scores_def)

lemma join_at:
  assumes "distinct (map fst xs)" "distinct (map fst ys)"
  shows "distinct (map fst (join_scores xs ys))" and "score_at (join_scores xs ys) i = add_options (score_at xs i) (score_at ys i)"
proof -
  have one: "length (scores_of (join_scores xs ys) i) \<le> 1" for i
    using distinct_scores [OF assms(1), of i] distinct_scores [OF assms(2), of i] by (simp add: scores_of_join split: option.splits)
  have "(\<forall>i. length (scores_of rows i) \<le> 1) \<Longrightarrow> distinct (map fst rows)" for rows
  proof (induction rows)
    case (Cons r rows)
    have "length (scores_of (r # rows) i) \<le> 1" for i using Cons.prems by blast
    then have "length (scores_of rows i) \<le> 1" for i by (metis impossible_Cons linear order_trans scores_of_simps(2) length_0_conv le0)
    moreover have "scores_of rows (fst r) = []" using spec [OF Cons.prems, of "fst r"] by simp
    ultimately show ?case using Cons.IH by (simp add: scores_of_empty)
  qed simp
  with one show "distinct (map fst (join_scores xs ys))" by blast
  show "score_at (join_scores xs ys) i = add_options (score_at xs i) (score_at ys i)"
    using distinct_scores [OF assms(1), of i] distinct_scores [OF assms(2), of i]
    by (simp add: score_at_def [of "join_scores xs ys"] scores_of_join add_options_def split: option.splits)
qed

text \<open>All tables together: the sum, when each has a score.\<close>

fun sum_scores :: "nat option list \<Rightarrow> nat option" where
  "sum_scores [] = Some 0"
| "sum_scores (a # as) = add_options a (sum_scores as)"

lemma add_options_assoc: "add_options (add_options a b) c = add_options a (add_options b c)"
  by (cases a; cases b; cases c) (simp_all add: add_options_def)

lemma add_options_zero [simp]: "add_options a (Some 0) = a"
  by (cases a) (simp_all add: add_options_def)

lemma fold_join:
  "distinct (map fst xs) \<Longrightarrow> \<forall>t\<in>set ts. distinct (map fst t) \<Longrightarrow>
   distinct (map fst (foldl join_scores xs ts)) \<and> score_at (foldl join_scores xs ts) i = sum_scores (map (\<lambda>t. score_at t i) (xs # ts))"
proof (induction ts arbitrary: xs)
  case (Cons t ts)
  then show ?case using Cons.IH [of "join_scores xs t"] join_at [of xs t] by (simp add: add_options_assoc)
qed simp

lemma concat_scores:
  "\<forall>t\<in>set ts. distinct (map fst t) \<Longrightarrow>
   length (scores_of (concat ts) i) \<le> length ts \<and>
   sum_scores (map (\<lambda>t. score_at t i) ts) =
     (if length (scores_of (concat ts) i) = length ts then Some (sum_list (scores_of (concat ts) i)) else None)"
proof (induction ts)
  case (Cons t ts)
  then show ?case using distinct_scores [of t i]
    by (cases "score_at t i") (auto simp: add_options_def)
qed simp

lemma group_sum_at:
  assumes "\<forall>t\<in>set ts. distinct (map fst t)" and "ts \<noteq> []"
  shows "distinct (map fst (group_sum (length ts) (concat ts)))"
    and "score_at (group_sum (length ts) (concat ts)) i = sum_scores (map (\<lambda>t. score_at t i) ts)"
proof -
  show "distinct (map fst (group_sum (length ts) (concat ts)))" by (simp add: group_sum_def comp_def)
  have "length (scores_of (concat ts) i) \<noteq> length ts" if "i \<notin> fst ` set (concat ts)"
    using that assms(2) scores_of_empty [of "concat ts" i] by simp
  then have "score_at (group_sum (length ts) (concat ts)) i =
      (if length (scores_of (concat ts) i) = length ts then Some (sum_list (scores_of (concat ts) i)) else None)"
    unfolding group_sum_def score_at_def by (subst scores_of_keys) auto
  then show "score_at (group_sum (length ts) (concat ts)) i = sum_scores (map (\<lambda>t. score_at t i) ts)"
    using concat_scores [OF assms(1), of i] by simp
qed

section \<open>Words\<close>

lemma split_on_words:
  "ws \<noteq> [] \<Longrightarrow> \<forall>w\<in>set ws. c \<notin> set w \<Longrightarrow> split_on c (join_with c ws @ c # s) = ws @ split_on c s"
proof (induction c ws rule: join_with.induct)
  case (2 c p)
  then show ?case by (simp add: split_on_append)
next
  case (3 c p q ps)
  then show ?case using split_on_append [of c p "join_with c (q # ps) @ c # s"] by simp
qed simp

lemma words_join: "\<forall>w\<in>set ws. w \<noteq> [] \<and> 32 \<notin> set w \<Longrightarrow> words (join_with 32 ws) = ws"
  by (cases "ws = []") (simp_all add: words_def split_join filter_id_conv)

lemma words_append: "ws \<noteq> [] \<Longrightarrow> \<forall>w\<in>set ws. w \<noteq> [] \<and> 32 \<notin> set w \<Longrightarrow> words (join_with 32 ws @ 32 # s) = ws @ words s"
  by (simp add: words_def split_on_words filter_id_conv)

lemma words_sentinel: "words (sentinel @ 32 # s) = sentinel # words s"
  by (simp add: words_def sentinel_def)

text \<open>The words of one column: those of its streams, with a sentinel in between.\<close>

fun with_sentinels :: "ustr list list \<Rightarrow> ustr list" where
  "with_sentinels [] = []"
| "with_sentinels [t] = t"
| "with_sentinels (t # ts) = t @ sentinel # with_sentinels ts"

lemma words_column:
  "\<forall>t\<in>set ts. t \<noteq> [] \<and> (\<forall>w\<in>set t. w \<noteq> [] \<and> 32 \<notin> set w) \<Longrightarrow>
   words (join_text (32 # sentinel @ [32]) (map (join_with 32) ts)) = with_sentinels ts"
proof (induction ts rule: with_sentinels.induct)
  case (2 t)
  then show ?case by (simp add: words_join)
next
  case (3 t u us)
  then show ?case
    using words_append [of t "sentinel @ 32 # join_text (32 # sentinel @ [32]) (map (join_with 32) (u # us))"] by (simp add: words_sentinel)
qed (simp add: words_def)

lemma sublist_separated:
  assumes "c \<notin> set p" "p \<noteq> []"
  shows "sublist p (xs @ c # ys) \<longleftrightarrow> sublist p xs \<or> sublist p ys"
proof
  assume "sublist p (xs @ c # ys)"
  then consider "sublist p xs" | "sublist p (c # ys)" | a b where "p = a @ b" "suffix a xs" "Sublist.prefix b (c # ys)"
    unfolding sublist_append by blast
  then show "sublist p xs \<or> sublist p ys"
  proof cases
    case 2
    then show ?thesis using assms by (auto simp: sublist_Cons_right Sublist.prefix_Cons)
  next
    case 3
    then have "b = []" using assms by (auto simp: Sublist.prefix_Cons)
    then show ?thesis using 3 suffix_imp_sublist by simp
  qed simp
next
  assume "sublist p xs \<or> sublist p ys"
  then show "sublist p (xs @ c # ys)" by (auto simp: sublist_append sublist_Cons_right)
qed

lemma phrase_with_sentinels:
  "sentinel \<notin> set p \<Longrightarrow> p \<noteq> [] \<Longrightarrow> contains_phrase (with_sentinels ts) p \<longleftrightarrow> (\<exists>t\<in>set ts. contains_phrase t p)"
  by (induction ts rule: with_sentinels.induct) (auto simp: contains_phrase_sublist sublist_separated)

lemma word_with_sentinels: "\<not> P sentinel \<Longrightarrow> (\<exists>w\<in>set (with_sentinels ts). P w) \<longleftrightarrow> (\<exists>t\<in>set ts. \<exists>w\<in>set t. P w)"
  by (induction ts rule: with_sentinels.induct) auto

lemma sublist_map_inj: "inj_on f (set xs \<union> set ys) \<Longrightarrow> sublist (map f xs) (map f ys) \<longleftrightarrow> sublist xs ys"
proof
  assume inj: "inj_on f (set xs \<union> set ys)" and "sublist (map f xs) (map f ys)"
  then obtain ps ss where "map f ys = ps @ map f xs @ ss" unfolding sublist_def by blast
  then obtain a v where "ys = a @ v" "map f v = map f xs @ ss" by (metis map_eq_append_conv)
  moreover from this(2) obtain b c where "v = b @ c" "map f b = map f xs" by (metis map_eq_append_conv)
  ultimately have ys: "ys = a @ b @ c" by simp
  note \<open>map f b = map f xs\<close>
  moreover have "inj_on f (set b \<union> set xs)" using inj ys by (auto intro: inj_on_subset)
  ultimately have "b = xs" by (simp add: inj_on_map_eq_map)
  then show "sublist xs ys" using ys by (simp add: sublist_def) blast
qed (rule map_mono_sublist)

section \<open>Encoded tokens\<close>

lemma hex_byte_plain: "b < 256 \<Longrightarrow> c \<in> set (hex_byte b) \<Longrightarrow> plain_char c"
proof -
  have "plain_char (hex_digit n)" if "n < 16" for n using that by (auto simp: hex_digit_def plain_char_def)
  moreover assume "b < 256" "c \<in> set (hex_byte b)"
  moreover from this have "b div 16 < 16" by (simp add: less_mult_imp_div_less)
  ultimately show ?thesis by (auto simp: hex_byte_def)
qed

lemma encoded_token_plain: "text_ok s \<Longrightarrow> plain_word (encoded_token s)"
  using utf8_byte [of s] by (auto simp: plain_word_def encoded_token_def list_all_iff hex_byte_plain) (simp add: plain_char_def)

lemma plain_word_space: "plain_word w \<Longrightarrow> w \<noteq> [] \<and> 32 \<notin> set w"
  by (auto simp: plain_word_def plain_char_def list_all_iff)

lemma encoded_not_sentinel: "encoded_token s \<noteq> sentinel" "\<not> starts_with sentinel (encoded_token s)"
  by (simp_all add: encoded_token_def sentinel_def starts_with_def)

lemma encoded_words: "list_all text_ok ts \<Longrightarrow> words (encoded_stream ts) = map encoded_token ts"
  unfolding encoded_stream_def using encoded_token_plain plain_word_space by (intro words_join) (auto simp: list_all_iff)

lemma encoded_phrase:
  assumes "list_all text_ok ts" "list_all text_ok p"
  shows "contains_phrase (map encoded_token ts) (map encoded_token p) \<longleftrightarrow> contains_phrase ts p"
proof -
  have "inj_on encoded_token (set p \<union> set ts)"
    using assms encoded_token_inject by (auto simp: inj_on_def list_all_iff)
  then show ?thesis by (simp add: contains_phrase_sublist sublist_map_inj)
qed

section \<open>Texts\<close>

text \<open>What the encodings ask of the Unicode tables and of the texts: no surrogates and no more than 2^32 characters.\<close>

definition chars_ok :: "chars \<Rightarrow> bool" where
  "chars_ok C \<longleftrightarrow>
     (\<forall>s. text_ok s \<longrightarrow> text_ok (ch_casefold C s)) \<and> (\<forall>c d. ch_digit C c = Some d \<longrightarrow> d < 10) \<and>
     (\<forall>s. list_all plain_char (ch_sha256 C s))"

definition short_text :: "ustr \<Rightarrow> bool" where
  "short_text s \<longleftrightarrow> text_ok s \<and> length s < 4294967296"

definition marker_texts_ok :: "marker \<Rightarrow> bool" where
  "marker_texts_ok m \<longleftrightarrow> short_text (mk_display_value m) \<and> (mk_kind m = VALUE \<longrightarrow> mk_raw_value m \<noteq> None) \<and>
     (\<forall>v. mk_raw_value m = Some v \<longrightarrow> text_ok v)"

definition item_texts_ok :: "search_item \<Rightarrow> bool" where
  "item_texts_ok item \<longleftrightarrow> short_text (it_filename item) \<and> short_text (loc_relative_path (it_location item)) \<and>
     list_all marker_texts_ok (it_markers item)"

lemma separate_chars: "c \<in> set (separate C s) \<Longrightarrow> c \<in> set s \<or> c = 32"
  by (induction C s rule: separate.induct) (auto split: if_splits)

lemma words_of_chars: "w \<in> set (words_of sep s) \<Longrightarrow> c \<in> set w \<Longrightarrow> c \<in> set s"
proof -
  have "w \<in> set (split_where sep s) \<Longrightarrow> c \<in> set w \<Longrightarrow> c \<in> set s"
  proof (induction s arbitrary: w)
    case (Cons a s)
    then show ?case using Cons.IH [of "hd (split_where sep s)"] Cons.IH [of w] by (cases "split_where sep s") (auto split: if_splits)
  qed simp
  then show "w \<in> set (words_of sep s) \<Longrightarrow> c \<in> set w \<Longrightarrow> c \<in> set s" by (simp add: words_of_def)
qed

lemma tokens_ok: "chars_ok C \<Longrightarrow> text_ok s \<Longrightarrow> list_all text_ok (tokens C s)"
proof -
  assume C: "chars_ok C" and s: "text_ok s"
  have "code_point c" if "w \<in> set (words_of token_separator (separate C s))" "c \<in> set w" for w c
    using separate_chars [OF words_of_chars [OF that]] s by (auto simp: text_ok_def code_point_def)
  then have "text_ok w" if "w \<in> set (words_of token_separator (separate C s))" for w using that by (simp add: text_ok_def)
  then show ?thesis using C by (simp add: tokens_def list_all_iff chars_ok_def)
qed

section \<open>The columns of an item\<close>

definition column_fields :: "chars \<Rightarrow> search_item \<Rightarrow> fts_column \<Rightarrow> ustr list list" where
  "column_fields C item c =
     (case c of
        Filename \<Rightarrow> [tokens C (it_filename item)]
      | Path_text \<Rightarrow> [path_stream C item]
      | _ \<Rightarrow> map (\<lambda>m. tokens C (the (mk_raw_value m)))
               (filter (\<lambda>m. mk_kind m = VALUE \<and> marker_target (mk_level_id m) = c) (it_markers item)))"

lemma column_fields_ok: "chars_ok C \<Longrightarrow> item_texts_ok item \<Longrightarrow> ts \<in> set (column_fields C item c) \<Longrightarrow> list_all text_ok ts"
  using tokens_ok [of C]
  by (cases c) (auto simp: column_fields_def path_stream_def item_texts_ok_def short_text_def marker_texts_ok_def list_all_iff)

lemma field_streams_columns:
  "(w, ts) \<in> set (field_streams C item) \<longleftrightarrow> ts \<noteq> [] \<and> (\<exists>c. (c, w) \<in> set weighted_columns \<and> ts \<in> set (column_fields C item c))"
proof -
  let ?v = "filter (\<lambda>m. mk_kind m = VALUE) (it_markers item)" and ?t = "\<lambda>m. tokens C (the (mk_raw_value m))"
  have weight: "w = marker_weight l \<longleftrightarrow> w = 4 \<and> marker_target l = Project \<or> w = 3 \<and> marker_target l = Company \<or> w = 1 \<and> marker_target l = Markers" for l
    by (auto simp: marker_weight_def marker_target_def)
  have left: "(w, ts) \<in> set (field_streams C item) \<longleftrightarrow> ts \<noteq> [] \<and>
      (w = 5 \<and> ts = tokens C (it_filename item) \<or> (\<exists>m\<in>set ?v. w = marker_weight (mk_level_id m) \<and> ts = ?t m) \<or> w = 1 \<and> ts = path_stream C item)"
    by (auto simp: field_streams_def)
  have markers: "ts \<in> set (column_fields C item c) \<longleftrightarrow> (\<exists>m\<in>set ?v. marker_target (mk_level_id m) = c \<and> ts = ?t m)"
    if "c \<in> {Project, Company, Markers}" for c using that by (auto simp: column_fields_def)
  have "(\<exists>c. (c, w) \<in> set weighted_columns \<and> ts \<in> set (column_fields C item c)) \<longleftrightarrow>
      w = 5 \<and> ts = tokens C (it_filename item) \<or>
      (\<exists>m\<in>set ?v. (w = 4 \<and> marker_target (mk_level_id m) = Project \<or> w = 3 \<and> marker_target (mk_level_id m) = Company \<or>
         w = 1 \<and> marker_target (mk_level_id m) = Markers) \<and> ts = ?t m) \<or> w = 1 \<and> ts = path_stream C item"
  proof -
    have "(\<exists>c. (c, w) \<in> set weighted_columns \<and> P c) \<longleftrightarrow>
        w = 5 \<and> P Filename \<or> w = 4 \<and> P Project \<or> w = 3 \<and> P Company \<or> w = 1 \<and> P Markers \<or> w = 1 \<and> P Path_text" for P
      by (auto simp: weighted_columns_def)
    moreover have "ts \<in> set (column_fields C item Filename) \<longleftrightarrow> ts = tokens C (it_filename item)"
        "ts \<in> set (column_fields C item Path_text) \<longleftrightarrow> ts = path_stream C item" by (simp_all add: column_fields_def)
    ultimately show ?thesis using markers [of Project] markers [of Company] markers [of Markers] by (simp only: insert_iff simp_thms) blast
  qed
  then show ?thesis by (simp only: left weight)
qed

section \<open>What the queries match\<close>

lemma marker_streams_fields:
  assumes C: "chars_ok C" and item: "item_texts_ok item" and c: "c \<in> {Project, Company, Markers}"
  shows "marker_streams C item c = map (join_with 32) (map (map encoded_token) (filter (\<lambda>ts. ts \<noteq> []) (column_fields C item c)))"
proof -
  have "encoded_stream ts \<noteq> [] \<longleftrightarrow> ts \<noteq> []" for ts
    by (cases ts rule: remdups_adj.cases) (simp_all add: encoded_stream_def encoded_token_def)
  then have "filter (\<lambda>s. s \<noteq> []) (map encoded_stream tss) = map encoded_stream (filter (\<lambda>ts. ts \<noteq> []) tss)" for tss
    by (induction tss) auto
  from this [of "column_fields C item c"] show ?thesis
    using c by (auto simp: marker_streams_def column_fields_def encoded_stream_def comp_def)
qed

lemma column_words:
  assumes C: "chars_ok C" and item: "item_texts_ok item" and c: "c \<noteq> Generation"
  shows "words (columns_of C g item c) = with_sentinels (map (map encoded_token)
    (if c \<in> {Filename, Path_text} then column_fields C item c else filter (\<lambda>ts. ts \<noteq> []) (column_fields C item c)))"
proof -
  note ok = column_fields_ok [OF C item]
  have plain: "\<forall>w\<in>set (map encoded_token ts). w \<noteq> [] \<and> 32 \<notin> set w" if "ts \<in> set (column_fields C item c)" for ts
    using ok [OF that] encoded_token_plain plain_word_space by (auto simp: list_all_iff)
  show ?thesis
  proof (cases "c \<in> {Filename, Path_text}")
    case True
    then obtain ts where "column_fields C item c = [ts]" "columns_of C g item c = encoded_stream ts"
      by (auto simp: columns_of_def column_fields_def path_stream_def)
    then show ?thesis using True ok [where c = c and ts = ts] encoded_words [of ts] by simp
  next
    case False
    then have m: "c \<in> {Project, Company, Markers}" using c by (cases c) auto
    have "columns_of C g item c = join_text (32 # sentinel @ [32]) (marker_streams C item c)" using m by (auto simp: columns_of_def)
    then show ?thesis unfolding marker_streams_fields [OF C item m] using words_column [of "map (map encoded_token) (filter (\<lambda>ts. ts \<noteq> []) (column_fields C item c))"] plain False
      by auto
  qed
qed

lemma column_phrase:
  assumes "chars_ok C" "item_texts_ok item" "c \<noteq> Generation" and p: "list_all text_ok p" "p \<noteq> []"
  shows "contains_phrase (words (columns_of C g item c)) (map encoded_token p) \<longleftrightarrow> (\<exists>ts\<in>set (column_fields C item c). contains_phrase ts p)"
proof -
  have s: "sentinel \<notin> set (map encoded_token p)" using encoded_not_sentinel(1) by (metis (no_types, lifting) image_iff list.set_map)
  have none: "\<not> contains_phrase [] p" using p(2) by (simp add: contains_phrase_sublist)
  have "(\<exists>ts\<in>set tss. contains_phrase (map encoded_token ts) (map encoded_token p)) \<longleftrightarrow> (\<exists>ts\<in>set tss. contains_phrase ts p)"
    if "set tss \<subseteq> set (column_fields C item c)" for tss
    using that column_fields_ok [OF assms(1,2)] encoded_phrase [OF _ p(1)] by (meson subsetD)
  then show ?thesis unfolding column_words [OF assms(1-3)] using phrase_with_sentinels [OF s] p(2) none by auto
qed

lemma column_prefix:
  assumes "chars_ok C" "item_texts_ok item" "c \<noteq> Generation" and t: "text_ok t"
  shows "(\<exists>w\<in>set (words (columns_of C g item c)). starts_with w (encoded_token t)) \<longleftrightarrow>
    (\<exists>ts\<in>set (column_fields C item c). \<exists>w\<in>set ts. starts_with w t)"
proof -
  have "starts_with (encoded_token w) (encoded_token t) \<longleftrightarrow> starts_with w t" if "ts \<in> set (column_fields C item c)" "w \<in> set ts" for ts w
    using column_fields_ok [OF assms(1,2) that(1)] that(2) encoded_token_prefix [OF t] by (simp add: list_all_iff)
  then have "(\<exists>ts\<in>set (column_fields C item c). \<exists>w\<in>set ts. starts_with (encoded_token w) (encoded_token t)) \<longleftrightarrow>
      (\<exists>ts\<in>set (column_fields C item c). \<exists>w\<in>set ts. starts_with w t)" by blast
  moreover have "(\<exists>ts\<in>set (filter (\<lambda>ts. ts \<noteq> []) tss). \<exists>w\<in>set ts. P w) \<longleftrightarrow> (\<exists>ts\<in>set tss. \<exists>w\<in>set ts. P w)" for P and tss :: "ustr list list"
    by fastforce
  ultimately show ?thesis unfolding column_words [OF assms(1-3)] word_with_sentinels [of "\<lambda>w. starts_with w (encoded_token t)", OF encoded_not_sentinel(2)]
    by auto
qed

section \<open>The scores agree\<close>

lemma max_of_eq:
  assumes "\<And>x. x \<in> set xs \<Longrightarrow> \<exists>y\<in>set ys. x \<le> y" and "\<And>y. y \<in> set ys \<Longrightarrow> \<exists>x\<in>set xs. y \<le> x"
  shows "max_of xs = max_of ys"
proof -
  have upper: "max_of us \<le> max_of vs" if "\<And>x. x \<in> set us \<Longrightarrow> \<exists>y\<in>set vs. x \<le> y" for us vs
  proof -
    have "x \<le> max_of vs" if "x \<in> set us" for x using \<open>\<And>x. x \<in> set us \<Longrightarrow> _\<close> [OF that] max_of_upper by (meson order_trans)
    then show ?thesis by (induction us) (auto simp: max_of_def)
  qed
  show ?thesis by (intro antisym upper assms)
qed

lemma scores_of_concat: "scores_of (concat (map f xs)) i = concat (map (\<lambda>x. scores_of (f x) i) xs)"
  by (induction xs) simp_all

lemma select_scores:
  assumes "distinct (map ft_row_id (sq_fts d))" and "row \<in> set (sq_fts d)"
  shows "scores_of (map (\<lambda>i. (i, s)) (fts_select F d q)) (ft_row_id row) = (if F row q then [s] else [])"
proof -
  have "distinct (fts_select F d q)" using assms(1) by (simp add: fts_select_def distinct_map_filter)
  moreover have "ft_row_id row \<in> set (fts_select F d q) \<longleftrightarrow> F row q"
    using assms by (auto simp: fts_select_def distinct_map inj_on_def)
  ultimately show ?thesis by (simp add: scores_of_keys [where f = "\<lambda>_. s"])
qed

text \<open>A stored row, the engine and the texts, as the queries of one request meet them.\<close>

definition searchable :: "chars \<Rightarrow> fts_engine \<Rightarrow> sql_db \<Rightarrow> ustr \<Rightarrow> sql_item \<Rightarrow> bool" where
  "searchable C F d g row \<longleftrightarrow>
     chars_ok C \<and> fts5 F \<and> sql_ok C d \<and> row \<in> set (generation_items g d) \<and> item_texts_ok (si_body row)"

lemma searchable_row:
  assumes "searchable C F d g row"
  shows "distinct (map ft_row_id (sq_fts d))" and "fts_of C row \<in> set (sq_fts d)" and "si_generation_id row = g"
proof -
  have rows: "sq_fts d = map (fts_of C) (sq_items d)" and order: "sorted_wrt (<) (map si_row_id (sq_items d))"
    using assms by (simp_all add: searchable_def sql_ok_def)
  have "map ft_row_id (sq_fts d) = map si_row_id (sq_items d)" unfolding rows by (simp add: fts_of_def)
  then show "distinct (map ft_row_id (sq_fts d))" using order by (simp only: strict_sorted_iff)
  show "fts_of C row \<in> set (sq_fts d)" "si_generation_id row = g" using assms by (auto simp: searchable_def sql_ok_def generation_items_def)
qed

lemma generation_token_plain: "chars_ok C \<Longrightarrow> plain_word (generation_token C g)"
  by (auto simp: chars_ok_def plain_word_def generation_token_def plain_char_def)

lemma plain_join: "list_all plain_word ws \<Longrightarrow> list_all (\<lambda>x. x = 32 \<or> plain_char x) (join_with 32 ws)"
  by (induction "32 :: nat" ws rule: join_with.induct) (auto simp: plain_word_def list_all_iff)

lemma plain_join_text: "\<forall>t\<in>set ts. list_all (\<lambda>x. x = 32 \<or> plain_char x) t \<Longrightarrow>
   list_all (\<lambda>x. x = 32 \<or> plain_char x) (join_text (32 # sentinel @ [32]) ts)"
  by (induction "32 # sentinel @ [32]" ts rule: join_text.induct) (auto simp: sentinel_def plain_char_def)

lemma row_plain:
  assumes C: "chars_ok C" and item: "item_texts_ok (si_body row)"
  shows "plain_row (fts_of C row)"
proof -
  note ok = column_fields_ok [OF C item]
  have stream: "list_all (\<lambda>x. x = 32 \<or> plain_char x) (encoded_stream ts)" if "ts \<in> set (column_fields C (si_body row) c)" for ts c
    unfolding encoded_stream_def using ok [OF that] encoded_token_plain by (intro plain_join) (auto simp: list_all_iff)
  have "list_all (\<lambda>x. x = 32 \<or> plain_char x) (columns_of C g (si_body row) c)" for g c
  proof (cases "c \<in> {Project, Company, Markers}")
    case True
    then have "columns_of C g (si_body row) c = join_text (32 # sentinel @ [32]) (marker_streams C (si_body row) c)" by (auto simp: columns_of_def)
    then show ?thesis unfolding marker_streams_fields [OF C item True]
      using stream [of _ c] by (auto simp: encoded_stream_def intro!: plain_join_text)
  next
    case False
    then show ?thesis using stream [of _ c] generation_token_plain [OF C]
      by (cases c) (auto simp: columns_of_def column_fields_def path_stream_def plain_word_def list_all_iff)
  qed
  then show ?thesis by (simp add: plain_row_def fts_of_def)
qed

text \<open>A query on one column of the rows of a generation.\<close>

lemma match_column:
  assumes row: "searchable C F d g row" and q: "plain_query q"
  shows "F (fts_of C row) (match_sql C g c q) = fts_holds (\<lambda>c. words (columns_of C g (si_body row) c)) [c] q"
proof -
  note r = row [unfolded searchable_def]
  have C: "chars_ok C" using r by simp
  have g: "contains_phrase (words (generation_token C g)) [generation_token C g]"
    using plain_word_space [OF generation_token_plain [OF C]] by (simp add: words_def split_on_no_sep contains_phrase_sublist)
  have f: "filter (\<lambda>x. x = c) fts_columns = [c]" for c by (cases c) (simp_all add: fts_columns_def)
  have "plain_query (match_sql C g c q)" using q generation_token_plain [OF C] by (simp add: match_sql_def)
  then have "F (fts_of C row) (match_sql C g c q) = fts_holds (\<lambda>c. words (ft_text (fts_of C row) c)) fts_columns (match_sql C g c q)"
    using r row_plain [OF C] by (simp add: fts5_def)
  then show ?thesis using g searchable_row(3) [OF row] by (simp add: match_sql_def f fts_of_def) (simp add: columns_of_def)
qed

lemma contains_one: "contains_phrase ts [t] \<longleftrightarrow> t \<in> set ts"
  by (auto simp: contains_phrase_sublist sublist_def in_set_conv_decomp)

lemma term_at:
  assumes row: "searchable C F d g row" and t: "text_ok t"
  shows "score_at (term_cte C F d g t) (si_row_id row) =
    (let s = term_weights (field_streams C (si_body row)) t in if s = [] then None else Some (max_of s))"
proof -
  let ?item = "si_body row"
  let ?s = "term_weights (field_streams C ?item) t"
  define E where "E c \<longleftrightarrow> (\<exists>ts\<in>set (column_fields C ?item c). t \<in> set ts)" for c
  define P where "P c \<longleftrightarrow> (\<exists>ts\<in>set (column_fields C ?item c). \<exists>w\<in>set ts. starts_with w t)" for c
  define found where "found = concat (map (\<lambda>(c, w). (if E c then [w * 2] else []) @ (if P c \<and> \<not> E c then [w] else [])) weighted_columns)"
  note r = row [unfolded searchable_def]
  have C: "chars_ok C" "item_texts_ok ?item" using r by simp_all
  have plain: "plain_word (encoded_token t)" by (rule encoded_token_plain [OF t])
  have c: "c \<noteq> Generation" if "(c, w) \<in> set weighted_columns" for c w using that by (auto simp: weighted_columns_def)
  have exact: "F (fts_of C row) (match_sql C g c (Fts_phrase [encoded_token t])) = E c" if "(c, w) \<in> set weighted_columns" for c w
    using column_phrase [OF C c [OF that], of "[t]" g] t plain by (subst match_column [OF row]) (simp_all add: contains_one E_def)
  have pre: "F (fts_of C row) (match_sql C g c (prefix_without_exact (encoded_token t))) = (P c \<and> \<not> E c)" if "(c, w) \<in> set weighted_columns" for c w
    using column_phrase [OF C c [OF that], of "[t]" g] column_prefix [OF C c [OF that] t, of g] t plain
    by (subst match_column [OF row]) (simp_all add: prefix_without_exact_def contains_one E_def P_def)
  note select = select_scores [OF searchable_row(1,2) [OF row], unfolded fts_of_def fts_row.simps, folded fts_of_def]
  have "scores_of (concat (map (\<lambda>(column, weight).
        map (\<lambda>row_id. (row_id, weight * 2)) (fts_select F d (match_sql C g column (Fts_phrase [encoded_token t]))) @
        map (\<lambda>row_id. (row_id, weight)) (fts_select F d (match_sql C g column (prefix_without_exact (encoded_token t)))))
        weighted_columns)) (si_row_id row) = found"
    unfolding scores_of_concat found_def
    by (rule arg_cong [where f = concat], rule map_cong [OF refl]) (auto simp: select exact pre simp del: set_simps)
  then have at: "score_at (term_cte C F d g t) (si_row_id row) = (if found = [] then None else Some (max_of found))"
    by (simp add: term_cte_def Let_def group_max_at)
  have mem: "x \<in> set found \<longleftrightarrow> (\<exists>c w. (c, w) \<in> set weighted_columns \<and> (E c \<and> x = w * 2 \<or> P c \<and> \<not> E c \<and> x = w))" for x
    by (auto simp: found_def split: if_splits)
  have s: "x \<in> set ?s \<longleftrightarrow> (\<exists>c w ts tok. (c, w) \<in> set weighted_columns \<and> ts \<in> set (column_fields C ?item c) \<and> tok \<in> set ts \<and>
      starts_with tok t \<and> x = w * (if tok = t then 2 else 1))" for x
  proof -
    define f :: "ustr \<Rightarrow> nat" where "f tok = (if tok = t then 2 else 1)" for tok
    have "x \<in> set ?s \<longleftrightarrow> (\<exists>w ts tok. (w, ts) \<in> set (field_streams C ?item) \<and> tok \<in> set ts \<and> starts_with tok t \<and> x = w * f tok)"
      unfolding term_weights_def f_def [symmetric] by (auto simp: image_iff)
    also have "\<dots> \<longleftrightarrow> (\<exists>c w ts tok. (c, w) \<in> set weighted_columns \<and> ts \<in> set (column_fields C ?item c) \<and> tok \<in> set ts \<and>
        starts_with tok t \<and> x = w * f tok)"
      unfolding field_streams_columns by (metis empty_iff list.set(1))
    finally show ?thesis unfolding f_def .
  qed
  have EP: "E c \<Longrightarrow> P c" for c unfolding E_def P_def starts_with_def by (metis order_refl take_all)
  have "\<exists>y\<in>set ?s. x \<le> y" if "x \<in> set found" for x
  proof -
    from that obtain c w where cw: "(c, w) \<in> set weighted_columns" and x: "E c \<and> x = w * 2 \<or> P c \<and> \<not> E c \<and> x = w" using mem by blast
    from x show ?thesis
    proof
      assume "E c \<and> x = w * 2"
      then have "w * 2 \<in> set ?s" unfolding s using cw by (force simp: E_def starts_with_def)
      then show ?thesis using \<open>E c \<and> x = w * 2\<close> by blast
    next
      assume "P c \<and> \<not> E c \<and> x = w"
      then obtain ts tok where "ts \<in> set (column_fields C ?item c)" "tok \<in> set ts" "starts_with tok t" by (auto simp: P_def)
      then have "w * (if tok = t then 2 else 1) \<in> set ?s" unfolding s using cw by blast
      then show ?thesis using \<open>P c \<and> \<not> E c \<and> x = w\<close> by (intro bexI [where x = "w * (if tok = t then 2 else 1)"]) simp_all
    qed
  qed
  moreover have "\<exists>y\<in>set found. x \<le> y" if "x \<in> set ?s" for x
  proof -
    from that obtain c w ts tok where cw: "(c, w) \<in> set weighted_columns" and ts: "ts \<in> set (column_fields C ?item c)" "tok \<in> set ts"
        and t: "starts_with tok t" and x: "x = w * (if tok = t then 2 else 1)" using s by blast
    have "P c" using ts t by (auto simp: P_def)
    then have "(if E c then w * 2 else w) \<in> set found" using cw mem by auto
    moreover have "x \<le> (if E c then w * 2 else w)" using x ts by (auto simp: E_def)
    ultimately show ?thesis by blast
  qed
  ultimately have "max_of found = max_of ?s" "found = [] \<longleftrightarrow> ?s = []"
    by (auto intro: max_of_eq) (metis empty_iff list.set(1) hd_in_set)+
  then show ?thesis by (simp add: at Let_def)
qed

lemma max_of_times: "max_of (map ((*) k) xs) = k * max_of xs"
  by (induction xs) (auto simp: max_of_def max_def)

lemma phrase_at:
  assumes row: "searchable C F d g row" and p: "list_all text_ok p" "p \<noteq> []"
  shows "score_at (phrase_cte C F d g p) (si_row_id row) =
    (let s = phrase_weights (field_streams C (si_body row)) p in if s = [] then None else Some (2 * length p * max_of s))"
proof -
  let ?item = "si_body row"
  let ?s = "phrase_weights (field_streams C ?item) p"
  define P where "P c \<longleftrightarrow> (\<exists>ts\<in>set (column_fields C ?item c). contains_phrase ts p)" for c
  define found where "found = concat (map (\<lambda>(c, w). if P c then [2 * length p * w] else []) weighted_columns)"
  note r = row [unfolded searchable_def]
  have C: "chars_ok C" "item_texts_ok ?item" using r by simp_all
  have plain: "list_all plain_word (map encoded_token p)" using p(1) encoded_token_plain by (simp add: list_all_iff)
  have hit: "F (fts_of C row) (match_sql C g c (Fts_phrase (map encoded_token p))) = P c" if "(c, w) \<in> set weighted_columns" for c w
  proof -
    have "c \<noteq> Generation" using that by (auto simp: weighted_columns_def)
    then show ?thesis using column_phrase [OF C _ p, of c g] plain p(2) by (subst match_column [OF row]) (simp_all add: P_def)
  qed
  note select = select_scores [OF searchable_row(1,2) [OF row], unfolded fts_of_def fts_row.simps, folded fts_of_def]
  have "scores_of (concat (map (\<lambda>(column, weight). map (\<lambda>row_id. (row_id, 2 * length p * weight))
      (fts_select F d (match_sql C g column (Fts_phrase (map encoded_token p))))) weighted_columns)) (si_row_id row) = found"
    unfolding scores_of_concat found_def
    by (rule arg_cong [where f = concat], rule map_cong [OF refl]) (auto simp: select hit simp del: set_simps)
  then have at: "score_at (phrase_cte C F d g p) (si_row_id row) = (if found = [] then None else Some (max_of found))"
    by (simp add: phrase_cte_def group_max_at)
  have s: "w \<in> set ?s \<longleftrightarrow> (\<exists>c. (c, w) \<in> set weighted_columns \<and> P c)" for w
  proof -
    have "w \<in> set ?s \<longleftrightarrow> (\<exists>ts. (w, ts) \<in> set (field_streams C ?item) \<and> contains_phrase ts p)" by (auto simp: phrase_weights_def image_iff)
    also have "\<dots> \<longleftrightarrow> (\<exists>ts c. (c, w) \<in> set weighted_columns \<and> ts \<in> set (column_fields C ?item c) \<and> contains_phrase ts p)"
    proof -
      have "ts \<noteq> []" if "contains_phrase ts p" for ts using that p(2) by (auto simp: contains_phrase_sublist)
      then show ?thesis unfolding field_streams_columns by blast
    qed
    finally show ?thesis by (auto simp: P_def)
  qed
  have "x \<in> set found \<longleftrightarrow> (\<exists>c w. (c, w) \<in> set weighted_columns \<and> P c \<and> x = 2 * length p * w)" for x
    by (force simp: found_def split: if_splits)
  then have "set found = set (map ((*) (2 * length p)) ?s)" unfolding set_map using s by blast
  then have "max_of found = max_of (map ((*) (2 * length p)) ?s)" "found = [] \<longleftrightarrow> ?s = []"
    by (auto intro: max_of_eq simp del: set_map)
  then show ?thesis by (simp add: at Let_def max_of_times)
qed

lemma score_terms_sum:
  "score_terms streams ts = sum_scores (map (\<lambda>t. let s = term_weights streams t in if s = [] then None else Some (max_of s)) ts)"
  by (induction ts) (simp_all add: Let_def add_options_def)

lemma score_phrases_sum:
  assumes "\<forall>p\<in>set ps. p \<noteq> []"
  shows "score_phrases (field_streams C item) (path_stream C item) ps =
    sum_scores (map (\<lambda>p. let s = phrase_weights (field_streams C item) p in if s = [] then None else Some (2 * length p * max_of s)) ps)"
  using assms
proof (induction ps)
  case (Cons p ps)
  have "phrase_weights (field_streams C item) p \<noteq> []" if "contains_phrase (path_stream C item) p"
  proof -
    have "path_stream C item \<noteq> []" using that Cons.prems by (auto simp: contains_phrase_sublist)
    then have "(1, path_stream C item) \<in> set (field_streams C item)" by (simp add: field_streams_def)
    then show ?thesis using that by (auto simp: phrase_weights_def filter_empty_conv)
  qed
  then show ?case using Cons by (auto simp: Let_def add_options_def)
qed simp

lemma sum_scores_append: "sum_scores (xs @ ys) = add_options (sum_scores xs) (sum_scores ys)"
proof (induction xs)
  case Nil
  then show ?case by (cases "sum_scores ys") (simp_all add: add_options_def)
qed (simp add: add_options_assoc)

definition query_texts_ok :: "query \<Rightarrow> bool" where
  "query_texts_ok q \<longleftrightarrow> list_all text_ok (qy_terms q) \<and> list_all (\<lambda>p. p \<noteq> [] \<and> list_all text_ok p) (qy_phrases q)"

text \<open>The tables of all clauses give a row the score of the scan, or none.\<close>

definition clause_tables :: "chars \<Rightarrow> fts_engine \<Rightarrow> sql_db \<Rightarrow> ustr \<Rightarrow> query \<Rightarrow> scores list" where
  "clause_tables C F d g q = map (term_cte C F d g) (qy_terms q) @ map (phrase_cte C F d g) (qy_phrases q)"

lemma clause_scores:
  assumes row: "searchable C F d g row" and q: "query_texts_ok q"
  shows "sum_scores (map (\<lambda>t. score_at t (si_row_id row)) (clause_tables C F d g q)) = matches_and_score C (si_body row) q"
proof -
  have t: "score_at (term_cte C F d g t) (si_row_id row) = (let s = term_weights (field_streams C (si_body row)) t in if s = [] then None else Some (max_of s))"
    if "t \<in> set (qy_terms q)" for t using that q by (intro term_at [OF row]) (auto simp: query_texts_ok_def list_all_iff)
  have p: "score_at (phrase_cte C F d g p) (si_row_id row) =
      (let s = phrase_weights (field_streams C (si_body row)) p in if s = [] then None else Some (2 * length p * max_of s))"
    if "p \<in> set (qy_phrases q)" for p using that q by (intro phrase_at [OF row]) (auto simp: query_texts_ok_def list_all_iff)
  have "\<forall>p\<in>set (qy_phrases q). p \<noteq> []" using q by (simp add: query_texts_ok_def list_all_iff)
  then show ?thesis unfolding clause_tables_def matches_and_score_def Let_def [of "field_streams C (si_body row)"] score_terms_sum score_phrases_sum [OF \<open>\<forall>p\<in>set (qy_phrases q). p \<noteq> []\<close>]
    by (simp add: sum_scores_append comp_def t p cong: map_cong) (simp add: add_options_def split: option.split)
qed

end
