(* ===== verification/Sql_Rows.thy ===== *)
theory Sql_Rows
  imports Sql_Match Search_Correct
begin

text \<open>
  The rows of an answer: the table of candidates holds the items of the chain that match, with their scores
  and in their order.
\<close>

section \<open>Candidates\<close>

definition item_score :: "chars \<Rightarrow> query \<Rightarrow> sql_item \<Rightarrow> nat" where
  "item_score C q row = the (matches_and_score C (si_body row) q)"

definition hit_rows :: "chars \<Rightarrow> query \<Rightarrow> ustr list \<Rightarrow> sql_item list \<Rightarrow> sql_item list" where
  "hit_rows C q selected rows = filter (\<lambda>row. has_chain selected (si_body row) \<and> matches_and_score C (si_body row) q \<noteq> None) rows"

text \<open>An open generation with what the encodings ask of its texts.\<close>

definition served :: "chars \<Rightarrow> fts_engine \<Rightarrow> sql_db \<Rightarrow> ustr \<Rightarrow> search_item list \<Rightarrow> bool" where
  "served C F d g items \<longleftrightarrow> chars_ok C \<and> fts5 F \<and> sql_ok C d \<and> holds_items C g items d \<and> list_all item_texts_ok items"

lemma served_items: "served C F d g items \<Longrightarrow> items = map si_body (generation_items g d)"
  by (simp add: served_def holds_items_def)

lemma served_searchable: "served C F d g items \<Longrightarrow> row \<in> set (generation_items g d) \<Longrightarrow> searchable C F d g row"
  using served_items [of C F d g items] by (auto simp: served_def searchable_def list_all_iff)

lemma row_ids:
  assumes "sql_ok C d"
  shows "sorted_wrt (<) (map si_row_id (generation_items g d))" and "inj_on si_row_id (set (sq_items d))"
proof -
  have s: "sorted_wrt (<) (map si_row_id (sq_items d))" using assms by (simp add: sql_ok_def)
  show "sorted_wrt (<) (map si_row_id (generation_items g d))" unfolding generation_items_def by (rule sorted_filter_ids [OF s])
  from s show "inj_on si_row_id (set (sq_items d))" by (meson distinct_map strict_sorted_iff)
qed

lemma generation_items_row: "row \<in> set (generation_items g d) \<longleftrightarrow> row \<in> set (sq_items d) \<and> si_generation_id row = g"
  by (auto simp: generation_items_def)

lemma item_marker_row:
  assumes ok: "sql_ok C d" and row: "row \<in> set (sq_items d)"
  shows "filter (\<lambda>m. im_row_id m = si_row_id row \<and> P m) (sq_item_markers d) = filter P (item_markers_of row)"
proof -
  have id: "im_row_id m = si_row_id r" if "m \<in> set (item_markers_of r)" for m r using that by (auto simp: item_markers_of_def)
  have inj: "inj_on si_row_id (set (sq_items d))" and "distinct (sq_items d)"
    using row_ids(2) [OF ok] ok by (auto simp: sql_ok_def strict_sorted_iff distinct_map)
  then have "filter (\<lambda>m. im_row_id m = si_row_id row \<and> P m) (concat (map item_markers_of rs)) =
      concat (map (\<lambda>r. if r = row then filter P (item_markers_of r) else []) rs)" if "set rs \<subseteq> set (sq_items d)" for rs
    using that
  proof (induction rs)
    case (Cons r rs)
    have "filter (\<lambda>m. im_row_id m = si_row_id row \<and> P m) (item_markers_of r) = (if r = row then filter P (item_markers_of r) else [])"
      using id [of _ r] Cons.prems row inj by (auto simp: filter_empty_conv inj_on_def intro!: filter_cong)
    then show ?case using Cons by simp
  qed simp
  moreover have "concat (map (\<lambda>r. if r = row then xs else []) rs) = (if row \<in> set rs then xs else [])" if "distinct rs" for rs and xs :: "sql_item_marker list"
    using that by (induction rs) auto
  moreover have "concat (map (\<lambda>r. if r = row then filter P (item_markers_of r) else []) (sq_items d)) =
      concat (map (\<lambda>r. if r = row then filter P (item_markers_of row) else []) (sq_items d))" by (rule arg_cong [where f = concat]) auto
  ultimately show ?thesis using ok row \<open>distinct (sq_items d)\<close> by (simp add: sql_ok_def)
qed

lemma filter_depth:
  "filter (\<lambda>m. im_generation_id m = si_generation_id row \<and> im_depth m = n \<and> P m) (item_markers_of row) =
   (if n < length (it_markers (si_body row)) then
      filter P [\<lparr>im_generation_id = si_generation_id row, im_row_id = si_row_id row, im_depth = n, im_marker_id = mk_marker_id (it_markers (si_body row) ! n)\<rparr>] else [])"
proof -
  have "filter (\<lambda>m. im_generation_id m = g \<and> im_depth m = n \<and> P m)
      (map (\<lambda>(i, m). \<lparr>im_generation_id = g, im_row_id = r, im_depth = i, im_marker_id = mk_marker_id m\<rparr>) (enumerate k ms)) =
    (if k \<le> n \<and> n < k + length ms then
      filter P [\<lparr>im_generation_id = g, im_row_id = r, im_depth = n, im_marker_id = mk_marker_id (ms ! (n - k))\<rparr>] else [])" for g r k and ms
  proof (induction ms arbitrary: k)
    case (Cons m ms)
    show ?case
    proof (cases "k = n")
      case False
      then show ?thesis using Cons [of "Suc k"] by (auto simp: nth_Cons' Suc_diff_Suc)
    qed (use Cons [of "Suc k"] in simp)
  qed simp
  from this [of "si_generation_id row" "si_row_id row" 0 "it_markers (si_body row)"] show ?thesis by (simp add: item_markers_of_def)
qed

lemma has_chain_nth:
  "has_chain sel item \<longleftrightarrow> (\<forall>n<length sel. n < length (it_markers item) \<and> mk_marker_id (it_markers item ! n) = sel ! n)"
proof
  assume "has_chain sel item"
  then have l: "length sel \<le> length (it_markers item)" and t: "take (length sel) (marker_ids item) = sel" by (simp_all add: has_chain_def)
  have "sel ! n = mk_marker_id (it_markers item ! n)" if "n < length sel" for n
    using l that by (subst t [symmetric]) (simp add: marker_ids_def)
  then show "\<forall>n<length sel. n < length (it_markers item) \<and> mk_marker_id (it_markers item ! n) = sel ! n" using l by auto
next
  assume a: "\<forall>n<length sel. n < length (it_markers item) \<and> mk_marker_id (it_markers item ! n) = sel ! n"
  have l: "length sel \<le> length (it_markers item)"
    using spec [OF a, of "length sel - 1"] by (cases sel) auto
  then show "has_chain sel item" using a by (auto simp: has_chain_def marker_ids_def intro!: nth_equalityI)
qed

lemma filter_sql_chain:
  assumes ok: "sql_ok C d" and row: "row \<in> set (generation_items g d)"
  shows "filter_sql d g sel row \<longleftrightarrow> has_chain sel (si_body row)"
proof -
  have r: "row \<in> set (sq_items d)" "si_generation_id row = g" using row by (simp_all add: generation_items_row)
  have "(\<exists>m\<in>set (sq_item_markers d). im_generation_id m = g \<and> im_depth m = n \<and> im_marker_id m = i \<and> im_row_id m = si_row_id row) \<longleftrightarrow>
      n < length (it_markers (si_body row)) \<and> mk_marker_id (it_markers (si_body row) ! n) = i" for n i
  proof -
    have "(\<exists>m\<in>set (sq_item_markers d). im_generation_id m = g \<and> im_depth m = n \<and> im_marker_id m = i \<and> im_row_id m = si_row_id row) \<longleftrightarrow>
        filter (\<lambda>m. im_row_id m = si_row_id row \<and> im_generation_id m = g \<and> im_depth m = n \<and> im_marker_id m = i) (sq_item_markers d) \<noteq> []"
      by (auto simp: filter_empty_conv)
    then show ?thesis using r(2) by (simp add: item_marker_row [OF ok r(1)] filter_depth [of row n "\<lambda>m. im_marker_id m = i", unfolded r(2)])
  qed
  then show ?thesis unfolding filter_sql_def by (simp add: has_chain_nth list_all_length nth_enumerate_eq)
qed

lemma at_most_one: "distinct ys \<Longrightarrow> \<forall>a\<in>set ys. \<forall>b\<in>set ys. a = b \<Longrightarrow> length ys \<le> 1"
  by (metis List.finite_set One_nat_def card_le_Suc0_iff_eq distinct_card)

lemma item_candidates_rows:
  assumes ok: "sql_ok C d" and s: "distinct (map fst s)"
  shows "distinct (map fst (item_candidates d g sel s))"
    and "set (item_candidates d g sel s) =
      {(si_row_id row, n) | row n. row \<in> set (generation_items g d) \<and> has_chain sel (si_body row) \<and> score_at s (si_row_id row) = Some n}"
proof -
  have at: "score_at s i = Some n \<longleftrightarrow> (i, n) \<in> set s" for i n
  proof -
    have "(i, n) \<in> set s \<longleftrightarrow> n \<in> set (scores_of s i)" by (force simp: scores_of_def)
    then show ?thesis using distinct_scores [OF s, of i] by (cases "score_at s i") auto
  qed
  let ?f = "\<lambda>(row_id, score). map (\<lambda>i. (si_row_id i, score))
         (filter (\<lambda>i. si_row_id i = row_id \<and> si_generation_id i = g \<and> filter_sql d g sel i) (sq_items d))"
  have "length (filter (\<lambda>i. si_row_id i = k \<and> P i) xs) \<le> 1" if "inj_on si_row_id (set xs)" "distinct xs" for k P and xs :: "sql_item list"
    using that by (intro at_most_one) (auto simp: inj_on_def)
  then have one: "length (?f r) \<le> 1" for r
    using row_ids(2) [OF ok] ok by (auto simp: sql_ok_def strict_sorted_iff distinct_map split: prod.split)
  have key: "fst x = fst r" if "x \<in> set (?f r)" for x r using that by auto
  have "distinct (map fst (concat (map ?f s)))"
    using s
  proof (induction s)
    case (Cons r s)
    have "distinct (map fst (?f r))" using one [of r] by (cases "?f r" rule: remdups_adj.cases) auto
    moreover have "fst ` set (?f r) \<inter> fst ` set (concat (map ?f s)) = {}"
      using Cons.prems key by (auto simp del: split_paired_All)
    ultimately show ?case using Cons by (simp del: set_concat)
  qed simp
  then show "distinct (map fst (item_candidates d g sel s))" by (simp add: item_candidates_def)
  have "(i, n) \<in> set (item_candidates d g sel s) \<longleftrightarrow> (\<exists>row\<in>set (generation_items g d). si_row_id row = i \<and> filter_sql d g sel row \<and> (i, n) \<in> set s)" for i n
  proof -
    have mem: "(i, n) \<in> set (?f r) \<longleftrightarrow> r = (i, n) \<and> (\<exists>row\<in>set (generation_items g d). si_row_id row = i \<and> filter_sql d g sel row)" for r
      by (cases r) (auto simp: generation_items_row)
    have "(\<exists>r\<in>set s. (i, n) \<in> set (?f r)) \<longleftrightarrow> (\<exists>row\<in>set (generation_items g d). si_row_id row = i \<and> filter_sql d g sel row \<and> (i, n) \<in> set s)"
      unfolding mem by blast
    moreover have "(i, n) \<in> set (item_candidates d g sel s) \<longleftrightarrow> (\<exists>r\<in>set s. (i, n) \<in> set (?f r))"
      unfolding item_candidates_def set_concat set_map by (simp only: UN_iff bex_simps)
    ultimately show ?thesis by simp
  qed
  then show "set (item_candidates d g sel s) =
      {(si_row_id row, n) | row n. row \<in> set (generation_items g d) \<and> has_chain sel (si_body row) \<and> score_at s (si_row_id row) = Some n}"
    using filter_sql_chain [OF ok, of _ g sel] at by auto
qed

lemma key_sorted_distinct: "sorted_wrt (\<lambda>x y. f x < (f y :: 'k::linorder)) xs \<Longrightarrow> distinct (map f xs)"
  by (induction xs) auto

lemma sorted_by_key:
  fixes f :: "'a \<Rightarrow> 'k::linorder"
  assumes "distinct (map f xs)" "sorted_wrt (\<lambda>x y. f x < f y) ys" "set xs = set ys"
  shows "sort_key f xs = ys"
proof (rule sorted_wrt_unique)
  have "inj_on f (set xs)" "distinct xs" using assms(1) by (simp_all add: distinct_map)
  then show "sorted_wrt (\<lambda>x y. f x < f y) (sort_key f xs)" by (rule strict_sort_key)
qed (use assms(2,3) in auto)

text \<open>The table of the candidates.\<close>

lemma materialized_rows:
  assumes s: "served C F d g items" and q: "query_texts_ok q"
  shows "materialized_candidates C F d g q sel = map (\<lambda>row. (si_row_id row, item_score C q row)) (hit_rows C q sel (generation_items g d))"
proof -
  let ?rows = "generation_items g d" and ?ts = "clause_tables C F d g q"
  let ?table = "map (\<lambda>row. (si_row_id row, item_score C q row)) (hit_rows C q sel ?rows)"
  have ok: "sql_ok C d" using s by (simp add: served_def)
  have "sorted_wrt (<) (map si_row_id (hit_rows C q sel ?rows))" unfolding hit_rows_def by (rule sorted_filter_ids [OF row_ids(1) [OF ok]])
  then have sorted: "sorted_wrt (\<lambda>x y. fst x < fst y) ?table" by (simp add: sorted_wrt_map)
  have each: "distinct (map fst t)" if "t \<in> set ?ts" for t
    using that group_max_distinct by (auto simp: clause_tables_def term_cte_def phrase_cte_def Let_def)
  have scores: "sum_scores (map (\<lambda>t. score_at t (si_row_id row)) ?ts) = matches_and_score C (si_body row) q" if "row \<in> set ?rows" for row
    by (rule clause_scores [OF served_searchable [OF s that] q])
  have "distinct (map fst (candidates C F d g q sel)) \<and> set (candidates C F d g q sel) = set ?table"
  proof (cases ?ts)
    case Nil
    then have "matches_and_score C (si_body row) q = Some 0" if "row \<in> set ?rows" for row using scores [OF that] by simp
    then have "hit_rows C q sel ?rows = filter (\<lambda>row. has_chain sel (si_body row)) ?rows" and zero: "\<forall>row\<in>set ?rows. item_score C q row = 0"
      by (auto simp: hit_rows_def item_score_def intro!: filter_cong)
    moreover have "filter (\<lambda>i. si_generation_id i = g \<and> filter_sql d g sel i) (sq_items d) = filter (\<lambda>row. has_chain sel (si_body row)) ?rows"
      unfolding generation_items_def filter_filter using filter_sql_chain [OF ok, of _ g sel] by (intro filter_cong) (auto simp: generation_items_row)
    ultimately have "candidates C F d g q sel = ?table" using Nil by (auto simp: candidates_def clause_tables_def)
    moreover have "distinct (map fst ?table)" using sorted by (rule key_sorted_distinct)
    ultimately show ?thesis by simp
  next
    case (Cons t ts)
    define S where "S = (if length (t # ts) \<le> joined_clause_limit then foldl join_scores t ts else group_sum (length (t # ts)) (concat (t # ts)))"
    have S: "distinct (map fst S)" "\<And>i. score_at S i = sum_scores (map (\<lambda>t. score_at t i) ?ts)"
      using fold_join [of t ts] group_sum_at [of "t # ts"] each unfolding S_def Cons by (simp_all split: if_split)
    have c: "candidates C F d g q sel = item_candidates d g sel S" using Cons by (simp add: candidates_def clause_tables_def S_def)
    have "set (item_candidates d g sel S) = {(si_row_id row, n) | row n. row \<in> set ?rows \<and> has_chain sel (si_body row) \<and> matches_and_score C (si_body row) q = Some n}"
      unfolding item_candidates_rows(2) [OF ok S(1)] S(2) using scores by (intro Collect_cong ex_cong1) auto
    also have "\<dots> = set ?table" by (auto simp: hit_rows_def item_score_def)
    finally show ?thesis using item_candidates_rows(1) [OF ok S(1)] by (simp add: c)
  qed
  then show ?thesis unfolding materialized_candidates_def using sorted by (intro sorted_by_key) simp_all
qed

end
