(* ===== verification/Sql_Order.thy ===== *)
theory Sql_Order
  imports Sql_Rows
begin

text \<open>
  The order of an answer: \<open>ORDER BY\<close> over the stored keys, with \<open>LIMIT\<close>, gives the first rows of
  \<open>_sort_rows\<close> on the matching items.
\<close>

section \<open>Order\<close>

lemma place_row_set: "set (place_row R x ys) = insert x (set ys)"
  by (induction ys) auto

lemma place_row_sorted:
  assumes "\<And>y z. y \<in> S \<Longrightarrow> z \<in> S \<Longrightarrow> y \<noteq> z \<Longrightarrow> R y z \<or> R z y"
    and "\<And>y z w. y \<in> S \<Longrightarrow> z \<in> S \<Longrightarrow> w \<in> S \<Longrightarrow> R y z \<Longrightarrow> R z w \<Longrightarrow> R y w"
  shows "sorted_wrt R ys \<Longrightarrow> x \<in> S \<Longrightarrow> set ys \<subseteq> S \<Longrightarrow> x \<notin> set ys \<Longrightarrow> sorted_wrt R (place_row R x ys)"
proof (induction ys)
  case (Cons y ys)
  show ?case
  proof (cases "R y x")
    case True
    then show ?thesis using Cons by (auto simp: place_row_set)
  next
    case False
    then have "R x y" using assms(1) [of x y] Cons.prems by auto
    then show ?thesis using False Cons.prems assms(2) [of x y] by auto
  qed
qed simp

lemma order_by_sorted:
  assumes "\<And>y z. y \<in> set xs \<Longrightarrow> z \<in> set xs \<Longrightarrow> y \<noteq> z \<Longrightarrow> R y z \<or> R z y"
    and "\<And>y z w. y \<in> set xs \<Longrightarrow> z \<in> set xs \<Longrightarrow> w \<in> set xs \<Longrightarrow> R y z \<Longrightarrow> R z w \<Longrightarrow> R y w" and "distinct xs"
  shows "sorted_wrt R (order_by R xs)" and "set (order_by R xs) = set xs"
proof -
  have "sorted_wrt R (order_by R ys) \<and> set (order_by R ys) = set ys" if "set ys \<subseteq> set xs" "distinct ys" for ys
    using that
  proof (induction ys)
    case (Cons y ys)
    then have "sorted_wrt R (place_row R y (order_by R ys))"
      using place_row_sorted [of "set xs" R "order_by R ys" y, OF assms(1,2)] by simp
    then show ?case using Cons by (simp add: order_by_def place_row_set)
  qed (simp add: order_by_def)
  then show "sorted_wrt R (order_by R xs)" "set (order_by R xs) = set xs" using assms(3) by blast+
qed

text \<open>A row of the table with its score, as the row of the scan.\<close>

definition as_hit :: "nat \<times> sql_item \<Rightarrow> search_item \<times> nat" where
  "as_hit r = (si_body (snd r), fst r)"

definition good_row :: "chars \<Rightarrow> nat \<times> sql_item \<Rightarrow> bool" where
  "good_row C r \<longleftrightarrow> row_ok C (snd r) \<and> item_texts_ok (si_body (snd r))"

lemma blob_less:
  assumes "chars_ok C" "short_text s" "short_text t"
  shows "natural_blob C s < natural_blob C t \<longleftrightarrow> natural_key C s < natural_key C t"
    and "natural_blob C s = natural_blob C t \<longleftrightarrow> natural_key C s = natural_key C t"
  using assms natural_key_short [of C s] natural_key_short [of C t]
    blob.code_less [of "natural_key C s" "natural_key C t"] blob.code_inject [of "natural_key C s" "natural_key C t"]
  by (simp_all add: natural_blob_def chars_ok_def short_text_def)

lemma good_row_columns:
  assumes "good_row C r"
  shows "si_path_key (snd r) = natural_blob C (loc_relative_path (it_location (fst (as_hit r))))"
    and "si_filename_key (snd r) = natural_blob C (it_filename (fst (as_hit r)))"
    and "si_relative_path (snd r) = loc_relative_path (it_location (fst (as_hit r)))"
    and "si_item_id (snd r) = it_item_id (fst (as_hit r))" and "si_size_bytes (snd r) = it_size_bytes (fst (as_hit r))"
    and "si_modified_key (snd r) = stamp_key C (as_hit r)" and "fst r = snd (as_hit r)"
proof -
  obtain k where k: "instant_sort_key C (it_modified_at (si_body (snd r))) = Inr k"
    and row: "snd r = item_row C (si_generation_id (snd r)) (si_row_id (snd r)) (si_item_no (snd r)) k (si_body (snd r))"
    using assms by (auto simp: good_row_def row_ok_def)
  have cols: "si_path_key (item_row C g i n k b) = natural_blob C (loc_relative_path (it_location b))"
      "si_filename_key (item_row C g i n k b) = natural_blob C (it_filename b)" "si_relative_path (item_row C g i n k b) = loc_relative_path (it_location b)"
      "si_item_id (item_row C g i n k b) = it_item_id b" "si_size_bytes (item_row C g i n k b) = it_size_bytes b" "si_modified_key (item_row C g i n k b) = k"
    for g i n b by (simp_all add: item_row_def)
  show "si_path_key (snd r) = natural_blob C (loc_relative_path (it_location (fst (as_hit r))))"
    "si_filename_key (snd r) = natural_blob C (it_filename (fst (as_hit r)))"
    "si_relative_path (snd r) = loc_relative_path (it_location (fst (as_hit r)))"
    "si_item_id (snd r) = it_item_id (fst (as_hit r))" "si_size_bytes (snd r) = it_size_bytes (fst (as_hit r))"
    "si_modified_key (snd r) = stamp_key C (as_hit r)" "fst r = snd (as_hit r)"
    using k by (subst row, simp add: cols as_hit_def stamp_key_def)+ (simp add: as_hit_def)
qed

lemma utf8_eq [simp]: "utf8 s = utf8 t \<longleftrightarrow> s = t"
  using utf8_less [of s t] utf8_less [of t s] by (metis less_linear order_less_irrefl)

lemma before_ties:
  assumes C: "chars_ok C" and a: "good_row C a" and b: "good_row C b" and d: "direction \<in> {ASC, DESC}"
  shows "before (tie_columns direction) a b \<longleftrightarrow> dir_less direction (row_tie C (as_hit a)) (row_tie C (as_hit b))"
proof -
  have "short_text (loc_relative_path (it_location (fst (as_hit a))))" "short_text (loc_relative_path (it_location (fst (as_hit b))))"
    using a b by (simp_all add: good_row_def item_texts_ok_def as_hit_def)
  note less = blob_less [OF C this] blob_less [OF C this(2,1)]
  show ?thesis using d
    by (auto simp: tie_columns_def column_less_def good_row_columns [OF a] good_row_columns [OF b] less utf8_less dir_less_def path_tie_def Let_def)
qed

lemma before_key:
  assumes C: "chars_ok C" and a: "good_row C a" and b: "good_row C b"
    and f: "column_less column a b \<longleftrightarrow> f (as_hit a) < f (as_hit b)" "column_less column b a \<longleftrightarrow> f (as_hit b) < f (as_hit a)"
  shows "before ((column, direction) # tie_columns ASC) a b \<longleftrightarrow> tie_less direction f (row_tie C) (as_hit a) (as_hit b)"
  using before_ties [OF C a b, of ASC] f by (auto simp: tie_less_def dir_less_def)

lemma tie_less_trans: "tie_less d f g x y \<Longrightarrow> tie_less d f g y z \<Longrightarrow> tie_less d f g x z"
  by (auto simp: tie_less_def dir_less_def split: if_splits)

lemma tie_less_total: "g x \<noteq> g y \<Longrightarrow> tie_less d f g x y \<or> tie_less d f g y x"
  by (auto simp: tie_less_def dir_less_def)

lemma order_unique:
  assumes R: "\<And>x y. x \<in> set rs \<Longrightarrow> y \<in> set rs \<Longrightarrow> R x y \<longleftrightarrow> tie_less d f (row_tie C) (as_hit x) (as_hit y)"
    and rs: "distinct rs" "inj_on (row_tie C \<circ> as_hit) (set rs)"
    and L: "sorted_wrt (tie_less d f (row_tie C)) L" "set L = as_hit ` set rs"
  shows "map as_hit (order_by R rs) = L"
proof -
  have inj: "row_tie C (as_hit y) \<noteq> row_tie C (as_hit z)" if "y \<in> set rs" "z \<in> set rs" "y \<noteq> z" for y z
    using inj_onD [OF rs(2), of y z] that by (simp only: o_apply) blast
  have "R y z \<or> R z y" if "y \<in> set rs" "z \<in> set rs" "y \<noteq> z" for y z
    using tie_less_total [of "row_tie C" "as_hit y" "as_hit z" d f, OF inj [OF that]] R that by simp
  moreover have "R y w" if "y \<in> set rs" "z \<in> set rs" "w \<in> set rs" "R y z" "R z w" for y z w
    using tie_less_trans [of d f "row_tie C" "as_hit y" "as_hit z" "as_hit w"] R that by simp
  ultimately have o: "sorted_wrt R (order_by R rs)" "set (order_by R rs) = set rs"
    using order_by_sorted [of rs R] rs(1) by blast+
  have "sorted_wrt (\<lambda>x y. tie_less d f (row_tie C) (as_hit x) (as_hit y)) (order_by R rs)"
    using o(1) by (rule sorted_wrt_mono_rel [rotated]) (use o(2) R in simp)
  then show ?thesis
    using L by (intro sorted_wrt_unique [where R = "tie_less d f (row_tie C)"] tie_less_asym) (simp_all add: sorted_wrt_map o(2))
qed

text \<open>The bodies in the order of the query are the rows that the scan sorts.\<close>

lemma order_agrees:
  assumes C: "chars_ok C" and good: "\<forall>r\<in>set rs. good_row C r" and rs: "distinct rs" "inj_on (row_tie C \<circ> as_hit) (set rs)"
  shows "ebind (order_columns field direction) (\<lambda>keys. Inr (map (si_body \<circ> snd) (order_by (before keys) rs))) =
    sort_rows C (map as_hit rs) field direction"
proof -
  let ?hits = "map as_hit rs"
  have hits: "inj_on (row_tie C) (set ?hits)" "distinct ?hits"
    using rs inj_on_imageI2 [of "row_tie C" as_hit "set rs"] by (auto simp: distinct_map inj_on_def)
  have bodies: "map (si_body \<circ> snd) xs = map fst (map as_hit xs)" for xs by (simp add: as_hit_def)
  have key: "map (si_body \<circ> snd) (order_by (before ((column, direction) # tie_columns ASC)) rs) = map fst (sort_dir direction f (sort_key (row_tie C) ?hits))"
    if "\<And>x y. x \<in> set rs \<Longrightarrow> y \<in> set rs \<Longrightarrow> column_less column x y \<longleftrightarrow> f (as_hit x) < f (as_hit y)"
    for column and f :: "search_item \<times> nat \<Rightarrow> 'k::linorder"
    unfolding bodies using that good
    by (intro arg_cong [where f = "map fst"] order_unique [OF _ rs two_sorts [OF hits(2,1)]] before_key [OF C]) auto
  consider "direction = Other_direction" | "direction \<in> {ASC, DESC}" by (cases direction) auto
  then show ?thesis
  proof cases
    case 2
    show ?thesis
    proof (cases field)
      case RELEVANCE
      show ?thesis
      proof (cases "direction = DESC")
        case True
        then show ?thesis
          using key [of Score snd] RELEVANCE relevance_sort [OF hits]
          by (simp add: order_columns_def sort_rows_def check_sort_def column_less_def as_hit_def)
      qed (use RELEVANCE 2 in \<open>simp add: order_columns_def sort_rows_def check_sort_def\<close>)
    next
      case PATH
      have same: "tie_less direction (row_tie C) (row_tie C) = (\<lambda>x y. dir_less direction (path_tie C (fst x)) (path_tie C (fst y)))"
        by (intro ext) (auto simp: tie_less_def)
      have "map as_hit (order_by (before (tie_columns direction)) rs) = sort_dir direction (row_tie C) ?hits"
        using before_ties [OF C _ _ 2] good strict_sort_dir [OF hits, of direction]
        by (intro order_unique [OF _ rs, where d = direction and f = "row_tie C"]) (simp_all add: same)
      then have "map (si_body \<circ> snd) (order_by (before (tie_columns direction)) rs) = map fst (sort_dir direction (row_tie C) ?hits)" by (simp only: bodies)
      then show ?thesis using PATH 2 by (auto simp: order_columns_def sort_rows_def check_sort_def)
    next
      case NAME
      have "column_less Filename_key x y \<longleftrightarrow> natural_key C (it_filename (fst (as_hit x))) < natural_key C (it_filename (fst (as_hit y)))"
        if "x \<in> set rs" "y \<in> set rs" for x y
      proof -
        have g: "good_row C x" "good_row C y" using good that by simp_all
        then have "short_text (it_filename (fst (as_hit x)))" "short_text (it_filename (fst (as_hit y)))"
          by (simp_all add: good_row_def item_texts_ok_def as_hit_def)
        then show ?thesis using blob_less(1) [OF C] by (simp add: column_less_def good_row_columns(2) [OF g(1)] good_row_columns(2) [OF g(2)])
      qed
      then show ?thesis using key [of Filename_key "\<lambda>r. natural_key C (it_filename (fst r))"] NAME 2
        by (auto simp: order_columns_def sort_rows_def check_sort_def)
    next
      case MODIFIED_AT
      have "\<exists>k. instant_sort_key C (it_modified_at (fst r)) = Inr k" if "r \<in> set (sort_key (row_tie C) ?hits)" for r
        using that good by (auto simp: good_row_def row_ok_def as_hit_def)
      then have keys: "instant_keys C (sort_key (row_tie C) ?hits) = Inr (map (\<lambda>r. (stamp_key C r, r)) (sort_key (row_tie C) ?hits))"
        by (intro instant_keys_all) blast
      have "column_less Modified_key x y \<longleftrightarrow> stamp_key C (as_hit x) < stamp_key C (as_hit y)" if "x \<in> set rs" "y \<in> set rs" for x y
        using good that good_row_columns(6) [of C x] good_row_columns(6) [of C y] by (simp add: column_less_def utf8_less)
      then show ?thesis using key [of Modified_key "stamp_key C"] MODIFIED_AT 2 keys sort_by_stamp [of direction C "sort_key (row_tie C) ?hits"]
        by (auto simp: order_columns_def sort_rows_def check_sort_def Let_def)
    next
      case SIZE
      have "column_less Size_bytes x y \<longleftrightarrow> it_size_bytes (fst (as_hit x)) < it_size_bytes (fst (as_hit y))" if "x \<in> set rs" "y \<in> set rs" for x y
        using good that good_row_columns(5) [of C x] good_row_columns(5) [of C y] by (simp add: column_less_def)
      then show ?thesis using key [of Size_bytes "\<lambda>r. it_size_bytes (fst r)"] SIZE 2
        by (auto simp: order_columns_def sort_rows_def check_sort_def)
    qed (use 2 in \<open>auto simp: order_columns_def sort_rows_def check_sort_def\<close>)
  qed (simp add: order_columns_def sort_rows_def check_sort_def)
qed

text \<open>The bodies that an answer returns.\<close>

lemma served_hits:
  assumes s: "served C F d g items"
  shows "map as_hit (map (\<lambda>row. (item_score C q row, row)) (hit_rows C q sel (generation_items g d))) = scan_items C q (filter (has_chain sel) items)"
proof -
  have "map as_hit (map (\<lambda>row. (item_score C q row, row)) (hit_rows C q sel rows)) = scan_items C q (filter (has_chain sel) (map si_body rows))" for rows
    by (induction rows) (auto simp: hit_rows_def scan_items_def as_hit_def item_score_def map_filter_simps)
  then show ?thesis using served_items [OF s] by simp
qed

lemma top_items:
  assumes s: "served C F d g items" and q: "query_texts_ok q"
  shows "ebind (top_ids d (materialized_candidates C F d g q sel) field direction limit) (read_bodies d) =
    ebind (sort_rows C (scan_items C q (filter (has_chain sel) items)) field direction) (\<lambda>rows. Inr (take limit rows))"
proof -
  let ?hits = "hit_rows C q sel (generation_items g d)"
  let ?rs = "map (\<lambda>row. (item_score C q row, row)) ?hits"
  have ok: "sql_ok C d" and C: "chars_ok C" using s by (simp_all add: served_def)
  have hits: "row \<in> set (sq_items d) \<and> row \<in> set (generation_items g d)" if "row \<in> set ?hits" for row
    using that by (auto simp: hit_rows_def generation_items_row)
  have dist: "distinct (sq_items d)" and inj: "inj_on si_row_id (set (sq_items d))"
    using row_ids(2) [OF ok] ok by (auto simp: sql_ok_def strict_sorted_iff distinct_map)
  have one: "filter (\<lambda>i. si_row_id i = si_row_id row) (sq_items d) = [row]" if "row \<in> set (sq_items d)" for row
  proof -
    have "filter (\<lambda>i. si_row_id i = si_row_id row) (sq_items d) = filter (\<lambda>i. i = row) (sq_items d)"
      using inj that by (auto simp: inj_on_def intro: filter_cong)
    moreover have "distinct xs \<Longrightarrow> row \<in> set xs \<Longrightarrow> filter (\<lambda>i. i = row) xs = [row]" for xs
      by (induction xs) (auto simp: filter_empty_conv)
    ultimately show ?thesis using dist that by simp
  qed
  have rows: "concat (map (\<lambda>(row_id, score). map (Pair score) (filter (\<lambda>i. si_row_id i = row_id) (sq_items d))) (materialized_candidates C F d g q sel)) = ?rs"
    unfolding materialized_rows [OF s q] using hits one by (simp add: comp_def cong: map_cong)
  have read: "read_bodies d (map si_row_id xs) = Inr (map si_body xs)" if "set xs \<subseteq> set (sq_items d)" for xs
    using that
  proof (induction xs)
    case (Cons x xs)
    have "find (\<lambda>i. si_row_id i = si_row_id x) (sq_items d) = Some x"
    proof -
      have "find P ys = (case filter P ys of [] \<Rightarrow> None | y # _ \<Rightarrow> Some y)" for P and ys :: "sql_item list" by (induction ys) auto
      then show ?thesis using one [of x] Cons.prems by simp
    qed
    then show ?case using Cons by simp
  qed simp
  have good: "\<forall>r\<in>set ?rs. good_row C r"
    using hits ok s served_items [OF s] by (auto simp: good_row_def sql_ok_def list_all_iff served_def)
  have ties: "inj_on (row_tie C \<circ> as_hit) (set ?rs)" "distinct ?rs"
  proof -
    have ids: "inj_on si_item_id (set (generation_items g d))" "distinct (generation_items g d)" using ok by (auto simp: sql_ok_def distinct_map)
    then show "distinct ?rs" by (simp add: hit_rows_def distinct_map inj_on_def)
    have item_id: "it_item_id (si_body row) = si_item_id row" if "row \<in> set ?hits" for row
      using good that good_row_columns(4) [of C "(item_score C q row, row)"] by (simp add: as_hit_def)
    then show "inj_on (row_tie C \<circ> as_hit) (set ?rs)"
      using ids(1) hits by (auto simp: inj_on_def as_hit_def path_tie_def Let_def)
  qed
  have sub: "set (map snd (take limit (order_by R ?rs))) \<subseteq> set (sq_items d)" for R
  proof -
    have "set (order_by R xs) = set xs" for xs :: "(nat \<times> sql_item) list" by (induction xs) (simp_all add: order_by_def place_row_set)
    then show ?thesis using hits set_take_subset [of limit "order_by R ?rs"] by auto
  qed
  have "ebind (top_ids d (materialized_candidates C F d g q sel) field direction limit) (read_bodies d) =
      ebind (order_columns field direction) (\<lambda>keys. Inr (take limit (map (si_body \<circ> snd) (order_by (before keys) ?rs))))"
    using read [OF sub] by (cases "order_columns field direction") (simp_all add: top_ids_def rows comp_def take_map [symmetric])
  also have "\<dots> = ebind (ebind (order_columns field direction) (\<lambda>keys. Inr (map (si_body \<circ> snd) (order_by (before keys) ?rs)))) (\<lambda>rows. Inr (take limit rows))"
    by (cases "order_columns field direction") simp_all
  finally show ?thesis unfolding order_agrees [OF C good ties(2,1)] served_hits [OF s] .
qed

end
