(* ===== verification/Sql_Facets.thy ===== *)
theory Sql_Facets
  imports Sql_Order
begin

text \<open>
  The markers: the stored rows of a generation whose items form a marker tree, the validation of a selection, and
  the facets, which are those that the scan builds by counting.
\<close>

section \<open>The marker tree\<close>

text \<open>
  A marker id determines the marker, its depth and the chain above it, and the markers below one chain are of
  one level, as the ids and the levels of a schema make them.
\<close>

definition marker_tree :: "search_item list \<Rightarrow> bool" where
  "marker_tree items \<longleftrightarrow>
     (\<forall>a\<in>set items. \<forall>b\<in>set items. \<forall>i<length (it_markers a). \<forall>j<length (it_markers b).
        mk_marker_id (it_markers a ! i) = mk_marker_id (it_markers b ! j) \<longrightarrow>
        i = j \<and> take (Suc i) (it_markers a) = take (Suc j) (it_markers b)) \<and>
     (\<forall>a\<in>set items. \<forall>b\<in>set items. \<forall>i<length (it_markers a). i < length (it_markers b) \<longrightarrow>
        take i (it_markers a) = take i (it_markers b) \<longrightarrow>
        mk_level_id (it_markers a ! i) = mk_level_id (it_markers b ! i) \<and>
        mk_level_name (it_markers a ! i) = mk_level_name (it_markers b ! i))"

lemma tree_ids:
  assumes "marker_tree items" "a \<in> set items" "b \<in> set items" "i < length (it_markers a)" "j < length (it_markers b)"
    and "mk_marker_id (it_markers a ! i) = mk_marker_id (it_markers b ! j)"
  shows "i = j" and "take (Suc i) (it_markers a) = take (Suc i) (it_markers b)" and "it_markers a ! i = it_markers b ! i"
proof -
  show eq: "i = j" "take (Suc i) (it_markers a) = take (Suc i) (it_markers b)" using assms unfolding marker_tree_def by blast+
  then show "it_markers a ! i = it_markers b ! i" by (metis lessI nth_take)
qed

definition parent_at :: "marker list \<Rightarrow> nat \<Rightarrow> ustr option" where
  "parent_at ms i = (if i = 0 then None else Some (mk_marker_id (ms ! (i - 1))))"

definition stored_row :: "chars \<Rightarrow> ustr \<Rightarrow> search_item \<Rightarrow> nat \<Rightarrow> sql_marker" where
  "stored_row C g item i = marker_row C g (parent_at (it_markers item) i) i (it_markers item ! i)"

lemma stored_row_simps [simp]:
  "sm_generation_id (stored_row C g item i) = g" "sm_marker_id (stored_row C g item i) = mk_marker_id (it_markers item ! i)"
  "sm_depth (stored_row C g item i) = i" "sm_marker_json (stored_row C g item i) = it_markers item ! i"
  "sm_parent_marker_id (stored_row C g item i) = parent_at (it_markers item) i"
  by (simp_all add: stored_row_def marker_row_def)

lemma offered_rows:
  "x \<in> set (offered_markers C g depth parent ms) \<longleftrightarrow>
   (\<exists>i<length ms. x = marker_row C g (if i = 0 then parent else Some (mk_marker_id (ms ! (i - 1)))) (depth + i) (ms ! i))"
proof (induction ms arbitrary: depth parent)
  case (Cons m ms)
  have "(\<exists>i<Suc n. P i) \<longleftrightarrow> P 0 \<or> (\<exists>i<n. P (Suc i))" for n P by (auto simp: less_Suc_eq_0_disj)
  moreover have "(if i = 0 then Some (mk_marker_id m) else Some (mk_marker_id (ms ! (i - 1)))) = Some (mk_marker_id ((m # ms) ! i))" for i
    by (cases i) simp_all
  ultimately show ?case by (simp add: Cons)
qed simp

lemma tree_row:
  assumes "marker_tree items" "a \<in> set items" "b \<in> set items" "i < length (it_markers a)" "j < length (it_markers b)"
    and "mk_marker_id (it_markers a ! i) = mk_marker_id (it_markers b ! j)"
  shows "stored_row C g a i = stored_row C g b j"
proof -
  note t = tree_ids [OF assms]
  have "it_markers a ! (i - 1) = it_markers b ! (i - 1)" using t(2) by (metis diff_le_self le_imp_less_Suc nth_take)
  then show ?thesis using t by (simp add: stored_row_def parent_at_def)
qed

text \<open>The stored rows are one for each marker of the items.\<close>

lemma insert_markers_set:
  "(\<forall>x\<in>set new. sm_generation_id x = g) \<Longrightarrow> (\<forall>x\<in>set rows. sm_generation_id x = g) \<Longrightarrow>
   (\<forall>x\<in>set new \<union> set rows. \<forall>y\<in>set new \<union> set rows. sm_marker_id x = sm_marker_id y \<longrightarrow> x = y) \<Longrightarrow> distinct rows \<Longrightarrow>
   set (fold insert_marker new rows) = set rows \<union> set new \<and> distinct (fold insert_marker new rows)"
proof (induction new arbitrary: rows)
  case (Cons x new)
  have "(\<exists>r\<in>set rows. sm_generation_id r = sm_generation_id x \<and> sm_marker_id r = sm_marker_id x) \<longleftrightarrow> x \<in> set rows"
    using Cons.prems(1-3) by auto
  then have i: "insert_marker x rows = (if x \<in> set rows then rows else rows @ [x])" by (simp add: insert_marker_def)
  have "set (fold insert_marker new (insert_marker x rows)) = set (insert_marker x rows) \<union> set new \<and> distinct (fold insert_marker new (insert_marker x rows))"
    by (rule Cons.IH) (use Cons.prems in \<open>auto simp: i\<close>)
  then show ?case by (auto simp: i)
qed simp

lemma stored_markers:
  assumes holds: "holds_items C g items d" and tree: "marker_tree items"
  shows "set (filter (\<lambda>m. sm_generation_id m = g) (sq_markers d)) = {stored_row C g item i | item i. item \<in> set items \<and> i < length (it_markers item)}"
    and "distinct (filter (\<lambda>m. sm_generation_id m = g) (sq_markers d))"
proof -
  let ?new = "concat (map (\<lambda>item. offered_markers C g 0 None (it_markers item)) items)"
  let ?all = "{stored_row C g item i | item i. item \<in> set items \<and> i < length (it_markers item)}"
  have "x \<in> set (offered_markers C g 0 None (it_markers item)) \<longleftrightarrow> (\<exists>i<length (it_markers item). x = stored_row C g item i)" for x item
    by (simp add: offered_rows stored_row_def parent_at_def)
  then have new: "set ?new = ?all" by (simp add: set_eq_iff) blast
  have uniq: "\<forall>x\<in>?all. \<forall>y\<in>?all. sm_marker_id x = sm_marker_id y \<longrightarrow> x = y"
  proof (intro ballI impI)
    fix x y
    assume "x \<in> ?all" "y \<in> ?all" and id: "sm_marker_id x = sm_marker_id y"
    then obtain a i b j where x: "x = stored_row C g a i" "a \<in> set items" "i < length (it_markers a)"
        and y: "y = stored_row C g b j" "b \<in> set items" "j < length (it_markers b)" by blast
    show "x = y" using tree_row [OF tree x(2) y(2) x(3) y(3)] id x(1) y(1) by simp
  qed
  have gen: "\<forall>x\<in>?all. sm_generation_id x = g" by auto
  have "set (fold insert_marker ?new []) = set [] \<union> set ?new \<and> distinct (fold insert_marker ?new [])"
  proof (rule insert_markers_set [where g = g])
    show "\<forall>x\<in>set ?new. sm_generation_id x = g" unfolding new by (rule gen)
    show "\<forall>x\<in>set ?new \<union> set []. \<forall>y\<in>set ?new \<union> set []. sm_marker_id x = sm_marker_id y \<longrightarrow> x = y"
      unfolding new list.set Un_empty_right by (rule uniq)
  qed simp_all
  moreover have "filter (\<lambda>m. sm_generation_id m = g) (sq_markers d) = fold insert_marker ?new []"
    using holds by (simp only: holds_items_def marker_table_def)
  ultimately show "set (filter (\<lambda>m. sm_generation_id m = g) (sq_markers d)) = ?all" "distinct (filter (\<lambda>m. sm_generation_id m = g) (sq_markers d))"
    using new by (simp_all only: list.set Un_empty_left)
qed

lemma stored_marker:
  assumes holds: "holds_items C g items d" and tree: "marker_tree items" and item: "item \<in> set items" "i < length (it_markers item)"
  shows "filter (\<lambda>m. sm_generation_id m = g \<and> sm_marker_id m = mk_marker_id (it_markers item ! i)) (sq_markers d) = [stored_row C g item i]"
proof -
  note rows = stored_markers [OF holds tree]
  let ?rows = "filter (\<lambda>m. sm_generation_id m = g) (sq_markers d)"
  have "m = stored_row C g item i" if "m \<in> set ?rows" "sm_marker_id m = mk_marker_id (it_markers item ! i)" for m
  proof -
    from that(1) obtain b j where m: "m = stored_row C g b j" and b: "b \<in> set items" "j < length (it_markers b)"
      unfolding rows(1) by blast
    then show ?thesis using tree_row [OF tree b(1) item(1) b(2) item(2)] that(2) by simp
  qed
  moreover have "stored_row C g item i \<in> set ?rows" unfolding rows(1) using item by blast
  ultimately have "filter (\<lambda>m. sm_marker_id m = mk_marker_id (it_markers item ! i)) ?rows = filter (\<lambda>m. m = stored_row C g item i) ?rows"
    by (intro filter_cong refl) (metis stored_row_simps(2))
  also have "\<dots> = [stored_row C g item i]"
  proof -
    have "distinct xs \<Longrightarrow> x \<in> set xs \<Longrightarrow> filter (\<lambda>m. m = x) xs = [x]" for x and xs :: "sql_marker list"
      by (induction xs) (auto simp: filter_empty_conv)
    then show ?thesis using rows(2) \<open>stored_row C g item i \<in> set ?rows\<close> by blast
  qed
  finally show ?thesis by (simp add: conj_commute)
qed

section \<open>Selections\<close>

lemma has_chain_snoc:
  "has_chain (pre @ [i]) item \<longleftrightarrow> has_chain pre item \<and> length pre < length (it_markers item) \<and> mk_marker_id (it_markers item ! length pre) = i"
  by (auto simp: has_chain_nth nth_append less_Suc_eq)

lemma has_chain_append: "has_chain (pre @ rest) item \<Longrightarrow> has_chain pre item"
  by (auto simp: has_chain_nth nth_append)

lemma chain_by_last:
  assumes tree: "marker_tree items" and a: "a \<in> set items" "has_chain sel a" and b: "b \<in> set items" "length sel \<le> length (it_markers b)"
    and sel: "sel \<noteq> []" "mk_marker_id (it_markers b ! (length sel - 1)) = last sel"
  shows "take (length sel) (it_markers b) = take (length sel) (it_markers a)" and "has_chain sel b"
proof -
  let ?n = "length sel - 1"
  have n: "?n < length sel" using sel(1) by simp
  then have "?n < length (it_markers a)" "mk_marker_id (it_markers a ! ?n) = last sel"
    using a(2) sel(1) by (auto simp: has_chain_nth last_conv_nth)
  then have "take (Suc ?n) (it_markers b) = take (Suc ?n) (it_markers a)"
    using tree_ids(2) [OF tree b(1) a(1), of ?n ?n] n b(2) sel(2) by simp
  then show t: "take (length sel) (it_markers b) = take (length sel) (it_markers a)" using sel(1) by simp
  have "mk_marker_id (it_markers b ! k) = sel ! k" if "k < length sel" for k
    using a(2) that t by (metis has_chain_nth nth_take)
  then show "has_chain sel b" using b(2) by (auto simp: has_chain_nth)
qed

lemma chain_take:
  assumes "marker_tree items" "a \<in> set items" "has_chain sel a" "b \<in> set items" "has_chain sel b"
  shows "take (length sel) (it_markers b) = take (length sel) (it_markers a)"
proof (cases "sel = []")
  case False
  then have "mk_marker_id (it_markers b ! (length sel - 1)) = last sel" using assms(5) by (auto simp: has_chain_nth last_conv_nth)
  moreover have "length sel \<le> length (it_markers b)" using assms(5) by (simp add: has_chain_def)
  ultimately show ?thesis using chain_by_last(1) [OF assms(1-4)] False by blast
qed simp

lemma find_filter: "find P xs = (case filter P xs of [] \<Rightarrow> None | x # _ \<Rightarrow> Some x)"
  by (induction xs) auto

lemma selected_rows_chain:
  assumes holds: "holds_items C g items d" and tree: "marker_tree items"
  shows "pre = [] \<or> (\<exists>item\<in>set items. has_chain pre item) \<Longrightarrow>
    selected_rows d g (length pre) (if pre = [] then None else Some (last pre)) rest =
    (case filter (has_chain (pre @ rest)) items of
       [] \<Rightarrow> if rest = [] then Inr [] else Inl (api INVALID_MARKER_SELECTION 422)
     | item # _ \<Rightarrow> Inr (drop (length pre) (take (length (pre @ rest)) (it_markers item))))"
proof (induction rest arbitrary: pre)
  case Nil
  then show ?case by (auto split: list.split)
next
  case (Cons i rest)
  let ?n = "length pre" and ?P = "\<lambda>m. sm_generation_id m = g \<and> sm_marker_id m = i \<and> sm_depth m = length pre"
  show ?case
  proof (cases "\<exists>item\<in>set items. has_chain (pre @ [i]) item")
    case True
    then obtain item where item: "item \<in> set items" "has_chain pre item" "?n < length (it_markers item)" "mk_marker_id (it_markers item ! ?n) = i"
      by (auto simp: has_chain_snoc)
    have "filter ?P (sq_markers d) = filter (\<lambda>m. sm_depth m = ?n) [stored_row C g item ?n]"
      unfolding stored_marker [OF holds tree item(1,3), symmetric] item(4) by (auto intro: filter_cong)
    then have find: "find ?P (sq_markers d) = Some (stored_row C g item ?n)" by (simp add: find_filter)
    have "parent_at (it_markers item) ?n = (if pre = [] then None else Some (last pre))"
      using item(2) by (auto simp: parent_at_def has_chain_nth last_conv_nth)
    then have "selected_rows d g ?n (if pre = [] then None else Some (last pre)) (i # rest) =
        ebind (selected_rows d g (Suc ?n) (Some i) rest) (\<lambda>ms. Inr (it_markers item ! ?n # ms))"
      by (simp add: find)
    moreover have "selected_rows d g (Suc ?n) (Some i) rest = (case filter (has_chain (pre @ i # rest)) items of
       [] \<Rightarrow> if rest = [] then Inr [] else Inl (api INVALID_MARKER_SELECTION 422)
     | item # _ \<Rightarrow> Inr (drop (Suc ?n) (take (length (pre @ i # rest)) (it_markers item))))"
      using Cons.IH [of "pre @ [i]"] True by (cases "filter (has_chain (pre @ i # rest)) items") simp_all
    moreover have "drop ?n (take (length (pre @ i # rest)) (it_markers b)) = it_markers item ! ?n # drop (Suc ?n) (take (length (pre @ i # rest)) (it_markers b))"
      if "filter (has_chain (pre @ i # rest)) items = b # bs" for b bs
    proof -
      have "b \<in> set items" "has_chain (pre @ [i]) b" using that has_chain_append [of "pre @ [i]" rest b] by (auto simp: filter_eq_Cons_iff)
      then have "?n < length (it_markers b)" "it_markers b ! ?n = it_markers item ! ?n"
        using tree_ids(3) [OF tree _ item(1) _ item(3)] item(4) by (auto simp: has_chain_snoc)
      then show ?thesis by (simp add: Cons_nth_drop_Suc [symmetric])
    qed
    moreover have "rest \<noteq> []" if "filter (has_chain (pre @ i # rest)) items = []" using that True by (auto simp: filter_empty_conv)
    ultimately show ?thesis by (auto split: list.split)
  next
    case False
    have "selected_rows d g ?n (if pre = [] then None else Some (last pre)) (i # rest) = Inl (api INVALID_MARKER_SELECTION 422)"
    proof (cases "find ?P (sq_markers d)")
      case (Some m)
      then have "m \<in> set (filter (\<lambda>m. sm_generation_id m = g) (sq_markers d))" "sm_marker_id m = i" "sm_depth m = ?n"
        by (auto simp: find_Some_iff)
      then obtain b where b: "b \<in> set items" "?n < length (it_markers b)" "mk_marker_id (it_markers b ! ?n) = i" and m: "m = stored_row C g b ?n"
        unfolding stored_markers(1) [OF holds tree] by auto
      have "parent_at (it_markers b) ?n \<noteq> (if pre = [] then None else Some (last pre))"
      proof
        assume p: "parent_at (it_markers b) ?n = (if pre = [] then None else Some (last pre))"
        have "has_chain pre b"
        proof (cases "pre = []")
          case False
          then obtain a where "a \<in> set items" "has_chain pre a" using Cons.prems by blast
          then show ?thesis using chain_by_last(2) [OF tree _ _ b(1) _ False] b(2) p False by (simp add: parent_at_def split: if_splits)
        qed simp
        then show False using \<open>\<not> (\<exists>item\<in>set items. has_chain (pre @ [i]) item)\<close> b by (auto simp: has_chain_snoc)
      qed
      then show ?thesis using Some by (simp add: m)
    qed simp
    moreover have "filter (has_chain (pre @ i # rest)) items = []"
      using False has_chain_append [of "pre @ [i]" rest] by (auto simp: filter_empty_conv)
    ultimately show ?thesis by simp
  qed
qed

lemma selection_agrees:
  assumes holds: "holds_items C g items d" and tree: "marker_tree items"
  shows "selected_chain items sel = ebind (sql_selected d g sel) (\<lambda>_. Inr (filter (has_chain sel) items))"
    and "sql_selected d g sel = Inr chosen \<Longrightarrow>
      chosen = (if sel \<noteq> [] \<and> filter (has_chain sel) items \<noteq> [] then take (length sel) (it_markers (hd (filter (has_chain sel) items))) else [])"
    and "sql_selected d g sel = Inr chosen \<Longrightarrow> sel \<noteq> [] \<Longrightarrow> \<exists>item\<in>set items. has_chain sel item"
proof -
  let ?cands = "filter (has_chain sel) items"
  have rows: "selected_rows d g 0 None sel = (case ?cands of [] \<Rightarrow> if sel = [] then Inr [] else Inl (api INVALID_MARKER_SELECTION 422)
      | item # _ \<Rightarrow> Inr (take (length sel) (it_markers item)))"
    using selected_rows_chain [OF holds tree, of "[]" sel] by (cases ?cands) simp_all
  have chain: "filter (\<lambda>item. length sel \<le> length (it_markers item) \<and> take (length sel) (marker_ids item) = sel) items = ?cands"
    by (simp add: has_chain_def [abs_def])
  have last: "\<exists>item\<in>set items. last sel \<in> set (marker_ids item)" if "?cands \<noteq> []" "sel \<noteq> []"
  proof -
    from that(1) obtain item where "item \<in> set items" "has_chain sel item" by (auto simp: filter_empty_conv)
    then show ?thesis using last_in_set [OF that(2)] by (metis has_chain_def in_set_takeD)
  qed
  show "selected_chain items sel = ebind (sql_selected d g sel) (\<lambda>_. Inr ?cands)"
    using last by (auto simp: selected_chain_def sql_selected_def rows chain Let_def split: list.split)
  show "sql_selected d g sel = Inr chosen \<Longrightarrow>
      chosen = (if sel \<noteq> [] \<and> ?cands \<noteq> [] then take (length sel) (it_markers (hd ?cands)) else [])"
    by (auto simp: sql_selected_def rows split: if_splits list.splits)
  show "sql_selected d g sel = Inr chosen \<Longrightarrow> sel \<noteq> [] \<Longrightarrow> \<exists>item\<in>set items. has_chain sel item"
    by (auto simp: sql_selected_def rows filter_eq_Cons_iff split: if_splits list.splits)
qed

section \<open>Counting\<close>

lemma dict_set_known:
  "distinct (map fst xs) \<Longrightarrow> (k, u) \<in> set xs \<Longrightarrow> set (dict_set k v xs) = insert (k, v) (set xs - {(k, u)})"
  by (induction xs) force+

lemma dict_set_new: "k \<notin> fst ` set xs \<Longrightarrow> dict_set k v xs = xs @ [(k, v)]"
  by (induction xs) auto

lemma dict_set_keys: "map fst (dict_set k v xs) = (if k \<in> fst ` set xs then map fst xs else map fst xs @ [k])"
  by (induction xs) auto

definition occurrences :: "marker list \<Rightarrow> marker \<Rightarrow> nat" where
  "occurrences ms m = length (filter (\<lambda>x. mk_marker_id x = mk_marker_id m) ms)"

definition same_ids :: "marker list \<Rightarrow> bool" where
  "same_ids ms \<longleftrightarrow> (\<forall>a\<in>set ms. \<forall>b\<in>set ms. mk_marker_id a = mk_marker_id b \<longrightarrow> a = b)"

definition counted :: "marker list \<Rightarrow> groups" where
  "counted ms = foldl (\<lambda>grouped m. count_marker m grouped) [] ms"

lemma counted_groups:
  "same_ids ms \<Longrightarrow>
   distinct (map fst (counted ms)) \<and> set (counted ms) = (\<lambda>m. (mk_marker_id m, m, occurrences ms m)) ` set ms \<and>
   (ms = [] \<longrightarrow> counted ms = []) \<and> (ms \<noteq> [] \<longrightarrow> counted ms \<noteq> [] \<and> fst (snd (hd (counted ms))) = hd ms)"
proof (induction ms rule: rev_induct)
  case (snoc m ms)
  have same: "same_ids ms" using snoc.prems by (simp add: same_ids_def)
  note IH = snoc.IH [OF same]
  let ?G = "counted ms" and ?id = "mk_marker_id m"
  have keys: "fst ` set ?G = mk_marker_id ` set ms" using IH by (simp add: image_image)
  have step: "counted (ms @ [m]) = count_marker m ?G" by (simp add: counted_def)
  have others: "occurrences (ms @ [m]) x = occurrences ms x" if "mk_marker_id x \<noteq> ?id" for x using that by (simp add: occurrences_def)
  show ?case
  proof (cases "m \<in> set ms")
    case True
    then have mem: "(?id, m, occurrences ms m) \<in> set ?G" using IH by blast
    then have get: "map_of ?G ?id = Some (m, occurrences ms m)" using IH by (simp add: map_of_eq_Some_iff)
    then have new: "counted (ms @ [m]) = dict_set ?id (m, Suc (occurrences ms m)) ?G" by (simp add: step count_marker_def)
    let ?f = "\<lambda>x. (mk_marker_id x, x, occurrences ms x)" and ?h = "\<lambda>x. (mk_marker_id x, x, occurrences (ms @ [m]) x)"
    have "?h x = ?f x" if "x \<in> set ms - {m}" for x using that others snoc.prems by (auto simp: same_ids_def)
    then have "?h ` (set ms - {m}) = ?f ` (set ms - {m})" by (rule image_cong [OF refl])
    moreover have "?f ` set ms - {?f m} = ?f ` (set ms - {m})" by auto
    moreover have "?h m = (?id, m, Suc (occurrences ms m))" by (simp add: occurrences_def)
    moreover have "set (counted (ms @ [m])) = insert (?id, m, Suc (occurrences ms m)) (set ?G - {?f m})"
      unfolding new using dict_set_known [OF conjunct1 [OF IH] mem] by simp
    moreover have "?h ` set (ms @ [m]) = insert (?h m) (?h ` (set ms - {m}))" using True by auto
    ultimately have "set (counted (ms @ [m])) = ?h ` set (ms @ [m])" using IH by simp
    moreover have "distinct (map fst (counted (ms @ [m])))" using IH keys True by (simp add: new dict_set_keys)
    moreover have "counted (ms @ [m]) \<noteq> [] \<and> fst (snd (hd (counted (ms @ [m])))) = hd ms"
      using IH True get by (cases ?G) (auto simp: new split: if_splits)
    ultimately show ?thesis using True by (cases ms) auto
  next
    case False
    then have fresh: "?id \<notin> fst ` set ?G" using snoc.prems unfolding keys by (auto simp: same_ids_def)
    then have get: "map_of ?G ?id = None" by (simp add: map_of_eq_None_iff)
    have new: "counted (ms @ [m]) = ?G @ [(?id, m, 1)]" using fresh by (simp add: step count_marker_def get dict_set_new)
    have diff: "mk_marker_id x \<noteq> ?id" if "x \<in> set ms" for x using imageI [OF that, of mk_marker_id] fresh unfolding keys by metis
    then have zero: "occurrences ms m = 0" by (simp add: occurrences_def filter_empty_conv)
    let ?f = "\<lambda>x. (mk_marker_id x, x, occurrences ms x)" and ?h = "\<lambda>x. (mk_marker_id x, x, occurrences (ms @ [m]) x)"
    have "?h ` set ms = ?f ` set ms" using others diff by (intro image_cong) auto
    moreover have "?h m = (?id, m, 1)" using zero by (simp add: occurrences_def)
    moreover have "?h ` set (ms @ [m]) = insert (?h m) (?h ` set ms)" by auto
    ultimately have "set (counted (ms @ [m])) = ?h ` set (ms @ [m])" using IH by (simp add: new)
    moreover have "distinct (map fst (counted (ms @ [m])))" unfolding new using IH fresh by simp
    moreover have "counted (ms @ [m]) \<noteq> [] \<and> fst (snd (hd (counted (ms @ [m])))) = hd (ms @ [m])"
      unfolding new using IH by (cases "ms = []") (auto simp: hd_append)
    ultimately show ?thesis by simp
  qed
qed (simp add: counted_def)

text \<open>The rows of a facet query are the counted markers, in the same order.\<close>

definition row_of_marker :: "chars \<Rightarrow> sql_marker \<Rightarrow> bool" where
  "row_of_marker C r \<longleftrightarrow> (\<exists>g parent depth m. r = marker_row C g parent depth m \<and> marker_texts_ok m)"

lemma utf8_le: "utf8 s \<le> utf8 t \<longleftrightarrow> s \<le> t"
  by (metis linorder_not_less utf8_less)

lemma facet_key_option:
  assumes C: "chars_ok C" and a: "row_of_marker C a" and b: "row_of_marker C b"
  shows "facet_key a < facet_key b \<longleftrightarrow> option_key C (sm_marker_json a, m) < option_key C (sm_marker_json b, n)"
proof -
  from a b obtain ga pa da ma gb pb db mb where r: "a = marker_row C ga pa da ma" "marker_texts_ok ma" "b = marker_row C gb pb db mb" "marker_texts_ok mb"
    unfolding row_of_marker_def by blast
  then have "short_text (mk_display_value ma)" "short_text (mk_display_value mb)" by (simp_all add: marker_texts_ok_def)
  from blob_less [OF C this] show ?thesis
    by (auto simp: r(1,3) facet_key_def marker_row_def option_key_def Let_def utf8_less utf8_le)
qed

lemma prefix_sql_text:
  assumes C: "chars_ok C" and r: "row_of_marker C r" and pre: "text_ok pre"
  shows "prefix_sql C pre r \<longleftrightarrow> starts_with (ch_casefold C (mk_display_value (sm_marker_json r))) (ch_casefold C pre)"
proof -
  obtain g parent depth m where m: "r = marker_row C g parent depth m" "marker_texts_ok m" using r by (auto simp: row_of_marker_def)
  have ok: "text_ok (ch_casefold C (mk_display_value m))" "text_ok (ch_casefold C pre)"
    using C m(2) pre by (auto simp: chars_ok_def marker_texts_ok_def short_text_def)
  show ?thesis
  proof (cases "ch_casefold C pre = []")
    case False
    then have "utf8 (ch_casefold C pre) \<noteq> []" using utf8_eq [of "ch_casefold C pre" "[]"] by (simp add: utf8_def)
    then show ?thesis using successor_prefix [OF ok False] by (simp add: prefix_sql_def Let_def m(1) marker_row_def)
  qed (simp add: prefix_sql_def utf8_def starts_with_def)
qed

lemma facet_rows_set:
  assumes uniq: "\<forall>a\<in>set rs. \<forall>b\<in>set rs. sm_marker_id a = sm_marker_id b \<longrightarrow> a = b"
  obtains reps where "set reps = set rs" "distinct (map sm_marker_id reps)"
    "facet_rows rs = map (\<lambda>m. (sm_marker_json m, length (filter (\<lambda>r. sm_marker_id r = sm_marker_id m) rs))) (sort_key facet_key reps)"
proof -
  let ?pick = "\<lambda>marker_id. the (find (\<lambda>r. sm_marker_id r = marker_id) rs)"
  let ?reps = "map ?pick (remdups (map sm_marker_id rs))"
  have pick: "?pick (sm_marker_id r) = r" if r: "r \<in> set rs" for r
  proof -
    obtain x where x: "find (\<lambda>x. sm_marker_id x = sm_marker_id r) rs = Some x"
      using r by (cases "find (\<lambda>x. sm_marker_id x = sm_marker_id r) rs") (auto simp: find_None_iff)
    then have "x \<in> set rs" "sm_marker_id x = sm_marker_id r" by (auto simp: find_Some_iff)
    then show ?thesis using uniq r x by simp
  qed
  have "sm_marker_id (?pick i) = i" if "i \<in> set (map sm_marker_id rs)" for i using that pick by auto
  then have "map sm_marker_id ?reps = remdups (map sm_marker_id rs)" unfolding map_map by (intro map_idI) simp
  then have "distinct (map sm_marker_id ?reps)" by (metis distinct_remdups)
  moreover have "set ?reps = set rs" using pick by force
  ultimately show ?thesis by (intro that [of ?reps]) (simp_all only: facet_rows_def)
qed

lemma facet_agrees:
  assumes C: "chars_ok C" and rows: "\<forall>r\<in>set rows. row_of_marker C r" and pre: "text_ok pre"
    and uniq: "\<forall>a\<in>set rows. \<forall>b\<in>set rows. sm_marker_id a = sm_marker_id b \<longrightarrow> a = b"
    and first: "rows = [] \<Longrightarrow> first = None"
      "rows \<noteq> [] \<Longrightarrow> \<exists>m. first = Some m \<and> mk_level_id m = mk_level_id (sm_marker_json (hd rows)) \<and> mk_level_name m = mk_level_name (sm_marker_json (hd rows))"
  shows "sql_facet first (filter (prefix_sql C pre) rows) = facet_from_groups C (counted (map sm_marker_json rows)) pre"
proof (cases rows)
  case Nil
  then show ?thesis using first(1) by (simp add: counted_def sql_facet_def facet_from_groups_def)
next
  case (Cons r rs)
  let ?ms = "map sm_marker_json rows" and ?P = "\<lambda>m. starts_with (ch_casefold C (mk_display_value m)) (ch_casefold C pre)"
  let ?rs = "filter (prefix_sql C pre) rows"
  have id: "mk_marker_id (sm_marker_json r) = sm_marker_id r" if "r \<in> set rows" for r
    using rows that by (auto simp: row_of_marker_def marker_row_def)
  then have "same_ids ?ms" using uniq by (auto simp: same_ids_def)
  note G = counted_groups [OF this]
  have P: "prefix_sql C pre r = ?P (sm_marker_json r)" if "r \<in> set rows" for r using prefix_sql_text [OF C _ pre] rows that by blast
  let ?L = "filter (\<lambda>(m, _). ?P m) (map snd (counted ?ms))"
  have uniq': "\<forall>a\<in>set ?rs. \<forall>b\<in>set ?rs. sm_marker_id a = sm_marker_id b \<longrightarrow> a = b" using uniq by simp
  then obtain reps where reps: "set reps = set ?rs" "distinct (map sm_marker_id reps)"
    and fr: "facet_rows ?rs = map (\<lambda>m. (sm_marker_json m, length (filter (\<lambda>r. sm_marker_id r = sm_marker_id m) ?rs))) (sort_key facet_key reps)"
    by (rule facet_rows_set)
  let ?R = "\<lambda>x y. option_key C x < option_key C y"
  have set_L: "set ?L = (\<lambda>m. (m, occurrences ?ms m)) ` {m \<in> set ?ms. ?P m}" using G by (auto simp: image_image split: prod.splits)
  have count: "length (filter (\<lambda>r. sm_marker_id r = sm_marker_id x) ?rs) = occurrences ?ms (sm_marker_json x)" if "x \<in> set ?rs" for x
  proof -
    have "filter (\<lambda>r. sm_marker_id r = sm_marker_id x) ?rs = filter (\<lambda>r. sm_marker_id r = sm_marker_id x) rows"
      using that uniq by (auto intro!: filter_cong)
    also have "\<dots> = filter (\<lambda>r. mk_marker_id (sm_marker_json r) = mk_marker_id (sm_marker_json x)) rows"
      using id that by (auto intro!: filter_cong)
    finally show ?thesis by (simp add: occurrences_def filter_map comp_def)
  qed
  have "set (facet_rows ?rs) = set ?L"
    unfolding fr set_L using reps(1) count P by (auto simp: image_iff)
  moreover have "sorted_wrt ?R (facet_rows ?rs)"
  proof -
    have "inj_on facet_key (set reps)" "distinct reps" using reps(2) by (auto simp: distinct_map inj_on_def facet_key_def)
    then have "sorted_wrt (\<lambda>x y. facet_key x < facet_key y) (sort_key facet_key reps)" by (rule strict_sort_key)
    then have "sorted_wrt (\<lambda>x y. ?R (sm_marker_json x, m x) (sm_marker_json y, m y)) (sort_key facet_key reps)" for m
      by (rule sorted_wrt_mono_rel [rotated]) (use reps(1) rows facet_key_option [OF C] in auto)
    then show ?thesis unfolding fr by (simp add: sorted_wrt_map)
  qed
  moreover have "sorted_wrt ?R (sort_key (option_key C) ?L)"
  proof (rule strict_sort_key)
    show "inj_on (option_key C) (set ?L)" unfolding set_L by (auto simp: inj_on_def option_key_def Let_def occurrences_def \<open>same_ids ?ms\<close> [unfolded same_ids_def, rule_format])
    have "distinct (map snd (counted ?ms))"
    proof -
      have "inj_on snd (set (counted ?ms))" using G by (auto simp: inj_on_def)
      then show ?thesis using G by (auto simp: distinct_map)
    qed
    then show "distinct ?L" by simp
  qed
  ultimately have "facet_rows ?rs = sort_key (option_key C) ?L" by (intro sorted_wrt_unique [where R = ?R]) auto
  moreover obtain m where "first = Some m" "mk_level_id m = mk_level_id (hd ?ms)" "mk_level_name m = mk_level_name (hd ?ms)"
    using first(2) Cons by auto
  moreover have "counted ?ms \<noteq> []" "fst (snd (hd (counted ?ms))) = hd ?ms" using G Cons by auto
  ultimately show ?thesis
    by (cases "counted ?ms") (auto simp: sql_facet_def facet_from_groups_def)
qed

end
