(* ===== verification/Sql_Correct.thy ===== *)
theory Sql_Correct
  imports Sql_Facets
begin

text \<open>
  The answers of the SQLite index are those of \<open>search.py\<close> over the items of the generation.
\<close>

section \<open>Facets of a generation\<close>

lemma stored_row_texts:
  "item_texts_ok item \<Longrightarrow> i < length (it_markers item) \<Longrightarrow> row_of_marker C (stored_row C g item i)"
  unfolding row_of_marker_def stored_row_def item_texts_ok_def list_all_length by blast

lemma marker_rows_append: "marker_rows d (xs @ ys) = marker_rows d xs @ marker_rows d ys"
  by (simp add: marker_rows_def)

lemma joined_marker:
  assumes holds: "holds_items C g items d" and tree: "marker_tree items" and item: "item \<in> set items" "n < length (it_markers item)"
  shows "marker_rows d [\<lparr>im_generation_id = g, im_row_id = i, im_depth = n, im_marker_id = mk_marker_id (it_markers item ! n)\<rparr>] = [stored_row C g item n]"
  using stored_marker [OF holds tree item] by (simp add: marker_rows_def)

lemma depth_rows:
  assumes ok: "sql_ok C d" and holds: "holds_items C g items d" and tree: "marker_tree items"
  shows "marker_rows d (filter (\<lambda>im. im_generation_id im = g \<and> im_depth im = n) (sq_item_markers d)) =
    map (\<lambda>item. stored_row C g item n) (filter (\<lambda>item. n < length (it_markers item)) items)"
proof -
  have "marker_rows d (filter (\<lambda>im. im_generation_id im = g \<and> im_depth im = n) (concat (map item_markers_of rs))) =
      map (\<lambda>item. stored_row C g item n) (filter (\<lambda>item. n < length (it_markers item)) (map si_body (filter (\<lambda>r. si_generation_id r = g) rs)))"
    if "set rs \<subseteq> set (sq_items d)" for rs
    using that
  proof (induction rs)
    case (Cons r rs)
    have "filter (\<lambda>im. im_generation_id im = g \<and> im_depth im = n) (item_markers_of r) = []" if "si_generation_id r \<noteq> g"
      using that by (auto simp: item_markers_of_def filter_empty_conv)
    moreover have "si_body r \<in> set items" if "si_generation_id r = g"
      using that Cons.prems holds by (auto simp: holds_items_def generation_items_def)
    ultimately show ?case
      using Cons joined_marker [OF holds tree, of "si_body r" n "si_row_id r"] filter_depth [of r n "\<lambda>_. True"]
      by (cases "si_generation_id r = g") (auto simp: marker_rows_append, auto simp: marker_rows_def)
  qed (simp add: marker_rows_def)
  from this [of "sq_items d"] show ?thesis using ok holds by (simp add: sql_ok_def holds_items_def generation_items_def)
qed

lemma table_rows:
  assumes ok: "sql_ok C d" and holds: "holds_items C g items d" and tree: "marker_tree items" and rows: "set rows \<subseteq> set (generation_items g d)"
  shows "marker_rows d (concat (map (\<lambda>(row_id, _). filter (\<lambda>im. im_generation_id im = g \<and> im_row_id im = row_id \<and> im_depth im = n) (sq_item_markers d))
      (map (\<lambda>row. (si_row_id row, f row)) rows))) =
    map (\<lambda>item. stored_row C g item n) (filter (\<lambda>item. n < length (it_markers item)) (map si_body rows))"
  using rows
proof (induction rows)
  case (Cons r rows)
  then have r: "r \<in> set (sq_items d)" "si_generation_id r = g" by (simp_all add: generation_items_row)
  have "filter (\<lambda>im. im_generation_id im = g \<and> im_row_id im = si_row_id r \<and> im_depth im = n) (sq_item_markers d) =
      filter (\<lambda>im. im_generation_id im = g \<and> im_depth im = n) (item_markers_of r)"
    using item_marker_row [OF ok r(1), of "\<lambda>im. im_generation_id im = g \<and> im_depth im = n"] by (simp add: conj_left_commute)
  moreover have "si_body r \<in> set items" using Cons.prems holds by (auto simp: holds_items_def)
  ultimately show ?case
    using Cons joined_marker [OF holds tree, of "si_body r" n "si_row_id r"] filter_depth [of r n "\<lambda>_. True"] r(2)
    by (auto simp: marker_rows_append) (auto simp: marker_rows_def)
qed (simp add: marker_rows_def)

lemma facet_of_counted:
  "facet_of C cands n pre = facet_from_groups C (counted (map (\<lambda>item. it_markers item ! n) (filter (\<lambda>item. n < length (it_markers item)) cands))) pre"
proof -
  have "foldl (\<lambda>grouped item. if length (it_markers item) \<le> n then grouped else count_marker (it_markers item ! n) grouped) gs cands =
      foldl (\<lambda>grouped m. count_marker m grouped) gs (map (\<lambda>item. it_markers item ! n) (filter (\<lambda>item. n < length (it_markers item)) cands))" for gs
    by (induction cands arbitrary: gs) auto
  then show ?thesis by (simp add: facet_of_def counted_def)
qed

text \<open>A facet query over the rows of some items, with a first marker of the right level.\<close>

lemma facet_of_rows:
  assumes s: "served C F d g items" and tree: "marker_tree items" and pre: "text_ok pre" and cands: "set cands \<subseteq> set items"
    and rows: "rows = map (\<lambda>item. stored_row C g item n) (filter (\<lambda>item. n < length (it_markers item)) cands)"
    and first: "rows = [] \<Longrightarrow> first = None"
      "rows \<noteq> [] \<Longrightarrow> \<exists>m. first = Some m \<and> mk_level_id m = mk_level_id (sm_marker_json (hd rows)) \<and> mk_level_name m = mk_level_name (sm_marker_json (hd rows))"
  shows "sql_facet first (filter (prefix_sql C pre) rows) = facet_of C cands n pre"
proof -
  have C: "chars_ok C" and texts: "\<forall>item\<in>set items. item_texts_ok item" using s by (simp_all add: served_def list_all_iff)
  have "row_of_marker C r" if "r \<in> set rows" for r using that cands texts stored_row_texts unfolding rows by auto
  moreover have "a = b" if ab: "a \<in> set rows" "b \<in> set rows" "sm_marker_id a = sm_marker_id b" for a b
  proof -
    from ab(1,2) obtain x y where "a = stored_row C g x n" "x \<in> set items" "n < length (it_markers x)"
        "b = stored_row C g y n" "y \<in> set items" "n < length (it_markers y)" unfolding rows using cands by auto
    then show ?thesis using tree_row [OF tree, of x y n n] ab(3) by simp
  qed
  moreover have "map sm_marker_json rows = map (\<lambda>item. it_markers item ! n) (filter (\<lambda>item. n < length (it_markers item)) cands)"
    by (simp add: rows)
  ultimately show ?thesis using facet_agrees [OF C _ pre _ first] unfolding facet_of_counted by simp
qed

text \<open>A first marker read from the marker table is of the level of the rows.\<close>

lemma first_marker:
  assumes tree: "marker_tree items"
    and stored: "set stored = (\<lambda>item. stored_row C g item n) ` {item \<in> set items. n < length (it_markers item) \<and> Q item}"
    and Q: "\<And>a b. a \<in> set items \<Longrightarrow> b \<in> set items \<Longrightarrow> Q a \<Longrightarrow> Q b \<Longrightarrow> take n (it_markers a) = take n (it_markers b)"
    and rows: "rows = map (\<lambda>item. stored_row C g item n) (filter (\<lambda>item. n < length (it_markers item)) (filter Q items))"
    and first: "first = map_option sm_marker_json (first_of (sort_key f stored))"
  shows "rows = [] \<Longrightarrow> first = None"
    and "rows \<noteq> [] \<Longrightarrow> \<exists>m. first = Some m \<and> mk_level_id m = mk_level_id (sm_marker_json (hd rows)) \<and> mk_level_name m = mk_level_name (sm_marker_json (hd rows))"
proof -
  have set: "set rows = set stored" unfolding stored rows by auto
  then have empty: "rows = [] \<longleftrightarrow> sort_key f stored = []" using sort_key_empty [of f stored] by (metis set_empty)
  then show "rows = [] \<Longrightarrow> first = None" using first by (simp add: first_of_def)
  assume ne: "rows \<noteq> []"
  then obtain x xs where x: "sort_key f stored = x # xs" using empty by (cases "sort_key f stored") auto
  then have "x \<in> set stored" by (metis list.set_intros(1) set_sort)
  then obtain a where a: "x = stored_row C g a n" "a \<in> set items" "n < length (it_markers a)" "Q a" unfolding stored by auto
  have "hd rows \<in> set stored" using ne set hd_in_set by metis
  then obtain b where b: "hd rows = stored_row C g b n" "b \<in> set items" "n < length (it_markers b)" "Q b" unfolding stored by auto
  have "mk_level_id (it_markers a ! n) = mk_level_id (it_markers b ! n) \<and> mk_level_name (it_markers a ! n) = mk_level_name (it_markers b ! n)"
    using tree a b Q unfolding marker_tree_def by blast
  then show "\<exists>m. first = Some m \<and> mk_level_id m = mk_level_id (sm_marker_json (hd rows)) \<and> mk_level_name m = mk_level_name (sm_marker_json (hd rows))"
    using first x a(1) b(1) by (simp add: first_of_def)
qed

lemma root_facet_agrees:
  assumes s: "served C F d g items" and tree: "marker_tree items" and pre: "text_ok pre"
  shows "root_facet C d g pre = facet_of C items 0 pre"
proof -
  have ok: "sql_ok C d" and holds: "holds_items C g items d" using s by (simp_all add: served_def)
  let ?rows = "map (\<lambda>item. stored_row C g item 0) (filter (\<lambda>item. 0 < length (it_markers item)) items)"
  let ?stored = "filter (\<lambda>m. sm_generation_id m = g \<and> sm_depth m = 0 \<and> sm_parent_marker_id m = None) (sq_markers d)"
  have "set ?stored = {m \<in> set (filter (\<lambda>m. sm_generation_id m = g) (sq_markers d)). sm_depth m = 0 \<and> sm_parent_marker_id m = None}" by auto
  also have "\<dots> = (\<lambda>item. stored_row C g item 0) ` {item \<in> set items. 0 < length (it_markers item) \<and> True}"
    unfolding stored_markers(1) [OF holds tree] by (auto simp: parent_at_def)
  finally have stored: "set ?stored = (\<lambda>item. stored_row C g item 0) ` {item \<in> set items. 0 < length (it_markers item) \<and> True}" .
  note first = first_marker [OF tree stored _ _ refl, of ?rows "\<lambda>m. utf8 (sm_marker_id m)"]
  show ?thesis unfolding root_facet_def depth_rows [OF ok holds tree]
    by (rule facet_of_rows [OF s tree pre subset_refl refl first]) simp_all
qed

lemma chain_parent:
  assumes tree: "marker_tree items" and a: "a \<in> set items" "has_chain sel a" and sel: "sel \<noteq> []"
    and b: "b \<in> set items" "length sel < length (it_markers b)"
  shows "parent_at (it_markers b) (length sel) = Some (last sel) \<longleftrightarrow> has_chain sel b"
proof
  assume "parent_at (it_markers b) (length sel) = Some (last sel)"
  then have "mk_marker_id (it_markers b ! (length sel - 1)) = last sel" using sel by (simp add: parent_at_def split: if_splits)
  then show "has_chain sel b" using chain_by_last(2) [OF tree a b(1) _ sel] b(2) by simp
next
  assume "has_chain sel b"
  then show "parent_at (it_markers b) (length sel) = Some (last sel)" using sel by (auto simp: parent_at_def has_chain_nth last_conv_nth)
qed

lemma idle_facet_agrees:
  assumes s: "served C F d g items" and tree: "marker_tree items" and pre: "text_ok pre"
    and sel: "sel \<noteq> []" "\<exists>item\<in>set items. has_chain sel item"
  shows "selected_idle_facet C d g sel pre = facet_of C (filter (has_chain sel) items) (length sel) pre"
proof -
  have ok: "sql_ok C d" and holds: "holds_items C g items d" using s by (simp_all add: served_def)
  obtain a where a: "a \<in> set items" "has_chain sel a" using sel(2) by blast
  let ?n = "length sel"
  let ?rows = "map (\<lambda>item. stored_row C g item ?n) (filter (\<lambda>item. ?n < length (it_markers item)) (filter (has_chain sel) items))"
  let ?stored = "filter (\<lambda>m. sm_generation_id m = g \<and> sm_parent_marker_id m = Some (last sel) \<and> sm_depth m = ?n) (sq_markers d)"
  note parent = chain_parent [OF tree a sel(1)]
  have "set ?stored = {m \<in> set (filter (\<lambda>m. sm_generation_id m = g) (sq_markers d)). sm_depth m = ?n \<and> sm_parent_marker_id m = Some (last sel)}" by auto
  also have "\<dots> = (\<lambda>item. stored_row C g item ?n) ` {item \<in> set items. ?n < length (it_markers item) \<and> has_chain sel item}"
    unfolding stored_markers(1) [OF holds tree] using parent by auto
  finally have stored: "set ?stored = (\<lambda>item. stored_row C g item ?n) ` {item \<in> set items. ?n < length (it_markers item) \<and> has_chain sel item}" .
  have "filter (\<lambda>m. sm_parent_marker_id m = Some (last sel)) (map (\<lambda>item. stored_row C g item ?n) (filter (\<lambda>item. ?n < length (it_markers item)) items)) = ?rows"
  proof -
    have "filter (\<lambda>x. ?n < length (it_markers x) \<and> parent_at (it_markers x) ?n = Some (last sel)) items =
        filter (\<lambda>x. has_chain sel x \<and> ?n < length (it_markers x)) items" using parent by (intro filter_cong) auto
    then show ?thesis by (simp add: filter_map comp_def)
  qed
  moreover have "take ?n (it_markers x) = take ?n (it_markers y)" if "x \<in> set items" "y \<in> set items" "has_chain sel x" "has_chain sel y" for x y
    using chain_take [OF tree that(2,4,1,3)] .
  note first = first_marker [OF tree stored this refl refl, of "\<lambda>m. utf8 (sm_marker_id m)"]
  ultimately show ?thesis unfolding selected_idle_facet_def depth_rows [OF ok holds tree]
    using facet_of_rows [OF s tree pre _ refl first] by auto
qed

lemma facet_table_agrees:
  assumes s: "served C F d g items" and tree: "marker_tree items" and pre: "text_ok pre" and q: "query_texts_ok q"
  shows "facet_table C d g (materialized_candidates C F d g q sel) sel pre =
    facet_of C (map fst (scan_items C q (filter (has_chain sel) items))) (length sel) pre"
proof -
  have ok: "sql_ok C d" and holds: "holds_items C g items d" using s by (simp_all add: served_def)
  let ?hits = "hit_rows C q sel (generation_items g d)"
  have hits: "set ?hits \<subseteq> set (generation_items g d)" by (auto simp: hit_rows_def)
  have bodies: "map si_body ?hits = map fst (scan_items C q (filter (has_chain sel) items))"
    unfolding served_hits [OF s, symmetric] by (simp add: as_hit_def comp_def)
  have sub: "set (map si_body ?hits) \<subseteq> set items" using hits served_items [OF s] by auto
  show ?thesis unfolding facet_table_def materialized_rows [OF s q] table_rows [OF ok holds tree hits] Let_def bodies [symmetric]
    by (rule facet_of_rows [OF s tree pre sub refl]) (auto simp: first_of_def split: list.split)
qed

section \<open>The answers\<close>

lemma parse_chunks_ok:
  "chars_ok C \<Longrightarrow> text_ok s \<Longrightarrow> parse_chunks C s = Inr cs \<Longrightarrow> chunk \<in> set cs \<Longrightarrow> list_all text_ok (snd chunk)"
proof (induction C s arbitrary: cs rule: parse_chunks.induct)
  case (2 C c s)
  have step: "\<exists>ds. m = Inr ds \<and> es = x # ds" if "ebind m (\<lambda>chunks. Inr (x # chunks)) = Inr es"
    for m :: "exn + (bool \<times> ustr list) list" and x es using that by (cases m) auto
  have s: "text_ok s" and c: "code_point c" using "2.prems"(2) by (simp_all add: text_ok_def)
  have parts: "text_ok (takeWhile P s)" "text_ok (dropWhile P s)" "text_ok (drop n s)" for P n
    using s by (auto simp: text_ok_def dest: set_takeWhileD set_dropWhileD in_set_dropD)
  then have word: "text_ok (c # takeWhile P s)" for P using c by (simp add: text_ok_def)
  consider "is_space c" | "\<not> is_space c" "c = quote" | "\<not> is_space c" "c \<noteq> quote" by blast
  then show ?case
  proof cases
    case 1
    then show ?thesis using 2 s by simp
  next
    case 2
    then show ?thesis using "2.prems"(1,3,4) "2.IH"(2) [OF _ _ _ refl refl] parts tokens_ok
      by (auto simp: Let_def split: if_splits dest!: step)
  next
    case 3
    then show ?thesis using "2.prems"(1,3,4) "2.IH"(3) [OF _ _ refl refl] parts word tokens_ok
      by (auto simp: Let_def split: if_splits dest!: step)
  qed
qed simp

lemma parse_query_ok:
  assumes "chars_ok C" "text_ok s" "parse_query C s = Inr q"
  shows "query_texts_ok q"
proof -
  obtain cs where "parse_chunks C s = Inr cs" and q: "qy_terms q = keep_first (concat (map snd (filter (\<lambda>c. \<not> fst c) cs)))"
      "qy_phrases q = keep_first (map snd (filter fst cs))"
    using assms(3) by (auto simp: parse_query_def ebind_Inr)
  then show ?thesis
    using parse_chunks_ok [OF assms(1,2)] parse_query_phrases [OF assms(3)] by (auto simp: query_texts_ok_def keep_first_set list_all_iff)
qed

lemma served_open:
  assumes "open_generation C g r items d" and "chars_ok C" "fts5 F" "list_all item_texts_ok items"
  shows "served C F d g items" and "readable g d = Inr r"
  using assms by (auto simp: served_def open_generation_def readable_def)

lemma sql_answers:
  assumes s: "served C F d g items" and tree: "marker_tree items" and q: "query_texts_ok q" and pre: "text_ok (rq_facet_prefix request)"
  defines "sel \<equiv> rq_selected_marker_ids request"
  shows "ebind (sql_selected d g sel) (\<lambda>chosen.
      ebind (eguard (rq_sort_field request \<noteq> RELEVANCE \<or> has_text q) (api INVALID_QUERY 400)) (\<lambda>_.
      if sel = [] \<and> \<not> has_text q then Inr (idle_response root request limit (root_facet C d g (rq_facet_prefix request)))
      else
        let table = materialized_candidates C F d g q sel;
            next = (if \<not> has_text q then selected_idle_facet C d g sel (rq_facet_prefix request)
                    else facet_table C d g table sel (rq_facet_prefix request)) in
        ebind (top_ids d table (rq_sort_field request) (rq_sort_direction request) limit) (\<lambda>ids.
        ebind (read_bodies d ids) (\<lambda>items.
        Inr (results_response root request limit q chosen (length table) items next))))) =
    search_scanning C root items request limit q"
proof -
  have holds: "holds_items C g items d" using s by (simp add: served_def)
  note sel_agrees = selection_agrees [OF holds tree, where sel = sel]
  let ?cands = "filter (has_chain sel) items" and ?pre = "rq_facet_prefix request"
  let ?match = "scan_items C q ?cands" and ?table = "materialized_candidates C F d g q sel"
  have len: "length ?table = length ?match"
    unfolding materialized_rows [OF s q] served_hits [OF s, symmetric] by simp
  have assoc: "ebind (top_ids d ?table f dir limit) (\<lambda>ids. ebind (read_bodies d ids) k) =
      ebind (sort_rows C ?match f dir) (\<lambda>rows. k (take limit rows))" for f dir and k :: "search_item list \<Rightarrow> exn + search_response"
  proof -
    have "ebind (top_ids d ?table f dir limit) (\<lambda>ids. ebind (read_bodies d ids) k) = ebind (ebind (top_ids d ?table f dir limit) (read_bodies d)) k"
      by (cases "top_ids d ?table f dir limit") simp_all
    then show ?thesis unfolding top_items [OF s q] by (cases "sort_rows C ?match f dir") simp_all
  qed
  show ?thesis
  proof (cases "sql_selected d g sel")
    case (Inl e)
    then show ?thesis using sel_agrees(1) by (simp add: search_scanning_def Let_def sel_def)
  next
    case (Inr chosen)
    then have chain: "selected_chain items sel = Inr ?cands"
      and chosen: "chosen = (if sel \<noteq> [] \<and> ?cands \<noteq> [] then take (length sel) (it_markers (hd ?cands)) else [])"
      and some: "sel \<noteq> [] \<Longrightarrow> \<exists>item\<in>set items. has_chain sel item"
      using sel_agrees by simp_all
    have idle: "root_facet C d g ?pre = facet_of C ?cands (length sel) ?pre" if "sel = []" using that root_facet_agrees [OF s tree pre] by simp
    have "(if \<not> has_text q then selected_idle_facet C d g sel ?pre else facet_table C d g ?table sel ?pre) =
        facet_of C (map fst ?match) (length sel) ?pre" if "\<not> (sel = [] \<and> \<not> has_text q)"
    proof (cases "has_text q")
      case False
      then have "map fst ?match = ?cands" unfolding scan_items_fst using scan_without_text [of q C] by (simp add: filter_id_conv)
      then show ?thesis using False that idle_facet_agrees [OF s tree pre _ some] by simp
    qed (simp add: facet_table_agrees [OF s tree pre q])
    then show ?thesis using Inr chain idle
      by (auto simp: search_scanning_def Let_def sel_def [symmetric] len assoc chosen [symmetric])
  qed
qed

text \<open>
  C12: Whatever happened before and whatever other generations are created, filled, activated, deleted or collected
  afterwards, a generation built in batches and finished answers \<open>search\<close> and \<open>facet\<close> exactly as \<open>search.py\<close> does over
  the concatenated batches, errors included: validation, the chain of selected markers, full-text scores for up to
  16 clauses or more, ties, sorting, limit and facets. FTS5 behaves as documented on plain words, texts are free of
  surrogates, and marker ids identify markers.
\<close>

theorem sql_search_agrees:
  assumes "apply_ops C (build_ops now r g batches) (try_ops C earlier empty_sql) = Inr d" and "list_all (spares g) later"
    and "chars_ok C" and "fts5 F" and "list_all item_texts_ok (concat batches)" and "marker_tree (concat batches)"
    and "text_ok (rq_query_text request)" and "text_ok (rq_facet_prefix request)"
  shows "sql_search C F (try_ops C later d) g root request limit =
      (if pb_root_id root = r then search C root (concat batches) request limit None else Inl PyValueError) \<and>
    sql_facet_answer C F (try_ops C later d) g root request =
      (if pb_root_id root = r then facet_answer C root (concat batches) request None else Inl PyValueError)"
proof -
  let ?d = "try_ops C later d" and ?items = "concat batches"
  have "sql_ok C (try_ops C earlier empty_sql)" using try_ops_keeps [OF empty_sql_ok(1)] by blast
  from open_generation_ops [OF assms(2) build_opens [OF assms(1) this]] have opened: "open_generation C g r ?items ?d" .
  note s = served_open(1) [OF opened assms(3-5)] and readable = served_open(2) [OF opened assms(3-5)]
  show ?thesis
  proof (cases "parse_query C (rq_query_text request)")
    case (Inl e)
    then show ?thesis using readable
      by (auto simp: sql_search_def sql_facet_answer_def search_def facet_answer_def check_prepared_def ebind_def eguard_def split: sum.split)
  next
    case (Inr q)
    then have q: "query_texts_ok q" using parse_query_ok [OF assms(3,7)] by simp
    let ?sel = "rq_selected_marker_ids request" and ?pre = "rq_facet_prefix request"
    let ?cands = "filter (has_chain ?sel) ?items"
    have holds: "holds_items C g ?items ?d" using s by (simp add: served_def)
    have facet: "(if \<not> has_text q then if ?sel \<noteq> [] then selected_idle_facet C ?d g ?sel ?pre else root_facet C ?d g ?pre
        else facet_table C ?d g (materialized_candidates C F ?d g q ?sel) ?sel ?pre) =
      facet_of C (filter (\<lambda>item. matches_and_score C item q \<noteq> None) ?cands) (length ?sel) ?pre"
      if "sql_selected ?d g ?sel = Inr chosen" for chosen
    proof (cases "has_text q")
      case True
      then show ?thesis using facet_table_agrees [OF s assms(6,8) q] by (simp add: scan_items_fst)
    next
      case False
      then have "filter (\<lambda>item. matches_and_score C item q \<noteq> None) ?cands = ?cands" using scan_without_text [of q C] by (simp add: filter_id_conv)
      then show ?thesis
        using False root_facet_agrees [OF s assms(6,8)] idle_facet_agrees [OF s assms(6,8) _ selection_agrees(3) [OF holds assms(6) that]]
        by (cases "?sel = []") simp_all
    qed
    have "sql_search C F ?d g root request limit =
        (if pb_root_id root = r then search C root ?items request limit None else Inl PyValueError)"
      using sql_answers [OF s assms(6) q assms(8), of root limit] readable
      by (simp add: sql_search_def search_def check_prepared_def Inr Let_def)
    moreover have "sql_facet_answer C F ?d g root request =
        (if pb_root_id root = r then facet_answer C root ?items request None else Inl PyValueError)"
      using readable facet selection_agrees(1) [OF holds assms(6), of ?sel]
      by (cases "sql_selected ?d g ?sel") (simp_all add: sql_facet_answer_def facet_answer_def check_prepared_def Inr Let_def)
    ultimately show ?thesis by blast
  qed
qed

text \<open>Two files of one project, and an engine that behaves as documented.\<close>

definition hex_chars :: chars where
  "hex_chars = sample_chars\<lparr>ch_sha256 := \<lambda>s. concat (map (\<lambda>b. hex_byte (b mod 256)) s)\<rparr>"

definition plain_engine :: fts_engine where
  "plain_engine row q = fts_holds (\<lambda>c. words (ft_text row c)) fts_columns q"

definition marked_item :: "string \<Rightarrow> string \<Rightarrow> search_item" where
  "marked_item identity path = (sample_found identity path ''0001-01-02T03:04:05Z'')
     \<lparr>it_markers := [\<lparr>mk_marker_id = lit ''m'', mk_level_id = lit ''level-project'', mk_level_name = lit ''p'', mk_raw_value = Some (lit ''ab''),
        mk_display_value = lit ''ab'', mk_kind = VALUE\<rparr>]\<rparr>"

definition sample_batches :: "search_item list list" where
  "sample_batches = [[marked_item ''i'' ''ca''], [marked_item ''j'' ''cb'']]"

definition sample_index :: sql_db where
  "sample_index = projr (apply_ops hex_chars (build_ops [] (lit ''r'') (lit ''g'') sample_batches) (try_ops hex_chars [] empty_sql))"

definition other_work :: "sql_op list" where
  "other_work = [Create_op [] (lit ''r'') (lit ''h''), Add_op (lit ''h'') [marked_item ''i'' ''cc''], Delete_op (lit ''h'') 1, Activate_op (lit ''g'')]"

definition sql_request :: search_request where
  "sql_request = sample_request\<lparr>rq_query_text := lit ''c ab'', rq_sort_field := NAME\<rparr>"

lemma hex_chars_ok: "chars_ok hex_chars"
proof -
  have "list_all plain_char (ch_sha256 hex_chars s)" for s
    by (auto simp: hex_chars_def list_all_iff dest!: hex_byte_plain [rotated])
  moreover have "text_ok (ch_casefold hex_chars s)" if "text_ok s" for s
    using that by (auto simp: hex_chars_def sample_chars_def text_ok_def code_point_def)
  moreover have "d < 10" if "ch_digit hex_chars c = Some d" for c d
    using that by (auto simp: hex_chars_def sample_chars_def split: if_splits)
  ultimately show ?thesis by (simp add: chars_ok_def)
qed

lemma sql_search_agrees_witness:
  "map_sum id (map it_item_id \<circ> sr_items)
     (sql_search hex_chars plain_engine (try_ops hex_chars other_work sample_index) (lit ''g'') sample_published sql_request 1) = Inr [lit ''j'']"
proof -
  let ?build = "apply_ops hex_chars (build_ops [] (lit ''r'') (lit ''g'') sample_batches) (try_ops hex_chars [] empty_sql)"
  have "(case ?build of Inl e \<Rightarrow> False | Inr d \<Rightarrow> True)" by code_simp
  then have build: "?build = Inr sample_index" by (cases ?build) (auto simp: sample_index_def)
  have spare: "list_all (spares (lit ''g'')) other_work" by code_simp
  have engine: "fts5 plain_engine" by (simp add: fts5_def plain_engine_def)
  have texts: "list_all item_texts_ok (concat sample_batches)"
    by (simp add: sample_batches_def marked_item_def sample_found_def item_texts_ok_def marker_texts_ok_def short_text_def text_ok_def code_point_def)
  have "\<exists>m. \<forall>item\<in>set (concat sample_batches). it_markers item = [m]" by (simp add: sample_batches_def marked_item_def)
  then have tree: "marker_tree (concat sample_batches)" by (auto simp: marker_tree_def)
  have request: "text_ok (rq_query_text sql_request)" "text_ok (rq_facet_prefix sql_request)"
    by (simp_all add: sql_request_def sample_request_def text_ok_def code_point_def)
  have "map_sum id (map it_item_id \<circ> sr_items) (search hex_chars sample_published (concat sample_batches) sql_request 1 None) = Inr [lit ''j'']"
    by code_simp
  moreover have "pb_root_id sample_published = lit ''r''" by (simp add: sample_published_def)
  ultimately show ?thesis
    using sql_search_agrees [OF build spare hex_chars_ok engine texts tree request, of sample_published 1] by simp
qed

end
