(* ===== verification/Sql_Discard.thy ===== *)
theory Sql_Discard
  imports Sql_Generations Search_Correct
begin

text \<open>
  \<open>LargeIndexer._discard_run\<close> of \<open>large_indexer.py\<close>: a run of the large indexer, its staged entries and its
  generation are deleted in bounded transactions, one per round of a loop without a bound of its own. The loop is
  a partial function; that it returns is a theorem.
\<close>

record large_scan =
  ls_index :: sql_db
  ls_runs :: "(ustr \<times> ustr option) list"
  ls_entries :: "(ustr \<times> ustr) list"

text \<open>A loop ends by returning, by the stop event or by an exception, with the last committed state.\<close>

datatype discard_result = Discarded large_scan | Stopped large_scan | Raised exn large_scan

text \<open>\<open>generation and not delete_generation(...)\<close>: a run without a generation has nothing to delete.\<close>

definition discard_generation :: "chars \<Rightarrow> ustr option \<Rightarrow> sql_db \<Rightarrow> exn + bool \<times> sql_db" where
  "discard_generation C generation d =
     (case generation of None \<Rightarrow> Inr (True, d) | Some g \<Rightarrow> if g = [] then Inr (True, d) else delete_generation C g 1000 d)"

text \<open>\<open>stop n\<close> is the state of the stop event at the \<open>n\<close>-th check.\<close>

partial_function (option) discard_run :: "chars \<Rightarrow> (nat \<Rightarrow> bool) \<Rightarrow> nat \<Rightarrow> ustr \<Rightarrow> large_scan \<Rightarrow> discard_result option" where
  "discard_run C stop n run_id s =
     (if stop n then Some (Stopped s)
      else
        case map_of (ls_runs s) run_id of
          None \<Rightarrow> Some (Discarded s)
        | Some generation \<Rightarrow>
            (case discard_generation C generation (ls_index s) of
               Inl e \<Rightarrow> Some (Raised e s)
             | Inr r \<Rightarrow>
                 if \<not> fst r then discard_run C stop (Suc n) run_id (s\<lparr>ls_index := snd r\<rparr>)
                 else
                   let paths = take 1000 (filter (\<lambda>e. fst e = run_id) (ls_entries s)) in
                   if paths \<noteq> [] then
                     discard_run C stop (Suc n) run_id
                       (s\<lparr>ls_index := snd r, ls_entries := filter (\<lambda>e. e \<notin> set paths) (ls_entries s)\<rparr>)
                   else
                     Some (Discarded (s\<lparr>ls_index := snd r, ls_runs := filter (\<lambda>r. fst r \<noteq> run_id) (ls_runs s)\<rparr>))))"

definition generation_of :: "ustr \<Rightarrow> large_scan \<Rightarrow> ustr option" where
  "generation_of run_id s = (case map_of (ls_runs s) run_id of Some (Some g) \<Rightarrow> if g = [] then None else Some g | _ \<Rightarrow> None)"

definition run_entries :: "ustr \<Rightarrow> large_scan \<Rightarrow> (ustr \<times> ustr) list" where
  "run_entries run_id s = filter (\<lambda>e. fst e = run_id) (ls_entries s)"

definition remaining :: "ustr \<Rightarrow> large_scan \<Rightarrow> nat" where
  "remaining run_id s =
     length (run_entries run_id s) + (case generation_of run_id s of None \<Rightarrow> 0 | Some g \<Rightarrow> length (generation_items g (ls_index s)))"

text \<open>What no round touches: the other generations, the other runs and their entries.\<close>

definition others_kept :: "chars \<Rightarrow> ustr \<Rightarrow> ustr option \<Rightarrow> large_scan \<Rightarrow> large_scan \<Rightarrow> bool" where
  "others_kept C run_id generation s t \<longleftrightarrow>
     filter (\<lambda>r. fst r \<noteq> run_id) (ls_runs t) = filter (\<lambda>r. fst r \<noteq> run_id) (ls_runs s) \<and>
     filter (\<lambda>e. fst e \<noteq> run_id) (ls_entries t) = filter (\<lambda>e. fst e \<noteq> run_id) (ls_entries s) \<and>
     (\<forall>h items. generation \<noteq> Some h \<longrightarrow>
        holds_items C h items (ls_index t) = holds_items C h items (ls_index s) \<and> generation_row (ls_index t) h = generation_row (ls_index s) h)"

lemma others_kept_trans: "others_kept C run_id g s t \<Longrightarrow> others_kept C run_id g t u \<Longrightarrow> others_kept C run_id g s u"
  by (simp add: others_kept_def)

lemma delete_step_less:
  assumes del: "delete_generation C g n d = Inr (False, d')" and ok: "sql_ok C d"
  shows "length (generation_items g d') < length (generation_items g d)" and "generation_row d' = generation_row d" and "sq_pointed d' = sq_pointed d"
proof -
  have "generation_items g d \<noteq> [] \<and> 0 < n \<and> d' = delete_items C g (take n (sort_key si_row_id (generation_items g d))) d"
    using del by (cases rule: delete_generation_cases) auto
  then have ne: "generation_items g d \<noteq> []" "0 < n" and d': "d' = delete_items C g (take n (sort_key si_row_id (generation_items g d))) d" by simp_all
  let ?rows = "take n (sort_key si_row_id (generation_items g d))"
  have sub: "set ?rows \<subseteq> set (generation_items g d)" by (metis set_sort set_take_subset)
  have "?rows \<noteq> []" using ne by (simp add: sort_key_empty)
  then obtain r where "r \<in> set ?rows" by (cases ?rows) auto
  then have "filter (\<lambda>r. r \<notin> set ?rows) (generation_items g d) \<noteq> generation_items g d" using sub by (metis (mono_tags, lifting) filter_id_conv subsetD)
  then have "length (filter (\<lambda>r. r \<notin> set ?rows) (generation_items g d)) < length (generation_items g d)"
    by (metis (mono_tags, lifting) filter_id_conv length_filter_less)
  then show "length (generation_items g d') < length (generation_items g d)" unfolding d' delete_items_keeps(3) [OF ok sub] .
  show "generation_row d' = generation_row d" "sq_pointed d' = sq_pointed d"
    by (simp_all add: d' delete_items_def generation_row_def [abs_def])
qed

text \<open>What the loop promises of its result.\<close>

definition discard_ok :: "chars \<Rightarrow> (nat \<Rightarrow> bool) \<Rightarrow> nat \<Rightarrow> ustr \<Rightarrow> large_scan \<Rightarrow> discard_result \<Rightarrow> bool" where
  "discard_ok C stop n run_id s result \<longleftrightarrow>
    (case result of
       Discarded t \<Rightarrow> map_of (ls_runs t) run_id = None \<and> others_kept C run_id (generation_of run_id s) s t \<and>
         (map_of (ls_runs s) run_id \<noteq> None \<longrightarrow> run_entries run_id t = [] \<and>
            (\<forall>g. generation_of run_id s = Some g \<longrightarrow> generation_row (ls_index t) g = None \<and> generation_items g (ls_index t) = []))
     | Stopped t \<Rightarrow> (\<exists>k\<ge>n. stop k) \<and> others_kept C run_id (generation_of run_id s) s t
     | Raised e t \<Rightarrow> e = PyValueError \<and> t = s \<and>
         (\<exists>g row. generation_of run_id s = Some g \<and> generation_row (ls_index s) g = Some row \<and>
            (sg_state row = ACTIVE \<or> g \<in> set (sq_pointed (ls_index s)))))"

lemma discard_round:
  assumes "others_kept C run_id (generation_of run_id s) s t" and "ls_runs t = ls_runs s"
    and "\<And>g row. generation_of run_id s = Some g \<Longrightarrow> generation_row (ls_index t) g = Some row \<Longrightarrow>
      sg_state row \<noteq> ACTIVE \<and> g \<notin> set (sq_pointed (ls_index t))"
    and "discard_ok C stop (Suc n) run_id t result"
  shows "discard_ok C stop n run_id s result"
proof -
  have g: "generation_of run_id t = generation_of run_id s" using assms(2) by (simp add: generation_of_def)
  show ?thesis
  proof (cases result)
    case (Discarded u)
    then show ?thesis using assms(1,2,4) others_kept_trans by (fastforce simp: discard_ok_def g)
  next
    case (Stopped u)
    then show ?thesis using assms(1,4) others_kept_trans by (auto simp: discard_ok_def g dest: Suc_leD)
  next
    case (Raised e u)
    then show ?thesis using assms(3,4) by (auto simp: discard_ok_def g)
  qed
qed

lemma discard_generation_step:
  assumes ok: "sql_ok C (ls_index s)" and run: "map_of (ls_runs s) run_id = Some generation"
    and step: "discard_generation C generation (ls_index s) = Inr (finished, d)"
  shows "sql_ok C d" and "others_kept C run_id (generation_of run_id s) s (s\<lparr>ls_index := d\<rparr>)"
    and "generation_of run_id s = Some g \<Longrightarrow> generation_row d g = Some row \<Longrightarrow> sg_state row \<noteq> ACTIVE \<and> g \<notin> set (sq_pointed d)"
    and "\<not> finished \<Longrightarrow> remaining run_id (s\<lparr>ls_index := d\<rparr>) < remaining run_id s"
    and "finished \<Longrightarrow> generation_of run_id s = Some g \<Longrightarrow> generation_row d g = None \<and> generation_items g d = []"
    and "finished \<Longrightarrow> remaining run_id (s\<lparr>ls_index := d\<rparr>) = length (run_entries run_id s)"
proof -
  consider (none) "generation_of run_id s = None" "finished" "d = ls_index s"
    | (some) h where "generation_of run_id s = Some h" "delete_generation C h 1000 (ls_index s) = Inr (finished, d)"
    using step run by (auto simp: discard_generation_def generation_of_def split: option.splits if_splits)
  then have "sql_ok C d \<and> others_kept C run_id (generation_of run_id s) s (s\<lparr>ls_index := d\<rparr>) \<and>
      (\<forall>g row. generation_of run_id s = Some g \<longrightarrow> generation_row d g = Some row \<longrightarrow> sg_state row \<noteq> ACTIVE \<and> g \<notin> set (sq_pointed d)) \<and>
      (\<not> finished \<longrightarrow> remaining run_id (s\<lparr>ls_index := d\<rparr>) < remaining run_id s) \<and>
      (finished \<longrightarrow> (\<forall>g. generation_of run_id s = Some g \<longrightarrow> generation_row d g = None \<and> generation_items g d = []) \<and>
         remaining run_id (s\<lparr>ls_index := d\<rparr>) = length (run_entries run_id s))"
  proof cases
    case none
    then show ?thesis using ok by (simp add: others_kept_def remaining_def generation_of_def run_entries_def)
  next
    case some
    note kept = delete_generation_keeps [OF some(2) ok]
    have same: "generation_of run_id (s\<lparr>ls_index := d\<rparr>) = Some h" using some(1) by (simp add: generation_of_def)
    have others: "others_kept C run_id (Some h) s (s\<lparr>ls_index := d\<rparr>)" using kept(3,4) by (auto simp: others_kept_def)
    from some(2) show ?thesis
    proof (cases rule: delete_generation_cases)
      case 1
      then have "generation_items h d = []"
        using ok by (auto simp: generation_row_None sql_ok_def generation_items_def filter_empty_conv)
      then show ?thesis using 1 kept(1) others same some(1) by (simp add: remaining_def run_entries_def)
    next
      case (2 row)
      then have del: "delete_generation C h 1000 (ls_index s) = Inr (False, d)" using some(2) by simp
      note less = delete_step_less [OF del ok]
      then show ?thesis using 2 kept(1) others same some(1) by (simp add: remaining_def run_entries_def)
    next
      case (3 row)
      then have "generation_row d h = None" "generation_items h d = []"
        using drop_keeps(4) [OF ok] by (auto simp: drop_generation_def generation_items_def)
      then show ?thesis using 3 kept(1) others same some(1) by (simp add: remaining_def run_entries_def)
    qed
  qed
  then show "sql_ok C d" "others_kept C run_id (generation_of run_id s) s (s\<lparr>ls_index := d\<rparr>)"
    "generation_of run_id s = Some g \<Longrightarrow> generation_row d g = Some row \<Longrightarrow> sg_state row \<noteq> ACTIVE \<and> g \<notin> set (sq_pointed d)"
    "\<not> finished \<Longrightarrow> remaining run_id (s\<lparr>ls_index := d\<rparr>) < remaining run_id s"
    "finished \<Longrightarrow> generation_of run_id s = Some g \<Longrightarrow> generation_row d g = None \<and> generation_items g d = []"
    "finished \<Longrightarrow> remaining run_id (s\<lparr>ls_index := d\<rparr>) = length (run_entries run_id s)" by blast+
qed

lemma discard_generation_fails:
  assumes "map_of (ls_runs s) run_id = Some generation" and "discard_generation C generation (ls_index s) = Inl e"
  shows "discard_ok C stop n run_id s (Raised e s)"
  using assms
  by (auto simp: discard_generation_def discard_ok_def generation_of_def delete_generation_def Let_def split: option.splits if_splits)

text \<open>
  C20: The loop of \<open>_discard_run\<close> always ends. If it returns, the run, its entries and its generation with
  every item are gone; if it raises, nothing was deleted and the generation is the active one or one an index
  document points to; otherwise the stop event was set. In every case the other generations, runs and entries are as
  they were.
\<close>

theorem discard_run_ends:
  assumes "sql_ok C (ls_index s)"
  shows "\<exists>result. discard_run C stop n run_id s = Some result \<and>
    (case result of
       Discarded t \<Rightarrow> map_of (ls_runs t) run_id = None \<and> others_kept C run_id (generation_of run_id s) s t \<and>
         (map_of (ls_runs s) run_id \<noteq> None \<longrightarrow> run_entries run_id t = [] \<and>
            (\<forall>g. generation_of run_id s = Some g \<longrightarrow> generation_row (ls_index t) g = None \<and> generation_items g (ls_index t) = []))
     | Stopped t \<Rightarrow> (\<exists>k\<ge>n. stop k) \<and> others_kept C run_id (generation_of run_id s) s t
     | Raised e t \<Rightarrow> e = PyValueError \<and> t = s \<and>
         (\<exists>g row. generation_of run_id s = Some g \<and> generation_row (ls_index s) g = Some row \<and>
            (sg_state row = ACTIVE \<or> g \<in> set (sq_pointed (ls_index s)))))"
proof -
  have "\<exists>result. discard_run C stop n run_id s = Some result \<and> discard_ok C stop n run_id s result"
    using assms
  proof (induction "remaining run_id s" arbitrary: n s rule: less_induct)
    case less
    have refl: "others_kept C run_id g s s" for g by (simp add: others_kept_def)
    show ?case
    proof (cases "stop n \<or> map_of (ls_runs s) run_id = None")
      case True
      then show ?thesis using refl by (subst discard_run.simps) (auto simp: discard_ok_def split: option.split)
    next
      case False
      then obtain generation where run: "map_of (ls_runs s) run_id = Some generation" and go: "\<not> stop n" by auto
      show ?thesis
      proof (cases "discard_generation C generation (ls_index s)")
        case (Inl e)
        then show ?thesis using run go discard_generation_fails [OF run Inl] by (subst discard_run.simps) simp
      next
        case (Inr r)
        obtain finished d where r: "r = (finished, d)" by (cases r)
        note step = discard_generation_step [OF less.prems run Inr [unfolded r]]
        let ?paths = "take 1000 (filter (\<lambda>e. fst e = run_id) (ls_entries s))"
        consider "\<not> finished" | "finished" "?paths \<noteq> []" | "finished" "?paths = []" by blast
        then show ?thesis
        proof cases
          case 1
          let ?t = "s\<lparr>ls_index := d\<rparr>"
          have eq: "discard_run C stop n run_id s = discard_run C stop (Suc n) run_id ?t"
            using 1 run go Inr by (subst discard_run.simps) (simp add: r)
          have "\<exists>result. discard_run C stop (Suc n) run_id ?t = Some result \<and> discard_ok C stop (Suc n) run_id ?t result"
            using less.hyps [of ?t "Suc n"] step(1,4) 1 by simp
          then show ?thesis unfolding eq using discard_round [of C run_id s ?t stop n] step(2,3) by auto
        next
          case 2
          let ?t = "s\<lparr>ls_index := d, ls_entries := filter (\<lambda>e. e \<notin> set ?paths) (ls_entries s)\<rparr>"
          have eq: "discard_run C stop n run_id s = discard_run C stop (Suc n) run_id ?t"
            using 2 run go Inr by (subst discard_run.simps) (simp add: r Let_def)
          have others: "others_kept C run_id (generation_of run_id s) s ?t"
            using step(2) by (auto simp: others_kept_def dest!: in_set_takeD intro!: filter_cong)
          have "run_entries run_id ?t = filter (\<lambda>e. e \<notin> set ?paths) (run_entries run_id s)" by (simp add: run_entries_def conj_commute)
          moreover obtain x where x: "x \<in> set ?paths" using 2(2) by (meson last_in_set)
          ultimately have fewer: "length (run_entries run_id ?t) < length (run_entries run_id s)"
            using in_set_takeD [OF x] length_filter_less [of x "run_entries run_id s" "\<lambda>e. e \<notin> set ?paths"] by (simp add: run_entries_def)
          have "remaining run_id ?t = length (run_entries run_id ?t) + (remaining run_id (s\<lparr>ls_index := d\<rparr>) - length (run_entries run_id s))"
            by (simp add: remaining_def generation_of_def run_entries_def split: option.split)
          then have "remaining run_id ?t < remaining run_id s" using fewer step(6) [OF 2(1)] by (simp add: remaining_def)
          then have "\<exists>result. discard_run C stop (Suc n) run_id ?t = Some result \<and> discard_ok C stop (Suc n) run_id ?t result"
            using less.hyps [of ?t "Suc n"] step(1) by simp
          then show ?thesis unfolding eq using discard_round [OF others, of stop n] step(3) by auto
        next
          case 3
          let ?t = "s\<lparr>ls_index := d, ls_runs := filter (\<lambda>r. fst r \<noteq> run_id) (ls_runs s)\<rparr>"
          have "discard_run C stop n run_id s = Some (Discarded ?t)"
            using 3 run go Inr by (subst discard_run.simps) (simp add: r Let_def)
          moreover have "map_of (ls_runs ?t) run_id = None" by (auto simp: map_of_eq_None_iff)
          moreover have "run_entries run_id ?t = []" using 3(2) by (simp add: run_entries_def)
          ultimately show ?thesis using step(2,5) 3(1) by (auto simp: discard_ok_def others_kept_def)
        qed
      qed
    qed
  qed
  then show ?thesis by (simp only: discard_ok_def)
qed

definition sample_run :: large_scan where
  "sample_run =
     \<lparr>ls_index = try_ops sample_chars (build_ops [] (lit ''r'') (lit ''g'') [[sample_found ''i'' ''a'' ''0001-01-02T03:04:05Z'']]) empty_sql,
      ls_runs = [(lit ''run'', Some (lit ''g''))], ls_entries = [(lit ''run'', lit ''a'')]\<rparr>"

lemma discard_run_ends_witness:
  "length (generation_items (lit ''g'') (ls_index sample_run)) = 1 \<and>
   (\<exists>t. discard_run sample_chars (\<lambda>n. False) 0 (lit ''run'') sample_run = Some (Discarded t) \<and>
      generation_row (ls_index t) (lit ''g'') = None \<and> generation_items (lit ''g'') (ls_index t) = [])"
proof -
  have one: "length (generation_items (lit ''g'') (ls_index sample_run)) = 1" by code_simp
  have ready: "map_option sg_state (generation_row (ls_index sample_run) (lit ''g'')) = Some READY" by code_simp
  have "sq_pointed (ls_index sample_run) = []" by code_simp
  moreover have g: "generation_of (lit ''run'') sample_run = Some (lit ''g'')" and run: "map_of (ls_runs sample_run) (lit ''run'') \<noteq> None"
    by (simp_all add: generation_of_def sample_run_def)
  moreover have "sql_ok sample_chars (ls_index sample_run)" using try_ops_keeps [OF empty_sql_ok(1)] by (simp add: sample_run_def)
  moreover from discard_run_ends [OF this, of "\<lambda>n. False" 0 "lit ''run''"] obtain result where
    "discard_run sample_chars (\<lambda>n. False) 0 (lit ''run'') sample_run = Some result"
    and "discard_ok sample_chars (\<lambda>n. False) 0 (lit ''run'') sample_run result" unfolding discard_ok_def by blast
  ultimately show ?thesis using one ready by (cases result) (auto simp: discard_ok_def)
qed

end
