(* ===== verification/Spec2Isabelle.thy ===== *)
theory Spec2Isabelle
  imports Rules_Glob Rules_Plan Execution_Recovery Accounts_Correct Search_Items Search_Cache Indexing_Resume Sql_Correct Sql_Discard
begin

text \<open>
  WiseWay sorts incoming files into company archives and searches those archives. This development
  models the Python backend, \<open>src/backend/wiseway\<close>: the services behind the HTTP interface, the
  worker that moves the files, the indexer, the in-memory search and the search in SQLite.

  \<^bold>\<open>How the parts interact.\<close> Every service works in one database transaction of a key-value store
  (\<open>storage.py\<close>) and, where files are concerned, on a sandbox tree (\<open>filesystem.py\<close>). The indexer scans
  incoming folders into queue items and search folders into index documents. Users plan the ready
  items with the published rules (\<open>rules.py\<close>, \<open>dictionaries.py\<close>), preview and accept batches
  (\<open>sorting.py\<close>); acceptance creates one attempt and one claim per item. The worker (\<open>worker.py\<close>) executes
  attempts: it stores an intent, renames the file without ever replacing another, and records the
  outcome; after a crash it recovers from the stored intent. Failed files are quarantined and can be
  returned (\<open>quarantine.py\<close>). Everything is journalled (\<open>audit.py\<close>) and long answers are paged from
  snapshots (\<open>services.py\<close>, \<open>audit_pagination.py\<close>).

  \<^bold>\<open>State and effects.\<close> An operation is a function from a \<open>world\<close> to an exception or a value and a
  new world (theory \<open>Actions\<close>); its rules are the weakest preconditions \<open>wp\<close>, and \<open>keeps\<close> is
  preservation on both exits. The world (theory \<open>World\<close>) is the database, one typed table per kind of
  object, the tree, and a counter of interactions with the outside. All that comes from outside is a
  function of that counter in the record \<open>env\<close>: clocks, identifiers, failing system calls and commits,
  the death of the process, changes by other processes, directory listings, and the library functions
  (case folding, SHA-256, password hashing). A theorem about all environments is therefore a theorem
  about all clocks, crash points and interleavings of foreign changes. A transaction that fails
  restores the database but not the tree.

  \<^bold>\<open>Theories and sources.\<close>
  \<^item> \<open>Base\<close>, \<open>Actions\<close>, \<open>Store\<close>, \<open>Domain\<close>, \<open>World\<close>: strings, actions, tables (\<open>storage.py\<close>, with the contract
    of a table as the locales \<open>kv_table\<close> and \<open>ordered_table\<close>), the objects, the world.
  \<^item> \<open>Rules\<close>: \<open>rules.py\<close>. \<open>Rules_Glob\<close> relates the backtracking matcher to the language of a mask;
    \<open>Rules_Plan\<close> shows what a plan guarantees: which rule is chosen, no shared and no occupied targets.
  \<^item> \<open>Files\<close>, \<open>Scan\<close>: \<open>filesystem.py\<close>. \<open>Files_Correct\<close> has the path syntax and the no-replace rename,
    \<open>Scan_Correct\<close> the recursive listing and its budget.
  \<^item> \<open>Journal\<close>, \<open>Services\<close>, \<open>Pages\<close>: \<open>audit.py\<close>, \<open>audit_pagination.py\<close>, \<open>services.py\<close>. \<open>Pages_Correct\<close> shows that following
    cursors returns every row once, and the quota and ownership of snapshots.
  \<^item> \<open>Dictionaries\<close>, \<open>Sorting\<close>, \<open>Worker\<close>, \<open>Quarantine\<close>: the modules of these names.
    \<open>Execution_Safety\<close>, \<open>Execution_Intent\<close>, \<open>Execution_Claims\<close> and \<open>Execution_Recovery\<close> show that execution only moves
    files to free names, that every move has a durable intent, that attempts exclude each other, and
    that recovery completes.
  \<^item> \<open>Accounts\<close>: \<open>auth.py\<close>, \<open>accounts.py\<close>; \<open>Accounts_Correct\<close> has throttling, revocation and sessions.
  \<^item> \<open>Timestamps\<close>: \<open>utc\<close> and \<open>timestamp\<close> of \<open>common.py\<close>.
  \<^item> \<open>Incoming\<close>, \<open>Indexing\<close>: the two scans of \<open>indexer.py\<close>. \<open>Incoming_Correct\<close> shows what a scan does to the
    queue; \<open>Indexing_Correct\<close>, \<open>Indexing_Ids\<close> and \<open>Indexing_Resume\<close> what is published, how entries keep their
    identifiers, and that interrupted scans resume exactly.
  \<^item> \<open>Search\<close>, \<open>Search_Index\<close>, \<open>Search_Answer\<close>: \<open>search.py\<close>, \<open>search_index.py\<close>, \<open>search_cache.py\<close>. \<open>Search_Matching\<close>,
    \<open>Search_Sorting\<close> and \<open>Search_Correct\<close> show that the prepared index answers like the scan of all items,
    \<open>Search_Items\<close> what items and matches are, \<open>Search_Cache\<close> that the cache refines the plain function.
  \<^item> \<open>Sql_Text\<close>, \<open>Sql_Index\<close>, \<open>Sql_Query\<close>: \<open>sqlite_search.py\<close>, its encodings (with the contracts of an order
    preserving and of a self-delimiting code as the locales \<open>order_code\<close> and \<open>terminated_code\<close>), its tables and
    the operations on generations, its queries. \<open>Sql_Generations\<close> has the invariants of the tables and
    what building, activating and deleting a generation do; \<open>Sql_Match\<close>, \<open>Sql_Rows\<close>, \<open>Sql_Order\<close>, \<open>Sql_Facets\<close> and
    \<open>Sql_Correct\<close> show that a generation answers as \<open>search.py\<close> does over its items. \<open>Sql_Discard\<close> is the deletion
    loop of \<open>large_indexer.py\<close>.
  \<^item> \<open>Samples\<close>: the concrete inputs of the witnesses.

  \<^bold>\<open>Bounds and recursion.\<close> No definition uses fuel. The deletion loop of \<open>large_indexer.py\<close> has no bound of
  its own and is a partial function into option, with the theorem that it returns. The recursive listing recurses on the levels below
  the depth limit the code enforces; the glob loop, the calendar, the slices of a legacy run and the
  words of a text have termination proofs; all other loops are over finite lists.

  \<^bold>\<open>Idealisations.\<close> Strings are lists of code points; the Unicode tables (word characters, digits, case
  folding), the digest and its length are parameters. Times are integers in microseconds where the
  code uses floats, and the time stamps stored as texts are kept as instants; theory \<open>Timestamps\<close>
  justifies both for the texts \<open>utc\<close> writes. JSON bodies are typed records, so the checks that a stored
  body has the right types are not needed. \<open>LIKE\<close> with a prefix is the prefix test: the prefixes contain no
  wildcards. A directory yields the names it had when it was opened. Chunk sequence numbers stay
  below \<open>10 ^ 8\<close>, which the depth and entry limits of a scan imply. The SQL of \<open>sqlite_search.py\<close> is written as
  the list of the rows a statement selects, with its order where the statement has an \<open>ORDER BY\<close>; texts are free of
  surrogates and shorter than \<open>2 ^ 32\<close>, which the blob keys need. FTS5 is a parameter, a function of a row and a query; the
  hypothesis \<open>fts5\<close> states what its documentation says of phrases and prefixes over plain words. Selecting in
  the tree of markers assumes that a marker id determines the marker and the chain above it, \<open>marker_tree\<close>.

  \<^bold>\<open>Not modelled.\<close> The lock files and thread locks (they skip or serialise whole operations); the HTTP
  layer \<open>app.py\<close>, \<open>contract.py\<close> and the command line \<open>cli.py\<close>, which validate and dispatch; \<open>seed.py\<close> and the
  migrations runner, which prepare a database; the OpenSearch client \<open>opensearch.py\<close> with the archive
  indexers on top of it (\<open>archive_import.py\<close>, \<open>archive_worker.py\<close>), whose behaviour is mostly that of the engine; of
  \<open>sqlite_search.py\<close> the deadline of a request and the unused method \<open>_facet\<close>, of \<open>large_indexer.py\<close> all but its
  deletion loop; the cleanup \<open>maintenance.py\<close>; \<open>operations.py\<close> (backup and status commands), the caches of prepared indexes in
  \<open>services.py\<close>; the infrastructure scripts, benchmarks, tests and the frontend.
\<close>

end
